(* ===== verification/Prelude.thy ===== *)
theory Prelude
  imports Main "HOL-Library.AList"
begin

text \<open>
  Shared vocabulary of the development: Python strings and the string methods the modelled
  modules call, insertion-ordered dictionaries as association lists, and the locale of a
  deterministic component whose operations keep an invariant.

  A Python \<open>str\<close> is a list of code points. Modules that only compare, split and search text
  use \<open>string\<close> (code points U+0000 to U+00FF, on which \<open>isspace\<close> and \<open>lower\<close> below are
  exact); the patch module, which translates typographic punctuation, uses \<open>int list\<close>.
\<close>

section \<open>Collections of hints\<close>

named_theorems str_simps \<open>rewriting of the Python string operations\<close>
named_theorems dict_simps \<open>rewriting of the dictionary operations\<close>

section \<open>Python string methods\<close>

subsection \<open>Characters\<close>

definition space_code :: "int \<Rightarrow> bool" where
  "space_code n \<longleftrightarrow> (9 \<le> n \<and> n \<le> 13) \<or> (28 \<le> n \<and> n \<le> 32) \<or> n = 133 \<or> n = 160"

definition is_space :: "char \<Rightarrow> bool" where
  "is_space c = space_code (of_char c)"

definition char_lower :: "char \<Rightarrow> char" where
  "char_lower c =
     (let n = (of_char c :: int) in
      if (65 \<le> n \<and> n \<le> 90) \<or> (192 \<le> n \<and> n \<le> 222 \<and> n \<noteq> 215) then char_of (n + 32) else c)"

definition is_digit :: "char \<Rightarrow> bool" where
  "is_digit c = (let n = (of_char c :: int) in 48 \<le> n \<and> n \<le> 57)"

definition is_ascii_alpha :: "char \<Rightarrow> bool" where
  "is_ascii_alpha c =
     (let n = (of_char c :: int) in (65 \<le> n \<and> n \<le> 90) \<or> (97 \<le> n \<and> n \<le> 122))"

definition str_lower :: "string \<Rightarrow> string" where
  "str_lower s = map char_lower s"

subsection \<open>Prefixes, suffixes, stripping\<close>

fun startswith :: "'a list \<Rightarrow> 'a list \<Rightarrow> bool" where
  "startswith s [] = True"
| "startswith [] (p # ps) = False"
| "startswith (c # s) (p # ps) = (c = p \<and> startswith s ps)"

definition endswith :: "'a list \<Rightarrow> 'a list \<Rightarrow> bool" where
  "endswith s p = startswith (rev s) (rev p)"

definition lstrip_by :: "('a \<Rightarrow> bool) \<Rightarrow> 'a list \<Rightarrow> 'a list" where
  "lstrip_by p s = dropWhile p s"

definition rstrip_by :: "('a \<Rightarrow> bool) \<Rightarrow> 'a list \<Rightarrow> 'a list" where
  "rstrip_by p s = rev (dropWhile p (rev s))"

definition strip_by :: "('a \<Rightarrow> bool) \<Rightarrow> 'a list \<Rightarrow> 'a list" where
  "strip_by p s = rstrip_by p (lstrip_by p s)"

definition strip :: "string \<Rightarrow> string" where
  "strip s = strip_by is_space s"

lemma startswith_iff [str_simps]: "startswith s p \<longleftrightarrow> (\<exists>t. s = p @ t)"
  by (induction s p rule: startswith.induct) auto

lemma startswith_append [simp]: "startswith (p @ t) p"
  by (simp add: startswith_iff)

lemma startswith_drop: "startswith s p \<Longrightarrow> p @ drop (length p) s = s"
  by (auto simp: startswith_iff)

lemma startswith_refl [simp]: "startswith s s"
  by (simp add: startswith_iff)

lemma endswith_iff [str_simps]: "endswith s p \<longleftrightarrow> (\<exists>t. s = t @ p)"
  by (auto simp: endswith_def startswith_iff) (metis rev_append rev_rev_ident)

lemma lstrip_by_idem [simp]: "lstrip_by p (lstrip_by p s) = lstrip_by p s"
  by (simp add: lstrip_by_def)

lemma rstrip_by_idem [simp]: "rstrip_by p (rstrip_by p s) = rstrip_by p s"
  by (simp add: rstrip_by_def)

lemma rstrip_by_prefix: "\<exists>t. s = rstrip_by p s @ t \<and> (\<forall>c \<in> set t. p c)"
proof -
  have "s = rev (dropWhile p (rev s)) @ rev (takeWhile p (rev s))"
    by (metis rev_append rev_rev_ident takeWhile_dropWhile_id)
  moreover have "\<forall>c \<in> set (rev (takeWhile p (rev s))). p c"
    by (auto dest: set_takeWhileD)
  ultimately show ?thesis unfolding rstrip_by_def by blast
qed

lemma strip_by_Nil [simp]: "strip_by p [] = []"
  by (simp add: strip_by_def lstrip_by_def rstrip_by_def)

lemma strip_by_eq_Nil: "strip_by p s = [] \<longleftrightarrow> (\<forall>c \<in> set s. p c)"
proof -
  have "strip_by p s = [] \<longleftrightarrow> (\<forall>c \<in> set (dropWhile p s). p c)"
    by (simp add: strip_by_def lstrip_by_def rstrip_by_def)
  also have "\<dots> \<longleftrightarrow> (\<forall>c \<in> set s. p c)"
    by (metis Un_iff set_append set_takeWhileD takeWhile_dropWhile_id)
  finally show ?thesis .
qed

lemma lstrip_by_hd: "lstrip_by p s = c # t \<Longrightarrow> \<not> p c"
  by (simp add: lstrip_by_def dropWhile_eq_Cons_conv)

lemma strip_by_id: "s \<noteq> [] \<Longrightarrow> \<not> p (hd s) \<Longrightarrow> \<not> p (last s) \<Longrightarrow> strip_by p s = s"
  by (simp add: strip_by_def lstrip_by_def rstrip_by_def dropWhile_eq_self_iff [THEN iffD2] hd_rev)

lemma last_dropWhile: "dropWhile p xs \<noteq> [] \<Longrightarrow> last (dropWhile p xs) = last xs"
  by (metis last_appendR takeWhile_dropWhile_id)

lemma strip_by_ends:
  assumes "strip_by p s \<noteq> []"
  shows "\<not> p (hd (strip_by p s)) \<and> \<not> p (last (strip_by p s))"
proof -
  let ?l = "dropWhile p s"
  from assms have ne: "dropWhile p (rev ?l) \<noteq> []"
    by (simp add: strip_by_def lstrip_by_def rstrip_by_def)
  then have l: "?l \<noteq> []" by (metis dropWhile.simps(1) rev.simps(1))
  have "last (strip_by p s) = hd (dropWhile p (rev ?l))"
    by (simp add: strip_by_def lstrip_by_def rstrip_by_def last_rev)
  moreover have "hd (strip_by p s) = hd ?l"
    using last_dropWhile [OF ne] l ne
    by (simp add: strip_by_def lstrip_by_def rstrip_by_def hd_rev last_rev)
  ultimately show ?thesis using hd_dropWhile [OF ne] hd_dropWhile [OF l] by simp
qed

lemma strip_by_idem [simp]: "strip_by p (strip_by p s) = strip_by p s"
proof (cases "strip_by p s = []")
  case True
  then show ?thesis by simp
next
  case False
  with strip_by_ends [OF False] show ?thesis by (simp add: strip_by_id)
qed

lemma strip_idem [simp]: "strip (strip s) = strip s"
  by (simp add: strip_def)

subsection \<open>Splitting and joining\<close>

fun split_on :: "'a \<Rightarrow> 'a list \<Rightarrow> 'a list list" where
  "split_on c [] = [[]]"
| "split_on c (x # xs) =
     (if x = c then [] # split_on c xs
      else (case split_on c xs of [] \<Rightarrow> [[x]] | w # ws \<Rightarrow> (x # w) # ws))"

fun join :: "'a list \<Rightarrow> 'a list list \<Rightarrow> 'a list" where
  "join sep [] = []"
| "join sep [w] = w"
| "join sep (w # v # ws) = w @ sep @ join sep (v # ws)"

lemma split_on_nonempty [simp]: "split_on c s \<noteq> []"
  by (induction s) (auto split: list.splits)

lemma join_split_on [str_simps]: "join [c] (split_on c s) = s"
proof (induction s)
  case Nil
  show ?case by simp
next
  case (Cons x xs)
  then show ?case
    by (cases "split_on c xs" rule: remdups_adj.cases) auto
qed

lemma split_on_no_sep: "c \<notin> set w \<Longrightarrow> split_on c w = [w]"
  by (induction w) auto

lemma split_on_append: "c \<notin> set w \<Longrightarrow> split_on c (w @ c # s) = w # split_on c s"
  by (induction w) auto

lemma split_on_join [str_simps]:
  "ws \<noteq> [] \<Longrightarrow> \<forall>w \<in> set ws. c \<notin> set w \<Longrightarrow> split_on c (join [c] ws) = ws"
  by (induction "[c]" ws rule: join.induct) (auto simp: split_on_no_sep split_on_append)

lemma split_on_parts: "w \<in> set (split_on c s) \<Longrightarrow> c \<notin> set w"
  by (induction s arbitrary: w) (auto split: list.splits if_splits)

subsection \<open>Searching and replacing a substring\<close>

fun occurs_in :: "'a list \<Rightarrow> 'a list \<Rightarrow> bool" where
  "occurs_in pat [] = (pat = [])"
| "occurs_in pat (c # s) = (startswith (c # s) pat \<or> occurs_in pat s)"

text \<open>\<open>s.replace(old, new)\<close> for a nonempty \<open>old\<close>: leftmost occurrences, without overlap.\<close>

fun str_replace :: "'a list \<Rightarrow> 'a list \<Rightarrow> 'a list \<Rightarrow> 'a list" where
  "str_replace old new [] = []"
| "str_replace old new (c # s) =
     (if old \<noteq> [] \<and> startswith (c # s) old then new @ str_replace old new (drop (length old - 1) s)
      else c # str_replace old new s)"

lemma str_replace_absent: "hd old \<notin> set s \<Longrightarrow> str_replace old new s = s"
proof (induction s)
  case Nil
  show ?case by simp
next
  case (Cons c s)
  then have "\<not> (old \<noteq> [] \<and> startswith (c # s) old)" by (cases old) auto
  with Cons show ?case by auto
qed

lemma set_str_replace: "set (str_replace old new s) \<subseteq> set new \<union> set s"
proof (induction old new s rule: str_replace.induct)
  case (2 old new c s)
  then show ?case using set_drop_subset [of "length old - 1" s] by auto
qed simp

subsection \<open>Text as code points\<close>

text \<open>
  \<open>ustr\<close> holds every Unicode code point. \<open>uspace\<close> is \<open>str.isspace\<close> and \<open>uword\<close> the class
  \<open>\w\<close> of \<open>re\<close>, exact up to U+00FF (above, every code point that is not a blank counts as a word character).
  \<open>ulower\<close> is \<open>str.lower\<close>, exact up to U+00FF and for every comparison with an ASCII name:
  the Kelvin sign is the only other code point whose lower case is ASCII.
\<close>

type_synonym ustr = "int list"

definition u :: "string \<Rightarrow> ustr" where
  "u s = map of_char s"

lemma u_inject [str_simps]: "u a = u b \<longleftrightarrow> a = b"
  by (simp add: u_def inj_map_eq_map inj_on_def)

lemma u_empty [str_simps]: "u s = [] \<longleftrightarrow> s = []" "[] = u s \<longleftrightarrow> s = []"
  by (auto simp: u_def)

definition uspace :: "int \<Rightarrow> bool" where
  "uspace n \<longleftrightarrow> space_code n \<or> n = 5760 \<or> (8192 \<le> n \<and> n \<le> 8202)
     \<or> n = 8232 \<or> n = 8233 \<or> n = 8239 \<or> n = 8287 \<or> n = 12288"

definition uword :: "int \<Rightarrow> bool" where
  "uword n \<longleftrightarrow> (48 \<le> n \<and> n \<le> 57) \<or> (65 \<le> n \<and> n \<le> 90) \<or> n = 95 \<or> (97 \<le> n \<and> n \<le> 122)
     \<or> n \<in> {170, 178, 179, 181, 185, 186, 188, 189, 190} \<or> (192 \<le> n \<and> n \<noteq> 215 \<and> n \<noteq> 247 \<and> \<not> uspace n)"

definition ualpha_ascii :: "int \<Rightarrow> bool" where
  "ualpha_ascii n \<longleftrightarrow> (65 \<le> n \<and> n \<le> 90) \<or> (97 \<le> n \<and> n \<le> 122)"

definition ulower_code :: "int \<Rightarrow> int" where
  "ulower_code n =
     (if (65 \<le> n \<and> n \<le> 90) \<or> (192 \<le> n \<and> n \<le> 222 \<and> n \<noteq> 215) then n + 32
      else if n = 8490 then 107 else n)"

definition ulower :: "ustr \<Rightarrow> ustr" where
  "ulower s = map ulower_code s"

definition ustrip :: "ustr \<Rightarrow> ustr" where
  "ustrip s = strip_by uspace s"

lemma ustrip_idem: "ustrip (ustrip s) = ustrip s"
  by (simp add: ustrip_def)

lemma set_ustrip: "set (ustrip s) \<subseteq> set s"
proof -
  have "set (ustrip s) \<subseteq> set (dropWhile uspace s)"
    using set_dropWhileD [of _ uspace "rev (dropWhile uspace s)"]
    by (auto simp: ustrip_def strip_by_def lstrip_by_def rstrip_by_def)
  then show ?thesis using set_dropWhileD [of _ uspace s] by blast
qed

section \<open>UTF-8\<close>

text \<open>
  Bytes are integers from 0 to 255. \<open>utf8_decode\<close> is \<open>bytes.decode("utf-8")\<close> with strict errors
  (overlong forms, surrogates and code points beyond U+10FFFF are refused); \<open>utf8_size\<close> is the
  length of \<open>str.encode("utf-8", errors="replace")\<close>, where a surrogate becomes a question mark.
\<close>

definition continuation :: "int \<Rightarrow> bool" where
  "continuation b \<longleftrightarrow> 128 \<le> b \<and> b \<le> 191"

fun utf8_decode :: "int list \<Rightarrow> ustr option" where
  "utf8_decode [] = Some []"
| "utf8_decode (a # s) =
     (if 0 \<le> a \<and> a \<le> 127 then map_option (Cons a) (utf8_decode s)
      else (case s of
        [] \<Rightarrow> None
      | b # s1 \<Rightarrow>
          if 194 \<le> a \<and> a \<le> 223 \<and> continuation b
          then map_option (Cons ((a - 192) * 64 + (b - 128))) (utf8_decode s1)
          else (case s1 of
            [] \<Rightarrow> None
          | c # s2 \<Rightarrow>
              if 224 \<le> a \<and> a \<le> 239 \<and> continuation b \<and> continuation c
                \<and> (a = 224 \<longrightarrow> 160 \<le> b) \<and> (a = 237 \<longrightarrow> b \<le> 159)
              then map_option (Cons ((a - 224) * 4096 + (b - 128) * 64 + (c - 128))) (utf8_decode s2)
              else (case s2 of
                [] \<Rightarrow> None
              | d # s3 \<Rightarrow>
                  if 240 \<le> a \<and> a \<le> 244 \<and> continuation b \<and> continuation c \<and> continuation d
                    \<and> (a = 240 \<longrightarrow> 144 \<le> b) \<and> (a = 244 \<longrightarrow> b \<le> 143)
                  then map_option (Cons ((a - 240) * 262144 + (b - 128) * 4096 + (c - 128) * 64 + (d - 128)))
                         (utf8_decode s3)
                  else None))))"

definition utf8_size :: "ustr \<Rightarrow> nat" where
  "utf8_size s = sum_list (map (\<lambda>c. if c < 128 \<or> (55296 \<le> c \<and> c \<le> 57343) then 1
     else if c < 2048 then 2 else if c < 65536 then 3 else 4) s)"

section \<open>Decimal numbers\<close>

text \<open>
  \<open>int(text)\<close> on a text of ASCII digits: blanks around, a sign, digits with single underscores
  between them. Digits of other scripts are not accepted here.
\<close>

definition digit_code :: "int \<Rightarrow> bool" where
  "digit_code c \<longleftrightarrow> 48 \<le> c \<and> c \<le> 57"

fun digits_value :: "int \<Rightarrow> ustr \<Rightarrow> int option" where
  "digits_value acc [] = Some acc"
| "digits_value acc (c # s) =
     (if digit_code c then digits_value (acc * 10 + (c - 48)) s
      else if c = 95 \<and> s \<noteq> [] \<and> hd s \<noteq> 95 then digits_value acc s
      else None)"

definition unsigned_value :: "ustr \<Rightarrow> int option" where
  "unsigned_value s = (if s = [] \<or> \<not> digit_code (hd s) then None else digits_value 0 s)"

definition py_int :: "ustr \<Rightarrow> int option" where
  "py_int t =
     (case ustrip t of
        [] \<Rightarrow> None
      | c # s \<Rightarrow> if c = 45 then map_option uminus (unsigned_value s)
                else if c = 43 then unsigned_value s else unsigned_value (c # s))"

text \<open>\<open>str\<close> of an integer.\<close>

fun nat_text :: "nat \<Rightarrow> ustr" where
  "nat_text n = (if n < 10 then [48 + int n] else nat_text (n div 10) @ [48 + int (n mod 10)])"

declare nat_text.simps [simp del]

definition int_text :: "int \<Rightarrow> ustr" where
  "int_text i = (if i < 0 then 45 # nat_text (nat (- i)) else nat_text (nat i))"

section \<open>Results\<close>

lemma map_sum_Inr: "map_sum f g x = Inr y \<longleftrightarrow> (\<exists>z. x = Inr z \<and> y = g z)"
  by (cases x) auto

section \<open>Searching an index range\<close>

lemma find_upt_Some:
  "find P [a..<b] = Some i \<longleftrightarrow> a \<le> i \<and> i < b \<and> P i \<and> (\<forall>j. a \<le> j \<and> j < i \<longrightarrow> \<not> P j)"
proof (induction "b - a" arbitrary: a)
  case 0
  then show ?case by auto
next
  case (Suc n)
  then have ab: "[a..<b] = a # [Suc a..<b]" by (simp add: upt_conv_Cons)
  have IH: "find P [Suc a..<b] = Some i \<longleftrightarrow>
      Suc a \<le> i \<and> i < b \<and> P i \<and> (\<forall>j. Suc a \<le> j \<and> j < i \<longrightarrow> \<not> P j)"
    by (rule Suc.hyps(1)) (use Suc.hyps(2) in simp)
  show ?case
  proof (cases "P a")
    case True
    with ab Suc.hyps(2) show ?thesis by (auto simp: not_less_eq_eq dest: le_neq_implies_less)
  next
    case False
    have "a \<le> j \<longleftrightarrow> j = a \<or> Suc a \<le> j" for j by auto
    with False ab IH show ?thesis by auto
  qed
qed

lemma find_upt_None: "find P [a..<b] = None \<longleftrightarrow> (\<forall>j. a \<le> j \<and> j < b \<longrightarrow> \<not> P j)"
  by (auto simp: find_None_iff)

section \<open>Insertion-ordered dictionaries\<close>

text \<open>
  \<open>d[k] = v\<close> is \<open>AList.update k v d\<close> (an existing key keeps its place, a new one is added at
  the end), \<open>d.pop(k, None)\<close> is \<open>AList.delete k d\<close> and \<open>d.get(k)\<close> is \<open>map_of d k\<close>.
\<close>

abbreviation dict_ok :: "('k \<times> 'v) list \<Rightarrow> bool" where
  "dict_ok d \<equiv> distinct (map fst d)"

definition dict_values :: "('k \<times> 'v) list \<Rightarrow> 'v list" where
  "dict_values d = map snd d"

lemma dict_values_Nil [simp]: "dict_values [] = []"
  by (simp add: dict_values_def)

lemma dict_values_Cons [simp]: "dict_values ((k, v) # d) = v # dict_values d"
  by (simp add: dict_values_def)

lemma dict_get_update [dict_simps]: "map_of (AList.update k v d) k' = (if k' = k then Some v else map_of d k')"
  by (simp add: update_conv')

lemma dict_get_delete [dict_simps]: "map_of (AList.delete k d) k' = (if k' = k then None else map_of d k')"
  by (simp add: delete_conv')

lemma dict_ok_update [dict_simps]: "dict_ok d \<Longrightarrow> dict_ok (AList.update k v d)"
  by (rule distinct_update)

lemma dict_ok_delete [dict_simps]: "dict_ok d \<Longrightarrow> dict_ok (AList.delete k d)"
  by (rule distinct_delete)

lemma sum_values_update:
  fixes d :: "('k \<times> int) list"
  assumes "dict_ok d"
  shows "sum_list (dict_values (AList.update k v d)) =
         sum_list (dict_values d) + v - (case map_of d k of None \<Rightarrow> 0 | Some w \<Rightarrow> w)"
  using assms by (induction d) (auto simp: dict_values_def split: option.splits dest: map_of_SomeD)

lemma update_fresh: "k \<notin> set (map fst xs) \<Longrightarrow> AList.update k v xs = xs @ [(k, v)]"
  by (induction xs) auto

lemma delete_absent: "map_of d k = None \<Longrightarrow> AList.delete k d = d"
  by (simp add: map_of_eq_None_iff delete_idem)

lemma sum_values_delete:
  fixes d :: "('k \<times> int) list"
  assumes "dict_ok d"
  shows "sum_list (dict_values (AList.delete k d)) =
         sum_list (dict_values d) - (case map_of d k of None \<Rightarrow> 0 | Some w \<Rightarrow> w)"
  using assms
proof (induction d)
  case Nil
  then show ?case by (simp add: dict_values_def)
next
  case (Cons p d)
  obtain k' v where p: "p = (k', v)" by (cases p)
  show ?case
  proof (cases "k' = k")
    case True
    with Cons.prems p have "map_of d k = None" by (simp add: map_of_eq_None_iff)
    with p True show ?thesis by (simp add: dict_values_def delete_absent)
  next
    case False
    with Cons p show ?thesis by (simp add: dict_values_def)
  qed
qed

section \<open>Components that keep an invariant\<close>

text \<open>
  A component is a state, its operations as events, and one step function. What every
  operation keeps, every run keeps, and so does every state on the way.
\<close>

locale invariant_machine =
  fixes step :: "'s \<Rightarrow> 'e \<Rightarrow> 's"
    and inv :: "'s \<Rightarrow> bool"
  assumes step_inv: "inv s \<Longrightarrow> inv (step s e)"
begin

lemma run_inv: "inv s \<Longrightarrow> inv (foldl step s es)"
  by (induction es arbitrary: s) (simp_all add: step_inv)

lemma run_take_inv: "inv s \<Longrightarrow> inv (foldl step s (take n es))"
  by (rule run_inv)

end

text \<open>A measured quantity that no operation lowers is monotone along every run.\<close>

locale monotone_machine = invariant_machine step inv
  for step :: "'s \<Rightarrow> 'e \<Rightarrow> 's" and inv :: "'s \<Rightarrow> bool" +
  fixes gauge :: "'s \<Rightarrow> int"
  assumes step_mono: "inv s \<Longrightarrow> gauge s \<le> gauge (step s e)"
begin

lemma run_mono: "inv s \<Longrightarrow> gauge s \<le> gauge (foldl step s es)"
proof (induction es arbitrary: s)
  case Nil
  then show ?case by simp
next
  case (Cons e es)
  have "gauge s \<le> gauge (step s e)" by (rule step_mono) (rule Cons.prems)
  also have "\<dots> \<le> gauge (foldl step (step s e) es)" by (rule Cons.IH) (rule step_inv [OF Cons.prems])
  finally show ?case by simp
qed

end

section \<open>Joining verdicts\<close>

text \<open>
  A component that combines verdicts by keeping the stricter one: \<open>join\<close> merges a verdict into an
  accumulated one, \<open>rank\<close> reads the strictness, and a merge has the larger rank of the two.
\<close>

locale verdict_join =
  fixes join_v :: "'v \<Rightarrow> 'v \<Rightarrow> 'v"
    and rank :: "'v \<Rightarrow> 'l::linorder"
  assumes rank_join: "rank (join_v v acc) = max (rank v) (rank acc)"
begin

lemma join_ge_acc: "rank acc \<le> rank (join_v v acc)"
  by (simp add: rank_join)

lemma join_ge_new: "rank v \<le> rank (join_v v acc)"
  by (simp add: rank_join)

lemma fold_ge_start: "rank acc \<le> rank (foldl (\<lambda>a v. join_v v a) acc vs)"
proof (induction vs arbitrary: acc)
  case (Cons v vs)
  from Cons.IH [of "join_v v acc"] join_ge_acc [of acc v] show ?case by simp
qed simp

lemma fold_ge_mem: "v \<in> set vs \<Longrightarrow> rank v \<le> rank (foldl (\<lambda>a v. join_v v a) acc vs)"
proof (induction vs arbitrary: acc)
  case (Cons w vs)
  then show ?case
    using fold_ge_start [of "join_v w acc" vs] join_ge_new [of w acc] by auto
qed simp

lemma fold_rank_cases:
  "rank (foldl (\<lambda>a v. join_v v a) acc vs) = rank acc
   \<or> (\<exists>v \<in> set vs. rank (foldl (\<lambda>a v. join_v v a) acc vs) = rank v)"
proof (induction vs arbitrary: acc)
  case (Cons v vs)
  from Cons.IH [of "join_v v acc"] show ?case by (auto simp: rank_join max_def split: if_splits)
qed simp

end

end
