(* ===== verification/TurnBudget.thy ===== *)
theory TurnBudget
  imports Complex_Main Prelude
begin

text \<open>
  The mechanical resource boundaries of one turn: \<open>backend/agent/turn_budget.py\<close>.

  \<open>deadline\<close> is \<open>TurnDeadlineController\<close>, \<open>budget_ctl\<close> is \<open>TurnBudgetController\<close>,
  \<open>boundary\<close> is \<open>BudgetBoundary\<close>. Python floats (seconds, dollars) are \<open>real\<close>: the code only
  adds, subtracts and compares them. The clock reading is the argument \<open>now\<close>. The rendered
  texts \<open>detail\<close> and \<open>user_message\<close> are presentation and left out; a log line is the boolean
  component of the result of \<open>evaluate\<close>.
\<close>

section \<open>The absolute turn clock\<close>

record deadline =
  max_seconds :: real
  turn_started_at :: "real option"
  turn_deadline :: "real option"

definition start_turn :: "deadline \<Rightarrow> real \<Rightarrow> deadline \<times> real" where
  "start_turn d now =
     (case turn_started_at d of
        Some t \<Rightarrow> (d, t)
      | None \<Rightarrow>
          (let limit = max 0 (max_seconds d) in
           (d\<lparr>turn_started_at := Some now,
              turn_deadline := (if limit > 0 then Some (now + limit) else None)\<rparr>, now)))"

definition elapsed :: "deadline \<Rightarrow> real \<Rightarrow> real" where
  "elapsed d now = (case turn_started_at d of Some t \<Rightarrow> max 0 (now - t) | None \<Rightarrow> 0)"

definition active_deadline :: "deadline \<Rightarrow> real option" where
  "active_deadline d = turn_deadline d"

definition bounded_timeout :: "deadline \<Rightarrow> real option \<Rightarrow> real \<Rightarrow> real option \<times> bool \<times> bool" where
  "bounded_timeout d requested now =
     (case active_deadline d of
        None \<Rightarrow> (map_option (max 0) requested, False, False)
      | Some dl \<Rightarrow>
          (let remaining = dl - now in
           if remaining \<le> 0 then (Some 0, True, True)
           else (case requested of
                   None \<Rightarrow> (Some remaining, True, False)
                 | Some r \<Rightarrow>
                     (let timeout = max 0 r in
                      (Some (min timeout remaining), remaining \<le> timeout, False)))))"

definition cap_with_all_deadlines :: "deadline \<Rightarrow> real option \<Rightarrow> real option" where
  "cap_with_all_deadlines d dl =
     (case turn_deadline d of
        None \<Rightarrow> dl
      | Some td \<Rightarrow> (case dl of Some x \<Rightarrow> Some (min x td) | None \<Rightarrow> Some td))"

section \<open>Boundaries and the controller\<close>

datatype budget_reason =
  MaxTurnSeconds | MaxIterations | MaxToolCalls | MaxRetries
| MaxTurnTokens | MaxTurnCostUsd | BudgetExceeded

fun reason_value :: "budget_reason \<Rightarrow> string" where
  "reason_value MaxTurnSeconds = ''max_turn_seconds''"
| "reason_value MaxIterations = ''max_iterations''"
| "reason_value MaxToolCalls = ''max_tool_calls''"
| "reason_value MaxRetries = ''max_retries''"
| "reason_value MaxTurnTokens = ''max_turn_tokens''"
| "reason_value MaxTurnCostUsd = ''max_turn_cost_usd''"
| "reason_value BudgetExceeded = ''budget_exceeded''"

record boundary =
  b_reason :: budget_reason
  b_limit :: real
  b_observed :: real
  b_post_tools :: bool

fun boundary_label :: "budget_reason \<Rightarrow> string" where
  "boundary_label MaxTurnSeconds = ''Wall-clock budget''"
| "boundary_label MaxIterations = ''Iteration budget''"
| "boundary_label MaxToolCalls = ''Tool-call budget''"
| "boundary_label MaxRetries = ''Retry budget''"
| "boundary_label MaxTurnTokens = ''Token budget''"
| "boundary_label MaxTurnCostUsd = ''Cost budget''"
| "boundary_label BudgetExceeded = ''Context budget''"

definition event_key :: "boundary \<Rightarrow> string" where
  "event_key b = map (\<lambda>c. if c = CHR ''_'' then CHR ''-'' else c) (reason_value (b_reason b))"

record budget_ctl =
  lim_seconds :: real
  lim_iterations :: int
  lim_tool_calls :: int
  lim_retries :: int
  lim_tokens :: int
  lim_cost :: real
  unpriced_reported :: bool

record budget_settings =
  set_turn_seconds :: real
  set_tool_calls :: int
  set_error_budget :: int
  set_turn_tokens :: int
  set_turn_cost :: real

definition from_settings :: "budget_settings \<Rightarrow> int \<Rightarrow> budget_ctl" where
  "from_settings s iterations =
     \<lparr>lim_seconds = max 0 (set_turn_seconds s),
      lim_iterations = max 0 iterations,
      lim_tool_calls = max 0 (set_tool_calls s),
      lim_retries = max 0 (set_error_budget s),
      lim_tokens = max 0 (set_turn_tokens s),
      lim_cost = max 0 (set_turn_cost s),
      unpriced_reported = False\<rparr>"

text \<open>The new controller is built without the marker, so the one-shot warning is re-armed.\<close>

definition with_iteration_limit :: "budget_ctl \<Rightarrow> int \<Rightarrow> budget_ctl" where
  "with_iteration_limit c v = c\<lparr>lim_iterations := max 0 v, unpriced_reported := False\<rparr>"

record usage_point =
  u_elapsed :: real
  u_iterations :: int
  u_tool_calls :: int
  u_retries :: int
  u_tokens :: int
  u_cost :: "real option"
  u_post_tools :: bool

definition mk_boundary :: "budget_reason \<Rightarrow> real \<Rightarrow> real \<Rightarrow> usage_point \<Rightarrow> boundary" where
  "mk_boundary r l obs up = \<lparr>b_reason = r, b_limit = l, b_observed = obs, b_post_tools = u_post_tools up\<rparr>"

text \<open>The count-based tail of the ladder, after the wall-clock, token and cost checks.\<close>

definition evaluate_counts :: "budget_ctl \<Rightarrow> usage_point \<Rightarrow> boundary option" where
  "evaluate_counts c up =
     (if lim_iterations c > 0 \<and> u_iterations up \<ge> lim_iterations c then
        Some (mk_boundary MaxIterations (of_int (lim_iterations c)) (of_int (u_iterations up)) up)
      else if lim_tool_calls c > 0 \<and> u_tool_calls up \<ge> lim_tool_calls c then
        Some (mk_boundary MaxToolCalls (of_int (lim_tool_calls c)) (of_int (u_tool_calls up)) up)
      else if lim_retries c > 0 \<and> u_retries up \<ge> lim_retries c then
        Some (mk_boundary MaxRetries (of_int (lim_retries c)) (of_int (u_retries up)) up)
      else None)"

text \<open>
  \<open>evaluate\<close> returns the controller (its one-shot marker may be set), whether a warning was
  logged, and the boundary.
\<close>

definition evaluate :: "budget_ctl \<Rightarrow> usage_point \<Rightarrow> budget_ctl \<times> bool \<times> boundary option" where
  "evaluate c up =
     (if lim_seconds c > 0 \<and> u_elapsed up \<ge> lim_seconds c then
        (c, False, Some (mk_boundary MaxTurnSeconds (lim_seconds c) (max 0 (u_elapsed up)) up))
      else if lim_tokens c > 0 \<and> u_tokens up \<ge> lim_tokens c then
        (c, False, Some (mk_boundary MaxTurnTokens (of_int (lim_tokens c)) (of_int (u_tokens up)) up))
      else if lim_cost c > 0 \<and> u_cost up = None then
        (c\<lparr>unpriced_reported := True\<rparr>, \<not> unpriced_reported c, evaluate_counts c up)
      else (case u_cost up of
              Some x \<Rightarrow>
                if lim_cost c > 0 \<and> x \<ge> lim_cost c
                then (c, False, Some (mk_boundary MaxTurnCostUsd (lim_cost c) (max 0 x) up))
                else (c, False, evaluate_counts c up)
            | None \<Rightarrow> (c, False, evaluate_counts c up)))"

definition context_exhausted :: boundary where
  "context_exhausted = \<lparr>b_reason = BudgetExceeded, b_limit = 0, b_observed = 0, b_post_tools = False\<rparr>"

section \<open>Specification: a priority table\<close>

text \<open>
  What the ladder promises: a table of reasons in the order of the module's comment, direct
  costs before proxies, and the first exhausted row wins. A limit that is not positive is off,
  and a cost that cannot be measured is never exhausted.
\<close>

definition budget_table :: "budget_ctl \<Rightarrow> usage_point \<Rightarrow> (budget_reason \<times> real \<times> real option) list" where
  "budget_table c up =
     [(MaxTurnSeconds, lim_seconds c, Some (u_elapsed up)),
      (MaxTurnTokens, of_int (lim_tokens c), Some (of_int (u_tokens up))),
      (MaxTurnCostUsd, lim_cost c, u_cost up),
      (MaxIterations, of_int (lim_iterations c), Some (of_int (u_iterations up))),
      (MaxToolCalls, of_int (lim_tool_calls c), Some (of_int (u_tool_calls up))),
      (MaxRetries, of_int (lim_retries c), Some (of_int (u_retries up)))]"

fun exhausted :: "budget_reason \<times> real \<times> real option \<Rightarrow> bool" where
  "exhausted (r, l, None) = False"
| "exhausted (r, l, Some obs) = (0 < l \<and> l \<le> obs)"

definition first_exhausted :: "budget_ctl \<Rightarrow> usage_point \<Rightarrow> (budget_reason \<times> real \<times> real) option" where
  "first_exhausted c up =
     map_option (\<lambda>(r, l, obs). (r, l, the obs)) (find exhausted (budget_table c up))"

definition boundary_row :: "boundary \<Rightarrow> budget_reason \<times> real \<times> real" where
  "boundary_row b = (b_reason b, b_limit b, b_observed b)"

lemma evaluate_eq_table:
  "map_option boundary_row (snd (snd (evaluate c up))) = first_exhausted c up"
  by (cases "u_cost up")
    (auto simp: evaluate_def evaluate_counts_def first_exhausted_def budget_table_def
       boundary_row_def mk_boundary_def max_def)

lemma evaluate_counts_reason:
  "evaluate_counts c up = Some b \<Longrightarrow> b_post_tools b = u_post_tools up"
  by (auto simp: evaluate_counts_def mk_boundary_def split: if_splits)

lemma evaluate_keeps_limits:
  "fst (evaluate c up) = c \<or> fst (evaluate c up) = c\<lparr>unpriced_reported := True\<rparr>"
  by (auto simp: evaluate_def split: option.splits)

text \<open>
  The decision ladder \<open>TurnBudgetController.evaluate\<close> implements the
  priority table: it returns the first exhausted budget in the documented order (wall clock,
  tokens, cost, iterations, tool calls, retries) with its limit and the observed value, and no
  boundary exactly when none is exhausted. A cost that cannot be measured never fires.
\<close>

theorem evaluate_refines_table:
  "map_option boundary_row (snd (snd (evaluate c up))) = first_exhausted c up
   \<and> (snd (snd (evaluate c up)) = None \<longleftrightarrow> list_all (\<lambda>row. \<not> exhausted row) (budget_table c up))"
proof -
  have "first_exhausted c up = None \<longleftrightarrow> list_all (\<lambda>row. \<not> exhausted row) (budget_table c up)"
    by (auto simp: first_exhausted_def find_None_iff list_all_iff)
  then show ?thesis
    by (metis evaluate_eq_table option.map_disc_iff)
qed

section \<open>The one-shot warning\<close>

definition evaluate_run :: "budget_ctl \<times> nat \<Rightarrow> usage_point \<Rightarrow> budget_ctl \<times> nat" where
  "evaluate_run cn up =
     (let (c', warned, _) = evaluate (fst cn) up
      in (c', snd cn + (if warned then 1 else 0)))"

definition warn_inv :: "budget_ctl \<times> nat \<Rightarrow> bool" where
  "warn_inv cn \<longleftrightarrow> snd cn \<le> 1 \<and> (snd cn = 1 \<longrightarrow> unpriced_reported (fst cn))"

interpretation warnings: invariant_machine evaluate_run warn_inv
  by unfold_locales
    (auto simp: evaluate_run_def evaluate_def warn_inv_def split: prod.splits option.splits if_splits)

text \<open>
  However often one controller is evaluated in a turn, the warning that a
  configured cost ceiling cannot be enforced is logged at most once.
\<close>

theorem unpriced_warning_at_most_once:
  "snd (foldl evaluate_run (c, 0) us) \<le> 1"
proof -
  have "warn_inv (foldl evaluate_run (c, 0) us)"
    by (rule warnings.run_inv) (simp add: warn_inv_def)
  then show ?thesis by (simp add: warn_inv_def)
qed

section \<open>Deadlines\<close>

lemma start_turn_started: "turn_started_at (fst (start_turn d now)) = Some (snd (start_turn d now))"
  by (auto simp: start_turn_def Let_def split: option.splits)

lemma start_turn_again: "start_turn (fst (start_turn d now)) later = start_turn d now"
  by (auto simp: start_turn_def Let_def split: option.splits)

text \<open>
  Once a turn with a positive limit has started, restarting it never moves
  its deadline, and a bounded wait that begins at any later clock reading ends by that
  deadline: the returned timeout is nonnegative, never longer than the request, and reported
  as expired exactly when the wall-clock budget is used up.
\<close>

theorem bounded_timeout_within_deadline:
  assumes fresh: "turn_started_at d = None" and pos: "0 < max_seconds d"
    and run: "start_turn d t0 = (d', s)"
    and wait: "bounded_timeout (fst (start_turn d' t1)) requested now = (Some t, capped, expired)"
  shows "0 \<le> t \<and> (\<not> expired \<longrightarrow> now + t \<le> t0 + max_seconds d)
     \<and> (\<forall>r. requested = Some r \<longrightarrow> t \<le> max 0 r)
     \<and> (expired \<longleftrightarrow> elapsed d' now \<ge> max_seconds d)"
proof -
  have d': "turn_deadline d' = Some (t0 + max_seconds d)" "turn_started_at d' = Some t0"
    using fresh pos run by (auto simp: start_turn_def Let_def)
  have "fst (start_turn d' t1) = d'"
    using d' by (simp add: start_turn_def)
  with wait have w: "bounded_timeout d' requested now = (Some t, capped, expired)" by simp
  show ?thesis
    using w d' pos
    by (auto simp: bounded_timeout_def active_deadline_def elapsed_def Let_def
        split: option.splits if_splits)
qed

definition dl_ex :: deadline where
  "dl_ex = \<lparr>max_seconds = 60, turn_started_at = None, turn_deadline = None\<rparr>"

theorem bounded_timeout_within_deadline_witness:
  "bounded_timeout (fst (start_turn (fst (start_turn dl_ex 100)) 130)) (Some 50) 140 = (Some 20, True, False)
   \<and> (140::real) + 20 \<le> 100 + 60"
proof -
  have w: "bounded_timeout (fst (start_turn (fst (start_turn dl_ex 100)) 130)) (Some 50) 140
             = (Some 20, True, False)"
    by (simp add: dl_ex_def start_turn_def bounded_timeout_def active_deadline_def Let_def)
  have "140 + (20::real) \<le> 100 + max_seconds dl_ex"
    using bounded_timeout_within_deadline [of dl_ex 100 "fst (start_turn dl_ex 100)"
        "snd (start_turn dl_ex 100)" 130 "Some 50" 140 20 True False] w
    by (simp add: dl_ex_def)
  with w show ?thesis by (simp add: dl_ex_def)
qed

lemma cap_below_turn_deadline:
  "turn_deadline d = Some td \<Longrightarrow> cap_with_all_deadlines d dl = Some x \<Longrightarrow> x \<le> td"
  by (auto simp: cap_with_all_deadlines_def split: option.splits)

end
