(* ===== verification/RolloutBudget.thy ===== *)
theory RolloutBudget
  imports TurnBudget
begin

text \<open>
  The token ledger shared by a root run and its delegated agents
  (\<open>backend/agent/rollout_budget.py\<close>) and the coordinator that charges it
  (\<open>backend/agent/turn_budget_runtime.py\<close>). Every method of the ledger holds one lock, so
  the operations are atomic steps on \<open>ledger\<close>.
\<close>

section \<open>Billable tokens\<close>

text \<open>A usage value with its optional fields; \<open>None\<close> is a missing key or a Python \<open>None\<close>.\<close>

record usage =
  input_tokens :: "int option"
  cache_read_tokens :: "int option"
  output_tokens :: "int option"
  cache_write_tokens :: "int option"
  ordinary_tokens :: "int option"
  includes_cache_read :: bool
  includes_cache_write :: bool

definition int_or_zero :: "int option \<Rightarrow> int" where
  "int_or_zero v = max 0 (case v of None \<Rightarrow> 0 | Some n \<Rightarrow> n)"

definition billable_tokens_from_usage :: "usage \<Rightarrow> int" where
  "billable_tokens_from_usage up =
     (let input = int_or_zero (input_tokens up);
          cache_read = int_or_zero (cache_read_tokens up);
          output = int_or_zero (output_tokens up);
          cache_write = int_or_zero (cache_write_tokens up);
          ordinary = (case ordinary_tokens up of
              Some n \<Rightarrow> n
            | None \<Rightarrow> input - (if includes_cache_read up then cache_read else 0)
                         - (if includes_cache_write up then cache_write else 0));
          billable_input = max 0 ordinary + cache_write
      in billable_input + output)"

lemma billable_nonneg: "0 \<le> billable_tokens_from_usage up"
  by (simp add: billable_tokens_from_usage_def int_or_zero_def Let_def)

section \<open>The ledger\<close>

datatype ledger_error = EmptyContributor

record ledger =
  token_limit :: int
  tokens_used :: int
  contributor_totals :: "(string \<times> int) list"
  reservations :: "(string \<times> int) list"

definition new_ledger :: "int \<Rightarrow> ledger" where
  "new_ledger limit = \<lparr>token_limit = max 0 limit, tokens_used = 0, contributor_totals = [], reservations = []\<rparr>"

definition reserved_sum :: "ledger \<Rightarrow> int" where
  "reserved_sum b = sum_list (dict_values (reservations b))"

definition remaining_locked :: "ledger \<Rightarrow> int" where
  "remaining_locked b = max 0 (token_limit b - tokens_used b - reserved_sum b)"

definition reserve :: "ledger \<Rightarrow> string \<Rightarrow> int \<Rightarrow> ledger_error + (ledger \<times> int)" where
  "reserve b contributor_id requested_tokens =
     (let contributor = strip contributor_id in
      if contributor = [] then Inl EmptyContributor
      else
       (let requested = max 0 requested_tokens in
        case map_of (reservations b) contributor of
          Some existing \<Rightarrow> Inr (b, existing)
        | None \<Rightarrow>
            if token_limit b \<le> 0 then Inr (b, requested)
            else
              (let available = max 0 (token_limit b - tokens_used b - reserved_sum b);
                   quota = (if requested > 0 then min requested available else available)
               in if quota > 0
                  then Inr (b\<lparr>reservations := AList.update contributor quota (reservations b)\<rparr>, quota)
                  else Inr (b, quota))))"

definition release_reservation :: "ledger \<Rightarrow> string \<Rightarrow> ledger \<times> int" where
  "release_reservation b contributor_id =
     (let contributor = strip contributor_id;
          b' = b\<lparr>reservations := AList.delete contributor (reservations b)\<rparr>
      in (b', remaining_locked b'))"

definition remaining_tokens :: "ledger \<Rightarrow> int option" where
  "remaining_tokens b = (if token_limit b \<le> 0 then None else Some (remaining_locked b))"

record snapshot =
  snap_limit :: int
  snap_used :: int
  snap_reserved :: int
  snap_available :: "int option"

definition ledger_snapshot :: "ledger \<Rightarrow> string \<Rightarrow> snapshot" where
  "ledger_snapshot b excluding =
     (let excluded = strip excluding;
          reserved = sum_list (dict_values (filter (\<lambda>(k, q). k \<noteq> excluded) (reservations b)));
          available = (if token_limit b \<le> 0 then None
                       else Some (max 0 (token_limit b - tokens_used b - reserved)))
      in \<lparr>snap_limit = token_limit b, snap_used = tokens_used b,
          snap_reserved = reserved, snap_available = available\<rparr>)"

text \<open>Charging a delta to the reservation that covers it (the tail of \<open>record_total\<close>).\<close>

definition draw_reservation :: "(string \<times> int) list \<Rightarrow> string \<Rightarrow> int \<Rightarrow> (string \<times> int) list" where
  "draw_reservation rs owner delta =
     (case map_of rs owner of
        None \<Rightarrow> rs
      | Some q \<Rightarrow>
          (let left = max 0 (q - delta) in
           if left \<noteq> 0 then AList.update owner left rs else AList.delete owner rs))"

definition record_total :: "ledger \<Rightarrow> string \<Rightarrow> int \<Rightarrow> string \<Rightarrow> ledger_error + (ledger \<times> int)" where
  "record_total b contributor_id total_tokens reservation_id =
     (let contributor = strip contributor_id in
      if contributor = [] then Inl EmptyContributor
      else
       (let total = max 0 total_tokens;
            previous = (case map_of (contributor_totals b) contributor of None \<Rightarrow> 0 | Some p \<Rightarrow> p)
        in if total \<le> previous then Inr (b, tokens_used b)
           else
             (let delta = total - previous;
                  owner = strip (if reservation_id = [] then contributor else reservation_id);
                  b' = b\<lparr>contributor_totals := AList.update contributor total (contributor_totals b),
                         tokens_used := tokens_used b + delta,
                         reservations := draw_reservation (reservations b) owner delta\<rparr>
              in Inr (b', tokens_used b'))))"

definition record_usage_total :: "ledger \<Rightarrow> string \<Rightarrow> usage \<Rightarrow> string \<Rightarrow> ledger_error + (ledger \<times> int)" where
  "record_usage_total b contributor_id up reservation_id =
     record_total b contributor_id (billable_tokens_from_usage up) reservation_id"

section \<open>The ledger invariant\<close>

definition ledger_ok :: "ledger \<Rightarrow> bool" where
  "ledger_ok b \<longleftrightarrow>
     0 \<le> token_limit b
   \<and> dict_ok (contributor_totals b) \<and> dict_ok (reservations b)
   \<and> (\<forall>t \<in> set (dict_values (contributor_totals b)). 0 < t)
   \<and> (\<forall>q \<in> set (dict_values (reservations b)). 0 < q)
   \<and> tokens_used b = sum_list (dict_values (contributor_totals b))
   \<and> (token_limit b = 0 \<longrightarrow> reservations b = [])"

definition committed :: "ledger \<Rightarrow> int" where
  "committed b = tokens_used b + reserved_sum b"

lemma set_values_update:
  "dict_ok d \<Longrightarrow> x \<in> set (dict_values (AList.update k v d)) \<Longrightarrow> x = v \<or> x \<in> set (dict_values d)"
  by (induction d) (auto simp: dict_values_def split: if_splits)

lemma set_values_delete: "x \<in> set (dict_values (AList.delete k d)) \<Longrightarrow> x \<in> set (dict_values d)"
  by (induction d) (auto simp: dict_values_def split: if_splits)

lemma map_of_value: "map_of d k = Some v \<Longrightarrow> v \<in> set (dict_values d)"
  by (force simp: dict_values_def dest: map_of_SomeD)

lemma mem_value: "(k, v) \<in> set d \<Longrightarrow> v \<in> set (dict_values d)"
  by (force simp: dict_values_def)

lemma ledger_ok_new: "ledger_ok (new_ledger n)"
  by (simp add: ledger_ok_def new_ledger_def dict_values_def)

lemma ledger_ok_used_nonneg: "ledger_ok b \<Longrightarrow> 0 \<le> tokens_used b"
  using sum_list_nonneg [of "dict_values (contributor_totals b)"] by (auto simp: ledger_ok_def less_imp_le)

lemma ledger_ok_reserved_nonneg: "ledger_ok b \<Longrightarrow> 0 \<le> reserved_sum b"
  using sum_list_nonneg [of "dict_values (reservations b)"]
  by (auto simp: ledger_ok_def reserved_sum_def less_imp_le)

lemma reserve_cases:
  assumes "reserve b cid n = Inr (b', quota)"
  shows "b' = b \<or>
    (map_of (reservations b) (strip cid) = None \<and> 0 < token_limit b \<and> 0 < quota
     \<and> quota \<le> token_limit b - committed b
     \<and> b' = b\<lparr>reservations := AList.update (strip cid) quota (reservations b)\<rparr>)"
  using assms
  by (auto simp: reserve_def committed_def Let_def min_def max_def split: option.splits if_splits)

lemma reserve_ok:
  assumes ok: "ledger_ok b" and r: "reserve b cid n = Inr (b', quota)"
  shows "ledger_ok b'"
  using reserve_cases [OF r] ok
  by (auto simp: ledger_ok_def dict_simps dest: set_values_update)

lemma reserve_committed:
  assumes ok: "ledger_ok b" and r: "reserve b cid n = Inr (b', quota)"
    and within: "committed b \<le> token_limit b"
  shows "committed b' \<le> token_limit b'"
  using reserve_cases [OF r] ok within
  by (auto simp: committed_def reserved_sum_def ledger_ok_def sum_values_update)

lemma release_ok: "ledger_ok b \<Longrightarrow> ledger_ok (fst (release_reservation b cid))"
  by (auto simp: ledger_ok_def release_reservation_def Let_def dict_simps dest: set_values_delete)

lemma release_committed:
  assumes "ledger_ok b"
  shows "committed (fst (release_reservation b cid)) \<le> committed b"
proof (cases "map_of (reservations b) (strip cid)")
  case None
  then show ?thesis by (simp add: release_reservation_def Let_def delete_absent)
next
  case (Some q)
  with assms have "0 < q" by (auto simp: ledger_ok_def dest: mem_value)
  with Some assms show ?thesis
    by (simp add: release_reservation_def Let_def committed_def reserved_sum_def ledger_ok_def sum_values_delete)
qed

lemma draw_ok:
  assumes "dict_ok rs" and "\<forall>q \<in> set (dict_values rs). 0 < q"
  shows "dict_ok (draw_reservation rs k d) \<and> (\<forall>q \<in> set (dict_values (draw_reservation rs k d)). 0 < q)"
  using assms
  by (auto simp: draw_reservation_def Let_def dict_simps split: option.splits
      dest: set_values_update set_values_delete)

lemma draw_sum:
  assumes "dict_ok rs"
  shows "sum_list (dict_values (draw_reservation rs k d)) =
    sum_list (dict_values rs) - (case map_of rs k of None \<Rightarrow> 0 | Some q \<Rightarrow> min q (q - max 0 (q - d)))"
  using assms
  by (auto simp: draw_reservation_def Let_def sum_values_update sum_values_delete split: option.splits)

lemma draw_Nil: "draw_reservation [] k d = []"
  by (simp add: draw_reservation_def)

lemma record_cases:
  assumes "record_total b cid n rid = Inr (b', used)"
  shows "b' = b \<and> used = tokens_used b
          \<and> max 0 n \<le> (case map_of (contributor_totals b) (strip cid) of None \<Rightarrow> 0 | Some p \<Rightarrow> p)
    \<or> (\<exists>delta owner. 0 < delta
        \<and> delta = max 0 n - (case map_of (contributor_totals b) (strip cid) of None \<Rightarrow> 0 | Some p \<Rightarrow> p)
        \<and> owner = strip (if rid = [] then strip cid else rid)
        \<and> b' = b\<lparr>contributor_totals := AList.update (strip cid) (max 0 n) (contributor_totals b),
                 tokens_used := tokens_used b + delta,
                 reservations := draw_reservation (reservations b) owner delta\<rparr>
        \<and> used = tokens_used b')"
  using assms by (auto simp: record_total_def Let_def split: if_splits)

lemma record_ok:
  assumes ok: "ledger_ok b" and r: "record_total b cid n rid = Inr (b', used)"
  shows "ledger_ok b'"
  using record_cases [OF r]
proof
  assume "b' = b \<and> used = tokens_used b
          \<and> max 0 n \<le> (case map_of (contributor_totals b) (strip cid) of None \<Rightarrow> 0 | Some p \<Rightarrow> p)"
  with ok show ?thesis by simp
next
  assume "\<exists>delta owner. 0 < delta
        \<and> delta = max 0 n - (case map_of (contributor_totals b) (strip cid) of None \<Rightarrow> 0 | Some p \<Rightarrow> p)
        \<and> owner = strip (if rid = [] then strip cid else rid)
        \<and> b' = b\<lparr>contributor_totals := AList.update (strip cid) (max 0 n) (contributor_totals b),
                 tokens_used := tokens_used b + delta,
                 reservations := draw_reservation (reservations b) owner delta\<rparr>
        \<and> used = tokens_used b'"
  then obtain delta owner where d: "0 < delta"
      "delta = max 0 n - (case map_of (contributor_totals b) (strip cid) of None \<Rightarrow> 0 | Some p \<Rightarrow> p)"
    and b': "b' = b\<lparr>contributor_totals := AList.update (strip cid) (max 0 n) (contributor_totals b),
                 tokens_used := tokens_used b + delta,
                 reservations := draw_reservation (reservations b) owner delta\<rparr>" by blast
  have prev: "0 \<le> (case map_of (contributor_totals b) (strip cid) of None \<Rightarrow> 0 | Some p \<Rightarrow> p)"
    using ok by (auto simp: ledger_ok_def split: option.splits dest!: mem_value intro: less_imp_le)
  with d have pos: "0 < max 0 n" by linarith
  show ?thesis
    using ok d b' pos draw_ok [of "reservations b" owner delta]
    by (auto simp: ledger_ok_def dict_simps sum_values_update draw_Nil dest!: set_values_update)
qed

text \<open>Charging within a reservation moves tokens from \<open>reserved\<close> to \<open>used\<close>, no more.\<close>

lemma record_committed:
  assumes ok: "ledger_ok b" and r: "record_total b cid n rid = Inr (b', used)"
    and cover: "map_of (reservations b) (strip (if rid = [] then strip cid else rid)) = Some q"
    and within: "used - tokens_used b \<le> q"
  shows "committed b' = committed b"
  using record_cases [OF r] ok cover within
  by (auto simp: committed_def reserved_sum_def draw_sum ledger_ok_def)

section \<open>Runs of the ledger\<close>

datatype ledger_op =
  Reserve string int
| Release string
| RecordTotal string int string
| RecordUsage string usage string

text \<open>An operation that raises leaves the ledger as it was.\<close>

fun ledger_step :: "ledger \<Rightarrow> ledger_op \<Rightarrow> ledger" where
  "ledger_step b (Reserve cid n) = (case reserve b cid n of Inl e \<Rightarrow> b | Inr (b', _) \<Rightarrow> b')"
| "ledger_step b (Release cid) = fst (release_reservation b cid)"
| "ledger_step b (RecordTotal cid n rid) = (case record_total b cid n rid of Inl e \<Rightarrow> b | Inr (b', _) \<Rightarrow> b')"
| "ledger_step b (RecordUsage cid up rid) = (case record_usage_total b cid up rid of Inl e \<Rightarrow> b | Inr (b', _) \<Rightarrow> b')"

lemma ledger_step_ok: "ledger_ok b \<Longrightarrow> ledger_ok (ledger_step b e)"
  by (cases e)
    (auto simp: record_usage_total_def release_ok split: sum.splits intro: reserve_ok record_ok)

lemma record_used_mono: "record_total b cid n rid = Inr (b', used) \<Longrightarrow> tokens_used b \<le> tokens_used b'"
  by (drule record_cases) auto

lemma ledger_step_mono: "tokens_used b \<le> tokens_used (ledger_step b e)"
  by (cases e)
    (auto simp: record_usage_total_def release_reservation_def Let_def split: sum.splits
      dest: record_used_mono dest!: reserve_cases)

interpretation ledger_run: monotone_machine ledger_step ledger_ok tokens_used
  by unfold_locales (simp_all add: ledger_step_ok ledger_step_mono)

text \<open>
  Claim C25. In every state a rollout ledger can reach from a new one, the shared
  \<open>tokens_used\<close> counter is exactly the sum of the contributors' latest totals, every held
  reservation is positive, an unlimited ledger holds none, and no identifier occurs twice;
  and the counter never decreases along the rest of any run.
\<close>

theorem ledger_reachable_ok:
  "ledger_ok (foldl ledger_step (new_ledger n) es)
   \<and> tokens_used (foldl ledger_step (new_ledger n) es)
       \<le> tokens_used (foldl ledger_step (new_ledger n) (es @ es'))"
proof
  show ok: "ledger_ok (foldl ledger_step (new_ledger n) es)"
    by (rule ledger_run.run_inv) (rule ledger_ok_new)
  show "tokens_used (foldl ledger_step (new_ledger n) es)
       \<le> tokens_used (foldl ledger_step (new_ledger n) (es @ es'))"
    using ledger_run.run_mono [OF ok] by simp
qed

text \<open>
  A reservation never over-commits the rollout. If used plus reserved tokens
  fit the limit, they still fit after a reservation, after a release, and after a report that
  stays within the reservation it is charged to (which then only moves tokens from reserved to
  used).
\<close>

theorem reservations_never_overcommit:
  assumes ok: "ledger_ok b" and fits: "committed b \<le> token_limit b"
  shows "(reserve b cid n = Inr (b', quota) \<longrightarrow> committed b' \<le> token_limit b')
    \<and> committed (fst (release_reservation b cid)) \<le> token_limit b
    \<and> (record_total b cid n rid = Inr (b'', used)
        \<and> map_of (reservations b) (strip (if rid = [] then strip cid else rid)) = Some q
        \<and> used - tokens_used b \<le> q \<longrightarrow> committed b'' = committed b)"
  using reserve_committed [OF ok _ fits] release_committed [OF ok, of cid] record_committed [OF ok] fits
  by auto

definition ledger_ex :: ledger where
  "ledger_ex = \<lparr>token_limit = 100, tokens_used = 10, contributor_totals = [(''root'', 10)],
     reservations = [(''child'', 40)]\<rparr>"

theorem reservations_never_overcommit_witness:
  "committed ledger_ex \<le> token_limit ledger_ex
   \<and> reserve ledger_ex ''other'' 80 =
       Inr (ledger_ex\<lparr>reservations := [(''child'', 40), (''other'', 50)]\<rparr>, 50)
   \<and> committed (ledger_ex\<lparr>reservations := [(''child'', 40), (''other'', 50)]\<rparr>) \<le> 100"
proof -
  have ok: "ledger_ok ledger_ex" by (simp add: ledger_ok_def ledger_ex_def)
  have fits: "committed ledger_ex \<le> token_limit ledger_ex"
    by (simp add: committed_def reserved_sum_def ledger_ex_def)
  have r: "reserve ledger_ex ''other'' 80 =
       Inr (ledger_ex\<lparr>reservations := [(''child'', 40), (''other'', 50)]\<rparr>, 50)"
    by code_simp
  have "committed (ledger_ex\<lparr>reservations := [(''child'', 40), (''other'', 50)]\<rparr>)
      \<le> token_limit (ledger_ex\<lparr>reservations := [(''child'', 40), (''other'', 50)]\<rparr>)"
    using reservations_never_overcommit [OF ok fits] r by blast
  then show ?thesis
    using fits r by (simp add: ledger_ex_def)
qed

text \<open>
  Reporting is cumulative per contributor: after a report the
  contributor's recorded total is the larger of the old and the new one, every other
  contributor's is unchanged, the shared counter grew by exactly that difference, and
  repeating the report changes nothing.
\<close>

theorem record_total_is_running_max:
  assumes ok: "ledger_ok b" and r: "record_total b cid n rid = Inr (b', used)"
  defines "old \<equiv> (case map_of (contributor_totals b) (strip cid) of None \<Rightarrow> 0 | Some p \<Rightarrow> p)"
  shows "(case map_of (contributor_totals b') (strip cid) of None \<Rightarrow> 0 | Some p \<Rightarrow> p) = max old n
    \<and> (\<forall>k. k \<noteq> strip cid \<longrightarrow> map_of (contributor_totals b') k = map_of (contributor_totals b) k)
    \<and> tokens_used b' = tokens_used b + (max old n - old) \<and> used = tokens_used b'
    \<and> record_total b' cid n rid = Inr (b', used)"
proof -
  have old: "0 \<le> old"
    using ok by (auto simp: ledger_ok_def old_def split: option.splits dest!: mem_value intro: less_imp_le)
  have ne: "strip cid \<noteq> []" using r by (auto simp: record_total_def Let_def)
  have "max 0 n \<le> old \<and> b' = b \<and> used = tokens_used b
      \<or> (map_of (contributor_totals b') = (map_of (contributor_totals b))(strip cid \<mapsto> max 0 n)
         \<and> tokens_used b' = tokens_used b + (max 0 n - old) \<and> old < max 0 n \<and> used = tokens_used b')"
    using record_cases [OF r] unfolding old_def [symmetric] by (auto simp: update_conv)
  then show ?thesis
    using old ne by (auto simp: record_total_def Let_def old_def [symmetric] max_def)
qed

theorem record_total_is_running_max_witness:
  "record_total ledger_ex '' child '' 25 []
     = Inr (ledger_ex\<lparr>tokens_used := 35, contributor_totals := [(''root'', 10), (''child'', 25)],
              reservations := [(''child'', 15)]\<rparr>, 35)
   \<and> tokens_used ledger_ex + (max 0 25 - 0) = 35"
proof -
  have ok: "ledger_ok ledger_ex" by (simp add: ledger_ok_def ledger_ex_def)
  have r: "record_total ledger_ex '' child '' 25 []
     = Inr (ledger_ex\<lparr>tokens_used := 35, contributor_totals := [(''root'', 10), (''child'', 25)],
              reservations := [(''child'', 15)]\<rparr>, 35)" by code_simp
  have "map_of (contributor_totals ledger_ex) (strip '' child '') = None" by code_simp
  then show ?thesis using record_total_is_running_max [OF ok r] r by simp
qed

section \<open>The per-turn coordinator\<close>

text \<open>
  \<open>TurnBudgetRuntime\<close>: the state a turn charges. The run's identifiers are resolved from its
  metadata once and are fields here; the provider's usage is the argument of each call.
\<close>

record runtime =
  rt_ledger :: ledger
  rt_contributor :: string
  rt_reservation :: string
  rt_deadline :: deadline
  rt_ctl :: budget_ctl
  rt_total_retries :: int
  rt_recovery_iterations :: int
  rt_transitions :: "(string \<times> int \<times> int) list"

definition local_tokens_used :: "runtime \<Rightarrow> usage \<Rightarrow> ledger_error + (runtime \<times> int)" where
  "local_tokens_used rt up =
     (case record_usage_total (rt_ledger rt) (rt_contributor rt) up (rt_reservation rt) of
        Inl e \<Rightarrow> Inl e
      | Inr (l, _) \<Rightarrow> Inr (rt\<lparr>rt_ledger := l\<rparr>, billable_tokens_from_usage up))"

definition rollout_boundary :: "runtime \<Rightarrow> usage \<Rightarrow> bool \<Rightarrow> ledger_error + (runtime \<times> boundary option)" where
  "rollout_boundary rt up post_tools =
     (case local_tokens_used rt up of
        Inl e \<Rightarrow> Inl e
      | Inr (rt', _) \<Rightarrow>
          (let s = ledger_snapshot (rt_ledger rt') (rt_reservation rt');
               observed = snap_used s + snap_reserved s
           in if snap_limit s \<le> 0 \<or> observed < snap_limit s then Inr (rt', None)
              else Inr (rt', Some \<lparr>b_reason = MaxTurnTokens, b_limit = of_int (snap_limit s),
                                   b_observed = of_int observed, b_post_tools = post_tools\<rparr>)))"

definition bounded_provider_timeout :: "runtime \<Rightarrow> real option \<Rightarrow> real \<Rightarrow> unit + (real option \<times> bool)" where
  "bounded_provider_timeout rt requested now =
     (let (timeout, capped, expired) = bounded_timeout (rt_deadline rt) requested now
      in if expired then Inl () else Inr (timeout, capped))"

definition phase_deadline_boundary :: "runtime \<Rightarrow> real \<Rightarrow> boundary" where
  "phase_deadline_boundary rt now =
     \<lparr>b_reason = MaxTurnSeconds, b_limit = lim_seconds (rt_ctl rt),
      b_observed = elapsed (rt_deadline rt) now, b_post_tools = False\<rparr>"

definition consume_retry :: "runtime \<Rightarrow> string \<Rightarrow> runtime \<times> boundary option" where
  "consume_retry rt reason =
     (let limit = lim_retries (rt_ctl rt) in
      if limit > 0 \<and> rt_total_retries rt \<ge> limit then
        (rt, Some \<lparr>b_reason = MaxRetries, b_limit = of_int limit,
                   b_observed = of_int (rt_total_retries rt), b_post_tools = False\<rparr>)
      else
        (rt\<lparr>rt_total_retries := rt_total_retries rt + 1,
            rt_recovery_iterations := rt_recovery_iterations rt + 1,
            rt_transitions := rt_transitions rt @ [(reason, rt_total_retries rt + 1, limit)]\<rparr>, None))"

definition retry_inv :: "int \<Rightarrow> runtime \<Rightarrow> bool" where
  "retry_inv limit rt \<longleftrightarrow>
     lim_retries (rt_ctl rt) = limit \<and> 0 \<le> rt_total_retries rt \<and> (0 < limit \<longrightarrow> rt_total_retries rt \<le> limit)"

interpretation retries: invariant_machine "\<lambda>rt r. fst (consume_retry rt r)" "retry_inv limit" for limit
  by unfold_locales (auto simp: retry_inv_def consume_retry_def Let_def)

text \<open>
  Under a positive retry limit no sequence of recovery attempts takes more
  than the limit: the counter stays within it, and once it is reached every further attempt is
  refused with a \<open>max_retries\<close> boundary and changes nothing.
\<close>

theorem retries_bounded:
  assumes "lim_retries (rt_ctl rt) = limit" and "0 < limit" and "rt_total_retries rt = 0"
  shows "let rt' = foldl (\<lambda>rt r. fst (consume_retry rt r)) rt rs in
    rt_total_retries rt' \<le> limit
    \<and> (rt_total_retries rt' = limit \<longrightarrow>
        fst (consume_retry rt' why) = rt'
        \<and> map_option b_reason (snd (consume_retry rt' why)) = Some MaxRetries)"
proof -
  have inv: "retry_inv limit (foldl (\<lambda>rt r. fst (consume_retry rt r)) rt rs)"
    by (rule retries.run_inv) (use assms in \<open>simp add: retry_inv_def\<close>)
  with assms(2) show ?thesis by (auto simp: retry_inv_def Let_def consume_retry_def)
qed

definition runtime_ex :: runtime where
  "runtime_ex = \<lparr>rt_ledger = ledger_ex, rt_contributor = ''child'', rt_reservation = ''child'',
     rt_deadline = dl_ex,
     rt_ctl = \<lparr>lim_seconds = 60, lim_iterations = 0, lim_tool_calls = 0, lim_retries = 2,
               lim_tokens = 0, lim_cost = 0, unpriced_reported = False\<rparr>,
     rt_total_retries = 0, rt_recovery_iterations = 0, rt_transitions = []\<rparr>"

theorem retries_bounded_witness:
  "rt_total_retries (foldl (\<lambda>rt r. fst (consume_retry rt r)) runtime_ex [''a'', ''b'', ''c'']) = 2
   \<and> (2::int) \<le> 2"
proof -
  have "rt_total_retries (foldl (\<lambda>rt r. fst (consume_retry rt r)) runtime_ex [''a'', ''b'', ''c'']) \<le> 2"
    using retries_bounded [of runtime_ex 2 "[''a'', ''b'', ''c'']"]
    by (simp add: runtime_ex_def Let_def)
  moreover have "rt_total_retries (foldl (\<lambda>rt r. fst (consume_retry rt r)) runtime_ex [''a'', ''b'', ''c'']) = 2"
    by (simp add: runtime_ex_def consume_retry_def Let_def)
  ultimately show ?thesis by simp
qed

text \<open>A child is never fenced by the quota it holds itself.\<close>

lemma rollout_boundary_excludes_self:
  "reservations l = [(r, q)] \<Longrightarrow> strip r = r \<Longrightarrow> snap_reserved (ledger_snapshot l r) = 0"
  by (simp add: ledger_snapshot_def Let_def)

end
