(* ===== verification/Patch.thy ===== *)
theory Patch
  imports Prelude
begin

text \<open>
  The patch envelope at the tool boundary: \<open>backend/tools/apply_patch_parser.py\<close>, its parser
  (\<open>parse_patch\<close>, \<open>_parse_update_hunks\<close>), its applier (\<open>apply_update_hunks\<close>) and the block
  search (\<open>_find_block\<close>).

  Text is a list of Unicode code points (\<open>ustr\<close> of the prelude), because the last rung of the search
  translates typographic punctuation. A loop over an index \<open>i\<close> of the body is a recursion over
  the remaining lines; \<open>-1\<close> for "not found" is \<open>None\<close>; \<open>ApplyPatchError\<close> is a value of
  \<open>patch_error\<close>, whose arguments are what the message interpolates. The excerpt that
  \<open>_missing_context_message\<close> adds to the message (by \<open>difflib\<close>) is presentation and left out.
\<close>

section \<open>Text and markers\<close>

definition BEGIN_PATCH :: ustr where "BEGIN_PATCH = u ''*** Begin Patch''"
definition END_PATCH :: ustr where "END_PATCH = u ''*** End Patch''"
definition ADD_FILE :: ustr where "ADD_FILE = u ''*** Add File: ''"
definition DELETE_FILE :: ustr where "DELETE_FILE = u ''*** Delete File: ''"
definition UPDATE_FILE :: ustr where "UPDATE_FILE = u ''*** Update File: ''"
definition MOVE_TO :: ustr where "MOVE_TO = u ''*** Move to: ''"
definition END_OF_FILE :: ustr where "END_OF_FILE = u ''*** End of File''"
definition CHANGE_MARKER :: ustr where "CHANGE_MARKER = u ''@@''"

lemmas markers =
  BEGIN_PATCH_def END_PATCH_def ADD_FILE_def DELETE_FILE_def UPDATE_FILE_def MOVE_TO_def
  END_OF_FILE_def CHANGE_MARKER_def

datatype change_kind = ADD | DELETE | UPDATE

record hunk =
  old_lines :: "ustr list"
  new_lines :: "ustr list"
  is_eof :: bool
  change_context :: "ustr option"

definition empty_hunk :: hunk where
  "empty_hunk = \<lparr>old_lines = [], new_lines = [], is_eof = False, change_context = None\<rparr>"

record file_change =
  ch_kind :: change_kind
  ch_path :: ustr
  ch_move_to :: "ustr option"
  ch_content :: "ustr option"
  ch_hunks :: "hunk list"

datatype patch_error =
  EmptyPatch | BadFirstLine | BadLastLine | NoChanges
| MissingPath change_kind
| BadAddLine ustr ustr
| NoHunks ustr
| BadHunkLine ustr ustr
| UnexpectedLine ustr
| MissingContext ustr "ustr list" nat bool  \<comment> \<open>path, expected, start, whether the change context was sought\<close>

text \<open>\<open>value or None\<close>: the empty string is falsy.\<close>

definition or_none :: "ustr \<Rightarrow> ustr option" where
  "or_none s = (if s = [] then None else Some s)"

section \<open>Parsing\<close>

fun replace_crlf :: "ustr \<Rightarrow> ustr" where
  "replace_crlf [] = []"
| "replace_crlf [c] = [c]"
| "replace_crlf (c # d # s) = (if c = 13 \<and> d = 10 then 10 # replace_crlf s else c # replace_crlf (d # s))"

definition normalize_newlines :: "ustr \<Rightarrow> ustr" where
  "normalize_newlines t = map (\<lambda>c. if c = 13 then 10 else c) (replace_crlf t)"

definition is_section_header :: "ustr \<Rightarrow> bool" where
  "is_section_header line \<longleftrightarrow>
     startswith line ADD_FILE \<or> startswith line DELETE_FILE \<or> startswith line UPDATE_FILE"

text \<open>The rows of an Add File section: the contents and the lines that remain.\<close>

fun parse_add_rows :: "ustr \<Rightarrow> ustr list \<Rightarrow> patch_error + (ustr list \<times> ustr list)" where
  "parse_add_rows path [] = Inr ([], [])"
| "parse_add_rows path (row # rows) =
     (if is_section_header row then Inr ([], row # rows)
      else if \<not> startswith row (u ''+'') then Inl (BadAddLine path row)
      else (case parse_add_rows path rows of
              Inl e \<Rightarrow> Inl e
            | Inr (content, rest) \<Rightarrow> Inr (drop 1 row # content, rest)))"

definition add_content :: "ustr list \<Rightarrow> ustr" where
  "add_content rows = (if rows = [] then [] else join [10] rows @ [10])"

text \<open>\<open>flush\<close>: a current hunk that holds anything is appended.\<close>

definition flush_hunk :: "hunk list \<Rightarrow> hunk option \<Rightarrow> hunk list" where
  "flush_hunk hs cur =
     (case cur of
        None \<Rightarrow> hs
      | Some h \<Rightarrow> if old_lines h \<noteq> [] \<or> new_lines h \<noteq> [] \<or> is_eof h then hs @ [h] else hs)"

definition current_hunk :: "hunk option \<Rightarrow> hunk" where
  "current_hunk cur = (case cur of None \<Rightarrow> empty_hunk | Some h \<Rightarrow> h)"

text \<open>One hunk line that is neither a marker nor an end-of-file mark.\<close>

definition hunk_row :: "ustr \<Rightarrow> ustr \<Rightarrow> hunk \<Rightarrow> patch_error + hunk" where
  "hunk_row path row h =
     (if startswith row (u ''+'') then Inr (h\<lparr>new_lines := new_lines h @ [drop 1 row]\<rparr>)
      else if startswith row (u ''-'') then Inr (h\<lparr>old_lines := old_lines h @ [drop 1 row]\<rparr>)
      else if startswith row (u '' '') then
        Inr (h\<lparr>old_lines := old_lines h @ [drop 1 row], new_lines := new_lines h @ [drop 1 row]\<rparr>)
      else if row = [] then
        Inr (h\<lparr>old_lines := old_lines h @ [[]], new_lines := new_lines h @ [[]]\<rparr>)
      else Inl (BadHunkLine path row))"

fun parse_update_hunks ::
    "ustr \<Rightarrow> ustr list \<Rightarrow> hunk list \<Rightarrow> hunk option \<Rightarrow> patch_error + (hunk list \<times> ustr list)" where
  "parse_update_hunks path [] hs cur = Inr (flush_hunk hs cur, [])"
| "parse_update_hunks path (row # rows) hs cur =
     (if is_section_header row then Inr (flush_hunk hs cur, row # rows)
      else if startswith row CHANGE_MARKER then
        parse_update_hunks path rows (flush_hunk hs cur)
          (Some (empty_hunk\<lparr>change_context := or_none (ustrip (drop (length CHANGE_MARKER) row))\<rparr>))
      else if ustrip row = END_OF_FILE then
        parse_update_hunks path rows hs (Some ((current_hunk cur)\<lparr>is_eof := True\<rparr>))
      else (case hunk_row path row (current_hunk cur) of
              Inl e \<Rightarrow> Inl e
            | Inr h \<Rightarrow> parse_update_hunks path rows hs (Some h)))"

text \<open>The optional \<open>Move to\<close> line after an Update File header.\<close>

fun parse_move :: "ustr list \<Rightarrow> ustr option \<times> ustr list" where
  "parse_move [] = (None, [])"
| "parse_move (row # rows) =
     (if startswith row MOVE_TO then (or_none (ustrip (drop (length MOVE_TO) row)), rows)
      else (None, row # rows))"

lemma parse_add_rows_length:
  "parse_add_rows p rows = Inr (c, rest) \<Longrightarrow> length rest \<le> length rows"
  by (induction p rows arbitrary: c rule: parse_add_rows.induct)
    (auto split: if_splits sum.splits prod.splits)

lemma parse_update_hunks_length:
  "parse_update_hunks p rows hs cur = Inr (hs', rest) \<Longrightarrow> length rest \<le> length rows"
  by (induction p rows hs cur rule: parse_update_hunks.induct)
    (auto split: if_splits sum.splits)

lemma parse_move_length: "parse_move rows = (m, rest) \<Longrightarrow> length rest \<le> length rows"
  by (cases rows) (auto split: if_splits)

text \<open>The section loop of \<open>parse_patch\<close>. A section's error comes before any later one.\<close>

function parse_sections :: "ustr list \<Rightarrow> patch_error + file_change list" where
  "parse_sections [] = Inr []"
| "parse_sections (line # lines) =
     (if startswith line ADD_FILE then
        (let path = ustrip (drop (length ADD_FILE) line) in
         if path = [] then Inl (MissingPath ADD)
         else (case parse_add_rows path lines of
                 Inl e \<Rightarrow> Inl e
               | Inr (rows, rest) \<Rightarrow>
                   map_sum id (\<lambda>cs. \<lparr>ch_kind = ADD, ch_path = path, ch_move_to = None,
                                     ch_content = Some (add_content rows), ch_hunks = []\<rparr> # cs)
                     (parse_sections rest)))
      else if startswith line DELETE_FILE then
        (let path = ustrip (drop (length DELETE_FILE) line) in
         if path = [] then Inl (MissingPath DELETE)
         else map_sum id (\<lambda>cs. \<lparr>ch_kind = DELETE, ch_path = path, ch_move_to = None,
                                ch_content = None, ch_hunks = []\<rparr> # cs)
                (parse_sections lines))
      else if startswith line UPDATE_FILE then
        (let path = ustrip (drop (length UPDATE_FILE) line) in
         if path = [] then Inl (MissingPath UPDATE)
         else (case parse_move lines of
                 (move_to, after_move) \<Rightarrow>
                   (case parse_update_hunks path after_move [] None of
                      Inl e \<Rightarrow> Inl e
                    | Inr (hs, rest) \<Rightarrow>
                        if hs = [] \<and> move_to = None then Inl (NoHunks path)
                        else map_sum id (\<lambda>cs. \<lparr>ch_kind = UPDATE, ch_path = path, ch_move_to = move_to,
                                               ch_content = None, ch_hunks = hs\<rparr> # cs)
                               (parse_sections rest))))
      else if ustrip line = [] then parse_sections lines
      else Inl (UnexpectedLine line))"
  by pat_completeness auto
termination
  by (relation "measure length")
    (auto dest!: parse_add_rows_length parse_update_hunks_length parse_move_length[OF sym])

definition drop_final_empty :: "ustr list \<Rightarrow> ustr list" where
  "drop_final_empty ls = (if ls \<noteq> [] \<and> last ls = [] then butlast ls else ls)"

definition parse_patch :: "ustr \<Rightarrow> patch_error + file_change list" where
  "parse_patch text =
     (if ustrip text = [] then Inl EmptyPatch
      else
       (let lines = drop_final_empty (split_on 10 (normalize_newlines text)) in
        if lines = [] \<or> ustrip (hd lines) \<noteq> BEGIN_PATCH then Inl BadFirstLine
        else if ustrip (last lines) \<noteq> END_PATCH then Inl BadLastLine
        else (case parse_sections (butlast (tl lines)) of
                Inl e \<Rightarrow> Inl e
              | Inr [] \<Rightarrow> Inl NoChanges
              | Inr cs \<Rightarrow> Inr cs)))"

text \<open>\<open>patch_target_paths\<close>: every source and destination, once, in order.\<close>

fun add_path :: "ustr list \<Rightarrow> ustr option \<Rightarrow> ustr list" where
  "add_path paths None = paths"
| "add_path paths (Some v) =
     (let clean = ustrip v in if clean \<noteq> [] \<and> clean \<notin> set paths then paths @ [clean] else paths)"

definition patch_target_paths :: "ustr \<Rightarrow> patch_error + ustr list" where
  "patch_target_paths text =
     map_sum id (foldl (\<lambda>ps c. add_path (add_path ps (Some (ch_path c))) (ch_move_to c)) []) (parse_patch text)"

end
