(* ===== verification/PatchApply.thy ===== *)
theory PatchApply
  imports Patch
begin

text \<open>
  The applier of \<open>backend/tools/apply_patch_parser.py\<close>: the block search \<open>_find_block\<close> with
  its ladder of normalizers, and \<open>apply_update_hunks\<close>, which collects the replacements in hunk
  order and performs them from the last to the first.
\<close>

section \<open>Locating a block\<close>

definition punctuation :: "int \<Rightarrow> int" where
  "punctuation n =
     (if n \<in> {8208, 8209, 8210, 8211, 8212, 8213, 8722} then 45
      else if n \<in> {8216, 8217, 8218, 8219} then 39
      else if n \<in> {8220, 8221, 8222, 8223} then 34
      else if n = 160 \<or> (8194 \<le> n \<and> n \<le> 8202) \<or> n = 8239 \<or> n = 8287 \<or> n = 12288 then 32
      else n)"

definition normalize_patch_context :: "ustr \<Rightarrow> ustr" where
  "normalize_patch_context s = map punctuation (ustrip s)"

definition urstrip :: "ustr \<Rightarrow> ustr" where
  "urstrip s = rstrip_by uspace s"

definition block_matches :: "(ustr \<Rightarrow> ustr) \<Rightarrow> ustr list \<Rightarrow> ustr list \<Rightarrow> nat \<Rightarrow> bool" where
  "block_matches norm hay block i \<longleftrightarrow> map norm (take (length block) (drop i hay)) = map norm block"

text \<open>\<open>seek\<close>: the first index of the range that matches under one normalizer.\<close>

definition seek_block :: "(ustr \<Rightarrow> ustr) \<Rightarrow> ustr list \<Rightarrow> ustr list \<Rightarrow> nat \<Rightarrow> nat \<Rightarrow> nat option" where
  "seek_block norm hay block start final = find (block_matches norm hay block) [start..<Suc final]"

definition normalizers :: "(ustr \<Rightarrow> ustr) list" where
  "normalizers = [\<lambda>s. s, urstrip, ustrip, normalize_patch_context]"

fun first_found :: "('f \<Rightarrow> nat option) \<Rightarrow> 'f list \<Rightarrow> nat option" where
  "first_found try [] = None"
| "first_found try (f # fs) = (case try f of Some i \<Rightarrow> Some i | None \<Rightarrow> first_found try fs)"

definition find_block :: "ustr list \<Rightarrow> ustr list \<Rightarrow> nat \<Rightarrow> bool \<Rightarrow> nat option" where
  "find_block hay block start eof =
     (if block = [] then Some start
      else if length block > length hay then None
      else
       (let final = length hay - length block;
            from = (if eof then max start final else start)
        in first_found (\<lambda>norm. seek_block norm hay block from final) normalizers))"

section \<open>Applying hunks\<close>

definition file_lines :: "ustr \<Rightarrow> ustr list" where
  "file_lines original = drop_final_empty (split_on 10 original)"

type_synonym replacement = "nat \<times> nat \<times> ustr list"

definition drop_last_empty :: "ustr list \<Rightarrow> ustr list" where
  "drop_last_empty b = (if b \<noteq> [] \<and> last b = [] then butlast b else b)"

text \<open>The position of one hunk's anchor: the cursor after the change context, if there is one.\<close>

definition seek_anchor :: "ustr list \<Rightarrow> ustr \<Rightarrow> nat \<Rightarrow> hunk \<Rightarrow> patch_error + nat" where
  "seek_anchor lines path cursor h =
     (case change_context h of
        Some (c # cs) \<Rightarrow>
          (case find_block lines [c # cs] cursor False of
             None \<Rightarrow> Inl (MissingContext path [c # cs] cursor True)
           | Some i \<Rightarrow> Inr (i + 1))
      | _ \<Rightarrow> Inr cursor)"

text \<open>One hunk from a cursor: its replacement and the next cursor.\<close>

definition locate_hunk :: "ustr list \<Rightarrow> ustr \<Rightarrow> nat \<Rightarrow> hunk \<Rightarrow> patch_error + (replacement \<times> nat)" where
  "locate_hunk lines path cursor0 h =
     (case seek_anchor lines path cursor0 h of
        Inl e \<Rightarrow> Inl e
      | Inr cursor \<Rightarrow>
          (if old_lines h = [] then
             (let insertion = length lines - (if lines \<noteq> [] \<and> last lines = [] then 1 else 0)
              in Inr ((insertion, 0, new_lines h), cursor))
           else
             (case find_block lines (old_lines h) cursor (is_eof h) of
                Some i \<Rightarrow> Inr ((i, length (old_lines h), new_lines h), i + length (old_lines h))
              | None \<Rightarrow>
                  if last (old_lines h) = [] then
                    (let old_block = butlast (old_lines h); new_block = drop_last_empty (new_lines h)
                     in case find_block lines old_block cursor (is_eof h) of
                          Some i \<Rightarrow> Inr ((i, length old_block, new_block), i + length old_block)
                        | None \<Rightarrow> Inl (MissingContext path old_block cursor False))
                  else Inl (MissingContext path (old_lines h) cursor False))))"

fun collect_replacements :: "ustr list \<Rightarrow> ustr \<Rightarrow> nat \<Rightarrow> hunk list \<Rightarrow> patch_error + replacement list" where
  "collect_replacements lines path cursor [] = Inr []"
| "collect_replacements lines path cursor (h # hs) =
     (case locate_hunk lines path cursor h of
        Inl e \<Rightarrow> Inl e
      | Inr (r, cursor') \<Rightarrow> map_sum id ((#) r) (collect_replacements lines path cursor' hs))"

text \<open>\<open>result[start:start + old_length] = replacement\<close>.\<close>

fun replace_slice :: "replacement \<Rightarrow> ustr list \<Rightarrow> ustr list" where
  "replace_slice (start, n, new) ls = take start ls @ new @ drop (start + n) ls"

definition apply_replacements :: "replacement list \<Rightarrow> ustr list \<Rightarrow> ustr list" where
  "apply_replacements rs ls = fold replace_slice (rev (sort_key fst rs)) ls"

definition end_with_empty :: "ustr list \<Rightarrow> ustr list" where
  "end_with_empty ls = (if ls = [] \<or> last ls \<noteq> [] then ls @ [[]] else ls)"

definition apply_update_hunks :: "ustr \<Rightarrow> hunk list \<Rightarrow> ustr \<Rightarrow> patch_error + ustr" where
  "apply_update_hunks original hs path =
     (case collect_replacements (file_lines original) path 0 hs of
        Inl e \<Rightarrow> Inl e
      | Inr rs \<Rightarrow> Inr (join [10] (end_with_empty (apply_replacements rs (file_lines original)))))"

section \<open>The search is the strictest, leftmost match\<close>

lemma seek_block_Some:
  "seek_block norm hay block start final = Some i \<longleftrightarrow>
     start \<le> i \<and> i \<le> final \<and> block_matches norm hay block i
     \<and> (\<forall>j. start \<le> j \<and> j < i \<longrightarrow> \<not> block_matches norm hay block j)"
  by (auto simp: seek_block_def find_upt_Some simp del: upt_Suc)

lemma seek_block_None:
  "seek_block norm hay block start final = None \<longleftrightarrow>
     (\<forall>i. start \<le> i \<and> i \<le> final \<longrightarrow> \<not> block_matches norm hay block i)"
  by (auto simp: seek_block_def find_upt_None simp del: upt_Suc)

lemma first_found_Some:
  "first_found try fs = Some i \<longleftrightarrow>
     (\<exists>k < length fs. try (fs ! k) = Some i \<and> (\<forall>j < k. try (fs ! j) = None))"
proof (induction fs)
  case Nil
  then show ?case by simp
next
  case (Cons f fs)
  show ?case
    by (cases "try f")
      (auto simp: Cons.IH less_Suc_eq_0_disj nth_Cons' split: if_splits; force)+
qed

lemma first_found_None: "first_found try fs = None \<longleftrightarrow> (\<forall>f \<in> set fs. try f = None)"
  by (induction fs) (auto split: option.splits)

text \<open>The range that is searched, and the end-of-file rule.\<close>

definition search_from :: "ustr list \<Rightarrow> ustr list \<Rightarrow> nat \<Rightarrow> bool \<Rightarrow> nat" where
  "search_from hay block start eof = (if eof then max start (length hay - length block) else start)"

lemma find_block_match:
  assumes ne: "block \<noteq> []" and f: "find_block hay block start eof = Some i"
  shows "start \<le> i \<and> i + length block \<le> length hay \<and> (\<exists>norm \<in> set normalizers. block_matches norm hay block i)"
proof -
  from ne f have len: "length block \<le> length hay"
    and ff: "first_found (\<lambda>norm. seek_block norm hay block (search_from hay block start eof)
        (length hay - length block)) normalizers = Some i"
    by (auto simp: find_block_def search_from_def Let_def split: if_splits)
  from ff obtain k where k: "k < length normalizers"
    and s: "seek_block (normalizers ! k) hay block (search_from hay block start eof) (length hay - length block) = Some i"
    by (auto simp: first_found_Some)
  have "start \<le> search_from hay block start eof" by (simp add: search_from_def)
  with s len have "start \<le> i" "i + length block \<le> length hay" "block_matches (normalizers ! k) hay block i"
    by (auto simp: seek_block_Some)
  with k nth_mem show ?thesis by blast
qed

text \<open>
  For a nonempty block, \<open>_find_block\<close> returns an index exactly when the
  block occurs in the searched range under some normalizer; the index then lies in the range,
  the block matches there under the strictest normalizer (exact, trailing space, stripped,
  punctuation) under which it occurs anywhere in the range, and no earlier index matches under
  that normalizer. An end-of-file hunk only ever matches at the end of the file.
\<close>

theorem find_block_strictest_leftmost:
  assumes "block \<noteq> []"
  shows "(find_block hay block start eof = Some i \<longrightarrow>
      (\<exists>k < length normalizers.
         search_from hay block start eof \<le> i \<and> i + length block \<le> length hay
         \<and> block_matches (normalizers ! k) hay block i
         \<and> (\<forall>j. search_from hay block start eof \<le> j \<and> j < i \<longrightarrow> \<not> block_matches (normalizers ! k) hay block j)
         \<and> (\<forall>m < k. \<forall>j. search_from hay block start eof \<le> j \<and> j + length block \<le> length hay \<longrightarrow>
               \<not> block_matches (normalizers ! m) hay block j)
         \<and> (eof \<longrightarrow> i + length block = length hay)))
    \<and> (find_block hay block start eof = None \<longleftrightarrow>
        (\<forall>norm \<in> set normalizers. \<forall>j. search_from hay block start eof \<le> j \<and> j + length block \<le> length hay \<longrightarrow>
           \<not> block_matches norm hay block j))"
proof (cases "length block \<le> length hay")
  case False
  then show ?thesis using assms by (auto simp: find_block_def)
next
  case True
  define final where "final = length hay - length block"
  have range: "j \<le> final \<longleftrightarrow> j + length block \<le> length hay" for j
    using True by (auto simp: final_def)
  have fb: "find_block hay block start eof =
      first_found (\<lambda>norm. seek_block norm hay block (search_from hay block start eof) final) normalizers"
    using True assms by (simp add: find_block_def search_from_def final_def Let_def)
  have eof: "eof \<Longrightarrow> search_from hay block start eof \<le> i \<Longrightarrow> i \<le> final \<Longrightarrow> i + length block = length hay"
    using True by (auto simp: search_from_def final_def)
  show ?thesis
    unfolding fb first_found_Some first_found_None seek_block_Some seek_block_None
    by (intro conjI impI; (elim exE conjE)?; (intro exI conjI)?)
      (use eof in \<open>auto simp: range\<close>)
qed

definition hay_ex :: "ustr list" where
  "hay_ex = [u ''a  '', u ''b'', u ''a'']"

theorem find_block_strictest_leftmost_witness:
  "[u ''a''] \<noteq> [] \<and> find_block hay_ex [u ''a''] 0 False = Some 2
   \<and> (\<exists>k < length normalizers. block_matches (normalizers ! k) hay_ex [u ''a''] 2)"
proof -
  have f: "find_block hay_ex [u ''a''] 0 False = Some 2" by code_simp
  show ?thesis
    using f find_block_strictest_leftmost [of "[u ''a'']" hay_ex 0 False 2] by auto
qed

section \<open>Applying is one left-to-right splice\<close>

text \<open>
  Specification: walk the original file once; copy what lies before the next replacement, emit
  its new lines, skip what it removes.
\<close>

fun splice :: "nat \<Rightarrow> ustr list \<Rightarrow> replacement list \<Rightarrow> ustr list" where
  "splice pos ls [] = drop pos ls"
| "splice pos ls ((s, n, new) # rs) = take (s - pos) (drop pos ls) @ new @ splice (s + n) ls rs"

text \<open>Replacements that follow each other without overlap, inside a file of \<open>len\<close> lines.\<close>

fun ordered_from :: "nat \<Rightarrow> nat \<Rightarrow> replacement list \<Rightarrow> bool" where
  "ordered_from pos len [] = (pos \<le> len)"
| "ordered_from pos len ((s, n, new) # rs) = (pos \<le> s \<and> s + n \<le> len \<and> ordered_from (s + n) len rs)"

definition hunk_located :: "ustr list \<Rightarrow> hunk \<Rightarrow> replacement \<Rightarrow> bool" where
  "hunk_located ls h r \<longleftrightarrow>
     (case r of (s, n, new) \<Rightarrow>
        (n = length (old_lines h) \<and> new = new_lines h
          \<and> (\<exists>norm \<in> set normalizers. block_matches norm ls (old_lines h) s))
      \<or> (last (old_lines h) = [] \<and> n = length (butlast (old_lines h)) \<and> new = drop_last_empty (new_lines h)
          \<and> (\<exists>norm \<in> set normalizers. block_matches norm ls (butlast (old_lines h)) s)))"

lemma ordered_from_weaken: "ordered_from pos len rs \<Longrightarrow> p \<le> pos \<Longrightarrow> ordered_from p len rs"
  by (cases rs) auto

lemma ordered_from_bound: "ordered_from pos len rs \<Longrightarrow> pos \<le> len"
  by (induction pos len rs rule: ordered_from.induct) auto

lemma ordered_from_starts: "ordered_from pos len rs \<Longrightarrow> r \<in> set rs \<Longrightarrow> pos \<le> fst r"
  by (induction pos len rs rule: ordered_from.induct) fastforce+

lemma ordered_from_sorted: "ordered_from pos len rs \<Longrightarrow> sorted (map fst rs)"
proof (induction pos len rs rule: ordered_from.induct)
  case (1 pos len)
  then show ?case by simp
next
  case (2 pos len s n new rs)
  then have "s \<le> fst r" if "r \<in> set rs" for r
    using ordered_from_starts [of "s + n" len rs r] that by simp
  with 2 show ?case by auto
qed

lemma sort_key_sorted: "sorted (map f xs) \<Longrightarrow> sort_key f xs = xs"
  by (induction xs) (auto intro!: insort_is_Cons)

lemma foldr_replace_slice:
  "ordered_from pos (length ls) rs \<Longrightarrow> foldr replace_slice rs ls = take pos ls @ splice pos ls rs"
proof (induction pos "length ls" rs rule: ordered_from.induct)
  case (1 pos)
  then show ?case by simp
next
  case (2 pos s n new rs)
  then have b: "pos \<le> s" "s + n \<le> length ls" and rest: "ordered_from (s + n) (length ls) rs" by auto
  have "take pos ls @ take (s - pos) (drop pos ls) = take s ls"
    using b by (metis le_add_diff_inverse take_add)
  with b "2.hyps" [OF rest] show ?case by (simp flip: append_assoc)
qed

lemma apply_replacements_splice:
  assumes "ordered_from 0 (length ls) rs"
  shows "apply_replacements rs ls = splice 0 ls rs"
proof -
  have "apply_replacements rs ls = foldr replace_slice rs ls"
    by (simp add: apply_replacements_def sort_key_sorted [OF ordered_from_sorted [OF assms]] foldr_conv_fold)
  then show ?thesis using foldr_replace_slice [OF assms] by simp
qed

lemma find_block_bounds:
  assumes "find_block ls block start eof = Some i" and "start \<le> length ls"
  shows "start \<le> i \<and> i + length block \<le> length ls \<and> (\<exists>norm \<in> set normalizers. block_matches norm ls block i)"
proof (cases "block = []")
  case True
  with assms show ?thesis by (auto simp: find_block_def block_matches_def normalizers_def)
next
  case False
  from find_block_match [OF False assms(1)] show ?thesis .
qed

lemma seek_anchor_bounds:
  "seek_anchor ls path c h = Inr c' \<Longrightarrow> c \<le> length ls \<Longrightarrow> c \<le> c' \<and> c' \<le> length ls"
  by (auto simp: seek_anchor_def split: option.splits list.splits dest!: find_block_bounds)

lemma locate_hunk_bounds:
  assumes "locate_hunk ls path c h = Inr (r, c')" and "c \<le> length ls" and "old_lines h \<noteq> []"
  shows "c \<le> fst r \<and> fst r + fst (snd r) = c' \<and> c' \<le> length ls \<and> hunk_located ls h r"
  using assms
  by (auto simp: locate_hunk_def hunk_located_def Let_def
      split: sum.splits option.splits if_splits dest!: seek_anchor_bounds find_block_bounds)

lemma collect_replacements_ordered:
  assumes "collect_replacements ls path c hs = Inr rs" and "c \<le> length ls" and "\<forall>h \<in> set hs. old_lines h \<noteq> []"
  shows "ordered_from c (length ls) rs \<and> list_all2 (hunk_located ls) hs rs"
  using assms
proof (induction hs arbitrary: c rs)
  case Nil
  then show ?case by simp
next
  case (Cons h hs)
  from Cons.prems(1) obtain r c' rs' where l: "locate_hunk ls path c h = Inr (r, c')"
    and rest: "collect_replacements ls path c' hs = Inr rs'" and rs: "rs = r # rs'"
    by (auto split: sum.splits simp: map_sum_def)
  note b = locate_hunk_bounds [OF l Cons.prems(2)]
  with Cons.prems(3) Cons.IH [OF rest] rs show ?case by (cases r) auto
qed

text \<open>
  Claim C24. If every hunk has context or removed lines and the hunks apply, the
  collected replacements are one per hunk, each covers a block that matches its hunk's old
  lines, they follow each other in hunk order without overlap inside the file, and the
  back-to-front slice assignments compute exactly the single left-to-right splice: every line
  outside the replaced blocks is copied unchanged and in order.
\<close>

theorem apply_hunks_is_splice:
  assumes hs: "\<forall>h \<in> set hs. old_lines h \<noteq> []" and ok: "apply_update_hunks original hs path = Inr out"
  shows "\<exists>rs. collect_replacements (file_lines original) path 0 hs = Inr rs
    \<and> list_all2 (hunk_located (file_lines original)) hs rs
    \<and> ordered_from 0 (length (file_lines original)) rs
    \<and> out = join [10] (end_with_empty (splice 0 (file_lines original) rs))"
proof -
  from ok obtain rs where rs: "collect_replacements (file_lines original) path 0 hs = Inr rs"
    and out: "out = join [10] (end_with_empty (apply_replacements rs (file_lines original)))"
    by (auto simp: apply_update_hunks_def split: sum.splits)
  from collect_replacements_ordered [OF rs _ hs] have o: "ordered_from 0 (length (file_lines original)) rs"
    "list_all2 (hunk_located (file_lines original)) hs rs" by auto
  with rs out apply_replacements_splice show ?thesis by auto
qed

definition lf :: ustr where "lf = [10]"

definition hunk_ex :: hunk where
  "hunk_ex = \<lparr>old_lines = [u ''b''], new_lines = [u ''x'', u ''y''], is_eof = False, change_context = Some (u ''a'')\<rparr>"

theorem apply_hunks_is_splice_witness:
  "apply_update_hunks (u ''b'' @ lf @ u ''a'' @ lf @ u ''b'' @ lf) [hunk_ex] (u ''f'')
     = Inr (u ''b'' @ lf @ u ''a'' @ lf @ u ''x'' @ lf @ u ''y'' @ lf)
   \<and> (\<exists>rs. ordered_from 0 3 rs)"
proof -
  have a: "apply_update_hunks (u ''b'' @ lf @ u ''a'' @ lf @ u ''b'' @ lf) [hunk_ex] (u ''f'')
     = Inr (u ''b'' @ lf @ u ''a'' @ lf @ u ''x'' @ lf @ u ''y'' @ lf)" by code_simp
  have len: "length (file_lines (u ''b'' @ lf @ u ''a'' @ lf @ u ''b'' @ lf)) = 3" by code_simp
  show ?thesis
    using a apply_hunks_is_splice [OF _ a] len by (auto simp: hunk_ex_def)
qed

text \<open>
  Without the hypothesis the splice reading fails. A hunk that only adds lines is placed before
  a final blank line of the file; a later hunk whose old block includes that blank line is
  performed afterwards over the shifted text, so the added line is deleted: no error, and the
  new line appears nowhere in the result.
\<close>

lemma append_hunk_lost:
  "apply_update_hunks (u ''a'' @ lf @ lf)
     [\<lparr>old_lines = [], new_lines = [u ''x''], is_eof = False, change_context = None\<rparr>,
      \<lparr>old_lines = [u ''a'', []], new_lines = [u ''b''], is_eof = False, change_context = None\<rparr>] (u ''f'')
   = Inr (u ''b'' @ lf)"
  by code_simp

end
