(* ===== verification/PatchParse.thy ===== *)
theory PatchParse
  imports Patch
begin

text \<open>
  What the parser of the patch envelope promises: every parsed change is well formed, and every
  well-formed list of changes can be written as an envelope that parses back to it.
\<close>

section \<open>Well-formed changes\<close>

definition plain :: "ustr \<Rightarrow> bool" where
  "plain s \<longleftrightarrow> 10 \<notin> set s \<and> 13 \<notin> set s"

definition path_ok :: "ustr \<Rightarrow> bool" where
  "path_ok p \<longleftrightarrow> p \<noteq> [] \<and> ustrip p = p"

definition hunk_ok :: "hunk \<Rightarrow> bool" where
  "hunk_ok h \<longleftrightarrow> (old_lines h \<noteq> [] \<or> new_lines h \<noteq> [] \<or> is_eof h)
     \<and> (case change_context h of None \<Rightarrow> True | Some c \<Rightarrow> path_ok c)"

fun change_ok :: "file_change \<Rightarrow> bool" where
  "change_ok c =
     (path_ok (ch_path c) \<and>
      (case ch_kind c of
         ADD \<Rightarrow> ch_move_to c = None \<and> ch_hunks c = []
                \<and> (case ch_content c of None \<Rightarrow> False | Some t \<Rightarrow> t = [] \<or> last t = 10)
       | DELETE \<Rightarrow> ch_move_to c = None \<and> ch_hunks c = [] \<and> ch_content c = None
       | UPDATE \<Rightarrow> ch_content c = None \<and> (ch_hunks c \<noteq> [] \<or> ch_move_to c \<noteq> None)
                \<and> (case ch_move_to c of None \<Rightarrow> True | Some m \<Rightarrow> path_ok m)
                \<and> list_all hunk_ok (ch_hunks c)))"

lemma path_ok_strip: "ustrip s \<noteq> [] \<Longrightarrow> path_ok (ustrip s)"
  by (simp add: path_ok_def ustrip_idem)

lemma or_none_path_ok: "or_none (ustrip s) = Some m \<Longrightarrow> path_ok m"
  by (auto simp: or_none_def path_ok_strip split: if_splits)

lemma parse_move_ok: "parse_move rows = (Some m, rest) \<Longrightarrow> path_ok m"
  by (cases rows) (auto simp: or_none_path_ok split: if_splits)

definition context_ok :: "hunk \<Rightarrow> bool" where
  "context_ok h \<longleftrightarrow> (case change_context h of None \<Rightarrow> True | Some c \<Rightarrow> path_ok c)"

lemma flush_hunk_ok:
  "list_all hunk_ok hs \<Longrightarrow> context_ok (current_hunk cur) \<Longrightarrow> list_all hunk_ok (flush_hunk hs cur)"
  by (auto simp: flush_hunk_def current_hunk_def hunk_ok_def context_ok_def split: option.splits)

lemma hunk_row_context: "hunk_row p row h = Inr h' \<Longrightarrow> change_context h' = change_context h"
  by (auto simp: hunk_row_def split: if_splits)

lemma context_ok_new: "context_ok (empty_hunk\<lparr>change_context := or_none (ustrip s)\<rparr>)"
  by (auto simp: context_ok_def or_none_path_ok split: option.splits)

lemma context_ok_empty: "context_ok (current_hunk None)"
  by (simp add: context_ok_def current_hunk_def empty_hunk_def)

lemma parse_update_hunks_ok:
  "parse_update_hunks p rows hs cur = Inr (hs', rest) \<Longrightarrow> list_all hunk_ok hs
    \<Longrightarrow> context_ok (current_hunk cur) \<Longrightarrow> list_all hunk_ok hs'"
proof (induction p rows hs cur rule: parse_update_hunks.induct)
  case (1 p hs cur)
  then show ?case by (auto simp: flush_hunk_ok)
next
  case (2 p row rows hs cur)
  show ?case
  proof (cases "is_section_header row")
    case True
    with 2 show ?thesis by (auto simp: flush_hunk_ok)
  next
    case head: False
    show ?thesis
    proof (cases "startswith row CHANGE_MARKER")
      case True
      with head 2 show ?thesis
        by (simp add: flush_hunk_ok context_ok_new current_hunk_def)
    next
      case mark: False
      show ?thesis
      proof (cases "ustrip row = END_OF_FILE")
        case True
        with head mark 2 show ?thesis by (simp add: context_ok_def current_hunk_def)
      next
        case False
        with head mark 2 show ?thesis
          by (auto simp: context_ok_def current_hunk_def hunk_row_context split: sum.splits)
      qed
    qed
  qed
qed

lemma add_content_ends: "add_content rows = [] \<or> last (add_content rows) = 10"
  by (simp add: add_content_def)

lemma parse_sections_ok: "parse_sections lines = Inr cs \<Longrightarrow> list_all change_ok cs"
proof (induction lines arbitrary: cs rule: parse_sections.induct)
  case 1
  then show ?case by simp
next
  case (2 line lines)
  consider (add) "startswith line ADD_FILE"
    | (del) "\<not> startswith line ADD_FILE" "startswith line DELETE_FILE"
    | (upd) "\<not> startswith line ADD_FILE" "\<not> startswith line DELETE_FILE" "startswith line UPDATE_FILE"
    | (other) "\<not> startswith line ADD_FILE" "\<not> startswith line DELETE_FILE" "\<not> startswith line UPDATE_FILE"
    by blast
  then show ?case
  proof cases
    case add
    with "2.prems" obtain rows rest cs' where ne: "ustrip (drop (length ADD_FILE) line) \<noteq> []"
      and r: "parse_add_rows (ustrip (drop (length ADD_FILE) line)) lines = Inr (rows, rest)"
      and s: "parse_sections rest = Inr cs'"
      and cs: "cs = \<lparr>ch_kind = ADD, ch_path = ustrip (drop (length ADD_FILE) line), ch_move_to = None,
                  ch_content = Some (add_content rows), ch_hunks = []\<rparr> # cs'"
      by (auto simp: Let_def map_sum_Inr split: if_splits sum.splits prod.splits)
    with "2.IH"(1) [OF add refl ne r refl s] show ?thesis
      using add_content_ends by (auto simp: path_ok_strip)
  next
    case del
    with "2.prems" obtain cs' where ne: "ustrip (drop (length DELETE_FILE) line) \<noteq> []"
      and s: "parse_sections lines = Inr cs'"
      and cs: "cs = \<lparr>ch_kind = DELETE, ch_path = ustrip (drop (length DELETE_FILE) line), ch_move_to = None,
                  ch_content = None, ch_hunks = []\<rparr> # cs'"
      by (auto simp: Let_def map_sum_Inr split: if_splits)
    with "2.IH"(2) [OF del refl ne s] show ?thesis by (auto simp: path_ok_strip)
  next
    case upd
    with "2.prems" obtain m after hs rest cs' where ne: "ustrip (drop (length UPDATE_FILE) line) \<noteq> []"
      and m: "parse_move lines = (m, after)"
      and h: "parse_update_hunks (ustrip (drop (length UPDATE_FILE) line)) after [] None = Inr (hs, rest)"
      and some: "\<not> (hs = [] \<and> m = None)"
      and s: "parse_sections rest = Inr cs'"
      and cs: "cs = \<lparr>ch_kind = UPDATE, ch_path = ustrip (drop (length UPDATE_FILE) line), ch_move_to = m,
                  ch_content = None, ch_hunks = hs\<rparr> # cs'"
      by (auto simp: Let_def map_sum_Inr split: if_splits sum.splits prod.splits)
    have hs: "list_all hunk_ok hs"
      by (rule parse_update_hunks_ok [OF h]) (simp_all add: context_ok_empty)
    from m have "case m of None \<Rightarrow> True | Some m \<Rightarrow> path_ok m"
      by (auto split: option.splits dest: parse_move_ok)
    with "2.IH"(3) [OF upd refl ne m [symmetric] h refl some s] hs cs ne some show ?thesis
      by (auto simp: path_ok_strip)
  next
    case other
    with "2.prems" "2.IH"(4) [OF other] show ?thesis by (auto split: if_splits)
  qed
qed

text \<open>
  Whatever \<open>parse_patch\<close> accepts is a nonempty list of well-formed changes:
  paths are nonempty and stripped; an added file's content is empty or ends with a newline and
  carries no hunks or move; a deletion carries nothing; an update has a hunk or a move target,
  every hunk holds a line or an end-of-file mark, and an orientation anchor is never blank.
\<close>

theorem parse_patch_well_formed:
  assumes "parse_patch text = Inr cs"
  shows "cs \<noteq> [] \<and> list_all change_ok cs"
  using assms
  by (auto simp: parse_patch_def Let_def split: if_splits sum.splits list.splits dest: parse_sections_ok)

definition patch_ex :: ustr where
  "patch_ex = join [10]
     [u ''*** Begin Patch'', u ''*** Add File: n.py'', u ''+one'', u ''*** Update File: o.py'',
      u ''@@ def f'', u '' ctx'', u ''-old'', u ''+new'', u ''*** End Patch'']"

definition changes_ex :: "file_change list" where
  "changes_ex =
     [\<lparr>ch_kind = ADD, ch_path = u ''n.py'', ch_move_to = None, ch_content = Some (u ''one'' @ [10]), ch_hunks = []\<rparr>,
      \<lparr>ch_kind = UPDATE, ch_path = u ''o.py'', ch_move_to = None, ch_content = None,
        ch_hunks = [\<lparr>old_lines = [u ''ctx'', u ''old''], new_lines = [u ''ctx'', u ''new''], is_eof = False,
                     change_context = Some (u ''def f'')\<rparr>]\<rparr>]"

theorem parse_patch_well_formed_witness:
  "parse_patch patch_ex = Inr changes_ex \<and> list_all change_ok changes_ex"
proof -
  have p: "parse_patch patch_ex = Inr changes_ex" by code_simp
  with parse_patch_well_formed [OF p] show ?thesis by blast
qed

section \<open>Writing changes down\<close>

text \<open>
  A printer for the documented envelope. It is not part of the code; it states which texts the
  grammar in the module's documentation describes.
\<close>

definition rows_of :: "ustr \<Rightarrow> ustr list" where
  "rows_of content = (if content = [] then [] else butlast (split_on 10 content))"

definition render_hunk :: "hunk \<Rightarrow> ustr list" where
  "render_hunk h =
     (CHANGE_MARKER @ (case change_context h of None \<Rightarrow> [] | Some c \<Rightarrow> c))
     # map ((@) (u ''-'')) (old_lines h) @ map ((@) (u ''+'')) (new_lines h)
     @ (if is_eof h then [END_OF_FILE] else [])"

definition render_change :: "file_change \<Rightarrow> ustr list" where
  "render_change c =
     (case ch_kind c of
        ADD \<Rightarrow> (ADD_FILE @ ch_path c)
               # map ((@) (u ''+'')) (case ch_content c of None \<Rightarrow> [] | Some t \<Rightarrow> rows_of t)
      | DELETE \<Rightarrow> [DELETE_FILE @ ch_path c]
      | UPDATE \<Rightarrow> (UPDATE_FILE @ ch_path c)
               # (case ch_move_to c of None \<Rightarrow> [] | Some m \<Rightarrow> [MOVE_TO @ m])
               @ concat (map render_hunk (ch_hunks c)))"

definition render_patch :: "file_change list \<Rightarrow> ustr" where
  "render_patch cs = join [10] ([BEGIN_PATCH] @ concat (map render_change cs) @ [END_PATCH]) @ [10]"

text \<open>No field holds a line break (the content of an added file has them as line ends).\<close>

definition hunk_plain :: "hunk \<Rightarrow> bool" where
  "hunk_plain h \<longleftrightarrow> list_all plain (old_lines h) \<and> list_all plain (new_lines h)
     \<and> (case change_context h of None \<Rightarrow> True | Some c \<Rightarrow> plain c)"

definition change_plain :: "file_change \<Rightarrow> bool" where
  "change_plain c \<longleftrightarrow> plain (ch_path c)
     \<and> (case ch_move_to c of None \<Rightarrow> True | Some m \<Rightarrow> plain m)
     \<and> (case ch_content c of None \<Rightarrow> True | Some t \<Rightarrow> 13 \<notin> set t)
     \<and> list_all hunk_plain (ch_hunks c)"

lemma marker_codes:
  "ADD_FILE = [42,42,42,32,65,100,100,32,70,105,108,101,58,32]"
  "DELETE_FILE = [42,42,42,32,68,101,108,101,116,101,32,70,105,108,101,58,32]"
  "UPDATE_FILE = [42,42,42,32,85,112,100,97,116,101,32,70,105,108,101,58,32]"
  "MOVE_TO = [42,42,42,32,77,111,118,101,32,116,111,58,32]"
  "END_OF_FILE = [42,42,42,32,69,110,100,32,111,102,32,70,105,108,101]"
  "CHANGE_MARKER = [64,64]"
  "BEGIN_PATCH = [42,42,42,32,66,101,103,105,110,32,80,97,116,99,104]"
  "END_PATCH = [42,42,42,32,69,110,100,32,80,97,116,99,104]"
  "u ''+'' = [43]" "u ''-'' = [45]" "u '' '' = [32]"
  by (simp_all add: markers u_def)

lemma ustrip_markers: "ustrip END_OF_FILE = END_OF_FILE" "ustrip BEGIN_PATCH = BEGIN_PATCH"
  "ustrip END_PATCH = END_PATCH"
  by code_simp+

lemma ustrip_sign: "a = 43 \<or> a = 45 \<Longrightarrow> ustrip (a # r) \<noteq> END_OF_FILE"
proof
  assume a: "a = 43 \<or> a = 45" and eq: "ustrip (a # r) = END_OF_FILE"
  have na: "\<not> uspace a" using a by (auto simp: uspace_def space_code_def)
  have "ustrip (a # r) \<noteq> [] \<and> hd (ustrip (a # r)) = a"
  proof -
    obtain t where t: "a # r = rstrip_by uspace (a # r) @ t" "\<forall>c \<in> set t. uspace c"
      using rstrip_by_prefix [of "a # r" uspace] by blast
    have "ustrip (a # r) = rstrip_by uspace (a # r)"
      using na by (simp add: ustrip_def strip_by_def lstrip_by_def)
    moreover from t na have "rstrip_by uspace (a # r) \<noteq> []" by (metis append_Nil list.set_intros(1))
    ultimately show ?thesis using t(1) by (metis hd_append2 list.sel(1))
  qed
  with eq a show False by (auto simp: marker_codes)
qed

definition starts_section :: "ustr list \<Rightarrow> bool" where
  "starts_section rest \<longleftrightarrow> rest = [] \<or> is_section_header (hd rest)"

lemma parse_add_rows_render:
  "starts_section rest \<Longrightarrow> parse_add_rows p (map ((@) (u ''+'')) rows @ rest) = Inr (rows, rest)"
proof (induction rows)
  case Nil
  then show ?case by (cases rest) (auto simp: starts_section_def)
next
  case (Cons r rows)
  then show ?case by (simp add: is_section_header_def marker_codes)
qed

lemma parse_hunk_olds:
  "parse_update_hunks p (map ((@) (u ''-'')) ls @ rest) hs (Some h) =
   parse_update_hunks p rest hs (Some (h\<lparr>old_lines := old_lines h @ ls\<rparr>))"
proof (induction ls arbitrary: h)
  case Nil
  show ?case by simp
next
  case (Cons l ls)
  then show ?case
    by (simp add: is_section_header_def marker_codes(1-4,6-) hunk_row_def current_hunk_def ustrip_sign)
qed

lemma parse_hunk_news:
  "parse_update_hunks p (map ((@) (u ''+'')) ls @ rest) hs (Some h) =
   parse_update_hunks p rest hs (Some (h\<lparr>new_lines := new_lines h @ ls\<rparr>))"
proof (induction ls arbitrary: h)
  case Nil
  show ?case by simp
next
  case (Cons l ls)
  then show ?case
    by (simp add: is_section_header_def marker_codes(1-4,6-) hunk_row_def current_hunk_def ustrip_sign)
qed

lemma parse_hunk_eof:
  "parse_update_hunks p ((if e then [END_OF_FILE] else []) @ rest) hs (Some h) =
   parse_update_hunks p rest hs (Some (h\<lparr>is_eof := is_eof h \<or> e\<rparr>))"
proof -
  have "\<not> is_section_header END_OF_FILE" "\<not> startswith END_OF_FILE CHANGE_MARKER" by code_simp+
  then show ?thesis by (simp add: ustrip_markers current_hunk_def)
qed

lemma marker_row:
  "\<not> is_section_header (CHANGE_MARKER @ s)" "startswith (CHANGE_MARKER @ s) CHANGE_MARKER"
  by (simp_all add: is_section_header_def marker_codes)

lemma context_render:
  "hunk_ok h \<Longrightarrow> or_none (ustrip (case change_context h of None \<Rightarrow> [] | Some c \<Rightarrow> c)) = change_context h"
  by (auto simp: hunk_ok_def path_ok_def or_none_def ustrip_def split: option.splits)

lemma parse_render_hunk:
  assumes "hunk_ok h"
  shows "parse_update_hunks p (render_hunk h @ rest) hs cur =
         parse_update_hunks p rest (flush_hunk hs cur) (Some h)"
proof -
  let ?h0 = "empty_hunk\<lparr>change_context := change_context h\<rparr>"
  have "?h0\<lparr>old_lines := old_lines ?h0 @ old_lines h\<rparr>\<lparr>new_lines := new_lines ?h0 @ new_lines h\<rparr>
      \<lparr>is_eof := is_eof ?h0 \<or> is_eof h\<rparr> = h"
    by (simp add: empty_hunk_def)
  then show ?thesis
    using context_render [OF assms]
    by (simp add: render_hunk_def marker_row parse_hunk_olds parse_hunk_news parse_hunk_eof)
qed

lemma flush_ok: "hunk_ok h \<Longrightarrow> flush_hunk hs (Some h) = hs @ [h]"
  by (auto simp: hunk_ok_def flush_hunk_def)

lemma parse_render_hunks:
  "list_all hunk_ok hs \<Longrightarrow> starts_section rest \<Longrightarrow>
   parse_update_hunks p (concat (map render_hunk hs) @ rest) acc cur = Inr (flush_hunk acc cur @ hs, rest)"
proof (induction hs arbitrary: acc cur)
  case Nil
  then show ?case by (cases rest) (auto simp: starts_section_def)
next
  case (Cons h hs)
  then show ?case by (simp add: parse_render_hunk flush_ok)
qed

lemma parse_render_move:
  assumes "case m of None \<Rightarrow> True | Some m \<Rightarrow> path_ok m"
    and "rest = [] \<or> \<not> startswith (hd rest) MOVE_TO"
  shows "parse_move ((case m of None \<Rightarrow> [] | Some m \<Rightarrow> [MOVE_TO @ m]) @ rest) = (m, rest)"
  using assms by (cases m; cases rest) (auto simp: path_ok_def or_none_def)

lemma header_no_move: "is_section_header l \<Longrightarrow> \<not> startswith l MOVE_TO"
  by (auto simp: is_section_header_def startswith_iff marker_codes)

lemma after_move_no_move:
  assumes "starts_section rest"
  shows "concat (map render_hunk hs) @ rest = [] \<or> \<not> startswith (hd (concat (map render_hunk hs) @ rest)) MOVE_TO"
proof (cases hs)
  case Nil
  with assms show ?thesis by (auto simp: starts_section_def header_no_move)
next
  case (Cons h hs')
  then show ?thesis by (simp add: render_hunk_def marker_codes)
qed

lemma header_rows:
  "startswith (ADD_FILE @ p) ADD_FILE" "\<not> startswith (DELETE_FILE @ p) ADD_FILE"
  "startswith (DELETE_FILE @ p) DELETE_FILE" "\<not> startswith (UPDATE_FILE @ p) ADD_FILE"
  "\<not> startswith (UPDATE_FILE @ p) DELETE_FILE" "startswith (UPDATE_FILE @ p) UPDATE_FILE"
  by (simp_all add: marker_codes)

lemma add_content_rows: "t = [] \<or> last t = 10 \<Longrightarrow> add_content (rows_of t) = t"
proof (cases "t = []")
  case True
  then show ?thesis by (simp add: add_content_def rows_of_def)
next
  case False
  assume "t = [] \<or> last t = 10"
  with False obtain s where t: "t = s @ [10]" by (metis append_butlast_last_id)
  have "split_on 10 (s @ [10]) = split_on 10 s @ [[]]"
    by (induction s) (auto split: list.splits)
  then have "rows_of t = split_on 10 s" by (simp add: rows_of_def t)
  then show ?thesis by (simp add: add_content_def t join_split_on)
qed

lemma parse_render_change:
  assumes ok: "change_ok c" and rest: "starts_section rest"
  shows "parse_sections (render_change c @ rest) = map_sum id ((#) c) (parse_sections rest)
     \<and> starts_section (render_change c @ rest)"
proof -
  obtain k p mv ct hs where c: "c = \<lparr>ch_kind = k, ch_path = p, ch_move_to = mv, ch_content = ct, ch_hunks = hs\<rparr>"
    by (cases c)
  from ok c have p: "ustrip p = p" "p \<noteq> []" by (auto simp: path_ok_def)
  show ?thesis
  proof (cases k)
    case ADD
    with ok c obtain t where t: "ct = Some t" "t = [] \<or> last t = 10" "mv = None" "hs = []"
      by (auto split: option.splits)
    from t(2) have "add_content (rows_of t) = t" by (rule add_content_rows)
    with ADD t p rest c show ?thesis
      by (simp add: render_change_def header_rows parse_add_rows_render Let_def
          starts_section_def is_section_header_def)
  next
    case DELETE
    with ok p c show ?thesis
      by (simp add: render_change_def header_rows Let_def starts_section_def is_section_header_def)
  next
    case UPDATE
    with ok c have m: "case mv of None \<Rightarrow> True | Some m \<Rightarrow> path_ok m" and h: "list_all hunk_ok hs"
      and ne: "\<not> (hs = [] \<and> mv = None)" and ct: "ct = None" by auto
    note pm = parse_render_move [OF m after_move_no_move [OF rest, of hs]]
    have ph: "parse_update_hunks p (concat (map render_hunk hs) @ rest) [] None = Inr (hs, rest)"
      using parse_render_hunks [OF h rest] by (simp add: flush_hunk_def)
    from UPDATE p pm ph ne ct c show ?thesis
      by (auto simp add: render_change_def header_rows Let_def starts_section_def is_section_header_def)
  qed
qed

lemma parse_render_sections:
  "list_all change_ok cs \<Longrightarrow> parse_sections (concat (map render_change cs)) = Inr cs
     \<and> starts_section (concat (map render_change cs))"
proof (induction cs)
  case Nil
  then show ?case by (simp add: starts_section_def)
next
  case (Cons c cs)
  then show ?case using parse_render_change [of c "concat (map render_change cs)"] by simp
qed

lemma plain_markers:
  "plain (ADD_FILE @ p) = plain p" "plain (DELETE_FILE @ p) = plain p" "plain (UPDATE_FILE @ p) = plain p"
  "plain (MOVE_TO @ p) = plain p" "plain (CHANGE_MARKER @ p) = plain p" "plain END_OF_FILE"
  "plain (u ''+'' @ p) = plain p" "plain (u ''-'' @ p) = plain p" "plain BEGIN_PATCH" "plain END_PATCH"
  by (simp_all add: plain_def marker_codes)

lemma split_on_subset: "w \<in> set (split_on c s) \<Longrightarrow> set w \<subseteq> set s"
  by (induction s arbitrary: w) (fastforce split: list.splits if_splits)+

lemma rows_plain:
  assumes "13 \<notin> set t"
  shows "list_all plain (rows_of t)"
  using assms split_on_parts [of _ 10 t] split_on_subset [of _ 10 t]
  by (force simp: rows_of_def plain_def list_all_iff dest: in_set_butlastD)

lemma render_hunk_plain: "hunk_plain h \<Longrightarrow> list_all plain (render_hunk h)"
  by (auto simp: render_hunk_def hunk_plain_def list_all_iff plain_markers plain_markers(5)[of "[]", simplified]
      plain_def[of "[]"] split: option.splits)

lemma render_change_plain: "change_plain c \<Longrightarrow> list_all plain (render_change c)"
  using rows_plain render_hunk_plain
  by (auto simp: render_change_def change_plain_def list_all_iff plain_markers
      split: change_kind.splits option.splits)

lemma replace_crlf_id: "13 \<notin> set t \<Longrightarrow> replace_crlf t = t"
  by (induction t rule: replace_crlf.induct) auto

lemma normalize_newlines_id: "13 \<notin> set t \<Longrightarrow> normalize_newlines t = t"
  by (auto simp: normalize_newlines_def replace_crlf_id intro: map_idI)

lemma set_join: "set (join sep ws) \<subseteq> \<Union> (set ` set ws) \<union> set sep"
  by (induction sep ws rule: join.induct) auto

lemma split_on_snoc: "split_on c (s @ [c]) = split_on c s @ [[]]"
  by (induction s) (auto split: list.splits)

text \<open>
  Claim C36. Every nonempty list of well-formed changes whose texts hold no line
  breaks can be written as a patch envelope, and \<open>parse_patch\<close> reads exactly that list back:
  paths, move targets, anchors, removed and added lines in order, end-of-file marks and the
  content of new files.
\<close>

theorem parse_render_roundtrip:
  assumes ne: "cs \<noteq> []" and ok: "list_all change_ok cs" and pl: "list_all change_plain cs"
  shows "parse_patch (render_patch cs) = Inr cs"
proof -
  define body where "body = concat (map render_change cs)"
  define ls where "ls = BEGIN_PATCH # body @ [END_PATCH]"
  have plain_ls: "list_all plain ls"
    using pl render_change_plain by (auto simp: ls_def body_def list_all_iff plain_markers)
  have shape: "render_patch cs = join [10] ls @ [10]" by (simp add: render_patch_def ls_def body_def)
  have n13: "13 \<notin> set (render_patch cs)"
    using plain_ls set_join [of "[10]" ls] by (auto simp: shape list_all_iff plain_def)
  have parts: "split_on 10 (render_patch cs) = ls @ [[]]"
    unfolding shape split_on_snoc
    using plain_ls by (subst split_on_join) (auto simp: list_all_iff plain_def ls_def)
  have "42 \<in> set (render_patch cs)"
    by (cases "body @ [END_PATCH]") (auto simp: shape ls_def marker_codes)
  moreover have "\<not> uspace 42" by (simp add: uspace_def space_code_def)
  ultimately have nonblank: "ustrip (render_patch cs) \<noteq> []"
    by (auto simp: ustrip_def strip_by_eq_Nil)
  have "parse_sections body = Inr cs"
    using parse_render_sections [OF ok] by (simp add: body_def)
  with ne nonblank show ?thesis
    by (simp add: parse_patch_def normalize_newlines_id [OF n13] parts drop_final_empty_def Let_def)
      (simp add: ls_def ustrip_markers split: list.splits)
qed

theorem parse_render_roundtrip_witness:
  "changes_ex \<noteq> [] \<and> list_all change_ok changes_ex \<and> list_all change_plain changes_ex
   \<and> parse_patch (render_patch changes_ex) = Inr changes_ex"
proof -
  have "changes_ex \<noteq> []" and "list_all change_ok changes_ex" and "list_all change_plain changes_ex"
    by (simp add: changes_ex_def, code_simp, code_simp)
  with parse_render_roundtrip show ?thesis by blast
qed

end
