(* ===== verification/Fnmatch.thy ===== *)
theory Fnmatch
  imports Prelude
begin

text \<open>
  The standard library's \<open>fnmatch.fnmatch\<close> on a POSIX host (names are compared as they are), the
  matcher behind every tool-name and path pattern of the permission modules, and the tool-name
  rule \<open>_tool_pattern_matches\<close> of \<open>backend/permissions/checker.py\<close> (which
  \<open>backend/permissions/content_rules.py\<close> repeats as \<open>_tool_rule_matches\<close>).
\<close>

section \<open>Patterns\<close>

datatype glob_piece = Star | AnyChar | Lit int | Class bool ustr  \<comment> \<open>negated?, members and ranges\<close>

text \<open>The text of a bracket expression up to its closing bracket, and what follows it.\<close>

fun until_close :: "ustr \<Rightarrow> (ustr \<times> ustr) option" where
  "until_close [] = None"
| "until_close (c # s) =
     (if c = 93 then Some ([], s)
      else (case until_close s of None \<Rightarrow> None | Some (inside, rest) \<Rightarrow> Some (c # inside, rest)))"

text \<open>A bracket directly after the opening one (or after its \<open>!\<close>) is a member, not the end.\<close>

fun bracket_body :: "ustr \<Rightarrow> (ustr \<times> ustr) option" where
  "bracket_body [] = None"
| "bracket_body (c # s) =
     (if c = 93 then map_option (\<lambda>(inside, rest). (93 # inside, rest)) (until_close s)
      else until_close (c # s))"

fun bracket :: "ustr \<Rightarrow> (glob_piece \<times> ustr) option" where
  "bracket [] = None"
| "bracket (c # s) =
     (if c = 33 then map_option (\<lambda>(inside, rest). (Class True inside, rest)) (bracket_body s)
      else map_option (\<lambda>(inside, rest). (Class False inside, rest)) (bracket_body (c # s)))"

lemma until_close_length: "until_close s = Some (i, r) \<Longrightarrow> length r < length s"
  by (induction s arbitrary: i) (auto split: if_splits option.splits)

lemma bracket_body_length: "bracket_body s = Some (i, r) \<Longrightarrow> length r < length s"
proof (cases s)
  case (Cons c t)
  assume eq: "bracket_body s = Some (i, r)"
  show ?thesis
  proof (cases "c = 93")
    case True
    with eq Cons obtain inside where "until_close t = Some (inside, r)" by auto
    with until_close_length [OF this] Cons show ?thesis by simp
  next
    case False
    with eq Cons have "until_close s = Some (i, r)" by simp
    then show ?thesis by (rule until_close_length)
  qed
qed simp

lemma bracket_length: "bracket s = Some (p, r) \<Longrightarrow> length r < length s"
proof (cases s)
  case (Cons c t)
  assume eq: "bracket s = Some (p, r)"
  show ?thesis
  proof (cases "c = 33")
    case True
    with eq Cons obtain inside where "bracket_body t = Some (inside, r)" by auto
    with bracket_body_length [OF this] Cons show ?thesis by simp
  next
    case False
    with eq Cons obtain inside where "bracket_body s = Some (inside, r)"
      by (auto simp del: bracket_body.simps)
    then show ?thesis by (rule bracket_body_length)
  qed
qed simp

function glob_pieces :: "ustr \<Rightarrow> glob_piece list" where
  "glob_pieces [] = []"
| "glob_pieces (c # s) =
     (if c = 42 then Star # glob_pieces s
      else if c = 63 then AnyChar # glob_pieces s
      else if c = 91 then
        (case bracket s of
           None \<Rightarrow> Lit 91 # glob_pieces s
         | Some (p, rest) \<Rightarrow> p # glob_pieces rest)
      else Lit c # glob_pieces s)"
  by pat_completeness auto
termination
  by (relation "measure length") (auto dest: bracket_length)

fun class_has :: "ustr \<Rightarrow> int \<Rightarrow> bool" where
  "class_has (lo # d # hi # r) c =
     (if d = 45 then (lo \<le> c \<and> c \<le> hi) \<or> class_has r c else lo = c \<or> class_has (d # hi # r) c)"
| "class_has (m # r) c = (m = c \<or> class_has r c)"
| "class_has [] c = False"

fun piece_matches :: "glob_piece \<Rightarrow> int \<Rightarrow> bool" where
  "piece_matches Star c = True"
| "piece_matches AnyChar c = True"
| "piece_matches (Lit a) c = (a = c)"
| "piece_matches (Class negated ms) c = (negated \<noteq> class_has ms c)"

fun glob_match :: "glob_piece list \<Rightarrow> ustr \<Rightarrow> bool" where
  "glob_match [] s = (s = [])"
| "glob_match (Star # ps) [] = glob_match ps []"
| "glob_match (Star # ps) (c # s) = (glob_match ps (c # s) \<or> glob_match (Star # ps) s)"
| "glob_match (p # ps) [] = False"
| "glob_match (p # ps) (c # s) = (piece_matches p c \<and> glob_match ps s)"

definition fnmatch :: "ustr \<Rightarrow> ustr \<Rightarrow> bool" where
  "fnmatch name pat = glob_match (glob_pieces pat) name"

definition no_meta :: "ustr \<Rightarrow> bool" where
  "no_meta p \<longleftrightarrow> 42 \<notin> set p \<and> 63 \<notin> set p \<and> 91 \<notin> set p"

lemma glob_pieces_literal: "no_meta p \<Longrightarrow> glob_pieces (p @ q) = map Lit p @ glob_pieces q"
  by (induction p) (auto simp: no_meta_def)

lemma glob_match_literal: "glob_match (map Lit p @ ps) s \<longleftrightarrow> (\<exists>t. s = p @ t \<and> glob_match ps t)"
proof (induction p arbitrary: s)
  case Nil
  show ?case by simp
next
  case (Cons a p)
  then show ?case by (cases s) auto
qed

lemma glob_match_star: "glob_match [Star] s"
  by (induction s) auto

lemma fnmatch_literal: "no_meta p \<Longrightarrow> fnmatch s p \<longleftrightarrow> s = p"
  using glob_pieces_literal [of p "[]"] glob_match_literal [of p "[]" s] by (simp add: fnmatch_def)

lemma fnmatch_prefix: "no_meta p \<Longrightarrow> fnmatch s (p @ u ''*'') \<longleftrightarrow> startswith s p"
  by (simp add: fnmatch_def glob_pieces_literal glob_match_literal startswith_iff u_def glob_match_star)

lemma fnmatch_everything: "fnmatch s (u ''*'')"
  by (simp add: fnmatch_def u_def glob_match_star)

section \<open>Tool-name patterns\<close>

definition tool_pattern_matches :: "ustr \<Rightarrow> ustr \<Rightarrow> bool" where
  "tool_pattern_matches tool_name pattern =
     (let p = ustrip pattern in
      if fnmatch tool_name p then True
      else if startswith p (u ''mcp__'') \<and> 42 \<notin> set p then startswith tool_name (p @ u ''__'')
      else False)"

text \<open>
  A server rule is a boundary: for a pattern \<open>mcp__server\<close> without glob
  characters, exactly the tool of that name and the tools \<open>mcp__server__...\<close> match. A tool of
  another server whose name merely starts with the same letters never does.
\<close>

theorem server_rule_is_a_boundary:
  assumes p: "no_meta p" "ustrip p = p" "startswith p (u ''mcp__'')"
  shows "(tool_pattern_matches t p \<longleftrightarrow> t = p \<or> startswith t (p @ u ''__''))
       \<and> (tool_pattern_matches (p @ rest) p \<longleftrightarrow> rest = [] \<or> startswith rest (u ''__''))"
proof -
  from p(1) have "42 \<notin> set p" by (simp add: no_meta_def)
  then have main: "tool_pattern_matches t p \<longleftrightarrow> t = p \<or> startswith t (p @ u ''__'')" for t
    using p by (simp add: tool_pattern_matches_def Let_def fnmatch_literal)
  then show ?thesis by (auto simp: startswith_iff)
qed

theorem server_rule_is_a_boundary_witness:
  "tool_pattern_matches (u ''mcp__git__push'') (u ''mcp__git'')
   \<and> \<not> tool_pattern_matches (u ''mcp__github__push'') (u ''mcp__git'')"
proof -
  have p: "no_meta (u ''mcp__git'')" "ustrip (u ''mcp__git'') = u ''mcp__git''"
    "startswith (u ''mcp__git'') (u ''mcp__'')" by code_simp+
  show ?thesis
    using server_rule_is_a_boundary [OF p, of "u ''mcp__git__push''"]
      server_rule_is_a_boundary [OF p, of "u ''mcp__github__push''"]
    by (simp add: u_def)
qed

end
