(* ===== verification/ContentRules.thy ===== *)
theory ContentRules
  imports Prelude Fnmatch
begin

text \<open>
  Content-level permission rules: \<open>backend/permissions/content_rules.py\<close>, with the command
  readings of \<open>backend/permissions/powershell_ast.py\<close>.

  A rule such as \<open>run_command(npm run:*)\<close> is parsed to a \<open>content_rule\<close> and matched against a
  tool call. The host is POSIX (\<open>_BACKSLASH_ESCAPES\<close> is true, \<open>fnmatch\<close> compares names as they
  are). The arguments of a call are a map from names to the text the code reads out of them
  with \<open>str\<close>; a missing, empty or falsy argument is \<open>None\<close> or the empty text. \<open>ValueError\<close> is a
  value of \<open>rule_error\<close>. The three regular expressions are written out as the deterministic
  scans they describe: their alternatives start with different words and their repeated classes
  are disjoint from what follows, except in the \<open>env\<close> alternative, whose last blank run has to
  serve twice (\<open>env_assignments\<close>).
\<close>

section \<open>Rules\<close>

record content_rule =
  tool_glob :: ustr
  rule_content :: "ustr option"
  rule_raw :: ustr

datatype rule_error =
  LegacyToolName ustr | ProtocolCommandName ustr | InvalidContentRule ustr

definition legacy_tool_names :: "ustr list" where
  "legacy_tool_names = [u ''bash'', u ''edit'', u ''read'', u ''write'', u ''shell'']"

definition protocol_command_names :: "ustr list" where
  "protocol_command_names = [u ''terminal.exec'', u ''terminal_exec'']"

definition resolve_tool :: "ustr \<Rightarrow> rule_error + ustr" where
  "resolve_tool token =
     (let clean = ustrip token in
      if ulower clean \<in> set legacy_tool_names then Inl (LegacyToolName clean)
      else if ulower clean \<in> set protocol_command_names then Inl (ProtocolCommandName clean)
      else Inr clean)"

text \<open>\<open>_RULE_RE\<close>: a tool token, blanks, and optionally a parenthesised content.\<close>

definition token_head :: "int \<Rightarrow> bool" where
  "token_head c \<longleftrightarrow> ualpha_ascii c \<or> c = 95"

definition token_char :: "int \<Rightarrow> bool" where
  "token_char c \<longleftrightarrow> uword c \<or> c = 42 \<or> c = 63 \<or> c = 46 \<or> c = 45"

definition rule_re :: "ustr \<Rightarrow> (ustr \<times> ustr option) option" where
  "rule_re s =
     (if s = [] \<or> \<not> token_head (hd s) then None
      else
       (let token = hd s # takeWhile token_char (tl s);
            rest = dropWhile uspace (dropWhile token_char (tl s)) in
        if rest = [] then Some (token, None)
        else if 2 \<le> length rest \<and> hd rest = 40 \<and> last rest = 41 then
          Some (token, Some (butlast (tl rest)))
        else None))"

definition parse_content_rule :: "ustr \<Rightarrow> rule_error + content_rule option" where
  "parse_content_rule raw =
     (let s = ustrip raw in
      if s = [] \<or> startswith s (u ''#'') then Inr None
      else (case rule_re s of
              None \<Rightarrow> Inr None
            | Some (token, content) \<Rightarrow>
                (case resolve_tool token of
                   Inl e \<Rightarrow> Inl e
                 | Inr glob \<Rightarrow>
                     (case content of
                        None \<Rightarrow> Inr (Some \<lparr>tool_glob = glob, rule_content = None, rule_raw = raw\<rparr>)
                      | Some c \<Rightarrow>
                          (if ustrip c = [] then
                             Inr (Some \<lparr>tool_glob = glob, rule_content = None, rule_raw = raw\<rparr>)
                           else
                             Inr (Some \<lparr>tool_glob = glob, rule_content = Some (ustrip c),
                                        rule_raw = raw\<rparr>))))))"

fun parse_content_rules :: "ustr list \<Rightarrow> rule_error + content_rule list" where
  "parse_content_rules [] = Inr []"
| "parse_content_rules (raw # raws) =
     (let t = ustrip raw in
      if t = [] \<or> startswith t (u ''#'') then parse_content_rules raws
      else (case parse_content_rule t of
              Inl e \<Rightarrow> Inl e
            | Inr None \<Rightarrow> Inl (InvalidContentRule raw)
            | Inr (Some rule) \<Rightarrow> map_sum id (Cons rule) (parse_content_rules raws)))"

section \<open>Tools and their content\<close>

type_synonym call_args = "string \<Rightarrow> ustr option"

definition is_command_tool :: "ustr \<Rightarrow> bool" where
  "is_command_tool t \<longleftrightarrow> (\<exists>p \<in> set [u ''run_command'', u ''terminal_*'']. fnmatch t p)"

definition is_file_tool :: "ustr \<Rightarrow> bool" where
  "is_file_tool t \<longleftrightarrow>
     (\<exists>p \<in> set [u ''read_file'', u ''write_file'', u ''edit_file'', u ''save_*'']. fnmatch t p)"

fun first_text :: "call_args \<Rightarrow> string list \<Rightarrow> ustr" where
  "first_text args [] = []"
| "first_text args (k # ks) =
     (case args k of Some v \<Rightarrow> if v = [] then first_text args ks else v | None \<Rightarrow> first_text args ks)"

definition extract_content :: "ustr \<Rightarrow> call_args \<Rightarrow> ustr" where
  "extract_content tool args =
     (if is_command_tool tool then first_text args [''command'', ''cmd'']
      else if is_file_tool tool then first_text args [''file_path'', ''path'', ''directory'']
      else [])"

definition unsafe_command_wrappers :: "ustr list" where
  "unsafe_command_wrappers = map u
     [''bash'', ''sh'', ''zsh'', ''dash'', ''ksh'', ''fish'', ''csh'', ''tcsh'',
      ''cmd'', ''cmd.exe'', ''powershell'', ''powershell.exe'', ''pwsh'', ''pwsh.exe'',
      ''env'', ''sudo'', ''doas'', ''pkexec'', ''xargs'', ''timeout'', ''nice'', ''nohup'',
      ''time'', ''stdbuf'', ''setsid'', ''command'', ''builtin'']"

text \<open>
  \<open>split(maxsplit=1)[0]\<close> of a blank prefix raises \<open>IndexError\<close>: \<open>None\<close>.
\<close>

definition after_last_slash :: "ustr \<Rightarrow> ustr" where
  "after_last_slash s = rev (takeWhile (\<lambda>c. c \<noteq> 47 \<and> c \<noteq> 92) (rev s))"

definition command_prefix_uses_unsafe_wrapper :: "ustr \<Rightarrow> bool option" where
  "command_prefix_uses_unsafe_wrapper prefix =
     (let s = ustrip prefix in
      if s = [] then None
      else
       (let first = strip_by (\<lambda>c. c = 39 \<or> c = 34) (takeWhile (\<lambda>c. \<not> uspace c) s) in
        Some (first \<noteq> [] \<and> ulower (after_last_slash first) \<in> set unsafe_command_wrappers)))"

section \<open>Readings of a command\<close>

definition powershell_char :: "int \<Rightarrow> int" where
  "powershell_char c =
     (if c \<in> set [8216, 8217, 8218, 8219] then 39
      else if c \<in> set [8220, 8221, 8222] then 34
      else if c \<in> set [8211, 8212, 8213] then 45
      else c)"

definition powershell_equivalent :: "ustr \<Rightarrow> ustr" where
  "powershell_equivalent s =
     map powershell_char (map (\<lambda>c. if c = 13 then 10 else c) (str_replace [13, 10] [10] s))"

definition command_readings :: "ustr \<Rightarrow> ustr list" where
  "command_readings c =
     (if powershell_equivalent c = c then [c] else [c, powershell_equivalent c])"

section \<open>Shell control characters\<close>

definition toggle_quote :: "int option \<Rightarrow> int \<Rightarrow> int option" where
  "toggle_quote q c = (if q = Some c then None else if q = None then Some c else q)"

fun unquoted_control :: "int option \<Rightarrow> bool \<Rightarrow> ustr \<Rightarrow> bool" where
  "unquoted_control q esc [] = False"
| "unquoted_control q esc (c # s) =
     (if esc then unquoted_control q False s
      else if c = 92 \<and> q \<noteq> Some 39 then unquoted_control q True s
      else if c = 39 \<or> c = 34 then unquoted_control (toggle_quote q c) False s
      else if q \<noteq> Some 39 \<and> (c = 96 \<or> (c = 36 \<and> s \<noteq> [] \<and> hd s = 40)) then True
      else if q = None \<and> c \<in> set [59, 124, 38, 10, 60, 62, 40, 41] then True
      else unquoted_control q False s)"

definition contains_unquoted_shell_control :: "ustr \<Rightarrow> bool" where
  "contains_unquoted_shell_control command = unquoted_control None False command"

definition subcommand_separators :: "int list" where
  "subcommand_separators = [59, 124, 38, 96, 10, 60, 62, 40, 41]"

definition joiner_char :: "int \<Rightarrow> bool" where
  "joiner_char c \<longleftrightarrow> c = 124 \<or> c = 38 \<or> c = 32 \<or> c = 9"

text \<open>
  The loop of \<open>_split_unquoted_subcommands\<close>: finished parts, the current part, the quote, the
  stack of enclosing substitutions (closing character, quote and part of the parent) and the
  escape flag. The end of the text leaves the parents that are still on the stack out.
\<close>

function split_loop ::
    "ustr list \<Rightarrow> ustr \<Rightarrow> int option \<Rightarrow> (int \<times> int option \<times> ustr) list \<Rightarrow> bool \<Rightarrow> ustr \<Rightarrow> ustr list" where
  "split_loop parts cur q nested esc [] = parts @ [cur]"
| "split_loop parts cur q nested esc (c # s) =
     (if esc then split_loop parts (cur @ [c]) q nested False s
      else if c = 92 \<and> q \<noteq> Some 39 then split_loop parts (cur @ [c]) q nested True s
      else if nested \<noteq> [] \<and> q = None \<and> c = fst (hd nested) then
        split_loop (parts @ [cur]) (snd (snd (hd nested))) (fst (snd (hd nested))) (tl nested) False s
      else if q \<noteq> Some 39 \<and> c = 36 \<and> s \<noteq> [] \<and> hd s = 40 then
        split_loop parts [] None ((41, q, cur) # nested) False (tl s)
      else if (c = 96 \<and> q \<noteq> Some 39) \<or> (c = 40 \<and> q = None) then
        split_loop parts [] None ((if c = 96 then 96 else 41, q, cur) # nested) False s
      else if c = 39 \<or> c = 34 then split_loop parts (cur @ [c]) (toggle_quote q c) nested False s
      else if q = None \<and> c \<in> set subcommand_separators then
        (if c = 59 \<or> c = 10 then split_loop (parts @ [cur]) [] q nested False s
         else split_loop (parts @ [cur]) [] q nested False (dropWhile joiner_char s))
      else split_loop parts (cur @ [c]) q nested False s)"
  by pat_completeness auto
termination
  by (relation "measure (\<lambda>(parts, cur, q, nested, esc, s). length s)")
    (auto simp: le_imp_less_Suc length_dropWhile_le)

definition split_unquoted_subcommands :: "ustr \<Rightarrow> ustr list" where
  "split_unquoted_subcommands command =
     filter (\<lambda>p. p \<noteq> []) (map ustrip (split_loop [] [] None [] False command))"

section \<open>Wrappers and environment prefixes\<close>

definition after_lit :: "string \<Rightarrow> ustr \<Rightarrow> ustr option" where
  "after_lit w s = (if startswith s (u w) then Some (drop (length w) s) else None)"

definition after_spaces :: "ustr \<Rightarrow> ustr option" where
  "after_spaces s = (if s \<noteq> [] \<and> uspace (hd s) then Some (dropWhile uspace s) else None)"

definition after_word :: "ustr \<Rightarrow> ustr option" where
  "after_word s = (if s \<noteq> [] \<and> \<not> uspace (hd s) then Some (dropWhile (\<lambda>c. \<not> uspace c) s) else None)"

text \<open>\<open>[A-Za-z_]\w*=\S*\<close>\<close>

definition after_assignment :: "ustr \<Rightarrow> ustr option" where
  "after_assignment s =
     (if s \<noteq> [] \<and> token_head (hd s) then
        (let r = dropWhile uword (tl s) in
         if r \<noteq> [] \<and> hd r = 61 then Some (dropWhile (\<lambda>c. \<not> uspace c) r) else None)
      else None)"

lemma after_spaces_length: "after_spaces s = Some r \<Longrightarrow> length r < length s"
  by (cases s) (auto simp: after_spaces_def length_dropWhile_le le_imp_less_Suc split: if_splits)

lemma after_word_length: "after_word s = Some r \<Longrightarrow> length r < length s"
  by (cases s) (auto simp: after_word_def length_dropWhile_le le_imp_less_Suc split: if_splits)

lemma after_assignment_length:
  assumes "after_assignment s = Some r"
  shows "length r < length s"
proof -
  obtain c t where s: "s = c # t"
    using assms by (cases s) (auto simp: after_assignment_def)
  have "r = dropWhile (\<lambda>c. \<not> uspace c) (dropWhile uword t)"
    using assms s by (auto simp: after_assignment_def Let_def split: if_splits)
  then have "length r \<le> length t"
    using length_dropWhile_le [of "\<lambda>c. \<not> uspace c" "dropWhile uword t"] length_dropWhile_le [of uword t]
    by simp
  then show ?thesis using s by simp
qed

text \<open>
  \<open>(?:[A-Za-z_]\w*=\S*\s+)+\s+\<close>: as many assignments as there are; the trailing \<open>\s+\<close> then takes
  its blank from the last assignment that is followed by at least two.
\<close>

function env_assignments :: "ustr option \<Rightarrow> ustr \<Rightarrow> ustr option" where
  "env_assignments best s =
     (case after_assignment s of
        None \<Rightarrow> best
      | Some r \<Rightarrow>
          (case after_spaces r of
             None \<Rightarrow> best
           | Some r' \<Rightarrow> env_assignments (if length r' + 2 \<le> length r then Some r' else best) r'))"
  by pat_completeness auto
termination
  by (relation "measure (\<lambda>(best, s). length s)")
    (auto intro: less_trans [OF after_spaces_length after_assignment_length])

declare env_assignments.simps [simp del]

fun first_some :: "'a option list \<Rightarrow> 'a option" where
  "first_some [] = None"
| "first_some (Some x # xs) = Some x"
| "first_some (None # xs) = first_some xs"

definition word_wrapper :: "string \<Rightarrow> ustr \<Rightarrow> ustr option" where
  "word_wrapper w s = Option.bind (after_lit w s) after_spaces"

definition arg_wrapper :: "string \<Rightarrow> ustr \<Rightarrow> ustr option" where
  "arg_wrapper w s =
     Option.bind (word_wrapper w s) (\<lambda>r. Option.bind (after_word r) after_spaces)"

definition safe_wrapper_re :: "ustr \<Rightarrow> ustr option" where
  "safe_wrapper_re s = first_some
     [arg_wrapper ''timeout'' s, arg_wrapper ''nice'' s, word_wrapper ''nohup'' s,
      word_wrapper ''time'' s, arg_wrapper ''stdbuf'' s, word_wrapper ''setsid'' s,
      Option.bind (word_wrapper ''env'' s) (env_assignments None),
      word_wrapper ''command'' s, word_wrapper ''builtin'' s]"

definition env_assign_re :: "ustr \<Rightarrow> ustr option" where
  "env_assign_re s = Option.bind (after_assignment s) after_spaces"

datatype stripper = SafeWrapper | EnvAssign

definition strip_with :: "stripper \<Rightarrow> ustr \<Rightarrow> ustr" where
  "strip_with st s =
     (case (case st of SafeWrapper \<Rightarrow> safe_wrapper_re s | EnvAssign \<Rightarrow> env_assign_re s) of
        Some r \<Rightarrow> ustrip r
      | None \<Rightarrow> ustrip s)"

lemma length_ustrip: "length (ustrip s) \<le> length s"
proof -
  have "length (ustrip s) \<le> length (dropWhile uspace s)"
    using length_dropWhile_le [of uspace "rev (dropWhile uspace s)"]
    by (simp add: ustrip_def strip_by_def lstrip_by_def rstrip_by_def)
  then show ?thesis using length_dropWhile_le [of uspace s] by linarith
qed

lemma ustrip_shorter: "ustrip s \<noteq> s \<Longrightarrow> length (ustrip s) < length s"
proof (rule ccontr)
  assume ne: "ustrip s \<noteq> s" and "\<not> length (ustrip s) < length s"
  with length_ustrip [of s] have eq: "length (ustrip s) = length s" by simp
  have l1: "length (ustrip s) \<le> length (dropWhile uspace s)"
    using length_dropWhile_le [of uspace "rev (dropWhile uspace s)"]
    by (simp add: ustrip_def strip_by_def lstrip_by_def rstrip_by_def)
  with eq have l2: "length (dropWhile uspace s) = length s"
    using length_dropWhile_le [of uspace s] by linarith
  have d1: "dropWhile uspace s = s"
    by (metis l2 append_Nil length_0_conv add_cancel_right_left length_append takeWhile_dropWhile_id)
  have "length (dropWhile uspace (rev s)) = length (rev s)"
    using eq d1 by (simp add: ustrip_def strip_by_def lstrip_by_def rstrip_by_def)
  then have "dropWhile uspace (rev s) = rev s"
    by (metis append_Nil length_0_conv add_cancel_right_left length_append takeWhile_dropWhile_id)
  then have "ustrip s = s"
    using d1 by (simp add: ustrip_def strip_by_def lstrip_by_def rstrip_by_def)
  with ne show False by simp
qed

lemma bind_length:
  "Option.bind x f = Some r \<Longrightarrow> (\<And>y. x = Some y \<Longrightarrow> length y \<le> n)
   \<Longrightarrow> (\<And>y z. f y = Some z \<Longrightarrow> length z < length y) \<Longrightarrow> length r < n"
  by (cases x) fastforce+

lemma after_lit_length: "after_lit w s = Some r \<Longrightarrow> length r \<le> length s"
  by (auto simp: after_lit_def split: if_splits)

lemma word_wrapper_length: "word_wrapper w s = Some r \<Longrightarrow> length r < length s"
  unfolding word_wrapper_def
  by (erule bind_length) (auto dest: after_lit_length after_spaces_length)

lemma arg_wrapper_length:
  assumes "arg_wrapper w s = Some r"
  shows "length r < length s"
proof -
  from assms obtain a b where "word_wrapper w s = Some a" "after_word a = Some b" "after_spaces b = Some r"
    by (auto simp: arg_wrapper_def bind_eq_Some_conv)
  then show ?thesis
    using word_wrapper_length after_word_length after_spaces_length by (meson less_trans)
qed

lemma env_assignments_length:
  "env_assignments best s = Some r \<Longrightarrow> (\<And>b. best = Some b \<Longrightarrow> length b \<le> n) \<Longrightarrow> length s \<le> n
   \<Longrightarrow> length r \<le> n"
proof (induction best s rule: env_assignments.induct)
  case (1 best s)
  show ?case
  proof (cases "\<exists>r1 r2. after_assignment s = Some r1 \<and> after_spaces r1 = Some r2")
    case False
    with 1(2,3) show ?thesis by (subst (asm) env_assignments.simps) (auto split: option.splits)
  next
    case True
    then obtain r1 r2 where r: "after_assignment s = Some r1" "after_spaces r1 = Some r2" by blast
    have "length r2 < length s"
      using r after_assignment_length after_spaces_length by (meson less_trans)
    have step: "env_assignments (if length r2 + 2 \<le> length r1 then Some r2 else best) r2 = Some r"
      using 1(2) r by (simp add: env_assignments.simps [of best s])
    have "length b \<le> n" if "(if length r2 + 2 \<le> length r1 then Some r2 else best) = Some b" for b
      using that 1(3) [of b] 1(4) \<open>length r2 < length s\<close> by (simp split: if_splits)
    from 1(1) [OF r step this] show ?thesis
      using 1(4) \<open>length r2 < length s\<close> by linarith
  qed
qed

lemma first_some_mem: "first_some xs = Some r \<Longrightarrow> Some r \<in> set xs"
  by (induction xs rule: first_some.induct) auto

lemma safe_wrapper_re_length:
  assumes "safe_wrapper_re s = Some r"
  shows "length r < length s"
proof -
  have env: "length r < length s" if "Option.bind (word_wrapper ''env'' s) (env_assignments None) = Some r"
  proof -
    from that obtain a where a: "word_wrapper ''env'' s = Some a" "env_assignments None a = Some r"
      by (auto simp: bind_eq_Some_conv)
    from a(2) have "length r \<le> length a" by (rule env_assignments_length) simp_all
    with word_wrapper_length [OF a(1)] show ?thesis by simp
  qed
  from first_some_mem [OF assms [unfolded safe_wrapper_re_def]] show ?thesis
    using env by (auto dest!: arg_wrapper_length word_wrapper_length sym [of "Some r"])
qed

lemma env_assign_re_length: "env_assign_re s = Some r \<Longrightarrow> length r < length s"
  by (auto simp: env_assign_re_def bind_eq_Some_conv
      intro: less_trans [OF after_spaces_length after_assignment_length])

text \<open>A stripped candidate that is not the candidate itself is shorter.\<close>

lemma strip_with_shorter: "strip_with st s \<noteq> s \<Longrightarrow> length (strip_with st s) < length s"
  using length_ustrip ustrip_shorter safe_wrapper_re_length env_assign_re_length
  by (fastforce simp: strip_with_def split: option.splits stripper.splits
      intro: le_less_trans)

text \<open>
  The candidate closure. One round tries every stripper on every candidate of the last round and
  appends what is nonempty and new; \<open>seen\<close> is the set of the candidates themselves.
\<close>

definition add_stripped :: "ustr list \<Rightarrow> ustr \<Rightarrow> stripper \<Rightarrow> ustr list" where
  "add_stripped cands c st =
     (let s = strip_with st c in if s \<noteq> [] \<and> s \<notin> set cands then cands @ [s] else cands)"

definition strip_round :: "stripper list \<Rightarrow> ustr list \<Rightarrow> ustr list \<Rightarrow> ustr list" where
  "strip_round sts cands frontier = foldl (\<lambda>acc c. foldl (\<lambda>a st. add_stripped a c st) acc sts) cands frontier"

lemma add_stripped_extends:
  "\<exists>new. add_stripped cands c st = cands @ new
     \<and> (\<forall>x \<in> set new. c \<in> set cands \<longrightarrow> x = strip_with st c \<and> length x < length c \<and> x \<noteq> [])"
proof (cases "strip_with st c = c")
  case True
  then show ?thesis by (auto simp: add_stripped_def)
next
  case False
  then show ?thesis using strip_with_shorter [OF False] by (auto simp: add_stripped_def Let_def)
qed

lemma strip_candidate_extends:
  "c \<in> set cands \<Longrightarrow> \<exists>new. foldl (\<lambda>a st. add_stripped a c st) cands sts = cands @ new
     \<and> (\<forall>x \<in> set new. length x < length c \<and> x \<noteq> [] \<and> (\<exists>st \<in> set sts. x = strip_with st c))"
proof (induction sts arbitrary: cands)
  case Nil
  show ?case by simp
next
  case (Cons st sts)
  obtain new where new: "add_stripped cands c st = cands @ new"
    "\<forall>x \<in> set new. x = strip_with st c \<and> length x < length c \<and> x \<noteq> []"
    using add_stripped_extends [of cands c st] Cons.prems by blast
  from Cons.IH [of "cands @ new"] Cons.prems
  obtain new' where "foldl (\<lambda>a st. add_stripped a c st) (cands @ new) sts = (cands @ new) @ new'"
    "\<forall>x \<in> set new'. length x < length c \<and> x \<noteq> [] \<and> (\<exists>st \<in> set sts. x = strip_with st c)" by auto
  with new show ?case by (intro exI [of _ "new @ new'"]) auto
qed

lemma strip_round_extends:
  "set frontier \<subseteq> set cands \<Longrightarrow> \<exists>new. strip_round sts cands frontier = cands @ new
     \<and> (\<forall>x \<in> set new. \<exists>c \<in> set frontier. length x < length c \<and> x \<noteq> [] \<and> (\<exists>st \<in> set sts. x = strip_with st c))"
  unfolding strip_round_def
proof (induction frontier arbitrary: cands)
  case Nil
  show ?case by simp
next
  case (Cons c frontier)
  obtain new where new: "foldl (\<lambda>a st. add_stripped a c st) cands sts = cands @ new"
    "\<forall>x \<in> set new. length x < length c \<and> x \<noteq> [] \<and> (\<exists>st \<in> set sts. x = strip_with st c)"
    using strip_candidate_extends [of c cands sts] Cons.prems by auto
  have sub: "set frontier \<subseteq> set (cands @ new)" using Cons.prems by auto
  from Cons.IH [OF sub] obtain new' where
    "foldl (\<lambda>acc c. foldl (\<lambda>a st. add_stripped a c st) acc sts) (cands @ new) frontier = (cands @ new) @ new'"
    "\<forall>x \<in> set new'. \<exists>c \<in> set frontier. length x < length c \<and> x \<noteq> [] \<and> (\<exists>st \<in> set sts. x = strip_with st c)" by auto
  with new show ?case by (intro exI [of _ "new @ new'"]) fastforce
qed

text \<open>The longest candidate of a round bounds the rounds that follow.\<close>

definition frontier_size :: "ustr list \<Rightarrow> nat" where
  "frontier_size fs = foldr (\<lambda>x m. max (Suc (length x)) m) fs 0"

lemma frontier_size_le: "frontier_size fs \<le> n \<longleftrightarrow> (\<forall>x \<in> set fs. length x < n)"
  by (induction fs) (auto simp: frontier_size_def)

lemma frontier_size_mem: "x \<in> set fs \<Longrightarrow> length x < frontier_size fs"
  using frontier_size_le [of fs "frontier_size fs"] by simp

lemma strip_round_decreases:
  assumes "start < length cands"
  shows "frontier_size (drop (length cands) (strip_round sts cands (drop start cands)))
       < frontier_size (drop start cands)"
proof -
  have sub: "set (drop start cands) \<subseteq> set cands" by (rule set_drop_subset)
  obtain new where new: "strip_round sts cands (drop start cands) = cands @ new"
    "\<forall>x \<in> set new. \<exists>c \<in> set (drop start cands). length x < length c"
    using strip_round_extends [OF sub, of sts] by meson
  obtain y where "y \<in> set (drop start cands)"
    using assms by (cases "drop start cands") auto
  then have pos: "0 < frontier_size (drop start cands)"
    using frontier_size_mem by fastforce
  have "\<forall>x \<in> set new. length x < frontier_size (drop start cands) - 1"
  proof
    fix x assume "x \<in> set new"
    with new(2) obtain c where "c \<in> set (drop start cands)" "length x < length c" by blast
    with frontier_size_mem [of c "drop start cands"] show "length x < frontier_size (drop start cands) - 1"
      by linarith
  qed
  then have "frontier_size new \<le> frontier_size (drop start cands) - 1"
    by (simp add: frontier_size_le)
  with new(1) pos show ?thesis by simp
qed

function strip_closure :: "stripper list \<Rightarrow> ustr list \<Rightarrow> nat \<Rightarrow> ustr list" where
  "strip_closure sts cands start =
     (if start < length cands then
        strip_closure sts (strip_round sts cands (drop start cands)) (length cands)
      else cands)"
  by pat_completeness auto
termination
  by (relation "measure (\<lambda>(sts, cands, start). frontier_size (drop start cands))")
    (auto intro: strip_round_decreases)

declare strip_closure.simps [simp del]

definition deny_match_candidates :: "ustr \<Rightarrow> ustr list" where
  "deny_match_candidates sub =
     (let normalized = str_replace (u ''$IFS'') (u '' '') (str_replace (u ''${IFS}'') (u '' '') sub);
          start = (if (occurs_in (u ''$IFS'') sub \<or> occurs_in (u ''${IFS}'') sub) \<and> normalized \<noteq> sub
                   then [sub, normalized] else [sub]) in
      strip_closure [SafeWrapper, EnvAssign] start 0)"

definition safe_wrapper_candidates :: "ustr \<Rightarrow> ustr list" where
  "safe_wrapper_candidates command = strip_closure [SafeWrapper] [command] 0"

section \<open>Matching\<close>

definition prefix_matches :: "ustr \<Rightarrow> ustr \<Rightarrow> bool" where
  "prefix_matches prefix command \<longleftrightarrow>
     prefix \<noteq> [] \<and>
     (command = prefix \<or>
      (startswith command prefix \<and> length prefix < length command \<and> uspace (command ! length prefix)))"

definition content_pattern_matches :: "ustr \<Rightarrow> ustr \<Rightarrow> bool \<Rightarrow> bool" where
  "content_pattern_matches pat val is_command =
     (if val = [] then False
      else if is_command
        \<and> (\<exists>r \<in> set (command_readings val). contains_unquoted_shell_control (ustrip r)) then False
      else if is_command \<and> endswith pat (u '':*'') then
        prefix_matches (ustrip (take (length pat - 2) pat)) (ustrip val)
      else fnmatch val (str_replace (u ''**'') (u ''*'') (str_replace (u ''/**'') (u ''/*'') pat)))"

datatype rule_effect = DenyEffect | AskEffect | AllowEffect

definition rule_matches_call :: "content_rule \<Rightarrow> ustr \<Rightarrow> call_args \<Rightarrow> rule_effect \<Rightarrow> bool" where
  "rule_matches_call rule tool args eff =
     (if \<not> tool_pattern_matches tool (tool_glob rule) then False
      else (case rule_content rule of
              None \<Rightarrow> True
            | Some pat \<Rightarrow>
                (let val = extract_content tool args in
                 if val = [] then False
                 else if \<not> is_command_tool tool then content_pattern_matches pat val False
                 else if eff = DenyEffect \<or> eff = AskEffect then
                   (\<exists>reading \<in> set (command_readings val).
                    \<exists>sub \<in> set (split_unquoted_subcommands reading).
                    \<exists>cand \<in> set (deny_match_candidates sub). content_pattern_matches pat cand True)
                 else (\<exists>cand \<in> set (safe_wrapper_candidates val). content_pattern_matches pat cand True))))"

end
