(* ===== verification/ContentMatch.thy ===== *)
theory ContentMatch
  imports ContentRules
begin

text \<open>
  What a content rule promises. The candidate closure is the set of all strippings; an allow
  rule approves one simple command; a deny or ask rule sees every segment of a chain. Two
  theorems state where the code falls short of its own comments: the argument of a stripped
  wrapper is not checked, and an unclosed parenthesis hides everything before it.
\<close>

section \<open>The candidate closure\<close>

inductive stripped :: "stripper list \<Rightarrow> ustr \<Rightarrow> ustr \<Rightarrow> bool" for sts s where
  stripped_refl: "stripped sts s s"
| stripped_step: "stripped sts s t \<Longrightarrow> st \<in> set sts \<Longrightarrow> strip_with st t \<noteq> [] \<Longrightarrow> stripped sts s (strip_with st t)"

inductive_cases stripped_cases: "stripped sts s t"

lemma stripped_to:
  "stripped sts s t \<Longrightarrow> st \<in> set sts \<Longrightarrow> strip_with st t = x \<Longrightarrow> x \<noteq> [] \<Longrightarrow> stripped sts s x"
  using stripped_step by blast

lemma add_stripped_mono: "set cands \<subseteq> set (add_stripped cands c st)"
  by (auto simp: add_stripped_def Let_def)

lemma strip_candidate_mono: "set cands \<subseteq> set (foldl (\<lambda>a st. add_stripped a c st) cands sts)"
  by (induction sts arbitrary: cands) (use add_stripped_mono in fastforce)+

lemma strip_round_mono: "set cands \<subseteq> set (strip_round sts cands frontier)"
  unfolding strip_round_def
  by (induction frontier arbitrary: cands) (use strip_candidate_mono in fastforce)+

lemma add_stripped_covers: "strip_with st c \<noteq> [] \<Longrightarrow> strip_with st c \<in> set (add_stripped cands c st)"
  by (simp add: add_stripped_def Let_def)

lemma strip_candidate_covers:
  "st \<in> set sts \<Longrightarrow> strip_with st c \<noteq> []
   \<Longrightarrow> strip_with st c \<in> set (foldl (\<lambda>a st. add_stripped a c st) cands sts)"
proof (induction sts arbitrary: cands)
  case Nil
  then show ?case by simp
next
  case (Cons st' sts)
  show ?case
  proof (cases "st = st'")
    case True
    with Cons.prems(2) strip_candidate_mono [of "add_stripped cands c st'" c sts]
    show ?thesis using add_stripped_covers by auto
  next
    case False
    with Cons show ?thesis by simp
  qed
qed

lemma strip_round_covers:
  "c \<in> set frontier \<Longrightarrow> st \<in> set sts \<Longrightarrow> strip_with st c \<noteq> []
   \<Longrightarrow> strip_with st c \<in> set (strip_round sts cands frontier)"
  unfolding strip_round_def
proof (induction frontier arbitrary: cands)
  case Nil
  then show ?case by simp
next
  case (Cons d frontier)
  show ?case
  proof (cases "c = d")
    case True
    have "strip_with st c \<in> set (foldl (\<lambda>a st. add_stripped a d st) cands sts)"
      using strip_candidate_covers Cons.prems(2,3) True by simp
    with strip_round_mono [of "foldl (\<lambda>a st. add_stripped a d st) cands sts" sts frontier]
    show ?thesis by (auto simp: strip_round_def)
  next
    case False
    with Cons show ?thesis by simp
  qed
qed

lemma strip_round_sound:
  assumes "set frontier \<subseteq> set cands" "x \<in> set (strip_round sts cands frontier)"
  shows "x \<in> set cands \<or> (\<exists>c \<in> set frontier. \<exists>st \<in> set sts. x = strip_with st c \<and> x \<noteq> [])"
  using strip_round_extends [OF assms(1), of sts] assms(2) by fastforce

lemma stripped_trans: "stripped sts t x \<Longrightarrow> stripped sts s t \<Longrightarrow> stripped sts s x"
  by (induction rule: stripped.induct) (auto intro: stripped.intros)

lemma strip_closure_mono: "set cands \<subseteq> set (strip_closure sts cands start)"
proof (induction sts cands start rule: strip_closure.induct)
  case (1 sts cands start)
  then show ?case
    using strip_round_mono [of cands sts "drop start cands"]
    by (subst strip_closure.simps) auto
qed

lemma strip_closure_sound:
  "x \<in> set (strip_closure sts cands start) \<Longrightarrow> \<exists>c \<in> set cands. stripped sts c x"
proof (induction sts cands start rule: strip_closure.induct)
  case (1 sts cands start)
  show ?case
  proof (cases "start < length cands")
    case False
    with 1(2) show ?thesis by (subst (asm) strip_closure.simps) (auto intro: stripped_refl)
  next
    case True
    from 1(2) True have "x \<in> set (strip_closure sts (strip_round sts cands (drop start cands)) (length cands))"
      by (subst (asm) strip_closure.simps) simp
    with 1(1) [OF True] obtain c where
      c: "c \<in> set (strip_round sts cands (drop start cands))" "stripped sts c x" by blast
    from strip_round_sound [OF set_drop_subset c(1)] show ?thesis
    proof
      assume "c \<in> set cands"
      with c(2) show ?thesis by blast
    next
      assume "\<exists>d \<in> set (drop start cands). \<exists>st \<in> set sts. c = strip_with st d \<and> c \<noteq> []"
      then obtain d st where d: "d \<in> set cands" "st \<in> set sts" "c = strip_with st d" "c \<noteq> []"
        using set_drop_subset [of start cands] by blast
      have "stripped sts d x"
        using stripped_trans [OF c(2)] stripped.intros d(2,3,4) by metis
      with d(1) show ?thesis by blast
    qed
  qed
qed

lemma strip_closure_closed:
  assumes "\<forall>c \<in> set (take start cands). \<forall>st \<in> set sts. strip_with st c = [] \<or> strip_with st c \<in> set cands"
    and "start \<le> length cands"
  shows "\<forall>c \<in> set (strip_closure sts cands start). \<forall>st \<in> set sts.
           strip_with st c = [] \<or> strip_with st c \<in> set (strip_closure sts cands start)"
  using assms
proof (induction sts cands start rule: strip_closure.induct)
  case (1 sts cands start)
  show ?case
  proof (cases "start < length cands")
    case False
    have "strip_closure sts cands start = cands"
      using False by (subst strip_closure.simps) simp
    moreover have "take start cands = cands" using False by simp
    ultimately show ?thesis using 1(2) by simp
  next
    case True
    let ?next = "strip_round sts cands (drop start cands)"
    obtain new where new: "?next = cands @ new"
      using strip_round_extends [OF set_drop_subset [of start cands], of sts] by blast
    have "\<forall>c \<in> set (take (length cands) ?next). \<forall>st \<in> set sts. strip_with st c = [] \<or> strip_with st c \<in> set ?next"
    proof (intro ballI)
      fix c st assume c: "c \<in> set (take (length cands) ?next)" and st: "st \<in> set sts"
      from c new have "c \<in> set (take start cands) \<union> set (drop start cands)"
        by (metis append_eq_conv_conj append_take_drop_id set_append)
      then show "strip_with st c = [] \<or> strip_with st c \<in> set ?next"
        using 1(2) st new strip_round_covers [of c "drop start cands" st sts cands] by auto
    qed
    moreover have "length cands \<le> length ?next" using new by simp
    moreover have "strip_closure sts cands start = strip_closure sts ?next (length cands)"
      using True by (simp add: strip_closure.simps [of sts cands start])
    ultimately show ?thesis using 1(1) [OF True] by simp
  qed
qed

lemma strip_closure_iff: "x \<in> set (strip_closure sts [s] 0) \<longleftrightarrow> stripped sts s x"
proof
  assume "x \<in> set (strip_closure sts [s] 0)"
  from strip_closure_sound [OF this] show "stripped sts s x" by simp
next
  assume "stripped sts s x"
  then show "x \<in> set (strip_closure sts [s] 0)"
  proof (induction rule: stripped.induct)
    case stripped_refl
    show ?case using strip_closure_mono [of "[s]" sts 0] by simp
  next
    case (stripped_step t st)
    then show ?case using strip_closure_closed [where start = 0 and cands = "[s]" and sts = sts] by auto
  qed
qed


section \<open>Stripping only takes characters away\<close>

lemma after_lit_set: "after_lit w s = Some r \<Longrightarrow> set r \<subseteq> set s"
  using set_drop_subset [of "length w" s] by (auto simp: after_lit_def split: if_splits)

lemma after_spaces_set: "after_spaces s = Some r \<Longrightarrow> set r \<subseteq> set s"
  by (auto simp: after_spaces_def dest: set_dropWhileD split: if_splits)

lemma after_word_set: "after_word s = Some r \<Longrightarrow> set r \<subseteq> set s"
  by (auto simp: after_word_def dest: set_dropWhileD split: if_splits)

lemma after_assignment_set: "after_assignment s = Some r \<Longrightarrow> set r \<subseteq> set s"
  by (cases s) (auto simp: after_assignment_def Let_def dest!: set_dropWhileD split: if_splits)

lemma word_wrapper_set: "word_wrapper w s = Some r \<Longrightarrow> set r \<subseteq> set s"
  by (auto simp: word_wrapper_def bind_eq_Some_conv dest!: after_lit_set after_spaces_set)

lemma arg_wrapper_set: "arg_wrapper w s = Some r \<Longrightarrow> set r \<subseteq> set s"
  by (auto simp: arg_wrapper_def bind_eq_Some_conv
      dest!: word_wrapper_set after_word_set after_spaces_set)

lemma env_assignments_set:
  "env_assignments best s = Some r \<Longrightarrow> (\<And>b. best = Some b \<Longrightarrow> set b \<subseteq> A) \<Longrightarrow> set s \<subseteq> A
   \<Longrightarrow> set r \<subseteq> A"
proof (induction best s rule: env_assignments.induct)
  case (1 best s)
  show ?case
  proof (cases "\<exists>r1 r2. after_assignment s = Some r1 \<and> after_spaces r1 = Some r2")
    case False
    with 1(2,3) show ?thesis by (subst (asm) env_assignments.simps) (auto split: option.splits)
  next
    case True
    then obtain r1 r2 where r: "after_assignment s = Some r1" "after_spaces r1 = Some r2" by blast
    have sub: "set r2 \<subseteq> A"
      using r after_assignment_set after_spaces_set 1(4) by (meson subset_trans)
    have step: "env_assignments (if length r2 + 2 \<le> length r1 then Some r2 else best) r2 = Some r"
      using 1(2) r by (simp add: env_assignments.simps [of best s])
    have "set b \<subseteq> A" if "(if length r2 + 2 \<le> length r1 then Some r2 else best) = Some b" for b
      using that 1(3) [of b] sub by (simp split: if_splits)
    from 1(1) [OF r step this sub] show ?thesis .
  qed
qed

lemma safe_wrapper_re_set:
  assumes "safe_wrapper_re s = Some r"
  shows "set r \<subseteq> set s"
proof -
  have env: "set r \<subseteq> set s" if "Option.bind (word_wrapper ''env'' s) (env_assignments None) = Some r"
  proof -
    from that obtain a where a: "word_wrapper ''env'' s = Some a" "env_assignments None a = Some r"
      by (auto simp: bind_eq_Some_conv)
    from a(2) have "set r \<subseteq> set a" by (rule env_assignments_set) simp_all
    with word_wrapper_set [OF a(1)] show ?thesis by blast
  qed
  from first_some_mem [OF assms [unfolded safe_wrapper_re_def]] show ?thesis
    using env by (auto dest!: arg_wrapper_set word_wrapper_set sym [of "Some r"])
qed

lemma strip_with_set: "set (strip_with st s) \<subseteq> set s"
proof -
  have "env_assign_re s = Some r \<Longrightarrow> set r \<subseteq> set s" for r
    by (auto simp: env_assign_re_def bind_eq_Some_conv dest!: after_assignment_set after_spaces_set)
  then show ?thesis
    using safe_wrapper_re_set set_ustrip
    by (fastforce simp: strip_with_def split: option.splits stripper.splits)
qed

lemma stripped_set: "stripped sts s t \<Longrightarrow> set t \<subseteq> set s"
  by (induction rule: stripped.induct) (use strip_with_set in blast)+

section \<open>Plain text holds no control\<close>

definition control_chars :: "int set" where
  "control_chars = {96, 40, 59, 124, 38, 10, 13, 60, 62, 41}"

lemma unquoted_control_plain: "set s \<inter> control_chars = {} \<Longrightarrow> \<not> unquoted_control q e s"
  by (induction s arbitrary: q e) (auto simp: control_chars_def dest: hd_in_set)

lemma powershell_equivalent_plain:
  assumes "set s \<inter> control_chars = {}"
  shows "set (powershell_equivalent s) \<inter> control_chars = {}"
proof -
  have "13 \<notin> set s" using assms by (auto simp: control_chars_def)
  then have eq: "powershell_equivalent s = map powershell_char (map (\<lambda>c. if c = 13 then 10 else c) s)"
    by (simp add: powershell_equivalent_def str_replace_absent)
  have "powershell_char (if c = 13 then 10 else c) \<notin> control_chars" if "c \<notin> control_chars" for c
    using that by (auto simp: powershell_char_def control_chars_def)
  with assms show ?thesis unfolding eq by fastforce
qed

lemma readings_plain:
  assumes "set s \<inter> control_chars = {}" "r \<in> set (command_readings s)"
  shows "\<not> contains_unquoted_shell_control (ustrip r)"
proof -
  have "set r \<inter> control_chars = {}"
    using assms powershell_equivalent_plain [OF assms(1)]
    by (auto simp: command_readings_def split: if_splits)
  with set_ustrip [of r] show ?thesis
    unfolding contains_unquoted_shell_control_def by (intro unquoted_control_plain) auto
qed

lemma prefix_rule_matches_plain:
  assumes "set cand \<inter> control_chars = {}" "prefix_matches (ustrip p) (ustrip cand)"
  shows "content_pattern_matches (p @ u '':*'') cand True"
proof -
  have "cand \<noteq> []" using assms(2) by (auto simp: prefix_matches_def ustrip_def)
  moreover have "endswith (p @ u '':*'') (u '':*'')" by (auto simp: endswith_iff)
  moreover have "take (length (p @ u '':*'') - 2) (p @ u '':*'') = p" by (simp add: u_def)
  ultimately show ?thesis
    using assms readings_plain by (simp add: content_pattern_matches_def)
qed

section \<open>Splitting a chain\<close>





lemma split_loop_plain:
  "set seg \<inter> (control_chars \<union> {92, 39, 34}) = {} \<Longrightarrow> rest = [] \<or> hd rest \<noteq> 40
   \<Longrightarrow> split_loop parts cur None [] False (seg @ rest) = split_loop parts (cur @ seg) None [] False rest"
proof (induction seg arbitrary: cur)
  case Nil
  then show ?case by simp
next
  case (Cons c seg)
  then have c: "c \<notin> control_chars \<union> {92, 39, 34}" by auto
  have nosub: "\<not> (seg @ rest \<noteq> [] \<and> hd (seg @ rest) = 40)"
    using Cons.prems by (cases seg) (auto simp: control_chars_def)
  have "split_loop parts cur None [] False ((c # seg) @ rest)
      = split_loop parts (cur @ [c]) None [] False (seg @ rest)"
    using c nosub by (auto simp: control_chars_def subcommand_separators_def)
  also have "\<dots> = split_loop parts ((cur @ [c]) @ seg) None [] False rest"
    by (rule Cons.IH) (use Cons.prems in auto)
  finally show ?case by simp
qed









section \<open>Deny and ask rules\<close>


definition call_ex :: "ustr \<Rightarrow> call_args" where
  "call_ex c k = (if k = ''command'' then Some c else None)"

definition rule_ex :: "ustr \<Rightarrow> content_rule" where
  "rule_ex p = \<lparr>tool_glob = u ''run_command'', rule_content = Some p, rule_raw = []\<rparr>"

lemma run_command_ex:
  "is_command_tool (u ''run_command'')" "tool_pattern_matches (u ''run_command'') (u ''run_command'')"
  by code_simp+

lemma extract_call_ex: "c \<noteq> [] \<Longrightarrow> extract_content (u ''run_command'') (call_ex c) = c"
  using run_command_ex(1) by (simp add: extract_content_def call_ex_def)


section \<open>Allow rules\<close>

lemma prefix_matches_boundary:
  "prefix_matches p c \<longleftrightarrow> p \<noteq> [] \<and> (c = p \<or> (\<exists>b rest. uspace b \<and> c = p @ b # rest))"
proof -
  have "(startswith c p \<and> length p < length c \<and> uspace (c ! length p))
      \<longleftrightarrow> (\<exists>b rest. uspace b \<and> c = p @ b # rest)"
  proof
    assume "startswith c p \<and> length p < length c \<and> uspace (c ! length p)"
    then obtain t where "c = p @ t" "t \<noteq> []" "uspace (t ! 0)" by (auto simp: startswith_iff nth_append)
    then show "\<exists>b rest. uspace b \<and> c = p @ b # rest" by (cases t) auto
  qed (auto simp: startswith_iff)
  then show ?thesis by (auto simp: prefix_matches_def)
qed

lemma content_prefix_matched:
  assumes "content_pattern_matches (p @ u '':*'') cand True"
  shows "\<forall>r \<in> set (command_readings cand). \<not> contains_unquoted_shell_control (ustrip r)"
    and "prefix_matches (ustrip p) (ustrip cand)"
proof -
  have "endswith (p @ u '':*'') (u '':*'')" by (auto simp: endswith_iff)
  moreover have "take (length (p @ u '':*'') - 2) (p @ u '':*'') = p" by (simp add: u_def)
  ultimately show "\<forall>r \<in> set (command_readings cand). \<not> contains_unquoted_shell_control (ustrip r)"
    "prefix_matches (ustrip p) (ustrip cand)"
    using assms by (auto simp: content_pattern_matches_def split: if_splits)
qed

text \<open>
  Claim C7. An allow prefix rule approves a command that starts with no safe wrapper only
  when no reading of the command holds an unquoted control operator or a substitution, and the
  command is the prefix itself or the prefix followed by a blank: a chain, a redirection, or a
  longer command name is never approved.
\<close>

theorem allow_rule_approves_one_simple_command:
  assumes "rule_matches_call rule tool args AllowEffect" "is_command_tool tool"
    and "rule_content rule = Some (p @ u '':*'')"
    and val: "extract_content tool args = val" "ustrip val = val" "safe_wrapper_re val = None"
  shows "(\<forall>r \<in> set (command_readings val). \<not> contains_unquoted_shell_control (ustrip r))
       \<and> ustrip p \<noteq> []
       \<and> (val = ustrip p \<or> (\<exists>b rest. uspace b \<and> val = ustrip p @ b # rest))"
proof -
  from assms obtain cand where cand: "cand \<in> set (safe_wrapper_candidates val)"
    "content_pattern_matches (p @ u '':*'') cand True"
    by (auto simp: rule_matches_call_def Let_def split: if_splits)
  from cand(1) have "stripped [SafeWrapper] val cand"
    by (simp add: safe_wrapper_candidates_def strip_closure_iff)
  then have "cand = val"
    by (induction rule: stripped.induct) (use val in \<open>auto simp: strip_with_def\<close>)
  with content_prefix_matched [OF cand(2)] val(2) show ?thesis
    by (simp add: prefix_matches_boundary)
qed

theorem allow_rule_approves_one_simple_command_witness:
  "\<not> contains_unquoted_shell_control (u ''git status -s'')
   \<and> rule_matches_call (rule_ex (u ''git status:*'')) (u ''run_command'') (call_ex (u ''git status -s'')) AllowEffect"
proof -
  have m: "rule_matches_call (rule_ex (u ''git status:*'')) (u ''run_command'')
      (call_ex (u ''git status -s'')) AllowEffect" by code_simp
  have c: "rule_content (rule_ex (u ''git status:*'')) = Some (u ''git status'' @ u '':*'')"
    by (simp add: rule_ex_def u_def)
  have v: "extract_content (u ''run_command'') (call_ex (u ''git status -s'')) = u ''git status -s''"
    by (rule extract_call_ex) (simp add: u_def)
  have s: "ustrip (u ''git status -s'') = u ''git status -s''" "safe_wrapper_re (u ''git status -s'') = None"
    by code_simp+
  from allow_rule_approves_one_simple_command [OF m run_command_ex(1) c v s] m show ?thesis
    by (auto simp: command_readings_def s split: if_splits)
qed

section \<open>Where the code falls short\<close>

text \<open>
  The argument of a stripped \<open>timeout\<close> is any text without blanks, and
  nothing checks it: for every word \<open>w\<close>, an allow rule that approves \<open>t\<close> approves
  \<open>timeout w t\<close>, although \<open>w\<close> may hold a control operator, as in \<open>timeout 5;evil git status\<close>.
\<close>

theorem allow_rule_ignores_wrapper_argument:
  assumes tool: "is_command_tool tool" "tool_pattern_matches tool (tool_glob rule)"
    and rule: "rule_content rule = Some (p @ u '':*'')"
    and w: "w \<noteq> []" "\<forall>c \<in> set w. \<not> uspace c"
    and t: "set t \<inter> control_chars = {}" "prefix_matches (ustrip p) (ustrip t)"
    and command: "extract_content tool args = u ''timeout '' @ w @ u '' '' @ t"
  shows "rule_matches_call rule tool args AllowEffect"
proof -
  let ?val = "u ''timeout '' @ w @ u '' '' @ t"
  obtain a w' where a: "w = a # w'" "\<not> uspace a" using w by (cases w) auto
  have sp: "uspace 32" by (simp add: uspace_def space_code_def)
  have "word_wrapper ''timeout'' ?val = Some (w @ 32 # t)"
    using a sp by (simp add: word_wrapper_def after_lit_def after_spaces_def u_def)
  moreover have "after_word (w @ 32 # t) = Some (32 # t)"
    using a w(2) sp by (simp add: after_word_def)
  ultimately have "arg_wrapper ''timeout'' ?val = Some (dropWhile uspace t)"
    using sp by (simp add: arg_wrapper_def after_spaces_def)
  then have s: "strip_with SafeWrapper ?val = ustrip t"
    by (simp add: strip_with_def safe_wrapper_re_def ustrip_def strip_by_def lstrip_by_def)
  have ne: "ustrip t \<noteq> []" using t(2) by (auto simp: prefix_matches_def)
  have "ustrip t \<in> set (safe_wrapper_candidates ?val)"
    using stripped_to [OF stripped_refl _ s ne]
    by (simp add: safe_wrapper_candidates_def strip_closure_iff)
  moreover have "content_pattern_matches (p @ u '':*'') (ustrip t) True"
    using t set_ustrip [of t] by (intro prefix_rule_matches_plain) (auto simp: ustrip_idem)
  ultimately show ?thesis
    using tool rule command by (auto simp: rule_matches_call_def Let_def u_def)
qed

theorem allow_rule_ignores_wrapper_argument_witness:
  "rule_matches_call (rule_ex (u ''git status:*'')) (u ''run_command'')
     (call_ex (u ''timeout 5;evil git status'')) AllowEffect
   \<and> contains_unquoted_shell_control (u ''timeout 5;evil git status'')"
proof -
  have c: "rule_content (rule_ex (u ''git status:*'')) = Some (u ''git status'' @ u '':*'')"
    by (simp add: rule_ex_def u_def)
  have m: "prefix_matches (ustrip (u ''git status'')) (ustrip (u ''git status''))" by code_simp
  have "extract_content (u ''run_command'') (call_ex (u ''timeout 5;evil git status''))
      = u ''timeout '' @ u ''5;evil'' @ u '' '' @ u ''git status''"
    by (subst extract_call_ex) (simp_all add: u_def)
  from allow_rule_ignores_wrapper_argument [OF run_command_ex(1) _ c _ _ _ m this]
  have "rule_matches_call (rule_ex (u ''git status:*'')) (u ''run_command'')
     (call_ex (u ''timeout 5;evil git status'')) AllowEffect"
    using run_command_ex(2)
    by (simp add: rule_ex_def uspace_def space_code_def control_chars_def) (simp add: u_def)
  then show ?thesis by (simp add: contains_unquoted_shell_control_def u_def)
qed

text \<open>
  An unclosed parenthesis hides what stands before it: for every plain
  command \<open>s\<close>, the splitter of the deny and ask lists returns nothing for \<open>s #(\<close>, so no content
  rule of these lists matches, although the shell reads \<open>#(\<close> as a comment and runs \<open>s\<close>.
\<close>

theorem deny_rule_blind_to_unclosed_parenthesis:
  assumes tool: "is_command_tool tool"
    and rule: "rule_content rule = Some pat" "eff \<noteq> AllowEffect"
    and s: "set s \<inter> (control_chars \<union> {92, 39, 34}) = {}" "\<forall>c \<in> set s. c < 128"
    and command: "extract_content tool args = s @ u '' #(''"
  shows "split_unquoted_subcommands (s @ u '' #('') = [] \<and> \<not> rule_matches_call rule tool args eff"
proof -
  let ?val = "s @ u '' #(''"
  have "split_loop [] [] None [] False ?val = split_loop [] (s @ [32, 35]) None [] False [40]"
    using split_loop_plain [of "s @ [32, 35]" "[40]" "[]" "[]"]
    using split_loop_plain [of s "[32, 35, 40]" "[]" "[]"] s(1)
    by (simp add: u_def subcommand_separators_def)
  then have split: "split_unquoted_subcommands ?val = []"
    by (simp add: split_unquoted_subcommands_def ustrip_def)
  have no13: "13 \<notin> set ?val" using s(1) by (auto simp: control_chars_def u_def)
  have "map powershell_char (map (\<lambda>c. if c = 13 then 10 else c) ?val) = ?val"
  proof (unfold map_map, rule map_idI)
    fix c assume "c \<in> set ?val"
    then have "c \<noteq> 13" "c < 128" using no13 s(2) by (auto simp: u_def)
    then show "(powershell_char \<circ> (\<lambda>c. if c = 13 then 10 else c)) c = c" by (simp add: powershell_char_def)
  qed
  then have "powershell_equivalent ?val = ?val"
    using no13 by (simp add: powershell_equivalent_def str_replace_absent)
  then have "command_readings ?val = [?val]" by (simp add: command_readings_def)
  with split tool rule command show ?thesis
    using rule_effect.exhaust [of eff] by (auto simp: rule_matches_call_def Let_def)
qed

theorem deny_rule_blind_to_unclosed_parenthesis_witness:
  "\<not> rule_matches_call (rule_ex (u ''curl:*'')) (u ''run_command'') (call_ex (u ''curl evil.com #('')) DenyEffect"
proof -
  have c: "rule_content (rule_ex (u ''curl:*'')) = Some (u ''curl:*'')" by (simp add: rule_ex_def)
  have v: "extract_content (u ''run_command'') (call_ex (u ''curl evil.com #('')) = u ''curl evil.com'' @ u '' #(''"
    by (subst extract_call_ex) (simp_all add: u_def)
  have "DenyEffect \<noteq> AllowEffect" by simp
  from deny_rule_blind_to_unclosed_parenthesis [OF run_command_ex(1) c this _ _ v] show ?thesis
    by (simp add: u_def control_chars_def)
qed

text \<open>
  A single assignment after \<open>env\<close> with one blank behind it is not a safe wrapper to the regular
  expression, so a deny rule for \<open>curl\<close> misses \<open>env A=1 curl evil.com\<close>.
\<close>

lemma env_wrapper_needs_two_blanks:
  "safe_wrapper_re (u ''env A=1 curl evil.com'') = None
   \<and> safe_wrapper_re (u ''env A=1  curl evil.com'') = Some (u ''curl evil.com'')
   \<and> \<not> rule_matches_call (rule_ex (u ''curl:*'')) (u ''run_command'')
       (call_ex (u ''env A=1 curl evil.com'')) DenyEffect"
  by code_simp

section \<open>Parsing\<close>

definition token_ok :: "ustr \<Rightarrow> bool" where
  "token_ok t \<longleftrightarrow> t \<noteq> [] \<and> token_head (hd t) \<and> (\<forall>c \<in> set t. token_char c)
     \<and> ulower t \<notin> set legacy_tool_names \<and> ulower t \<notin> set protocol_command_names"

lemma token_char_not_space: "token_char c \<Longrightarrow> \<not> uspace c"
  by (auto simp: token_char_def uword_def uspace_def space_code_def)

lemma token_head_not_space: "token_head c \<Longrightarrow> \<not> uspace c"
  by (auto simp: token_head_def ualpha_ascii_def uspace_def space_code_def)

lemma rule_re_token:
  assumes "token_ok t" "rest = [] \<or> \<not> token_char (hd rest) \<and> \<not> uspace (hd rest)"
  shows "rule_re (t @ rest) =
     (if rest = [] then Some (t, None)
      else if 2 \<le> length rest \<and> hd rest = 40 \<and> last rest = 41 then Some (t, Some (butlast (tl rest)))
      else None)"
proof -
  obtain c t' where t: "t = c # t'" using assms(1) by (cases t) (auto simp: token_ok_def)
  have tc: "\<forall>c \<in> set t'. token_char c" using assms(1) t by (auto simp: token_ok_def)
  have "takeWhile token_char (t' @ rest) = t'" "dropWhile token_char (t' @ rest) = rest"
    using tc assms(2) by (cases rest; simp)+
  moreover have "dropWhile uspace rest = rest" using assms(2) by (cases rest) auto
  ultimately show ?thesis
    using assms(1) t by (simp add: rule_re_def token_ok_def Let_def)
qed

lemma token_strip: "token_ok t \<Longrightarrow> ustrip t = t"
  unfolding ustrip_def
  by (rule strip_by_id) (auto simp: token_ok_def token_head_not_space intro!: token_char_not_space)

text \<open>
  A rule written as a tool token with a stripped, nonempty content between
  parentheses parses to exactly that tool and content, whatever characters the content holds; a
  bare token parses to the whole-tool rule.
\<close>

theorem content_rule_roundtrip:
  assumes t: "token_ok t" and c: "c \<noteq> []" "ustrip c = c"
  shows "parse_content_rule (t @ u ''('' @ c @ u '')'')
           = Inr (Some \<lparr>tool_glob = t, rule_content = Some c, rule_raw = t @ u ''('' @ c @ u '')''\<rparr>)
       \<and> parse_content_rule t = Inr (Some \<lparr>tool_glob = t, rule_content = None, rule_raw = t\<rparr>)"
proof -
  let ?raw = "t @ u ''('' @ c @ u '')''"
  have tne: "t \<noteq> []" "token_head (hd t)" using t by (auto simp: token_ok_def)
  have raw: "ustrip ?raw = ?raw" unfolding ustrip_def
    by (rule strip_by_id)
      (use tne token_head_not_space in \<open>simp_all add: u_def\<close>, simp add: uspace_def space_code_def)
  have "\<not> token_char 40 \<and> \<not> uspace 40"
    by (simp add: token_char_def uword_def uspace_def space_code_def)
  then have re: "rule_re ?raw = Some (t, Some c)" "rule_re t = Some (t, None)"
    using rule_re_token [OF t, of "u ''('' @ c @ u '')''"] rule_re_token [OF t, of "[]"] c
    by (auto simp: u_def butlast_append)
  have res: "resolve_tool t = Inr t"
    using t token_strip [OF t] by (auto simp: resolve_tool_def token_ok_def)
  have "hd t \<noteq> 35" using tne(2) by (auto simp: token_head_def ualpha_ascii_def)
  then have nohash: "\<not> startswith ?raw (u ''#'')" "\<not> startswith t (u ''#'')"
    using tne(1) by (cases t; auto simp: u_def)+
  show ?thesis
    using raw re res nohash c tne token_strip [OF t] by (simp add: parse_content_rule_def Let_def)
qed

theorem content_rule_roundtrip_witness:
  "parse_content_rule (u ''run_command'' @ u ''('' @ u ''npm run:*)'' @ u '')'')
   = Inr (Some \<lparr>tool_glob = u ''run_command'', rule_content = Some (u ''npm run:*)''),
                rule_raw = u ''run_command'' @ u ''('' @ u ''npm run:*)'' @ u '')''\<rparr>)"
proof -
  have "token_ok (u ''run_command'')" by code_simp
  moreover have "ustrip (u ''npm run:*)'') = u ''npm run:*)''" "u ''npm run:*)'' \<noteq> []" by code_simp+
  ultimately show ?thesis using content_rule_roundtrip by blast
qed

end
