(* ===== verification/Json.thy ===== *)
theory Json
  imports Complex_Main Prelude
begin

text \<open>
  JSON values as the program passes them around: tool arguments, event payloads, stored documents.
  An object is an association list in insertion order with distinct keys. \<open>json_falsy\<close> is
  Python's truth test. \<open>str\<close> of a value that is not a text is the argument \<open>repr\<close>: the code
  only reaches it when a caller passes a number or a container where a text is expected.
\<close>

datatype json =
  JNull | JBool bool | JInt int | JFloat real | JStr ustr | JList "json list" | JObj "(ustr \<times> json) list"

fun json_falsy :: "json \<Rightarrow> bool" where
  "json_falsy JNull = True"
| "json_falsy (JBool b) = (\<not> b)"
| "json_falsy (JInt i) = (i = 0)"
| "json_falsy (JFloat r) = (r = 0)"
| "json_falsy (JStr s) = (s = [])"
| "json_falsy (JList xs) = (xs = [])"
| "json_falsy (JObj kvs) = (kvs = [])"

definition json_text :: "(json \<Rightarrow> ustr) \<Rightarrow> json \<Rightarrow> ustr" where
  "json_text repr j = (case j of JStr s \<Rightarrow> s | _ \<Rightarrow> repr j)"

type_synonym tool_args = "(ustr \<times> json) list option"  \<comment> \<open>\<open>None\<close> is Python's \<open>None\<close>\<close>

definition arg :: "tool_args \<Rightarrow> string \<Rightarrow> json option" where
  "arg args k = (case args of None \<Rightarrow> None | Some kvs \<Rightarrow> map_of kvs (u k))"

definition args_given :: "tool_args \<Rightarrow> bool" where
  "args_given args \<longleftrightarrow> args \<noteq> None \<and> args \<noteq> Some []"

text \<open>\<open>str(args.get(k))\<close> for a truthy argument.\<close>

definition args_text :: "(json \<Rightarrow> ustr) \<Rightarrow> tool_args \<Rightarrow> string \<Rightarrow> ustr option" where
  "args_text repr args k =
     (case arg args k of
        None \<Rightarrow> None
      | Some j \<Rightarrow> if json_falsy j then None else Some (json_text repr j))"

text \<open>\<open>str(value or "")\<close> of a value that may be missing.\<close>

definition str_or_empty :: "(json \<Rightarrow> ustr) \<Rightarrow> json option \<Rightarrow> ustr" where
  "str_or_empty repr j = (case j of None \<Rightarrow> [] | Some v \<Rightarrow> if json_falsy v then [] else json_text repr v)"

end
