(* ===== verification/ToolSignals.thy ===== *)
theory ToolSignals
  imports Json ContentRules
begin

text \<open>
  The signals the permission checker reads off one tool call (\<open>backend/permissions/checker.py\<close>):
  the four levels and their order, the permission modes and their authority, the
  command-injection patterns, undeclared path arguments and network targets.

  The regular expressions of \<open>_INJECTION_RISK_PATTERNS\<close> are written out as scans; \<open>\b\<close> is a
  change between word and other characters. \<open>assess_network_url\<close> (\<open>permissions/network.py\<close>, which
  rests on the standard library's URL and address parsers) is the argument \<open>assess\<close>.
\<close>

section \<open>Levels\<close>

datatype permission_level = AUTO | CONFIRM | DIFF_REVIEW | ALWAYS_DENY

fun restrictiveness :: "permission_level \<Rightarrow> nat" where
  "restrictiveness AUTO = 0"
| "restrictiveness CONFIRM = 1"
| "restrictiveness DIFF_REVIEW = 2"
| "restrictiveness ALWAYS_DENY = 3"

lemma restrictiveness_inj: "restrictiveness a = restrictiveness b \<longleftrightarrow> a = b"
  by (cases a; cases b) auto

instantiation permission_level :: linorder
begin

definition less_eq_permission_level :: "permission_level \<Rightarrow> permission_level \<Rightarrow> bool" where
  "a \<le> b \<longleftrightarrow> restrictiveness a \<le> restrictiveness b"

definition less_permission_level :: "permission_level \<Rightarrow> permission_level \<Rightarrow> bool" where
  "a < b \<longleftrightarrow> restrictiveness a < restrictiveness b"

instance
proof
  fix x y z :: permission_level
  show "(x < y) = (x \<le> y \<and> \<not> y \<le> x)"
    by (auto simp: less_eq_permission_level_def less_permission_level_def)
  show "x \<le> x" by (simp add: less_eq_permission_level_def)
  show "x \<le> y \<Longrightarrow> y \<le> z \<Longrightarrow> x \<le> z" by (simp add: less_eq_permission_level_def)
  show "x \<le> y \<Longrightarrow> y \<le> x \<Longrightarrow> x = y"
    by (simp add: less_eq_permission_level_def restrictiveness_inj [symmetric])
  show "x \<le> y \<or> y \<le> x" by (auto simp: less_eq_permission_level_def)
qed

end

lemmas level_order = less_eq_permission_level_def less_permission_level_def

fun level_value :: "permission_level \<Rightarrow> ustr" where
  "level_value AUTO = u ''auto''"
| "level_value CONFIRM = u ''confirm''"
| "level_value DIFF_REVIEW = u ''diff''"
| "level_value ALWAYS_DENY = u ''deny''"

section \<open>Modes\<close>

datatype permission_mode = PlanMode | ConfirmMode | AutoMode | BypassMode

fun mode_name :: "permission_mode \<Rightarrow> ustr" where
  "mode_name PlanMode = u ''plan''"
| "mode_name ConfirmMode = u ''confirm''"
| "mode_name AutoMode = u ''auto''"
| "mode_name BypassMode = u ''bypass''"

datatype mode_error = ModeRequired | UnsupportedMode ustr

text \<open>The token comes as text or \<open>None\<close>.\<close>

definition mode_token :: "ustr option \<Rightarrow> ustr" where
  "mode_token m =
     map (\<lambda>c. if c = 32 then 95 else c) (map (\<lambda>c. if c = 45 then 95 else c)
       (ulower (ustrip (case m of None \<Rightarrow> [] | Some s \<Rightarrow> s))))"

definition normalize_permission_mode_token :: "ustr option \<Rightarrow> mode_error + permission_mode" where
  "normalize_permission_mode_token m =
     (let t = mode_token m in
      if t = [] then Inl ModeRequired
      else (case find (\<lambda>p. mode_name p = t) [PlanMode, ConfirmMode, AutoMode, BypassMode] of
              Some p \<Rightarrow> Inr p
            | None \<Rightarrow> Inl (UnsupportedMode (case m of None \<Rightarrow> [] | Some s \<Rightarrow> s))))"

fun mode_authority :: "permission_mode \<Rightarrow> nat" where
  "mode_authority PlanMode = 0"
| "mode_authority ConfirmMode = 1"
| "mode_authority AutoMode = 2"
| "mode_authority BypassMode = 3"

definition permission_mode_authority :: "ustr option \<Rightarrow> mode_error + nat" where
  "permission_mode_authority m = map_sum id mode_authority (normalize_permission_mode_token m)"

definition clamp_permission_mode :: "ustr option \<Rightarrow> ustr option \<Rightarrow> mode_error + permission_mode" where
  "clamp_permission_mode requested limit =
     (case normalize_permission_mode_token limit of
        Inl e \<Rightarrow> Inl e
      | Inr c \<Rightarrow>
          (if requested = None \<or> ustrip (the requested) = [] then Inr c
           else (case normalize_permission_mode_token requested of
                   Inl e \<Rightarrow> Inl e
                 | Inr r \<Rightarrow> Inr (if mode_authority r > mode_authority c then c else r))))"

section \<open>Injection signals\<close>

text \<open>Case folding of \<open>re.I\<close> against ASCII letters: the long s, the Kelvin sign and the two dotted and dotless letters i of Turkish fold too.\<close>

definition re_fold :: "ustr \<Rightarrow> ustr" where
  "re_fold s = map (\<lambda>c. if c = 383 then 115 else if c = 304 \<or> c = 305 then 105 else ulower_code c) s"

definition allowed_gap :: "int \<Rightarrow> bool" where
  "allowed_gap c \<longleftrightarrow> c \<notin> set [10, 59, 38, 124]"

text \<open>\<open>P\<close> holds of the rest of the text at some place reached over \<open>[^\n;&|]*\<close>.\<close>

fun after_gap :: "(bool \<Rightarrow> ustr \<Rightarrow> bool) \<Rightarrow> bool \<Rightarrow> ustr \<Rightarrow> bool" where
  "after_gap P w [] = P w []"
| "after_gap P w (c # s) = (P w (c # s) \<or> (allowed_gap c \<and> after_gap P (uword c) s))"

text \<open>\<open>\bword\b\<close> at some place, followed by \<open>P\<close>; the flag says whether a word character precedes.\<close>

definition word_here :: "ustr \<Rightarrow> bool \<Rightarrow> ustr \<Rightarrow> bool" where
  "word_here w before s \<longleftrightarrow> \<not> before \<and> startswith s w
     \<and> (case drop (length w) s of [] \<Rightarrow> True | c # _ \<Rightarrow> \<not> uword c)"

fun some_word :: "ustr \<Rightarrow> (ustr \<Rightarrow> bool) \<Rightarrow> bool \<Rightarrow> ustr \<Rightarrow> bool" where
  "some_word w P before [] = False"
| "some_word w P before (c # s) =
     (word_here w before (c # s) \<and> P (drop (length w) (c # s)) \<or> some_word w P (uword c) s)"

definition print_p_option :: "bool \<Rightarrow> ustr \<Rightarrow> bool" where
  "print_p_option before s =
     (case s of
        c # d # r \<Rightarrow>
          uspace c \<and> d = 45 \<and> 80 \<in> set (takeWhile ualpha_ascii r)
          \<and> (case dropWhile ualpha_ascii r of [] \<Rightarrow> True | e # _ \<Rightarrow> uspace e)
      | _ \<Rightarrow> False)"

definition subst_option :: "bool \<Rightarrow> ustr \<Rightarrow> bool" where
  "subst_option before s \<longleftrightarrow>
     (\<exists>w \<in> set [u ''prompt_subst'', u ''promptsubst'', u ''glob_subst'', u ''globsubst'']. word_here w before s)"

definition injection_patterns :: "((ustr \<Rightarrow> bool) \<times> ustr) list" where
  "injection_patterns =
     [(occurs_in (u ''$(''), u ''$() command substitution''),
      (occurs_in [96], u ''backtick command substitution''),
      (occurs_in (u ''${''), u ''${} parameter expansion''),
      (occurs_in (u ''<(''), u ''process substitution <()''),
      (occurs_in (u ''>(''), u ''process substitution >()''),
      (occurs_in [36, 39], u ''ANSI-C quoting ($'' @ [39] @ u ''...'' @ [39] @ u '') can hide characters''),
      (occurs_in (u ''$IFS''), u ''IFS variable can bypass argument parsing''),
      (some_word (u ''print'') (after_gap print_p_option True) False, u ''Zsh prompt expansion (print -P)''),
      (\<lambda>s. some_word (u ''setopt'') (after_gap subst_option True) False (re_fold s),
         u ''Zsh dynamic substitution option'')]"

definition command_injection_risk :: "ustr \<Rightarrow> ustr" where
  "command_injection_risk command =
     (case find (\<lambda>(p, d). p command) injection_patterns of Some (p, d) \<Rightarrow> d | None \<Rightarrow> [])"

section \<open>Tools\<close>

text \<open>
  What the checker reads from a tool for one call: its declarations, and the results of its
  hooks on the call's arguments and context. A hook that raises is \<open>Inl ()\<close>.
  \<open>t_declared\<close> is \<open>None\<close> when the attribute is not a \<open>PermissionLevel\<close>;
  \<open>t_properties\<close> is \<open>None\<close> when the schema raises or has no property table.
\<close>

record tool_view =
  t_declared :: "permission_level option"
  t_check :: "unit + permission_level option"
  t_is_read_only :: "unit + bool"
  t_side_effect :: "unit + ustr"
  t_destructive :: bool
  t_open_world :: bool
  t_mutates_external :: bool
  t_mutates_workspace :: bool
  t_available :: bool
  t_properties :: "ustr list option"
  t_paths :: "unit + ustr list"
  t_allow_tool_result_path :: bool
  t_allow_root_path :: bool

definition side_effect_kind :: "tool_view \<Rightarrow> unit + ustr" where
  "side_effect_kind t = map_sum id (\<lambda>k. ulower (ustrip k)) (t_side_effect t)"

definition workspace_path_fields :: "string list" where
  "workspace_path_fields =
     [''file_path'', ''directory'', ''path'', ''cwd'', ''workspace_root'', ''working_directory'', ''dest'', ''root'']"

definition trivial_path :: "ustr \<Rightarrow> bool" where
  "trivial_path p \<longleftrightarrow> ustrip p = [] \<or> ustrip p = u ''.''"

fun json_string :: "json \<Rightarrow> ustr option" where
  "json_string (JStr s) = Some s"
| "json_string _ = None"

fun supplied_paths :: "json option \<Rightarrow> ustr list" where
  "supplied_paths (Some (JStr s)) = [s]"
| "supplied_paths (Some (JList xs)) = List.map_filter json_string xs"
| "supplied_paths _ = []"

definition has_undeclared_path_argument :: "tool_view \<Rightarrow> tool_args \<Rightarrow> bool" where
  "has_undeclared_path_argument t args =
     (if \<not> args_given args then False
      else (case t_properties t of
              None \<Rightarrow> False
            | Some props \<Rightarrow>
                (let extracted = (case t_paths t of Inl _ \<Rightarrow> [] | Inr ps \<Rightarrow> map ustrip (filter (Not \<circ> trivial_path) ps)) in
                 \<exists>f \<in> set workspace_path_fields.
                   u f \<in> set props \<and>
                   (\<exists>item \<in> set (supplied_paths (arg args f)).
                      \<not> trivial_path item \<and> ustrip item \<notin> set extracted))))"

section \<open>Network targets\<close>

definition url_like_keys :: "ustr list" where
  "url_like_keys = map u
     [''url'', ''uri'', ''href'', ''link'', ''endpoint'', ''origin'', ''baseurl'', ''targeturl'',
      ''sourceurl'', ''requesturl'', ''navigationurl'']"

definition host_like_keys :: "ustr list" where
  "host_like_keys = map u [''host'', ''hostname'', ''domain'', ''server'', ''address'']"

definition lower_alnum :: "int \<Rightarrow> bool" where
  "lower_alnum c \<longleftrightarrow> (97 \<le> c \<and> c \<le> 122) \<or> (48 \<le> c \<and> c \<le> 57)"

definition url_like :: "ustr \<Rightarrow> bool" where
  "url_like key \<longleftrightarrow>
     (let singular = (if endswith key (u ''s'') then butlast key else key) in
      key \<in> set url_like_keys \<or> singular \<in> set url_like_keys
      \<or> endswith key (u ''url'') \<or> endswith key (u ''urls'')
      \<or> endswith key (u ''uri'') \<or> endswith key (u ''uris''))"

definition host_like :: "ustr \<Rightarrow> bool" where
  "host_like key \<longleftrightarrow>
     (let singular = (if endswith key (u ''s'') then butlast key else key) in
      key \<in> set host_like_keys \<or> singular \<in> set host_like_keys
      \<or> endswith key (u ''host'') \<or> endswith key (u ''hosts''))"

text \<open>\<open>^[a-z][a-z0-9+.-]*:\<close>, ignoring case.\<close>

definition has_url_scheme :: "ustr \<Rightarrow> bool" where
  "has_url_scheme s =
     (let f = re_fold s in
      case f of
        [] \<Rightarrow> False
      | c # r \<Rightarrow> 97 \<le> c \<and> c \<le> 122
          \<and> startswith (dropWhile (\<lambda>d. lower_alnum d \<or> d = 43 \<or> d = 46 \<or> d = 45) r) [58])"

definition looks_like_plain_network_target :: "ustr \<Rightarrow> bool" where
  "looks_like_plain_network_target s =
     (if startswith s (u ''/'') \<or> startswith s (u ''.'') \<or> startswith s (u ''#'') then False
      else if 92 \<in> set s \<or> (\<exists>c \<in> set s. uspace c) then False
      else
       (let host = ulower (strip_by (\<lambda>c. c = 91 \<or> c = 93)
                     (takeWhile (\<lambda>c. c \<noteq> 63) (takeWhile (\<lambda>c. c \<noteq> 47) s))) in
        if host = [] then False
        else host = u ''localhost'' \<or> endswith host (u ''.localhost'') \<or> 58 \<in> set host \<or> 46 \<in> set host))"

definition normalize_network_arg_candidate :: "ustr \<Rightarrow> ustr \<Rightarrow> ustr option" where
  "normalize_network_arg_candidate key s =
     (let raw = strip_by (\<lambda>c. c = 60 \<or> c = 62) (ustrip s);
          nkey = filter lower_alnum (ulower key) in
      if raw = [] then None
      else if \<not> (url_like nkey \<or> host_like nkey) then None
      else if startswith raw (u ''//'') then Some (u ''http:'' @ raw)
      else if has_url_scheme raw then Some raw
      else if looks_like_plain_network_target raw then Some (u ''http://'' @ raw)
      else None)"

definition max_network_targets_per_call :: nat where
  "max_network_targets_per_call = 32"

definition add_target :: "ustr \<Rightarrow> ustr \<Rightarrow> ustr list \<Rightarrow> ustr list" where
  "add_target key s targets =
     (case normalize_network_arg_candidate key s of
        None \<Rightarrow> targets
      | Some t \<Rightarrow> if t \<notin> set targets then targets @ [t] else targets)"

fun visit :: "nat \<Rightarrow> ustr \<Rightarrow> json \<Rightarrow> ustr list \<Rightarrow> ustr list"
  and visit_items :: "nat \<Rightarrow> ustr \<Rightarrow> json list \<Rightarrow> ustr list \<Rightarrow> ustr list"
  and visit_fields :: "nat \<Rightarrow> (ustr \<times> json) list \<Rightarrow> ustr list \<Rightarrow> ustr list" where
  "visit depth key j targets =
     (if 6 < depth \<or> max_network_targets_per_call \<le> length targets then targets
      else (case j of
              JObj kvs \<Rightarrow> visit_fields depth kvs targets
            | JList xs \<Rightarrow> visit_items depth key xs targets
            | JStr s \<Rightarrow> add_target key s targets
            | _ \<Rightarrow> targets))"
| "visit_items depth key [] targets = targets"
| "visit_items depth key (x # xs) targets = visit_items depth key xs (visit (Suc depth) key x targets)"
| "visit_fields depth [] targets = targets"
| "visit_fields depth ((k, v) # kvs) targets = visit_fields depth kvs (visit (Suc depth) k v targets)"

definition extract_network_targets :: "tool_args \<Rightarrow> ustr list" where
  "extract_network_targets args = (case args of None \<Rightarrow> [] | Some kvs \<Rightarrow> visit 0 [] (JObj kvs) [])"

definition network_target_requires_confirmation ::
    "(ustr \<Rightarrow> bool) \<Rightarrow> ustr \<Rightarrow> tool_args \<Rightarrow> permission_mode option \<Rightarrow> tool_view option \<Rightarrow> bool" where
  "network_target_requires_confirmation assess name args mode tool =
     (if mode = Some BypassMode then False
      else if (case tool of Some t \<Rightarrow> \<not> t_open_world t | None \<Rightarrow> \<not> startswith name (u ''mcp__'')) then False
      else (\<exists>t \<in> set (extract_network_targets args). \<not> assess t))"

end
