(* ===== verification/Checker.thy ===== *)
theory Checker
  imports ToolSignals
begin

text \<open>
  The permission checker of \<open>backend/permissions/checker.py\<close>: \<open>PermissionChecker._evaluate_level\<close>
  with its capability floor, \<open>_capability_denial_reason\<close> and \<open>evaluate\<close>.

  \<open>settings\<close> holds the lists the checker reads from \<open>PermissionSettings\<close> and the parsed content
  rules; \<open>perm_context\<close> the fields of \<open>PermissionContext\<close> it reads. A verdict is the triple of
  level, source and rule that \<open>_evaluate_level\<close> returns. The closure variable \<open>capability_floor\<close> is
  passed through the stages. The file-system questions of the capability boundary (path
  resolution, symbolic links, gitignore patterns) are the record \<open>path_oracle\<close>. The request
  digest is left out of the decision.
\<close>

section \<open>State\<close>

record settings =
  s_always_deny :: "ustr list"
  s_require_diff_review :: "ustr list"
  s_require_confirm :: "ustr list"
  s_auto_allow :: "ustr list"
  s_content_deny :: "content_rule list"
  s_content_ask :: "content_rule list"
  s_content_allow :: "content_rule list"

record perm_context =
  c_mode :: permission_mode
  c_overrides :: "(ustr \<times> permission_level) list"
  c_tool_deny :: "ustr list"
  c_approval_policy :: ustr
  c_requirements_source :: ustr
  c_workspace_scope :: ustr
  c_source :: ustr
  c_allow_unsandboxed :: bool

record call =
  k_name :: ustr
  k_args :: tool_args

type_synonym verdict = "permission_level \<times> ustr \<times> ustr"

text \<open>The library functions a decision rests on: \<open>str\<close> of non-texts and the URL assessment.\<close>

record host =
  h_repr :: "json \<Rightarrow> ustr"
  h_assess :: "ustr \<Rightarrow> bool"

section \<open>Rules by tool name\<close>

definition first_match :: "ustr \<Rightarrow> ustr list \<Rightarrow> ustr" where
  "first_match name patterns =
     (case find (tool_pattern_matches name) patterns of Some p \<Rightarrow> p | None \<Rightarrow> [])"

definition resolve_override_match ::
    "ustr \<Rightarrow> (ustr \<times> permission_level) list \<Rightarrow> (ustr \<times> permission_level) option" where
  "resolve_override_match name overrides = find (\<lambda>(p, l). tool_pattern_matches name p) overrides"

definition content_rule_decision :: "settings \<Rightarrow> host \<Rightarrow> call \<Rightarrow> permission_level option" where
  "content_rule_decision s h k =
     (let matches = (\<lambda>eff r. rule_matches_call r (k_name k) (args_text (h_repr h) (k_args k)) eff) in
      if list_ex (matches DenyEffect) (s_content_deny s) then Some ALWAYS_DENY
      else if list_ex (matches AskEffect) (s_content_ask s) then Some CONFIRM
      else if list_ex (matches AllowEffect) (s_content_allow s) then Some AUTO
      else None)"

definition capability_available :: "settings \<Rightarrow> ustr \<Rightarrow> perm_context option \<Rightarrow> tool_view option \<Rightarrow> bool" where
  "capability_available s name ctx tool =
     (if first_match name (s_always_deny s) \<noteq> [] then False
      else if (case ctx of Some c \<Rightarrow> first_match name (c_tool_deny c) \<noteq> [] | None \<Rightarrow> False) then False
      else (case tool of
              None \<Rightarrow> True
            | Some t \<Rightarrow> t_declared t \<noteq> Some ALWAYS_DENY \<and> t_available t))"

section \<open>Tool-owned decisions\<close>

definition declared_or :: "permission_level \<Rightarrow> tool_view \<Rightarrow> permission_level" where
  "declared_or d t = (case t_declared t of Some l \<Rightarrow> l | None \<Rightarrow> d)"

definition at_least_confirm :: "permission_level \<Rightarrow> permission_level" where
  "at_least_confirm l = (if l > CONFIRM then l else CONFIRM)"

text \<open>The level and whether the tool decided this invocation itself.\<close>

definition tool_permission_decision :: "tool_view \<Rightarrow> permission_level \<times> bool" where
  "tool_permission_decision t =
     (let declared = declared_or CONFIRM t in
      case t_check t of
        Inl _ \<Rightarrow> (at_least_confirm declared, False)
      | Inr (Some l) \<Rightarrow> (l, True)
      | Inr None \<Rightarrow>
          (case t_is_read_only t of
             Inl _ \<Rightarrow> (at_least_confirm declared, False)
           | Inr read_only \<Rightarrow> (if read_only then AUTO else declared, False)))"

definition tool_capability_floor ::
    "tool_view \<Rightarrow> permission_mode option \<Rightarrow> bool \<Rightarrow> permission_level option" where
  "tool_capability_floor t mode explicit_allow =
     (let declared = declared_or AUTO t in
      if declared = ALWAYS_DENY then Some ALWAYS_DENY
      else if declared = DIFF_REVIEW \<and> mode \<noteq> Some AutoMode then Some DIFF_REVIEW
      else
       (let kind = (case side_effect_kind t of Inl _ \<Rightarrow> [] | Inr kd \<Rightarrow> kd) in
        if t_destructive t \<or> kind = u ''destructive'' then Some (at_least_confirm declared)
        else if (t_open_world t \<or> t_mutates_external t) \<and> \<not> explicit_allow
          \<and> t_is_read_only t \<noteq> Inr True then Some (at_least_confirm declared)
        else None))"

section \<open>The capability floor\<close>

definition raise_floor :: "verdict \<Rightarrow> verdict \<Rightarrow> verdict" where
  "raise_floor v flr = (if fst v > fst flr then v else flr)"

definition apply_floor :: "verdict \<Rightarrow> verdict \<Rightarrow> verdict" where
  "apply_floor flr v = (if fst flr > fst v then flr else v)"

definition raise_if :: "bool \<Rightarrow> verdict \<Rightarrow> verdict \<Rightarrow> verdict" where
  "raise_if b v flr = (if b then raise_floor v flr else flr)"

definition no_floor :: verdict where
  "no_floor = (AUTO, [], [])"

section \<open>Stages of \<open>_evaluate_level\<close>\<close>

text \<open>Hard denials, and the override of the session or of a content rule.\<close>

definition deny_stage :: "settings \<Rightarrow> host \<Rightarrow> call \<Rightarrow> perm_context option \<Rightarrow> verdict + verdict option" where
  "deny_stage s h k ctx =
     (let name = k_name k;
          static = first_match name (s_always_deny s);
          session = (case ctx of Some c \<Rightarrow> first_match name (c_tool_deny c) | None \<Rightarrow> []);
          over = (case ctx of Some c \<Rightarrow> resolve_override_match name (c_overrides c) | None \<Rightarrow> None);
          content = content_rule_decision s h k in
      if static \<noteq> [] then Inl (ALWAYS_DENY, u ''static_policy'', static)
      else if session \<noteq> [] then Inl (ALWAYS_DENY, u ''context_deny'', session)
      else if (case over of Some (p, l) \<Rightarrow> l = ALWAYS_DENY | None \<Rightarrow> False) then
        Inl (ALWAYS_DENY, u ''session_override'', fst (the over))
      else if content = Some ALWAYS_DENY then Inl (ALWAYS_DENY, u ''content_rule'', u ''content_deny'')
      else
        Inr (case over of
               Some (p, l) \<Rightarrow> Some (l, u ''session_override'', p)
             | None \<Rightarrow>
                 (case content of
                    Some AUTO \<Rightarrow> Some (AUTO, u ''content_rule'', u ''content_allow'')
                  | Some CONFIRM \<Rightarrow> Some (CONFIRM, u ''content_rule'', u ''content_ask'')
                  | _ \<Rightarrow> None)))"

definition is_shell_tool :: "ustr \<Rightarrow> bool" where
  "is_shell_tool name \<longleftrightarrow> fnmatch name (u ''run_command'') \<or> startswith name (u ''terminal_'')"

definition injection_reason :: "host \<Rightarrow> call \<Rightarrow> ustr" where
  "injection_reason h k =
     (if k_args k \<noteq> None \<and> is_shell_tool (k_name k)
      then command_injection_risk (first_text (args_text (h_repr h) (k_args k)) [''command'', ''cmd''])
      else [])"

definition plan_stage :: "call \<Rightarrow> tool_view option \<Rightarrow> verdict" where
  "plan_stage k tool =
     (case tool of
        None \<Rightarrow> (ALWAYS_DENY, u ''mode'', u ''plan:deny'')
      | Some t \<Rightarrow>
          (let (tool_level, explicit) = tool_permission_decision t in
           if tool_level = ALWAYS_DENY then (ALWAYS_DENY, u ''mode'', u ''plan:tool_deny'')
           else (case side_effect_kind t of
                   Inl _ \<Rightarrow> (ALWAYS_DENY, u ''mode'', u ''plan:metadata_error'')
                 | Inr kind \<Rightarrow>
                     (if kind = u ''none'' then
                        (if startswith (k_name k) (u ''mcp__'') then
                           (ALWAYS_DENY, u ''mode'', u ''plan:untrusted_mcp'')
                         else if explicit \<and> (tool_level = CONFIRM \<or> tool_level = DIFF_REVIEW) then
                           (tool_level, u ''mode'', u ''plan:'' @ level_value tool_level)
                         else (AUTO, u ''mode'', u ''plan:auto''))
                      else if (k_name k = u ''edit_file'' \<or> k_name k = u ''write_file'')
                        \<and> explicit \<and> tool_level = AUTO then
                        (AUTO, u ''mode'', u ''plan:plan_file'')
                      else (ALWAYS_DENY, u ''mode'', u ''plan:side_effect'')))))"

definition bypass_stage :: "call \<Rightarrow> tool_view option \<Rightarrow> verdict" where
  "bypass_stage k tool =
     (case tool of
        None \<Rightarrow> (AUTO, u ''mode'', u ''bypass:auto'')
      | Some t \<Rightarrow>
          (if fst (tool_permission_decision t) = ALWAYS_DENY then
             (ALWAYS_DENY, u ''tool'', k_name k @ u ''.check_permission'')
           else (case side_effect_kind t of
                   Inl _ \<Rightarrow> (ALWAYS_DENY, u ''tool'', k_name k @ u ''.side_effect_metadata'')
                 | Inr kind \<Rightarrow>
                     (if t_destructive t \<or> kind = u ''destructive'' then
                        (CONFIRM, u ''capability_boundary'', u ''bypass:destructive'')
                      else if startswith (k_name k) (u ''mcp__'') \<and> (t_open_world t \<or> kind = u ''external'') then
                        (CONFIRM, u ''capability_boundary'', u ''bypass:mcp_external'')
                      else (AUTO, u ''mode'', u ''bypass:auto'')))))"

text \<open>The floor of the ordinary modes, in the order the code raises it.\<close>

definition capability_floor ::
    "host \<Rightarrow> call \<Rightarrow> permission_mode option \<Rightarrow> tool_view option \<Rightarrow> verdict option \<Rightarrow> verdict" where
  "capability_floor h k mode tool over =
     (let name = k_name k;
          injection = injection_reason h k;
          f0 = raise_if (injection \<noteq> []) (CONFIRM, u ''injection_risk'', injection) no_floor;
          f1 = raise_if (startswith name (u ''mcp__''))
                 (CONFIRM, u ''capability_boundary'', u ''mcp_extension'') f0;
          f2 = raise_if (case tool of Some t \<Rightarrow> has_undeclared_path_argument t (k_args k) | None \<Rightarrow> False)
                 (CONFIRM, u ''capability_boundary'', name @ u ''.undeclared_path'') f1;
          f3 = raise_if (network_target_requires_confirmation (h_assess h) name (k_args k) mode tool)
                 (CONFIRM, u ''capability_boundary'', u ''network_target'') f2 in
      case tool of
        None \<Rightarrow> f3
      | Some t \<Rightarrow>
          (let (tool_level, explicit) = tool_permission_decision t;
               f4 = raise_if explicit (tool_level, u ''tool'', name @ u ''.check_permission'') f3;
               explicit_allow =
                 (injection = [] \<and>
                  (explicit \<and> tool_level = AUTO
                   \<or> (case over of
                        Some (l, src, r) \<Rightarrow> l = AUTO \<and> (src = u ''content_rule'' \<or> src = u ''session_override'')
                      | None \<Rightarrow> False))) in
           case tool_capability_floor t mode explicit_allow of
             None \<Rightarrow> f4
           | Some l \<Rightarrow> raise_floor (l, u ''tool_capability'', name @ u ''.runtime_metadata'') f4))"

text \<open>The static rules that apply to the name, with the strictest first one.\<close>

definition static_floors :: "settings \<Rightarrow> ustr \<Rightarrow> verdict list" where
  "static_floors s name =
     (let diff = first_match name (s_require_diff_review s); conf = first_match name (s_require_confirm s) in
      (if diff \<noteq> [] then [(DIFF_REVIEW, u ''static_policy'', diff)] else [])
      @ (if conf \<noteq> [] then [(CONFIRM, u ''static_policy'', conf)] else []))"

fun first_strictest :: "verdict list \<Rightarrow> verdict option" where
  "first_strictest [] = None"
| "first_strictest (v # vs) =
     (case first_strictest vs of
        None \<Rightarrow> Some v
      | Some w \<Rightarrow> if fst w > fst v then Some w else Some v)"

definition apply_static_tie :: "verdict option \<Rightarrow> verdict \<Rightarrow> verdict" where
  "apply_static_tie ask v =
     (case ask of
        None \<Rightarrow> v
      | Some f \<Rightarrow>
          (if fst (snd v) \<notin> set [u ''static_policy'', u ''injection_risk'', u ''content_rule'']
              \<and> fst v = fst f
           then f else v))"

text \<open>What follows once the floor stands.\<close>

definition routing_stage ::
    "settings \<Rightarrow> call \<Rightarrow> permission_mode option \<Rightarrow> tool_view option \<Rightarrow> verdict option \<Rightarrow> ustr \<Rightarrow> verdict \<Rightarrow> verdict" where
  "routing_stage s k mode tool over injection flr =
     (let name = k_name k; tool_dec = map_option tool_permission_decision tool in
      case over of
        Some v \<Rightarrow> apply_floor flr v
      | None \<Rightarrow>
          (if tool_dec = Some (AUTO, True) \<and> injection = [] then
             apply_floor flr (AUTO, u ''tool'', name @ u ''.check_permission'')
           else
            (let statics = static_floors s name;
                 flr' = foldl (\<lambda>f v. raise_floor v f) flr statics;
                 tie = apply_static_tie (first_strictest statics);
                 auto = first_match name (s_auto_allow s) in
             if auto \<noteq> [] \<and> injection = [] then
               tie (apply_floor flr' (AUTO, u ''static_policy'', auto))
             else (case mode of
                     Some m \<Rightarrow>
                       (let level = (case tool_dec of Some (l, _) \<Rightarrow> l | None \<Rightarrow> CONFIRM) in
                        tie (apply_floor flr' (level, u ''mode'', mode_name m @ u '':'' @ level_value level)))
                   | None \<Rightarrow>
                       (case tool_dec of
                          Some (l, _) \<Rightarrow> tie (apply_floor flr' (l, u ''tool'', name @ u ''.permission''))
                        | None \<Rightarrow> tie (apply_floor flr' (CONFIRM, u ''default'', u ''confirm'')))))))"

text \<open>
  \<open>_evaluate_level\<close>. A user-authored allow of an MCP tool that is neither destructive nor
  open-world returns before any floor is raised.
\<close>

definition mcp_user_allow :: "call \<Rightarrow> tool_view option \<Rightarrow> verdict option \<Rightarrow> bool" where
  "mcp_user_allow k tool over \<longleftrightarrow>
     startswith (k_name k) (u ''mcp__'')
     \<and> (case over of Some v \<Rightarrow> fst v = AUTO | None \<Rightarrow> False)
     \<and> (case tool of Some t \<Rightarrow> \<not> t_destructive t \<and> \<not> t_open_world t | None \<Rightarrow> True)"

definition evaluate_level ::
    "settings \<Rightarrow> host \<Rightarrow> call \<Rightarrow> perm_context option \<Rightarrow> tool_view option \<Rightarrow> verdict" where
  "evaluate_level s h k ctx tool =
     (case deny_stage s h k ctx of
        Inl v \<Rightarrow> v
      | Inr over \<Rightarrow>
          (let mode = map_option c_mode ctx in
           if mode = Some PlanMode then plan_stage k tool
           else if mode = Some BypassMode then bypass_stage k tool
           else if mcp_user_allow k tool over then the over
           else routing_stage s k mode tool over (injection_reason h k)
                  (capability_floor h k mode tool over)))"

section \<open>The capability boundary\<close>

datatype denial = PathsUnknown ustr | PathOutside ustr | OperationRefused ustr

record path_oracle =
  po_owner_result :: "ustr \<Rightarrow> bool"
  po_workspace_root :: "ustr \<Rightarrow> bool"
  po_plan_file :: "ustr \<Rightarrow> bool"
  po_allowed :: "ustr \<Rightarrow> bool"
  po_refusal :: "ustr \<Rightarrow> bool \<Rightarrow> bool \<Rightarrow> ustr option"  \<comment> \<open>path, write?, escape allowed?\<close>

definition path_denial ::
    "path_oracle \<Rightarrow> call \<Rightarrow> perm_context option \<Rightarrow> tool_view \<Rightarrow> ustr \<Rightarrow> denial option" where
  "path_denial po k ctx t p =
     (if trivial_path p then None
      else
       (let result_read = t_allow_tool_result_path t \<and> po_owner_result po p;
            root_allowed = t_allow_root_path t \<and> po_workspace_root po p;
            plan_allowed = ctx \<noteq> None \<and> po_plan_file po p;
            write = (case t_side_effect t of
                       Inr kd \<Rightarrow> kd = u ''workspace'' \<or> kd = u ''destructive'' | Inl _ \<Rightarrow> False);
            escape = k_name k = u ''run_command''
              \<and> arg (k_args k) ''with_escalated_permissions'' = Some (JBool True)
              \<and> (case ctx of None \<Rightarrow> True | Some c \<Rightarrow> c_allow_unsandboxed c) in
        if \<not> result_read \<and> \<not> po_allowed po p \<and> \<not> root_allowed \<and> \<not> plan_allowed then Some (PathOutside p)
        else if \<not> result_read then map_option OperationRefused (po_refusal po p write escape)
        else None))"

definition capability_denial ::
    "path_oracle \<Rightarrow> call \<Rightarrow> perm_context option \<Rightarrow> tool_view option \<Rightarrow> denial option" where
  "capability_denial po k ctx tool =
     (case tool of
        None \<Rightarrow> None
      | Some t \<Rightarrow>
          (if \<not> args_given (k_args k) then None
           else (case t_paths t of
                   Inl _ \<Rightarrow> Some (PathsUnknown (k_name k))
                 | Inr ps \<Rightarrow>
                     (case List.map_filter (path_denial po k ctx t) ps of d # _ \<Rightarrow> Some d | [] \<Rightarrow> None))))"

section \<open>The decision\<close>

datatype outcome = Allow | Ask | Deny
datatype risk = LowRisk | MediumRisk | HighRisk | CriticalRisk
datatype expiry = ExpirySession | ExpiryCall | ExpiryPolicy

definition decision_risk :: "permission_level \<Rightarrow> tool_view option \<Rightarrow> risk" where
  "decision_risk level tool =
     (if (case tool of Some t \<Rightarrow> t_destructive t | None \<Rightarrow> False) then CriticalRisk
      else if level = ALWAYS_DENY then HighRisk
      else if (case tool of Some t \<Rightarrow> t_open_world t \<or> t_mutates_external t | None \<Rightarrow> False) then HighRisk
      else if level = CONFIRM \<or> level = DIFF_REVIEW
        \<or> (case tool of Some t \<Rightarrow> t_mutates_workspace t | None \<Rightarrow> False) then MediumRisk
      else LowRisk)"

record decision =
  d_level :: permission_level
  d_outcome :: outcome
  d_denial :: "denial option"
  d_source :: ustr
  d_rule :: ustr
  d_risk :: risk
  d_expiry :: expiry

definition evaluate_call ::
    "settings \<Rightarrow> host \<Rightarrow> path_oracle \<Rightarrow> call \<Rightarrow> perm_context option \<Rightarrow> tool_view option \<Rightarrow> decision" where
  "evaluate_call s h po k ctx tool =
     (let (level, source, rule) = evaluate_level s h k ctx tool;
          denial = capability_denial po k ctx tool;
          out = (if denial \<noteq> None \<or> level = ALWAYS_DENY then Deny else if level = AUTO then Allow else Ask);
          never = out = Ask \<and> (case ctx of
                     Some c \<Rightarrow> c_approval_policy c = u ''never'' \<and> c_mode c \<noteq> BypassMode | None \<Rightarrow> False);
          level' = (if never then ALWAYS_DENY else level);
          source' = (if never then u ''managed_requirements'' else source);
          rule' = (if never then
                     (let req = c_requirements_source (the ctx) in
                      if req = [] then u ''allowed_approval_policies=never'' else req)
                   else rule) in
      \<lparr>d_level = level', d_outcome = (if never then Deny else out), d_denial = denial,
       d_source = source', d_rule = rule', d_risk = decision_risk level' tool,
       d_expiry = (if source' = u ''session_override'' then ExpirySession
                   else if source' = u ''tool'' then ExpiryCall else ExpiryPolicy)\<rparr>)"

end
