(* ===== verification/CheckerProps.thy ===== *)
theory CheckerProps
  imports Checker
begin

text \<open>
  What the permission checker promises: hard denials win in every mode, plan mode stays
  read-only, no rule and no remembered approval lowers the capability floor, bypass keeps its
  two boundaries, and the final decision agrees with the level.
\<close>

section \<open>The floor\<close>

lemma fst_raise_floor: "fst (raise_floor v f) = max (fst v) (fst f)"
  by (auto simp: raise_floor_def max_def)

lemma fst_apply_floor: "fst (apply_floor f v) = max (fst v) (fst f)"
  by (auto simp: apply_floor_def max_def)

interpretation raising: verdict_join raise_floor "fst :: verdict \<Rightarrow> permission_level"
  by unfold_locales (rule fst_raise_floor)

interpretation applying: verdict_join "\<lambda>v f. apply_floor f v" "fst :: verdict \<Rightarrow> permission_level"
  by unfold_locales (rule fst_apply_floor)

lemma auto_least: "AUTO \<le> (l :: permission_level)"
  by (cases l) (auto simp: level_order)

lemma le_auto_iff: "l \<le> AUTO \<longleftrightarrow> l = AUTO"
  by (cases l) (auto simp: level_order)

lemma deny_greatest: "(l :: permission_level) \<le> ALWAYS_DENY"
  by (cases l) (auto simp: level_order)

lemma not_auto_iff: "l \<noteq> AUTO \<longleftrightarrow> CONFIRM \<le> l"
  by (cases l) (auto simp: level_order)

lemma max_auto_iff: "max a b = AUTO \<longleftrightarrow> a = AUTO \<and> b = AUTO"
  using auto_least [of a] auto_least [of b] by (auto simp: max_def le_auto_iff split: if_splits)

lemmas floor_simps = fst_raise_floor fst_apply_floor max_auto_iff

lemma raise_if_auto: "fst (raise_if b v f) = AUTO \<longleftrightarrow> (b \<longrightarrow> fst v = AUTO) \<and> fst f = AUTO"
  by (auto simp: raise_if_def floor_simps)

lemma at_least_confirm_ne: "at_least_confirm l \<noteq> AUTO"
  by (cases l) (auto simp: at_least_confirm_def level_order)

lemma fst_static_tie: "fst (apply_static_tie ask v) = fst v"
  by (auto simp: apply_static_tie_def split: option.splits)

lemma fst_fold_statics: "fst f \<le> fst (foldl (\<lambda>f v. raise_floor v f) f vs)"
  by (rule raising.fold_ge_start)

lemma routing_ge_floor: "fst flr \<le> fst (routing_stage s k mode tool over injection flr)"
  using fst_fold_statics [of flr "static_floors s (k_name k)"]
  by (auto simp: routing_stage_def Let_def fst_static_tie fst_apply_floor le_max_iff_disj split: option.splits prod.splits)

lemma routing_auto_floor: "fst (routing_stage s k mode tool over injection flr) = AUTO \<Longrightarrow> fst flr = AUTO"
  using routing_ge_floor [of flr s k mode tool over injection] by (simp add: le_auto_iff)

lemma capability_floor_auto:
  assumes "fst (capability_floor h k mode tool over) = AUTO"
  shows "injection_reason h k = []" "\<not> startswith (k_name k) (u ''mcp__'')"
    "\<not> network_target_requires_confirmation (h_assess h) (k_name k) (k_args k) mode tool"
    "tool = Some t \<Longrightarrow> \<not> has_undeclared_path_argument t (k_args k)"
    "tool = Some t \<Longrightarrow> snd (tool_permission_decision t) \<Longrightarrow> fst (tool_permission_decision t) = AUTO"
    "tool = Some t \<Longrightarrow> \<not> t_destructive t \<and> side_effect_kind t \<noteq> Inr (u ''destructive'')"
    "tool = Some t \<Longrightarrow> declared_or AUTO t \<noteq> ALWAYS_DENY"
    "tool = Some t \<Longrightarrow> mode \<noteq> Some AutoMode \<Longrightarrow> declared_or AUTO t \<noteq> DIFF_REVIEW"
  using assms at_least_confirm_ne
  by (auto simp: capability_floor_def Let_def raise_if_auto floor_simps tool_capability_floor_def
      split: option.splits prod.splits if_splits sum.splits)

lemma deny_stage_denies: "deny_stage s h k ctx = Inl v \<Longrightarrow> fst v = ALWAYS_DENY"
  by (auto simp: deny_stage_def Let_def split: if_splits option.splits permission_level.splits)

lemma evaluate_ordinary:
  assumes "deny_stage s h k ctx = Inr over"
    and "map_option c_mode ctx \<noteq> Some PlanMode" "map_option c_mode ctx \<noteq> Some BypassMode"
  shows "evaluate_level s h k ctx tool =
     (if mcp_user_allow k tool over then the over
      else routing_stage s k (map_option c_mode ctx) tool over (injection_reason h k)
             (capability_floor h k (map_option c_mode ctx) tool over))"
  using assms by (cases ctx) (auto simp: evaluate_level_def Let_def)

section \<open>Hard denials\<close>

definition hard_denied :: "settings \<Rightarrow> host \<Rightarrow> call \<Rightarrow> perm_context option \<Rightarrow> bool" where
  "hard_denied s h k ctx \<longleftrightarrow>
     first_match (k_name k) (s_always_deny s) \<noteq> []
     \<or> (\<exists>c. ctx = Some c \<and> (first_match (k_name k) (c_tool_deny c) \<noteq> []
          \<or> (\<exists>p. resolve_override_match (k_name k) (c_overrides c) = Some (p, ALWAYS_DENY))))
     \<or> (\<exists>r \<in> set (s_content_deny s). rule_matches_call r (k_name k) (args_text (h_repr h) (k_args k)) DenyEffect)"

lemma hard_denied_stage: "hard_denied s h k ctx \<Longrightarrow> \<exists>v. deny_stage s h k ctx = Inl v \<and> fst v = ALWAYS_DENY"
  by (auto simp: hard_denied_def deny_stage_def content_rule_decision_def Let_def list_ex_iff split: option.splits)

lemma hard_denied_level:
  assumes "hard_denied s h k ctx"
  shows "fst (evaluate_level s h k ctx tool) = ALWAYS_DENY" "d_outcome (evaluate_call s h po k ctx tool) = Deny"
    "d_level (evaluate_call s h po k ctx tool) = ALWAYS_DENY"
proof -
  from hard_denied_stage [OF assms] show l: "fst (evaluate_level s h k ctx tool) = ALWAYS_DENY"
    by (auto simp: evaluate_level_def)
  then show "d_outcome (evaluate_call s h po k ctx tool) = Deny" "d_level (evaluate_call s h po k ctx tool) = ALWAYS_DENY"
    by (auto simp: evaluate_call_def Let_def split: prod.splits)
qed

text \<open>
  Claim C4. A tool named by the static deny list, by the session's deny rules, by a
  session override that denies, or a call matched by a content deny rule, is denied in every mode,
  whatever the tool declares and whatever allow rules exist.
\<close>

theorem hard_denials_win:
  assumes "first_match (k_name k) (s_always_deny s) \<noteq> []
    \<or> (\<exists>c. ctx = Some c \<and> (first_match (k_name k) (c_tool_deny c) \<noteq> []
         \<or> (\<exists>p. resolve_override_match (k_name k) (c_overrides c) = Some (p, ALWAYS_DENY))))
    \<or> (\<exists>r \<in> set (s_content_deny s).
         rule_matches_call r (k_name k) (args_text (h_repr h) (k_args k)) DenyEffect)"
  shows "fst (evaluate_level s h k ctx tool) = ALWAYS_DENY
    \<and> d_outcome (evaluate_call s h po k ctx tool) = Deny"
  using assms hard_denied_level [of s h k ctx] by (simp add: hard_denied_def)

section \<open>Plan mode\<close>

lemma tool_auto_explicit: "tool_permission_decision t = (AUTO, True) \<longleftrightarrow> t_check t = Inr (Some AUTO)"
  using at_least_confirm_ne
  by (auto simp: tool_permission_decision_def Let_def split: sum.splits option.splits)

text \<open>
  In plan mode a call runs without asking only when its tool is known and
  reports no side effect and is no MCP extension, or it is the plan-file exception: \<open>edit_file\<close> or
  \<open>write_file\<close> whose own check returned AUTO for this call. A question is asked only for a
  side-effect-free call whose tool asks for it.
\<close>

theorem plan_mode_is_read_only:
  assumes "c_mode c = PlanMode" "d_outcome (evaluate_call s h po k (Some c) tool) \<noteq> Deny"
  shows "\<exists>t. tool = Some t
    \<and> (side_effect_kind t = Inr (u ''none'') \<and> \<not> startswith (k_name k) (u ''mcp__'')
       \<or> k_name k \<in> {u ''edit_file'', u ''write_file''} \<and> t_check t = Inr (Some AUTO))
    \<and> (d_outcome (evaluate_call s h po k (Some c) tool) = Ask \<longrightarrow> side_effect_kind t = Inr (u ''none''))"
proof -
  have lvl: "fst (evaluate_level s h k (Some c) tool) \<noteq> ALWAYS_DENY"
    using assms(2) by (auto simp: evaluate_call_def Let_def split: prod.splits if_splits)
  have ask: "fst (evaluate_level s h k (Some c) tool) \<noteq> AUTO"
    if "d_outcome (evaluate_call s h po k (Some c) tool) = Ask"
    using that by (auto simp: evaluate_call_def Let_def split: prod.splits if_splits)
  from lvl deny_stage_denies have ev: "evaluate_level s h k (Some c) tool = plan_stage k tool"
    using assms(1) by (auto simp: evaluate_level_def Let_def split: sum.splits)
  from lvl [unfolded ev] obtain t where t: "tool = Some t"
    by (auto simp: plan_stage_def split: option.splits)
  obtain l e where d: "tool_permission_decision t = (l, e)" by (cases "tool_permission_decision t")
  from lvl [unfolded ev] t d obtain kind where kind: "side_effect_kind t = Inr kind" "l \<noteq> ALWAYS_DENY"
    by (auto simp: plan_stage_def split: if_splits sum.splits)
  show ?thesis
    using lvl ask t d kind tool_auto_explicit [of t] unfolding ev
    by (auto simp: plan_stage_def split: if_splits)
qed

section \<open>The ordinary modes\<close>

text \<open>
  Claim C5. Outside plan and bypass mode, a call that is not an MCP extension runs
  without asking only when its command carries no injection signal, no supplied path lacks an
  extractor, no network target needs confirmation, the tool neither denies nor asks itself, and
  the invocation is not destructive. No content rule, session override or static allow changes
  this.
\<close>

theorem auto_needs_a_clear_floor:
  assumes "fst (evaluate_level s h k ctx (Some t)) = AUTO"
    and "map_option c_mode ctx \<noteq> Some PlanMode" "map_option c_mode ctx \<noteq> Some BypassMode"
    and "\<not> startswith (k_name k) (u ''mcp__'')"
  shows "injection_reason h k = []
    \<and> \<not> has_undeclared_path_argument t (k_args k)
    \<and> \<not> network_target_requires_confirmation (h_assess h) (k_name k) (k_args k) (map_option c_mode ctx) (Some t)
    \<and> (\<forall>l. t_check t = Inr (Some l) \<longrightarrow> l = AUTO)
    \<and> \<not> t_destructive t \<and> side_effect_kind t \<noteq> Inr (u ''destructive'')
    \<and> t_declared t \<noteq> Some ALWAYS_DENY
    \<and> (map_option c_mode ctx \<noteq> Some AutoMode \<longrightarrow> t_declared t \<noteq> Some DIFF_REVIEW)"
proof -
  obtain over where over: "deny_stage s h k ctx = Inr over"
    using assms(1) deny_stage_denies by (cases "deny_stage s h k ctx") (auto simp: evaluate_level_def)
  have "\<not> mcp_user_allow k (Some t) over" using assms(4) by (simp add: mcp_user_allow_def)
  then have "fst (routing_stage s k (map_option c_mode ctx) (Some t) over (injection_reason h k)
      (capability_floor h k (map_option c_mode ctx) (Some t) over)) = AUTO"
    using assms evaluate_ordinary [OF over] by simp
  from capability_floor_auto [OF routing_auto_floor [OF this]]
  show ?thesis
    by (auto simp: declared_or_def tool_permission_decision_def Let_def split: option.splits)
qed

text \<open>
  An MCP extension runs without asking in the ordinary modes only by a
  user-authored allow, a session override or a content rule, and then only when it is neither
  destructive nor open-world. Its own read-only claim never suffices.
\<close>

theorem mcp_needs_a_user_allow:
  assumes "fst (evaluate_level s h k ctx tool) = AUTO" "startswith (k_name k) (u ''mcp__'')"
    and "map_option c_mode ctx \<noteq> Some PlanMode" "map_option c_mode ctx \<noteq> Some BypassMode"
  shows "((\<exists>c p. ctx = Some c \<and> resolve_override_match (k_name k) (c_overrides c) = Some (p, AUTO))
          \<or> (\<exists>r \<in> set (s_content_allow s).
               rule_matches_call r (k_name k) (args_text (h_repr h) (k_args k)) AllowEffect))
       \<and> (\<forall>t. tool = Some t \<longrightarrow> \<not> t_destructive t \<and> \<not> t_open_world t)"
proof -
  obtain over where over: "deny_stage s h k ctx = Inr over"
    using assms(1) deny_stage_denies by (cases "deny_stage s h k ctx") (auto simp: evaluate_level_def)
  have allow: "mcp_user_allow k tool over"
  proof (rule ccontr)
    assume "\<not> mcp_user_allow k tool over"
    then have "fst (routing_stage s k (map_option c_mode ctx) tool over (injection_reason h k)
        (capability_floor h k (map_option c_mode ctx) tool over)) = AUTO"
      using assms evaluate_ordinary [OF over] by simp
    from capability_floor_auto(2) [OF routing_auto_floor [OF this]] assms(2) show False by simp
  qed
  then obtain v where v: "over = Some v" "fst v = AUTO" by (auto simp: mcp_user_allow_def split: option.splits)
  have "(\<exists>c p. ctx = Some c \<and> resolve_override_match (k_name k) (c_overrides c) = Some (p, AUTO))
      \<or> content_rule_decision s h k = Some AUTO"
    using over v
    by (auto simp: deny_stage_def Let_def split: if_splits option.splits permission_level.splits)
  then show ?thesis
    using allow
    by (auto simp: mcp_user_allow_def content_rule_decision_def Let_def list_ex_iff split: option.splits if_splits)
qed

section \<open>Bypass\<close>

text \<open>
  In bypass mode, once no rule denies, the tool's own refusal and broken
  metadata deny, a destructive invocation and an external MCP call ask, and everything else runs.
\<close>

theorem bypass_keeps_two_boundaries:
  assumes "c_mode c = BypassMode" "deny_stage s h k (Some c) = Inr over"
  shows "fst (evaluate_level s h k (Some c) (Some t)) =
     (if fst (tool_permission_decision t) = ALWAYS_DENY \<or> side_effect_kind t = Inl () then ALWAYS_DENY
      else if t_destructive t \<or> side_effect_kind t = Inr (u ''destructive'')
        \<or> startswith (k_name k) (u ''mcp__'')
          \<and> (t_open_world t \<or> side_effect_kind t = Inr (u ''external'')) then CONFIRM
      else AUTO)"
  using assms by (cases "side_effect_kind t") (auto simp: evaluate_level_def bypass_stage_def)

section \<open>The decision\<close>

text \<open>
  The decision agrees with the level: a call is allowed exactly at level
  AUTO without a capability denial; a capability denial always denies; under the approval policy
  \<open>never\<close> nothing outside bypass mode is asked, and what would have been asked is denied.
\<close>

theorem decision_agrees_with_level:
  "(d_outcome (evaluate_call s h po k ctx tool) = Allow
      \<longleftrightarrow> fst (evaluate_level s h k ctx tool) = AUTO \<and> capability_denial po k ctx tool = None)
   \<and> (capability_denial po k ctx tool \<noteq> None \<longrightarrow> d_outcome (evaluate_call s h po k ctx tool) = Deny)
   \<and> (\<forall>c. ctx = Some c \<and> c_approval_policy c = u ''never'' \<and> c_mode c \<noteq> BypassMode
        \<longrightarrow> d_outcome (evaluate_call s h po k ctx tool) \<noteq> Ask)
   \<and> (d_level (evaluate_call s h po k ctx tool) = ALWAYS_DENY
        \<longrightarrow> d_outcome (evaluate_call s h po k ctx tool) = Deny)"
  by (auto simp: evaluate_call_def Let_def split: prod.splits option.splits)

section \<open>Delegation\<close>

lemma normalize_mode_name: "normalize_permission_mode_token (Some (mode_name m)) = Inr m"
proof -
  have "normalize_permission_mode_token (Some (mode_name PlanMode)) = Inr PlanMode"
    "normalize_permission_mode_token (Some (mode_name ConfirmMode)) = Inr ConfirmMode"
    "normalize_permission_mode_token (Some (mode_name AutoMode)) = Inr AutoMode"
    "normalize_permission_mode_token (Some (mode_name BypassMode)) = Inr BypassMode"
    by code_simp+
  then show ?thesis by (cases m) simp_all
qed

text \<open>
  Delegation never widens authority: whatever mode a child requests, the
  clamped mode has at most the authority of the ceiling, it is the requested mode when that is
  not wider, and a token that is no mode is an error, never a default.
\<close>

theorem clamp_never_widens:
  assumes "clamp_permission_mode requested limit = Inr m"
  shows "\<exists>c. normalize_permission_mode_token limit = Inr c
    \<and> mode_authority m \<le> mode_authority c
    \<and> (m = c \<or> normalize_permission_mode_token requested = Inr m)
    \<and> (\<forall>r. normalize_permission_mode_token requested = Inr r \<and> mode_authority r \<le> mode_authority c
          \<longrightarrow> m = r)"
proof -
  have blank: "normalize_permission_mode_token r \<noteq> Inr x" if "r = None \<or> ustrip (the r) = []" for r x
  proof -
    have "mode_token r = []" using that
      by (cases r) (simp_all add: mode_token_def ulower_def ustrip_def)
    then show ?thesis by (simp add: normalize_permission_mode_token_def)
  qed
  show ?thesis
    using assms blank [of requested]
    by (auto simp: clamp_permission_mode_def split: sum.splits if_splits)
qed

section \<open>Witnesses\<close>

definition host_ex :: host where
  "host_ex = \<lparr>h_repr = (\<lambda>j. []), h_assess = (\<lambda>x. True)\<rparr>"

definition oracle_ex :: path_oracle where
  "oracle_ex = \<lparr>po_owner_result = (\<lambda>p. False), po_workspace_root = (\<lambda>p. False), po_plan_file = (\<lambda>p. False),
     po_allowed = (\<lambda>p. True), po_refusal = (\<lambda>p w e. None)\<rparr>"

definition settings_ex :: settings where
  "settings_ex = \<lparr>s_always_deny = [u ''shutdown''], s_require_diff_review = [], s_require_confirm = [],
     s_auto_allow = [u ''read_*''], s_content_deny = [], s_content_ask = [],
     s_content_allow = [\<lparr>tool_glob = u ''mcp__git__log'', rule_content = None, rule_raw = []\<rparr>]\<rparr>"

definition context_ex :: "permission_mode \<Rightarrow> perm_context" where
  "context_ex m = \<lparr>c_mode = m, c_overrides = [], c_tool_deny = [], c_approval_policy = u ''on-request'',
     c_requirements_source = [], c_workspace_scope = u ''project'', c_source = u ''runtime'',
     c_allow_unsandboxed = True\<rparr>"

definition tool_ex :: "permission_level \<Rightarrow> ustr \<Rightarrow> tool_view" where
  "tool_ex l kind = \<lparr>t_declared = Some l, t_check = Inr None, t_is_read_only = Inr (l = AUTO),
     t_side_effect = Inr kind, t_destructive = False, t_open_world = False, t_mutates_external = False,
     t_mutates_workspace = False, t_available = True, t_properties = None, t_paths = Inr [],
     t_allow_tool_result_path = False, t_allow_root_path = False\<rparr>"

definition k_ex :: "string \<Rightarrow> call" where
  "k_ex n = \<lparr>k_name = u n, k_args = Some [(u ''command'', JStr (u ''ls''))]\<rparr>"

theorem hard_denials_win_witness:
  "d_outcome (evaluate_call settings_ex host_ex oracle_ex (k_ex ''shutdown'')
     (Some (context_ex BypassMode)) (Some (tool_ex AUTO (u ''none'')))) = Deny"
proof -
  have "first_match (k_name (k_ex ''shutdown'')) (s_always_deny settings_ex) \<noteq> []" by code_simp
  with hard_denials_win show ?thesis by blast
qed

theorem plan_mode_is_read_only_witness:
  "side_effect_kind (tool_ex AUTO (u ''none'')) = Inr (u ''none'')"
proof -
  have "d_outcome (evaluate_call settings_ex host_ex oracle_ex (k_ex ''read_file'')
     (Some (context_ex PlanMode)) (Some (tool_ex AUTO (u ''none'')))) \<noteq> Deny" by code_simp
  moreover have "c_mode (context_ex PlanMode) = PlanMode" by (simp add: context_ex_def)
  ultimately have "(\<exists>t. Some (tool_ex AUTO (u ''none'')) = Some t
    \<and> (side_effect_kind t = Inr (u ''none'') \<and> \<not> startswith (k_name (k_ex ''read_file'')) (u ''mcp__'')
       \<or> k_name (k_ex ''read_file'') \<in> {u ''edit_file'', u ''write_file''} \<and> t_check t = Inr (Some AUTO)))"
    using plan_mode_is_read_only by blast
  moreover have "t_check (tool_ex AUTO (u ''none'')) = Inr None" by (simp add: tool_ex_def)
  ultimately show ?thesis by auto
qed

theorem auto_needs_a_clear_floor_witness:
  "injection_reason host_ex (k_ex ''run_command'') = []
   \<and> fst (evaluate_level settings_ex host_ex (k_ex ''run_command'') (Some (context_ex AutoMode))
       (Some (tool_ex AUTO (u ''none'')))) = AUTO"
proof -
  have a: "fst (evaluate_level settings_ex host_ex (k_ex ''run_command'') (Some (context_ex AutoMode))
       (Some (tool_ex AUTO (u ''none'')))) = AUTO" by code_simp
  have b: "\<not> startswith (k_name (k_ex ''run_command'')) (u ''mcp__'')" by code_simp
  from auto_needs_a_clear_floor [OF a _ _ b] a show ?thesis by (simp add: context_ex_def)
qed

theorem mcp_needs_a_user_allow_witness:
  "fst (evaluate_level settings_ex host_ex (k_ex ''mcp__git__log'') (Some (context_ex ConfirmMode))
       (Some (tool_ex CONFIRM (u ''none'')))) = AUTO
   \<and> rule_matches_call (hd (s_content_allow settings_ex)) (u ''mcp__git__log'')
       (args_text (h_repr host_ex) (k_args (k_ex ''mcp__git__log''))) AllowEffect"
proof -
  have a: "fst (evaluate_level settings_ex host_ex (k_ex ''mcp__git__log'') (Some (context_ex ConfirmMode))
       (Some (tool_ex CONFIRM (u ''none'')))) = AUTO" by code_simp
  have b: "startswith (k_name (k_ex ''mcp__git__log'')) (u ''mcp__'')" by code_simp
  from mcp_needs_a_user_allow [OF a b] a show ?thesis
    by (simp add: context_ex_def resolve_override_match_def settings_ex_def k_ex_def)
qed

theorem bypass_keeps_two_boundaries_witness:
  "fst (evaluate_level settings_ex host_ex (k_ex ''run_command'') (Some (context_ex BypassMode))
     (Some (tool_ex CONFIRM (u ''destructive'')))) = CONFIRM"
proof -
  have d: "deny_stage settings_ex host_ex (k_ex ''run_command'') (Some (context_ex BypassMode)) = Inr None"
    by code_simp
  have m: "c_mode (context_ex BypassMode) = BypassMode" by (simp add: context_ex_def)
  have "side_effect_kind (tool_ex CONFIRM (u ''destructive'')) = Inr (u ''destructive'')" by code_simp
  moreover have "fst (tool_permission_decision (tool_ex CONFIRM (u ''destructive''))) = CONFIRM" by code_simp
  ultimately show ?thesis
    unfolding bypass_keeps_two_boundaries [OF m d] by simp
qed

theorem clamp_never_widens_witness:
  "clamp_permission_mode (Some (u ''Bypass'')) (Some (u ''plan'')) = Inr PlanMode
   \<and> mode_authority PlanMode \<le> mode_authority PlanMode"
proof -
  have c: "clamp_permission_mode (Some (u ''Bypass'')) (Some (u ''plan'')) = Inr PlanMode" by code_simp
  from clamp_never_widens [OF c] c show ?thesis by auto
qed

theorem decision_agrees_with_level_witness:
  "d_outcome (evaluate_call settings_ex host_ex oracle_ex (k_ex ''run_command'')
     (Some ((context_ex ConfirmMode)\<lparr>c_approval_policy := u ''never''\<rparr>)) (Some (tool_ex CONFIRM (u ''external'')))) \<noteq> Ask"
  using decision_agrees_with_level [where s = settings_ex and h = host_ex and po = oracle_ex
      and k = "k_ex ''run_command''" and ctx = "Some ((context_ex ConfirmMode)\<lparr>c_approval_policy := u ''never''\<rparr>)"
      and tool = "Some (tool_ex CONFIRM (u ''external''))"]
  by (simp add: context_ex_def)

end
