(* ===== verification/Argv.thy ===== *)
theory Argv
  imports ToolSignals
begin

text \<open>
  Dangerous-command rules over a resolved argument vector: \<open>backend/permissions/argv_rules.py\<close>.

  A reason is a text, empty when there is none. The loops over an index are recursions over the
  remaining arguments. The regular expressions are written out; \<open>$\<close> also matches before a final
  newline (\<open>at_end\<close>).
\<close>

section \<open>Names\<close>

text \<open>The word that stands for an argument only known at run time (\<open>shell_ast.DYNAMIC_WORD\<close>).\<close>

definition DYNAMIC_WORD :: ustr where "DYNAMIC_WORD = [0] @ u ''dynamic''"

definition delete_commands :: "ustr list" where
  "delete_commands = map u [''rm'', ''del'', ''erase'', ''rmdir'', ''rd'', ''unlink'', ''shred'']"

definition system_root_dirs :: "ustr list" where
  "system_root_dirs = map u [''etc'', ''usr'', ''var'', ''bin'', ''sbin'', ''System'', ''Library'']"

definition account_root_dirs :: "ustr list" where
  "account_root_dirs = map u [''Users'', ''home'']"

definition dd_system_targets :: "ustr list" where
  "dd_system_targets = map u
     [''dev'', ''etc'', ''boot'', ''proc'', ''sys'', ''System'', ''Library'', ''Users'', ''home'']"

definition transparent_prefixes :: "ustr list" where
  "transparent_prefixes = map u [''nohup'', ''time'', ''command'', ''exec'', ''builtin'', ''caffeinate'']"

definition prefixes_with_value_options :: "(ustr \<times> ustr list) list" where
  "prefixes_with_value_options =
     [(u ''nice'', map u [''-n'', ''--adjustment'']),
      (u ''timeout'', map u [''-k'', ''--kill-after'', ''-s'', ''--signal'']),
      (u ''xargs'', map u [''-I'', ''-n'', ''-P'', ''-d'', ''-L'', ''-s'', ''-E'', ''-a'', ''--max-args'',
         ''--max-procs'', ''--delimiter'', ''--arg-file'']),
      (u ''stdbuf'', map u [''-i'', ''-o'', ''-e'', ''--input'', ''--output'', ''--error'']),
      (u ''doas'', map u [''-u'', ''-C''])]"

definition ualpha :: "int \<Rightarrow> bool" where
  "ualpha c \<longleftrightarrow> uword c \<and> \<not> digit_code c \<and> c \<notin> set [95, 178, 179, 185, 188, 189, 190]"

definition drop_suffix :: "ustr list \<Rightarrow> ustr \<Rightarrow> ustr" where
  "drop_suffix suffixes s =
     (case find (endswith s) suffixes of Some x \<Rightarrow> take (length s - length x) s | None \<Rightarrow> s)"

definition executable_name :: "ustr \<Rightarrow> ustr" where
  "executable_name raw =
     (let name = after_last_slash raw;
          name' = (if 2 < length name \<and> name ! 1 = 58 \<and> ualpha (name ! 0) then drop 2 name else name) in
      drop_suffix (map u [''.exe'', ''.cmd'', ''.bat'', ''.com'']) (ulower name'))"

definition before_char :: "int \<Rightarrow> ustr \<Rightarrow> ustr" where
  "before_char c s = takeWhile (\<lambda>x. x \<noteq> c) s"

definition is_option :: "ustr \<Rightarrow> bool" where
  "is_option a = startswith a (u ''-'')"

text \<open>The option loop of a prefix that takes options; the flag says that a duration is still due.\<close>

fun skip_options :: "ustr list \<Rightarrow> bool \<Rightarrow> ustr list \<Rightarrow> ustr list" where
  "skip_options opts due [] = []"
| "skip_options opts due [a] =
     (if a = u ''--'' then []
      else if is_option a then []
      else if due then [] else [a])"
| "skip_options opts due (a # b # args) =
     (if a = u ''--'' then b # args
      else if is_option a then
        (if before_char 61 a \<in> set opts \<and> 61 \<notin> set a then skip_options opts due args
         else skip_options opts due (b # args))
      else if due then skip_options opts False (b # args)
      else a # b # args)"

fun strip_prefixes :: "nat \<Rightarrow> ustr list \<Rightarrow> ustr list" where
  "strip_prefixes 0 argv = argv"
| "strip_prefixes (Suc n) [] = []"
| "strip_prefixes (Suc n) (c # args) =
     (let name = executable_name c in
      if name \<in> set transparent_prefixes then strip_prefixes n args
      else (case map_of prefixes_with_value_options name of
              None \<Rightarrow> c # args
            | Some opts \<Rightarrow> strip_prefixes n (skip_options opts (name = u ''timeout'') args)))"

definition strip_transparent_prefixes :: "ustr list \<Rightarrow> ustr list" where
  "strip_transparent_prefixes argv = strip_prefixes 8 argv"

section \<open>Flags and operands\<close>

definition before_dashes :: "ustr list \<Rightarrow> ustr list" where
  "before_dashes args = takeWhile (\<lambda>a. a \<noteq> u ''--'') args"

definition short_flag_chars :: "ustr list \<Rightarrow> ustr" where
  "short_flag_chars args =
     concat (map (drop 1)
       (filter (\<lambda>a. is_option a \<and> \<not> startswith a (u ''--'') \<and> 1 < length a) (before_dashes args)))"

definition long_flags :: "ustr list \<Rightarrow> ustr list" where
  "long_flags args = map (before_char 61) (filter (\<lambda>a. startswith a (u ''--'')) (before_dashes args))"

fun operands :: "ustr list \<Rightarrow> ustr list" where
  "operands [] = []"
| "operands (a # args) =
     (if a = u ''--'' then args
      else if is_option a then operands args
      else a # operands args)"

section \<open>Targets\<close>

fun collapse_slashes :: "ustr \<Rightarrow> ustr" where
  "collapse_slashes (a # b # s) =
     (if a = 47 \<and> b = 47 then collapse_slashes (b # s) else a # collapse_slashes (b # s))"
| "collapse_slashes s = s"

text \<open>\<open>posixpath.normpath\<close> of a path that starts with exactly one slash.\<close>

fun push_component :: "ustr list \<Rightarrow> ustr \<Rightarrow> ustr list" where
  "push_component acc c =
     (if c = [] \<or> c = u ''.'' then acc
      else if c = u ''..'' then (if acc = [] then [] else butlast acc)
      else acc @ [c])"

definition normpath_rooted :: "ustr \<Rightarrow> ustr" where
  "normpath_rooted p = u ''/'' @ join (u ''/'') (foldl push_component [] (split_on 47 p))"

definition normalize_posix_target :: "ustr \<Rightarrow> ustr" where
  "normalize_posix_target target =
     (let c = collapse_slashes target in
      if \<not> startswith c (u ''/'') then c else normpath_rooted c)"

definition strip_slashes :: "ustr \<Rightarrow> ustr" where
  "strip_slashes s = strip_by (\<lambda>c. c = 47) s"

definition HOME_REASON :: ustr where "HOME_REASON = u ''recursive delete of home directory''"
definition ROOT_REASON :: ustr where "ROOT_REASON = u ''recursive delete of root filesystem''"
definition SYSTEM_REASON :: ustr where "SYSTEM_REASON = u ''recursive delete of system directory''"

text \<open>
  The rest after a home variable: \<open>split("}", 1)[-1]\<close> for the braced form, which starts with the
  variable and so contains a brace.
\<close>

definition home_rest :: "ustr \<Rightarrow> ustr option" where
  "home_rest target =
     (if startswith target (u ''${HOME}'') then Some (drop 1 (dropWhile (\<lambda>c. c \<noteq> 125) target))
      else if startswith target (u ''$HOME'') then Some (drop 5 target)
      else if startswith target (u ''%USERPROFILE%'') then Some (drop 13 target)
      else None)"

definition rm_target_reason :: "ustr \<Rightarrow> ustr" where
  "rm_target_reason target =
     (if target = u ''~'' \<or> target = u ''~/'' then HOME_REASON
      else if (case home_rest target of
                 Some r \<Rightarrow> r = [] \<or> r = u ''/'' \<or> r = [92] | None \<Rightarrow> False) then HOME_REASON
      else if \<not> startswith target (u ''/'') then []
      else if endswith target (u ''/*'')
        \<and> normalize_posix_target (let b = take (length target - 2) target in if b = [] then u ''/'' else b) = u ''/''
        then ROOT_REASON
      else
       (let normalized = normalize_posix_target target in
        if normalized = u ''/'' then ROOT_REASON
        else
         (let parts = split_on 47 (strip_slashes normalized) in
          if hd parts \<in> set system_root_dirs then SYSTEM_REASON
          else if hd parts \<in> set account_root_dirs \<and> length parts \<le> 2 then SYSTEM_REASON
          else [])))"

definition at_end :: "ustr \<Rightarrow> bool" where
  "at_end s \<longleftrightarrow> s = [] \<or> s = [10]"

definition win_sep :: "int \<Rightarrow> bool" where
  "win_sep c \<longleftrightarrow> c = 92 \<or> c = 47"

definition after_seps :: "ustr \<Rightarrow> ustr option" where
  "after_seps s = (if s \<noteq> [] \<and> win_sep (hd s) then Some (dropWhile win_sep s) else None)"

text \<open>\<open>^[A-Za-z]:\<close> and what follows it.\<close>

fun after_drive :: "ustr \<Rightarrow> ustr option" where
  "after_drive (a # b # s) = (if ualpha_ascii a \<and> b = 58 then Some s else None)"
| "after_drive _ = None"

definition windows_drive_root :: "ustr \<Rightarrow> bool" where
  "windows_drive_root t = (case after_drive t of Some s \<Rightarrow> at_end (dropWhile win_sep s) | None \<Rightarrow> False)"

definition windows_user_home :: "ustr \<Rightarrow> bool" where
  "windows_user_home t =
     (case Option.bind (after_drive (re_fold t)) after_seps of
        None \<Rightarrow> False
      | Some s \<Rightarrow>
          startswith s (u ''users'')
          \<and> (case after_seps (drop 5 s) of
               None \<Rightarrow> False
             | Some r \<Rightarrow> r \<noteq> [] \<and> at_end (dropWhile win_sep (dropWhile (\<lambda>c. \<not> win_sep c) r))))"

definition sep_or_end :: "ustr \<Rightarrow> bool" where
  "sep_or_end s \<longleftrightarrow> at_end s \<or> (s \<noteq> [] \<and> win_sep (hd s))"

definition windows_system_dir :: "ustr \<Rightarrow> bool" where
  "windows_system_dir t =
     (case Option.bind (after_drive (re_fold t)) after_seps of
        None \<Rightarrow> False
      | Some s \<Rightarrow>
          (\<exists>w \<in> set [''windows'', ''program files'', ''program files (x86)''].
             startswith s (u w) \<and> sep_or_end (drop (length w) s)))"

definition DRIVE_REASON :: ustr where "DRIVE_REASON = u ''recursive delete of drive root''"

definition windows_target_reason :: "ustr \<Rightarrow> ustr" where
  "windows_target_reason t =
     (if ulower t \<in> set (map u [''$home'', ''$env:userprofile'', ''%userprofile%'', ''~'']) then HOME_REASON
      else if windows_drive_root t then DRIVE_REASON
      else if windows_user_home t then SYSTEM_REASON
      else if windows_system_dir t then u ''delete Windows system directory''
      else [])"

section \<open>Reasons by command\<close>

definition first_reason :: "(ustr \<Rightarrow> ustr) \<Rightarrow> ustr list \<Rightarrow> ustr" where
  "first_reason f xs = (case find (\<lambda>x. f x \<noteq> []) xs of Some x \<Rightarrow> f x | None \<Rightarrow> [])"

definition powershell_flag_set :: "ustr list \<Rightarrow> ustr list" where
  "powershell_flag_set args = map (\<lambda>a. ulower (before_char 58 a)) (filter is_option args)"

definition shares :: "ustr list \<Rightarrow> string list \<Rightarrow> bool" where
  "shares xs ws \<longleftrightarrow> (\<exists>w \<in> set ws. u w \<in> set xs)"

definition named :: "ustr \<Rightarrow> string list \<Rightarrow> bool" where
  "named name ws \<longleftrightarrow> name \<in> set (map u ws)"

definition powershell_reason :: "ustr \<Rightarrow> ustr list \<Rightarrow> ustr" where
  "powershell_reason name args =
     (if named name [''remove-item'', ''ri''] \<or>
         (named name [''rm'', ''rd'', ''rmdir'', ''del'', ''erase'']
          \<and> (\<exists>a \<in> set args. is_option a \<and> \<not> named (ulower a) [''-rf'', ''-r'', ''-f'', ''-fr'']))
      then
       (let recursive = shares (powershell_flag_set args) [''-recurse'', ''-r'']
              \<or> (\<exists>a \<in> set args. ulower a = u ''-recurse:$true'') in
        first_reason (\<lambda>t. let r = windows_target_reason t in
            if r \<noteq> [] \<and> (recursive \<or> occurs_in (u ''root'') r) then r else []) (operands args))
      else if named name [''del'', ''erase''] then
        (if u ''/s'' \<in> set (map ulower args)
         then first_reason windows_target_reason (operands (filter (\<lambda>a. \<not> startswith a (u ''/'')) args))
         else [])
      else if named name [''rd'', ''rmdir''] then
        (if u ''/s'' \<in> set (map ulower args)
         then first_reason windows_target_reason (filter (\<lambda>a. \<not> startswith a (u ''/'')) args)
         else [])
      else if name = u ''format'' then u ''drive format''
      else if named name [''stop-process'', ''spps'', ''kill''] then
        (if shares (powershell_flag_set args) [''-name'', ''-n'', ''-processname'']
         then u ''process-name termination is not scoped to an owned background command'' else [])
      else if name = u ''taskkill'' then
        (if u ''/im'' \<in> set (map ulower args)
         then u ''taskkill image-name termination is not scoped to an owned background command'' else [])
      else if named name [''invoke-expression'', ''iex''] then u ''dynamic script evaluation''
      else [])"

definition exec_actions :: "ustr list" where
  "exec_actions = map u [''-exec'', ''-execdir'', ''-ok'', ''-okdir'']"

definition exec_end :: "ustr \<Rightarrow> bool" where
  "exec_end a \<longleftrightarrow> a = u '';'' \<or> a = u ''+''"

definition mentions_delete :: "ustr \<Rightarrow> bool" where
  "mentions_delete s \<longleftrightarrow> (\<exists>w \<in> set delete_commands. some_word w (\<lambda>r. True) False s)"

function find_reason :: "ustr list \<Rightarrow> ustr" where
  "find_reason [] = []"
| "find_reason (a # args) =
     (if a = u ''-delete'' then u ''find delete operation''
      else if a \<in> set exec_actions then
       (let payload = takeWhile (\<lambda>x. \<not> exec_end x) args;
            stripped = strip_transparent_prefixes payload in
        if (stripped \<noteq> [] \<and> executable_name (hd stripped) \<in> set delete_commands)
          \<or> (\<exists>w \<in> set payload. executable_name w \<in> set delete_commands)
          \<or> (\<exists>w \<in> set (drop 1 payload). mentions_delete w)
        then u ''find recursive delete operation''
        else find_reason (drop (Suc (length payload)) args))
      else find_reason args)"
  by pat_completeness auto
termination
  by (relation "measure length") auto

definition find_value_predicates :: "ustr list" where
  "find_value_predicates = map u
     [''-name'', ''-iname'', ''-path'', ''-ipath'', ''-regex'', ''-iregex'', ''-wholename'', ''-iwholename'',
      ''-type'', ''-xtype'', ''-size'', ''-mtime'', ''-atime'', ''-ctime'', ''-mmin'', ''-amin'', ''-cmin'',
      ''-newer'', ''-newermt'', ''-user'', ''-group'', ''-uid'', ''-gid'', ''-perm'', ''-maxdepth'', ''-mindepth'',
      ''-links'', ''-inum'', ''-samefile'', ''-fstype'', ''-printf'', ''-fprint'', ''-fprintf'', ''-fls'']"

function dynamic_predicate :: "ustr list \<Rightarrow> bool" where
  "dynamic_predicate [] = False"
| "dynamic_predicate (a # args) =
     (if a \<in> set find_value_predicates then dynamic_predicate (drop 1 args)
      else if a \<in> set exec_actions then dynamic_predicate (drop 1 (dropWhile (\<lambda>x. \<not> exec_end x) args))
      else if a = DYNAMIC_WORD then True
      else dynamic_predicate args)"
  by pat_completeness auto
termination
proof (relation "measure length", goal_cases)
  case (3 a args)
  have "length (drop 1 (dropWhile (\<lambda>x. \<not> exec_end x) args)) \<le> length args"
    using length_dropWhile_le [of "\<lambda>x. \<not> exec_end x" args] by simp
  then show ?case by simp
qed auto

definition find_has_dynamic_action :: "ustr list \<Rightarrow> bool" where
  "find_has_dynamic_action args =
     (let r1 = dropWhile (\<lambda>a. a = DYNAMIC_WORD) args;
          r2 = dropWhile (\<lambda>a. \<not> is_option a \<and> a \<noteq> u ''('' \<and> a \<noteq> u ''!'' \<and> a \<noteq> DYNAMIC_WORD) r1 in
      dynamic_predicate r2)"

text \<open>The global options of \<open>git\<close> before its verb.\<close>

fun skip_git_options :: "ustr list \<Rightarrow> ustr list \<Rightarrow> ustr list" where
  "skip_git_options opts [] = []"
| "skip_git_options opts [a] = (if is_option a then [] else [a])"
| "skip_git_options opts (a # b # args) =
     (if is_option a then
        (if a \<in> set opts then skip_git_options opts args else skip_git_options opts (b # args))
      else a # b # args)"

definition git_value_options :: "ustr list" where
  "git_value_options = map u [''-C'', ''-c'', ''--git-dir'', ''--work-tree'', ''--namespace'']"

definition verb_of :: "ustr \<Rightarrow> ustr list \<Rightarrow> ustr" where
  "verb_of name args =
     (case (if name = u ''git'' then skip_git_options git_value_options args else args) of
        [] \<Rightarrow> [] | v # _ \<Rightarrow> v)"

definition git_reason :: "ustr list \<Rightarrow> ustr" where
  "git_reason args =
     (case skip_git_options git_value_options args of
        [] \<Rightarrow> []
      | verb # rest \<Rightarrow>
          (let short = short_flag_chars rest; long = long_flags rest in
           if verb = u ''reset'' \<and> u ''--hard'' \<in> set long then u ''destructive git reset''
           else if verb = u ''clean'' then
             (if 110 \<in> set short \<or> u ''--dry-run'' \<in> set long then []
              else if 102 \<in> set short \<or> u ''--force'' \<in> set long then u ''destructive git clean'' else [])
           else if named verb [''checkout'', ''restore''] \<and> operands rest = [u ''.''] then
             u ''destructive git working-tree restore''
           else if verb = u ''stash'' \<and> rest \<noteq> [] \<and> named (hd rest) [''drop'', ''clear''] then
             u ''destructive git stash removal''
           else if verb = u ''branch''
             \<and> (68 \<in> set short \<or> (u ''--delete'' \<in> set long \<and> u ''--force'' \<in> set long)) then
             u ''destructive git branch deletion''
           else if verb = u ''push''
             \<and> (102 \<in> set short \<or> u ''--force'' \<in> set long \<or> u ''--force-with-lease'' \<in> set long) then
             u ''destructive forced git push''
           else if verb = u ''commit'' \<and> u ''--amend'' \<in> set long then u ''destructive git amend''
           else []))"

definition drops_database_object :: "ustr \<Rightarrow> ustr list \<Rightarrow> bool" where
  "drops_database_object name args \<longleftrightarrow>
     named name [''drop'', ''truncate''] \<and> args \<noteq> [] \<and> named (ulower (hd args)) [''table'', ''database'', ''schema'']"

definition dd_reason :: "ustr \<Rightarrow> ustr" where
  "dd_reason a =
     (if startswith a (u ''of='') then
       (let target = normalize_posix_target (drop 3 a) in
        if startswith target (u ''/'') \<and> hd (split_on 47 (strip_slashes target)) \<in> set dd_system_targets
        then u ''raw system-file write'' else [])
      else [])"

definition command_reason :: "ustr \<Rightarrow> ustr list \<Rightarrow> ustr" where
  "command_reason name args =
     (if powershell_reason name args \<noteq> [] then powershell_reason name args
      else if name = u ''rm'' then first_reason rm_target_reason (operands args)
      else if startswith name (u ''mkfs'') then u ''filesystem format''
      else if name = u ''dd'' then first_reason dd_reason args
      else if name = u ''find'' then find_reason args
      else if name = u ''git'' then git_reason args
      else if name = u ''kubectl'' \<and> take 1 args = [u ''delete''] then u ''destructive Kubernetes delete''
      else if name = u ''terraform'' \<and> take 1 args = [u ''destroy''] then u ''destructive Terraform destroy''
      else if drops_database_object name args then u ''destructive database operation''
      else if name = u ''pkill'' then u ''pkill is not scoped to an owned background command''
      else if name = u ''killall'' then u ''killall is not scoped to an owned background command''
      else [])"

definition catastrophic_reason :: "ustr list \<Rightarrow> ustr" where
  "catastrophic_reason argv =
     (case strip_transparent_prefixes argv of
        [] \<Rightarrow> []
      | c # args \<Rightarrow> command_reason (executable_name c) args)"

definition run_time_reason :: "ustr \<Rightarrow> ustr list \<Rightarrow> ustr" where
  "run_time_reason name args =
     (if DYNAMIC_WORD \<notin> set args then []
      else if name \<in> set delete_commands \<or> name = u ''remove-item'' then
        u ''delete command with arguments resolved at run time''
      else if name = u ''find'' \<and> find_has_dynamic_action args then u ''find action resolved at run time''
      else if named name [''git'', ''kubectl'', ''terraform''] \<and> verb_of name args = DYNAMIC_WORD then
        name @ u '' subcommand resolved at run time''
      else [])"

definition destructive_reason :: "ustr list \<Rightarrow> ustr" where
  "destructive_reason argv =
     (if catastrophic_reason argv \<noteq> [] then catastrophic_reason argv
      else (case strip_transparent_prefixes argv of
              [] \<Rightarrow> []
            | c # args \<Rightarrow>
                (let name = executable_name c in
                 if run_time_reason name args \<noteq> [] then run_time_reason name args
                 else if name = u ''rm'' then
                  (let short = short_flag_chars args in
                   if 114 \<in> set (ulower short) \<or> 102 \<in> set short
                     \<or> shares (long_flags args) [''--recursive'', ''--force'']
                   then u ''recursive or forced delete'' else [])
                 else if named name [''remove-item'', ''ri''] then
                  (if shares (powershell_flag_set args) [''-recurse'', ''-force'', ''-r'']
                   then u ''recursive or forced delete'' else [])
                 else if named name [''del'', ''erase'', ''rmdir'', ''rd''] then u ''delete command''
                 else if name = u ''format'' then u ''drive format''
                 else [])))"

definition compound_destructive_reason :: "ustr list \<Rightarrow> ustr" where
  "compound_destructive_reason argv =
     (case strip_transparent_prefixes argv of
        [] \<Rightarrow> []
      | c # args \<Rightarrow>
          (let name = executable_name c; hidden = u ''recursive delete hidden inside a compound command'' in
           if name = u ''rm''
             \<and> (114 \<in> set (ulower (short_flag_chars args)) \<or> u ''--recursive'' \<in> set (long_flags args)) then hidden
           else if named name [''remove-item'', ''ri'', ''del'', ''erase'', ''rd'', ''rmdir''] then
            (if shares (map (\<lambda>a. ulower (before_char 58 a)) args) [''-recurse'', ''-r'', ''/s''] then hidden else [])
           else if name = u ''git'' then
            (if git_reason args \<noteq> [] then u ''destructive git operation hidden inside a compound command'' else [])
           else if name = u ''find'' \<and> find_reason args \<noteq> [] then
             u ''destructive find operation hidden inside a compound command''
           else if name = u ''kubectl'' \<and> take 1 args = [u ''delete'']
             \<or> name = u ''terraform'' \<and> take 1 args = [u ''destroy''] then
             u ''destructive external operation hidden inside a compound command''
           else if drops_database_object name args then
             u ''destructive database operation hidden inside a compound command''
           else []))"

section \<open>Reaching outside\<close>

definition external_git_options :: "ustr list" where
  "external_git_options = map u [''-C'', ''-c'', ''--git-dir'', ''--work-tree'']"

definition first_in :: "ustr list \<Rightarrow> string list \<Rightarrow> bool" where
  "first_in args ws \<longleftrightarrow> args \<noteq> [] \<and> named (hd args) ws"

definition is_external :: "ustr list \<Rightarrow> bool" where
  "is_external argv =
     (case strip_transparent_prefixes argv of
        [] \<Rightarrow> False
      | c # args \<Rightarrow>
          (let name = executable_name c in
           if name = u ''git'' then
            (case skip_git_options external_git_options args of
               [] \<Rightarrow> False
             | v # rest \<Rightarrow>
                 named v [''push'', ''fetch'', ''pull'', ''clone'']
                 \<or> (v = u ''remote'' \<and> first_in rest [''add'', ''remove'', ''set-url'']))
           else if name = u ''gh'' then
             first_in args [''api'', ''pr'', ''issue'', ''release'', ''repo'', ''workflow'', ''run'']
           else if named name [''curl'', ''wget'', ''invoke-webrequest'', ''invoke-restmethod'', ''ssh'', ''scp'', ''sftp'', ''rsync'']
             \<or> named name [''docker'', ''podman'', ''kubectl'', ''helm'', ''terraform''] then True
           else if named name [''npm'', ''pnpm'', ''yarn'', ''bun''] then
             first_in args [''install'', ''add'', ''remove'', ''publish'']
           else if named name [''pip'', ''conda'', ''mamba'', ''micromamba'']
             \<or> (startswith name (u ''pip'') \<and> drop 3 name \<noteq> [] \<and> (\<forall>d \<in> set (drop 3 name). digit_code d)) then
             first_in args [''install'', ''uninstall'', ''remove'', ''create'']
           else if name = u ''uv'' \<and> take 1 args = [u ''pip''] then first_in (drop 1 args) [''install'', ''uninstall'']
           else False))"

end
