(* ===== verification/ArgvProps.thy ===== *)
theory ArgvProps
  imports Argv
begin

text \<open>
  What the argument-vector rules of \<open>Argv\<close> catch: deletions of the root and of the system directories
  behind any spelling of the path and up to eight command prefixes, and destructive \<open>git\<close> verbs
  behind any global options. The bound of eight is exact.
\<close>

section \<open>Prefixes\<close>

text \<open>
  The options of a prefix in front of its command: words with a dash, and options followed by their
  value.
\<close>

inductive option_block :: "ustr list \<Rightarrow> ustr list \<Rightarrow> bool" where
  empty: "option_block opts []"
| single: "is_option a \<Longrightarrow> a \<noteq> u ''--'' \<Longrightarrow> before_char 61 a \<notin> set opts \<or> 61 \<in> set a \<Longrightarrow>
    option_block opts as \<Longrightarrow> option_block opts (a # as)"
| valued: "is_option a \<Longrightarrow> a \<noteq> u ''--'' \<Longrightarrow> before_char 61 a \<in> set opts \<Longrightarrow> 61 \<notin> set a \<Longrightarrow>
    option_block opts as \<Longrightarrow> option_block opts (a # v # as)"

definition starts_command :: "ustr list \<Rightarrow> bool" where
  "starts_command argv \<longleftrightarrow> argv \<noteq> [] \<and> \<not> is_option (hd argv)"

text \<open>\<open>wrapped n argv cmd\<close>: \<open>argv\<close> runs \<open>cmd\<close> through \<open>n\<close> of the known prefixes.\<close>

inductive wrapped :: "nat \<Rightarrow> ustr list \<Rightarrow> ustr list \<Rightarrow> bool" where
  plain: "wrapped 0 cmd cmd"
| transparent: "executable_name p \<in> set transparent_prefixes \<Longrightarrow> wrapped n argv cmd \<Longrightarrow>
    wrapped (Suc n) (p # argv) cmd"
| options: "executable_name p \<notin> set transparent_prefixes \<Longrightarrow>
    map_of prefixes_with_value_options (executable_name p) = Some opts \<Longrightarrow>
    executable_name p \<noteq> u ''timeout'' \<Longrightarrow> option_block opts os \<Longrightarrow> starts_command argv \<Longrightarrow>
    wrapped n argv cmd \<Longrightarrow> wrapped (Suc n) (p # os @ argv) cmd"
| limited: "executable_name p = u ''timeout'' \<Longrightarrow>
    map_of prefixes_with_value_options (executable_name p) = Some opts \<Longrightarrow>
    option_block opts os \<Longrightarrow> \<not> is_option d \<Longrightarrow> starts_command argv \<Longrightarrow>
    wrapped n argv cmd \<Longrightarrow> wrapped (Suc n) (p # os @ d # argv) cmd"

declare u_inject [simp] u_empty [simp]

lemma u_startswith [simp]: "startswith (u a) (u b) \<longleftrightarrow> startswith a b"
  by (induction a b rule: startswith.induct) (auto simp: u_def)

lemma u_in_names [simp]: "u a \<in> set (map u ws) \<longleftrightarrow> a \<in> set ws"
  by auto

lemma named_u [simp]: "named (u a) ws \<longleftrightarrow> a \<in> set ws"
  by (auto simp: named_def)

lemma dashes_is_option [simp]: "is_option (u ''--'')"
  by code_simp

lemma skip_options_command: "starts_command argv \<Longrightarrow> skip_options opts False argv = argv"
  by (cases "(opts, False, argv)" rule: skip_options.cases) (auto simp: starts_command_def)

lemma skip_options_due:
  "\<not> is_option d \<Longrightarrow> starts_command argv \<Longrightarrow> skip_options opts True (d # argv) = argv"
  by (cases argv) (auto simp: starts_command_def skip_options_command)

lemma skip_options_block:
  "option_block opts os \<Longrightarrow> rest \<noteq> [] \<Longrightarrow> skip_options opts due (os @ rest) = skip_options opts due rest"
proof (induction rule: option_block.induct)
  case (single a opts as)
  then show ?case by (cases "as @ rest") auto
next
  case (valued a opts as v)
  then show ?case by auto
qed simp

lemma timeout_not_transparent: "u ''timeout'' \<notin> set transparent_prefixes"
  by code_simp

lemma strip_prefixes_wrapped:
  "wrapped n argv cmd \<Longrightarrow> strip_prefixes (n + k) argv = strip_prefixes k cmd"
proof (induction rule: wrapped.induct)
  case (options p opts os argv n cmd)
  then have "argv \<noteq> []" by (auto simp: starts_command_def)
  with options show ?case
    by (simp add: skip_options_block skip_options_command Let_def)
next
  case (limited p opts os d argv n cmd)
  then show ?case
    by (simp add: skip_options_block skip_options_due timeout_not_transparent Let_def)
qed (auto simp: Let_def)

definition known_prefix :: "ustr \<Rightarrow> bool" where
  "known_prefix w \<longleftrightarrow> executable_name w \<in> set transparent_prefixes
     \<or> map_of prefixes_with_value_options (executable_name w) \<noteq> None"

lemma strip_prefixes_command:
  "argv \<noteq> [] \<Longrightarrow> \<not> known_prefix (hd argv) \<Longrightarrow> strip_prefixes k argv = argv"
  by (cases k; cases argv) (auto simp: known_prefix_def Let_def)

lemma strip_transparent_wrapped:
  assumes "wrapped n argv cmd" "n \<le> 8" "cmd \<noteq> []" "\<not> known_prefix (hd cmd)"
  shows "strip_transparent_prefixes argv = cmd"
  using strip_prefixes_wrapped [OF assms(1), of "8 - n"] assms
  by (simp add: strip_transparent_prefixes_def strip_prefixes_command)

lemma catastrophic_wrapped:
  assumes "wrapped n argv (c # args)" "n \<le> 8" "\<not> known_prefix c"
  shows "catastrophic_reason argv = command_reason (executable_name c) args"
  using strip_transparent_wrapped [OF assms(1,2)] assms(3) by (simp add: catastrophic_reason_def)

section \<open>Paths\<close>

definition pathless :: "ustr \<Rightarrow> bool" where
  "pathless c \<longleftrightarrow> c = [] \<or> c = u ''.'' \<or> c = u ''..''"

lemma hd_split_on: "hd (split_on c s) = takeWhile (\<lambda>x. x \<noteq> c) s"
  by (induction s) (auto split: list.splits)

lemma split_on_Cons_other:
  "x \<noteq> c \<Longrightarrow> split_on c (x # s) = (x # hd (split_on c s)) # tl (split_on c s)"
  by (auto split: list.splits)

definition same_components :: "ustr \<Rightarrow> ustr \<Rightarrow> bool" where
  "same_components s t \<longleftrightarrow> hd (split_on 47 s) = hd (split_on 47 t)
     \<and> filter (\<lambda>c. c \<noteq> []) (tl (split_on 47 s)) = filter (\<lambda>c. c \<noteq> []) (tl (split_on 47 t))"

lemma same_components_all:
  "same_components s t \<Longrightarrow> filter (\<lambda>c. c \<noteq> []) (split_on 47 s) = filter (\<lambda>c. c \<noteq> []) (split_on 47 t)"
  unfolding same_components_def by (metis filter.simps(2) list.collapse split_on_nonempty)

lemma same_components_slash: "same_components s t \<Longrightarrow> same_components (47 # s) (47 # t)"
  using same_components_all [of s t] by (simp add: same_components_def)

lemma same_components_other: "x \<noteq> 47 \<Longrightarrow> same_components s t \<Longrightarrow> same_components (x # s) (x # t)"
  by (simp add: same_components_def split_on_Cons_other del: split_on.simps)

lemma same_components_double: "same_components s (47 # t) \<Longrightarrow> same_components s (47 # 47 # t)"
  by (simp add: same_components_def)

lemma collapse_components: "same_components (collapse_slashes s) s"
proof (induction s rule: collapse_slashes.induct)
  case (1 a b s)
  show ?case
  proof (cases "a = 47 \<and> b = 47")
    case True
    with 1(1) show ?thesis by (simp add: same_components_double)
  next
    case False
    with 1(2) have "same_components (collapse_slashes (b # s)) (b # s)" by blast
    then have "same_components (a # collapse_slashes (b # s)) (a # b # s)"
      using same_components_slash [of "collapse_slashes (b # s)" "b # s"]
        same_components_other [of a "collapse_slashes (b # s)" "b # s"] by metis
    with False show ?thesis by (simp only: collapse_slashes.simps if_False)
  qed
qed (simp_all add: same_components_def)

declare push_component.simps [simp del]

lemma push_same [simp]: "push_component acc [] = acc" "push_component acc (u ''.'') = acc"
  by (simp_all add: push_component.simps)

lemma push_up [simp]: "push_component [] (u ''..'') = []"
  by (simp add: push_component.simps)

lemma push_name [simp]: "c \<noteq> [] \<Longrightarrow> c \<noteq> u ''.'' \<Longrightarrow> c \<noteq> u ''..'' \<Longrightarrow> push_component acc c = acc @ [c]"
  by (simp add: push_component.simps)

lemma push_filter: "foldl push_component acc cs = foldl push_component acc (filter (\<lambda>c. c \<noteq> []) cs)"
  by (induction cs arbitrary: acc) auto

lemma push_pathless: "\<forall>c \<in> set cs. pathless c \<Longrightarrow> foldl push_component [] cs = []"
  by (induction cs) (auto simp: pathless_def)

lemma push_downward:
  "u ''..'' \<notin> set cs \<Longrightarrow> \<exists>ds. foldl push_component acc cs = acc @ ds"
proof (induction cs arbitrary: acc)
  case (Cons c cs)
  show ?case
  proof (cases "c = [] \<or> c = u ''.''")
    case True
    then show ?thesis using Cons by auto
  next
    case False
    moreover obtain ds where "foldl push_component (acc @ [c]) cs = (acc @ [c]) @ ds"
      using Cons by (metis list.set_intros(2))
    ultimately show ?thesis using Cons.prems by auto
  qed
qed simp

lemma startswith_collapse: "startswith (collapse_slashes s) (u ''/'') = startswith s (u ''/'')"
  by (induction s rule: collapse_slashes.induct) (auto simp: u_def)

lemma normalize_rooted:
  assumes "startswith t (u ''/'')"
  shows "normalize_posix_target t = u ''/'' @ join (u ''/'') (foldl push_component [] (split_on 47 t))"
  using assms push_filter [of "[]" "split_on 47 (collapse_slashes t)"] push_filter [of "[]" "split_on 47 t"]
  by (simp add: normalize_posix_target_def normpath_rooted_def startswith_collapse
      same_components_all [OF collapse_components])

lemma u_slash: "u ''/'' = [47]"
  by code_simp

text \<open>A target spelled through slashes, \<open>.\<close> and \<open>..\<close> only.\<close>

definition spells_root :: "ustr \<Rightarrow> bool" where
  "spells_root t \<longleftrightarrow> startswith t (u ''/'') \<and> (\<forall>c \<in> set (split_on 47 t). pathless c)"

lemma spells_root_normal: "spells_root t \<Longrightarrow> normalize_posix_target t = u ''/''"
  by (simp add: spells_root_def normalize_rooted push_pathless)

text \<open>A target that goes down into one of the system directories and never up again.\<close>

definition spells_system_path :: "ustr \<Rightarrow> bool" where
  "spells_system_path t \<longleftrightarrow> startswith t (u ''/'')
     \<and> (case dropWhile pathless (split_on 47 t) of
          d # rest \<Rightarrow> d \<in> set system_root_dirs \<and> u ''..'' \<notin> set rest
        | [] \<Rightarrow> False)"

lemma takeWhile_append_stop: "\<forall>x \<in> set t. \<not> P x \<Longrightarrow> takeWhile P (r @ t) = takeWhile P r"
  by (induction r) (auto simp: takeWhile_eq_Nil_iff)

lemma first_component:
  assumes "47 \<notin> set d" "d \<noteq> []" "w = [] \<or> hd w = 47"
  shows "hd (split_on 47 (strip_slashes (47 # d @ w))) = d"
proof -
  have "lstrip_by (\<lambda>c. c = 47) (47 # d @ w) = d @ w"
    using assms by (cases d) (auto simp: lstrip_by_def)
  moreover obtain t where t: "d @ w = rstrip_by (\<lambda>c. c = 47) (d @ w) @ t" "\<forall>c \<in> set t. c = 47"
    using rstrip_by_prefix [of "d @ w" "\<lambda>c. c = 47"] by blast
  moreover have "takeWhile (\<lambda>x. x \<noteq> 47) (d @ w) = d"
    using assms by (cases w) (auto simp: takeWhile_append)
  ultimately have "takeWhile (\<lambda>x. x \<noteq> 47) (rstrip_by (\<lambda>c. c = 47) (d @ w)) = d"
    using takeWhile_append_stop [of t "\<lambda>x. x \<noteq> 47" "rstrip_by (\<lambda>c. c = 47) (d @ w)"] by simp
  with \<open>lstrip_by _ _ = _\<close> show ?thesis
    by (simp add: strip_slashes_def strip_by_def hd_split_on)
qed

lemma system_dir_plain: "d \<in> set system_root_dirs \<Longrightarrow> d \<noteq> [] \<and> 47 \<notin> set d \<and> d \<noteq> u ''.'' \<and> d \<noteq> u ''..''"
  by (auto simp: system_root_dirs_def u_def)

lemma join_head: "\<exists>w. join [47] (d # ds) = d @ w \<and> (w = [] \<or> hd w = 47)"
  by (cases ds) auto

lemma spells_system_component:
  assumes "spells_system_path t"
  shows "hd (split_on 47 (strip_slashes (normalize_posix_target t))) \<in> set system_root_dirs"
proof -
  obtain d rest where s: "startswith t (u ''/'')" "dropWhile pathless (split_on 47 t) = d # rest"
    "d \<in> set system_root_dirs" "u ''..'' \<notin> set rest"
    using assms by (auto simp: spells_system_path_def split: list.splits)
  note p = system_dir_plain [OF s(3)]
  have "split_on 47 t = takeWhile pathless (split_on 47 t) @ d # rest"
    using s(2) by (metis takeWhile_dropWhile_id)
  then have "foldl push_component [] (split_on 47 t)
      = foldl push_component (push_component (foldl push_component [] (takeWhile pathless (split_on 47 t))) d) rest"
    by (metis foldl_Cons foldl_append)
  also have "foldl push_component [] (takeWhile pathless (split_on 47 t)) = []"
    by (rule push_pathless) (auto dest: set_takeWhileD)
  finally have "foldl push_component [] (split_on 47 t) = foldl push_component [d] rest"
    using p by simp
  moreover obtain ds where "foldl push_component [d] rest = [d] @ ds"
    using push_downward [OF s(4)] by blast
  ultimately have "foldl push_component [] (split_on 47 t) = d # ds" by simp
  then have "normalize_posix_target t = u ''/'' @ join (u ''/'') (d # ds)"
    by (simp only: normalize_rooted [OF s(1)])
  then obtain w where "normalize_posix_target t = 47 # d @ w" "w = [] \<or> hd w = 47"
    using join_head [of d ds] by (auto simp: u_slash)
  then show ?thesis using first_component [of d w] p s(3) by simp
qed

lemma rm_target_caught:
  assumes "spells_root t \<or> spells_system_path t"
  shows "rm_target_reason t \<noteq> []"
proof -
  have "startswith t (u ''/'')" using assms by (auto simp: spells_root_def spells_system_path_def)
  moreover have "HOME_REASON \<noteq> []" "ROOT_REASON \<noteq> []" "SYSTEM_REASON \<noteq> []" by code_simp+
  ultimately show ?thesis
    using assms spells_root_normal [of t] spells_system_component [of t]
    by (auto simp: rm_target_reason_def Let_def)
qed

section \<open>Deletions\<close>

lemma first_reason_found: "x \<in> set xs \<Longrightarrow> f x \<noteq> [] \<Longrightarrow> first_reason f xs \<noteq> []"
  by (auto simp: first_reason_def find_None_iff find_Some_iff split: option.splits)

lemma rm_reason_caught:
  assumes "t \<in> set (operands args)" "rm_target_reason t \<noteq> []"
  shows "command_reason (u ''rm'') args \<noteq> []"
  using first_reason_found [OF assms(1), of rm_target_reason] assms(2) by (simp add: command_reason_def)

lemma rm_not_prefix: "executable_name c = u ''rm'' \<Longrightarrow> \<not> known_prefix c"
proof -
  have "u ''rm'' \<notin> set transparent_prefixes" "map_of prefixes_with_value_options (u ''rm'') = None"
    by code_simp+
  then show "executable_name c = u ''rm'' \<Longrightarrow> \<not> known_prefix c" by (simp add: known_prefix_def)
qed

text \<open>
  Every \<open>rm\<close> (however its path and its flags are written, and behind up to eight known
  prefixes with their options) one of whose operands spells the root directory, or a path inside a
  system directory, is reported as catastrophic: no spelling with repeated slashes, \<open>.\<close> or \<open>..\<close>
  components, no flag and no other operand hides it.
\<close>

theorem system_delete_is_catastrophic:
  assumes "wrapped n argv (c # args)" "n \<le> 8" "executable_name c = u ''rm''"
    and "t \<in> set (operands args)" "spells_root t \<or> spells_system_path t"
  shows "catastrophic_reason argv \<noteq> [] \<and> destructive_reason argv \<noteq> []"
  using catastrophic_wrapped [OF assms(1,2) rm_not_prefix [OF assms(3)]]
    rm_reason_caught [OF assms(4) rm_target_caught [OF assms(5)]] assms(3)
  by (simp add: destructive_reason_def)

corollary system_delete_is_catastrophic_witness:
  "catastrophic_reason (map u [''/usr/bin/NOHUP'', ''timeout'', ''-k'', ''5'', ''10s'', ''/bin/rm'', ''-vr'', ''tmp'', ''//./..//.'']) \<noteq> []
   \<and> destructive_reason (map u [''nice'', ''-n'', ''5'', ''rm'', ''-rf'', ''--'', ''/..//etc/ssl'']) \<noteq> []"
proof -
  let ?rm = "map u [''/bin/rm'', ''-vr'', ''tmp'', ''//./..//.'']"
  let ?a = "map u [''/usr/bin/NOHUP'', ''timeout'', ''-k'', ''5'', ''10s'', ''/bin/rm'', ''-vr'', ''tmp'', ''//./..//.'']"
  let ?etc = "map u [''rm'', ''-rf'', ''--'', ''/..//etc/ssl'']"
  let ?b = "map u [''nice'', ''-n'', ''5'', ''rm'', ''-rf'', ''--'', ''/..//etc/ssl'']"
  have c: "option_block (map u [''-k'', ''--kill-after'', ''-s'', ''--signal'']) (u ''-k'' # u ''5'' # [])"
    by (rule option_block.valued) (code_simp, code_simp, code_simp, code_simp, rule option_block.empty)
  have d: "option_block (map u [''-n'', ''--adjustment'']) (u ''-n'' # u ''5'' # [])"
    by (rule option_block.valued) (code_simp, code_simp, code_simp, code_simp, rule option_block.empty)
  have "wrapped (Suc 0) (u ''timeout'' # [u ''-k'', u ''5''] @ u ''10s'' # ?rm) ?rm"
    by (rule wrapped.limited [OF _ _ c]) (code_simp, code_simp, code_simp, code_simp, rule wrapped.plain)
  then have w: "wrapped (Suc (Suc 0)) (u ''/usr/bin/NOHUP'' # (u ''timeout'' # [u ''-k'', u ''5''] @ u ''10s'' # ?rm)) ?rm"
    by (rule wrapped.transparent [rotated]) code_simp
  have v: "wrapped (Suc 0) (u ''nice'' # [u ''-n'', u ''5''] @ ?etc) ?etc"
    by (rule wrapped.options [OF _ _ _ d]) (code_simp, code_simp, code_simp, code_simp, rule wrapped.plain)
  have "catastrophic_reason ?a \<noteq> [] \<and> destructive_reason ?a \<noteq> []"
  proof (rule system_delete_is_catastrophic)
    show "wrapped (Suc (Suc 0)) ?a (u ''/bin/rm'' # map u [''-vr'', ''tmp'', ''//./..//.''])"
      using w by simp
    show "u ''//./..//.'' \<in> set (operands (map u [''-vr'', ''tmp'', ''//./..//.'']))"
      by code_simp
  qed code_simp+
  moreover have "catastrophic_reason ?b \<noteq> [] \<and> destructive_reason ?b \<noteq> []"
  proof (rule system_delete_is_catastrophic)
    show "wrapped (Suc 0) ?b (u ''rm'' # map u [''-rf'', ''--'', ''/..//etc/ssl''])" using v by simp
    show "u ''/..//etc/ssl'' \<in> set (operands (map u [''-rf'', ''--'', ''/..//etc/ssl'']))"
      by code_simp
  qed code_simp+
  ultimately show ?thesis by blast
qed

lemma strip_prefixes_transparent:
  "\<forall>p \<in> set ps. executable_name p \<in> set transparent_prefixes \<Longrightarrow>
   strip_prefixes (length ps) (ps @ cmd) = cmd"
  by (induction ps) (auto simp: Let_def)

lemma transparent_silent:
  assumes "n \<in> set transparent_prefixes"
  shows "command_reason n args = []" "run_time_reason n args = []" "n \<noteq> u ''rm''"
    "\<not> named n [''remove-item'', ''ri'']" "\<not> named n [''del'', ''erase'', ''rmdir'', ''rd'']"
    "n \<noteq> u ''format''"
proof -
  obtain a where a: "n = u a" "a \<in> set [''nohup'', ''time'', ''command'', ''exec'', ''builtin'', ''caffeinate'']"
    using assms unfolding transparent_prefixes_def set_map by (rule imageE)
  have "\<not> named n [''remove-item'', ''ri'']" "\<not> named n [''rm'', ''rd'', ''rmdir'', ''del'', ''erase'']"
    "\<not> named n [''del'', ''erase'']" "\<not> named n [''rd'', ''rmdir'']" "n \<noteq> u ''format''"
    "\<not> named n [''stop-process'', ''spps'', ''kill'']" "n \<noteq> u ''taskkill''"
    "\<not> named n [''invoke-expression'', ''iex'']"
    using a by auto
  then have "powershell_reason n args = []"
    by (simp only: powershell_reason_def if_False simp_thms)
  then show "command_reason n args = []"
    using a(2) unfolding a(1) command_reason_def drops_database_object_def by (simp only: list.set insert_iff empty_iff, elim disjE FalseE) simp_all
  show "run_time_reason n args = []"
    using a(2) unfolding a(1) run_time_reason_def delete_commands_def by (simp only: list.set insert_iff empty_iff, elim disjE FalseE) simp_all
  show "n \<noteq> u ''rm''" "\<not> named n [''remove-item'', ''ri'']"
    "\<not> named n [''del'', ''erase'', ''rmdir'', ''rd'']" "n \<noteq> u ''format''"
    using a by auto
qed

text \<open>
  The bound of eight is exact: behind nine or more bare prefixes (\<open>nohup nohup ... rm -rf /\<close>)
  no rule fires, whatever the command is.
\<close>

theorem ninth_prefix_hides_the_command:
  assumes "\<forall>p \<in> set ps. executable_name p \<in> set transparent_prefixes" "9 \<le> length ps"
  shows "catastrophic_reason (ps @ cmd) = [] \<and> destructive_reason (ps @ cmd) = []"
proof -
  obtain q rest where q: "drop 8 ps = q # rest"
    using assms(2) by (cases "drop 8 ps") auto
  then have qt: "executable_name q \<in> set transparent_prefixes"
    using assms(1) by (metis in_set_dropD list.set_intros(1))
  have "strip_transparent_prefixes (take 8 ps @ (drop 8 ps @ cmd)) = drop 8 ps @ cmd"
    using strip_prefixes_transparent [of "take 8 ps" "drop 8 ps @ cmd"] assms
    by (auto simp: strip_transparent_prefixes_def dest: in_set_takeD)
  then have s: "strip_transparent_prefixes (ps @ cmd) = q # rest @ cmd"
    using append_take_drop_id [of 8 ps] by (simp add: q) (metis append.assoc append_Cons)
  note t = transparent_silent [OF qt]
  show ?thesis
    using t by (simp add: catastrophic_reason_def destructive_reason_def s Let_def named_def)
qed

corollary ninth_prefix_hides_the_command_witness:
  "destructive_reason (replicate 9 (u ''nohup'') @ map u [''rm'', ''-rf'', ''/'']) = []
   \<and> destructive_reason (replicate 8 (u ''nohup'') @ map u [''rm'', ''-rf'', ''/'']) \<noteq> []"
proof
  show "destructive_reason (replicate 9 (u ''nohup'') @ map u [''rm'', ''-rf'', ''/'']) = []"
    by (rule ninth_prefix_hides_the_command [THEN conjunct2]) code_simp+
qed code_simp

section \<open>Git\<close>

text \<open>Global options of \<open>git\<close>: words with a dash, each known option with its value.\<close>

fun git_globals :: "ustr list \<Rightarrow> bool" where
  "git_globals [] \<longleftrightarrow> True"
| "git_globals [a] \<longleftrightarrow> is_option a \<and> a \<notin> set git_value_options"
| "git_globals (a # b # as) \<longleftrightarrow> is_option a
     \<and> (if a \<in> set git_value_options then git_globals as else git_globals (b # as))"

lemma skip_git_verb: "\<not> is_option v \<Longrightarrow> skip_git_options opts (v # rest) = v # rest"
  by (cases rest) auto

lemma skip_git_globals:
  "git_globals os \<Longrightarrow> \<not> is_option v \<Longrightarrow> skip_git_options git_value_options (os @ v # rest) = v # rest"
  by (induction os rule: git_globals.induct) (auto simp: skip_git_verb)

text \<open>Options of a verb that discard work, before any \<open>--\<close>.\<close>

definition short_with :: "int \<Rightarrow> ustr list \<Rightarrow> bool" where
  "short_with c args \<longleftrightarrow> (\<exists>a \<in> set (before_dashes args).
     is_option a \<and> \<not> startswith a (u ''--'') \<and> c \<in> set (drop 1 a))"

definition long_with :: "string \<Rightarrow> ustr list \<Rightarrow> bool" where
  "long_with w args \<longleftrightarrow> (\<exists>a \<in> set (before_dashes args). startswith a (u ''--'') \<and> before_char 61 a = u w)"

definition discards_work :: "ustr \<Rightarrow> ustr list \<Rightarrow> bool" where
  "discards_work v rest \<longleftrightarrow>
     (v = u ''reset'' \<and> long_with ''--hard'' rest)
     \<or> (v = u ''clean'' \<and> (short_with 102 rest \<or> long_with ''--force'' rest)
        \<and> \<not> short_with 110 rest \<and> \<not> long_with ''--dry-run'' rest)
     \<or> (v = u ''push'' \<and> (short_with 102 rest \<or> long_with ''--force'' rest \<or> long_with ''--force-with-lease'' rest))
     \<or> (v = u ''branch'' \<and> (short_with 68 rest \<or> long_with ''--delete'' rest \<and> long_with ''--force'' rest))
     \<or> (v = u ''commit'' \<and> long_with ''--amend'' rest)"

lemma short_with_flags: "short_with c args \<longleftrightarrow> c \<in> set (short_flag_chars args)"
proof -
  have "c \<in> set (drop 1 a) \<Longrightarrow> 1 < length a" for a
    by (metis drop_all empty_iff linorder_not_less list.set(1))
  then show ?thesis by (auto simp: short_with_def short_flag_chars_def)
qed

lemma long_with_flags: "long_with w args \<longleftrightarrow> u w \<in> set (long_flags args)"
  by (force simp: long_with_def long_flags_def)

lemmas flag_simps = short_with_flags long_with_flags

text \<open>The verdict of the rule on these verbs is exactly the specification.\<close>

lemma git_reason_discards:
  assumes "v \<in> set (map u [''reset'', ''clean'', ''push'', ''branch'', ''commit''])" "git_globals os"
  shows "git_reason (os @ v # rest) \<noteq> [] \<longleftrightarrow> discards_work v rest"
proof -
  have v: "\<not> is_option v" using assms(1) by (auto simp: is_option_def u_def)
  show ?thesis
    using assms(1) unfolding git_reason_def skip_git_globals [OF assms(2) v] discards_work_def flag_simps
    by (simp only: list.set list.map insert_iff empty_iff, elim disjE FalseE) (simp_all add: Let_def)
qed

lemma git_not_prefix: "executable_name c = u ''git'' \<Longrightarrow> \<not> known_prefix c"
proof -
  have "u ''git'' \<notin> set transparent_prefixes" "map_of prefixes_with_value_options (u ''git'') = None"
    by code_simp+
  then show "executable_name c = u ''git'' \<Longrightarrow> \<not> known_prefix c" by (simp add: known_prefix_def)
qed

lemma git_command: "command_reason (u ''git'') args = git_reason args"
  by (simp add: command_reason_def powershell_reason_def named_def)

text \<open>
  A \<open>git\<close> command that resets, cleans, pushes, deletes a branch or amends is reported exactly
  when it discards work (\<open>--hard\<close>, a force flag in any cluster of short flags, a forced push,
  \<open>--amend\<close>), behind any global options and any of the known prefixes.
\<close>

theorem git_rule_exact:
  assumes "wrapped n argv (c # os @ v # rest)" "n \<le> 8" "executable_name c = u ''git''" "git_globals os"
    and "v \<in> set (map u [''reset'', ''clean'', ''push'', ''branch'', ''commit''])"
  shows "catastrophic_reason argv \<noteq> [] \<longleftrightarrow> discards_work v rest"
  using catastrophic_wrapped [OF assms(1,2) git_not_prefix [OF assms(3)]] assms(3)
    git_reason_discards [OF assms(5,4)]
  by (simp add: git_command)

corollary git_rule_exact_witness:
  "catastrophic_reason (map u [''git'', ''-C'', ''repo'', ''--no-pager'', ''push'', ''origin'', ''-uf'']) \<noteq> []
   \<and> catastrophic_reason (map u [''git'', ''push'', ''origin'', ''--'', ''-f'']) = []"
proof -
  let ?g = "map u [''git'', ''-C'', ''repo'', ''--no-pager'', ''push'', ''origin'', ''-uf'']"
  have "?g = u ''git'' # map u [''-C'', ''repo'', ''--no-pager''] @ u ''push'' # map u [''origin'', ''-uf'']" by simp
  then have "wrapped 0 ?g (u ''git'' # map u [''-C'', ''repo'', ''--no-pager''] @ u ''push'' # map u [''origin'', ''-uf''])"
    using wrapped.plain by metis
  from git_rule_exact [OF this] have "catastrophic_reason ?g \<noteq> [] \<longleftrightarrow> discards_work (u ''push'') (map u [''origin'', ''-uf''])"
    by (rule meta_mp [OF meta_mp [OF meta_mp [OF meta_mp]]]) (code_simp+)
  moreover have "discards_work (u ''push'') (map u [''origin'', ''-uf''])" by code_simp
  moreover let ?h = "map u [''git'', ''push'', ''origin'', ''--'', ''-f'']"
  have "?h = u ''git'' # [] @ u ''push'' # map u [''origin'', ''--'', ''-f'']" by simp
  then have "wrapped 0 ?h (u ''git'' # [] @ u ''push'' # map u [''origin'', ''--'', ''-f''])"
    using wrapped.plain by metis
  from git_rule_exact [OF this] have "catastrophic_reason ?h \<noteq> [] \<longleftrightarrow> discards_work (u ''push'') (map u [''origin'', ''--'', ''-f''])"
    by (rule meta_mp [OF meta_mp [OF meta_mp [OF meta_mp]]]) (code_simp+)
  moreover have "\<not> discards_work (u ''push'') (map u [''origin'', ''--'', ''-f''])" by code_simp
  ultimately show ?thesis by simp
qed

end
