(* ===== verification/Projection.thy ===== *)
theory Projection
  imports Json
begin

text \<open>
  The materialized conversation projection: \<open>backend/conversations/projection_log.py\<close>.

  \<open>change\<close> is the encoded difference of two JSON values, with the four shapes the code writes
  ({"value"}, {"append","at"}, {"fields","remove"}, {"items","length"}); a list index written as a
  decimal key is that number. The log file is the list of its entries, one per line, and the byte
  position of the manifest is the number of committed entries. Object identity (\<open>before is after\<close>)
  is not visible: on equal values the structural branches give no change either. \<open>ValueError\<close> is
  a value of \<open>projection_error\<close>; a change applied to a base of another type raises in Python and
  is \<open>WrongBase\<close>.
\<close>

section \<open>Changes\<close>

datatype change =
  Replace json
| Append ustr nat
| Fields "(ustr \<times> change) list" "ustr list"
| Items "(nat \<times> change) list" nat

fun value_change :: "json \<Rightarrow> json \<Rightarrow> change option"
  and fields_change :: "(ustr \<times> json) list \<Rightarrow> (ustr \<times> json) list \<Rightarrow> (ustr \<times> change) list"
  and items_change :: "json list \<Rightarrow> nat \<Rightarrow> json list \<Rightarrow> (nat \<times> change) list" where
  "value_change before after =
     (case after of
        JObj kvs \<Rightarrow>
          (case before of
             JObj old \<Rightarrow>
               (let changed = fields_change old kvs;
                    removed = filter (\<lambda>k. k \<notin> fst ` set kvs) (map fst old) in
                if changed \<noteq> [] \<or> removed \<noteq> [] then Some (Fields changed removed) else None)
           | _ \<Rightarrow> Some (Replace after))
      | JList xs \<Rightarrow>
          (case before of
             JList old \<Rightarrow>
               (let changed = items_change old 0 xs in
                if changed \<noteq> [] \<or> length old \<noteq> length xs then Some (Items changed (length xs)) else None)
           | _ \<Rightarrow> Some (Replace after))
      | JStr s \<Rightarrow>
          (case before of
             JStr old \<Rightarrow>
               (if old = s then None
                else if startswith s old then Some (Append (drop (length old) s) (length old))
                else Some (Replace after))
           | _ \<Rightarrow> Some (Replace after))
      | _ \<Rightarrow> (if before = after then None else Some (Replace after)))"
| "fields_change old [] = []"
| "fields_change old ((k, v) # kvs) =
     (case (case map_of old k of Some b \<Rightarrow> value_change b v | None \<Rightarrow> Some (Replace v)) of
        Some c \<Rightarrow> (k, c) # fields_change old kvs
      | None \<Rightarrow> fields_change old kvs)"
| "items_change old i [] = []"
| "items_change old i (v # vs) =
     (case (if i < length old then value_change (old ! i) v else Some (Replace v)) of
        Some c \<Rightarrow> (i, c) # items_change old (Suc i) vs
      | None \<Rightarrow> items_change old (Suc i) vs)"

declare value_change.simps [simp del]

datatype projection_error =
  BadTextOffset | MissingBase | BadIndex | WrongBase | Truncated | OutOfOrder | ManifestMismatch

definition field_or_null :: "(ustr \<times> json) list \<Rightarrow> ustr \<Rightarrow> json" where
  "field_or_null kvs k = (case map_of kvs k of Some v \<Rightarrow> v | None \<Rightarrow> JNull)"

fun apply_change :: "json \<Rightarrow> change \<Rightarrow> projection_error + json"
  and apply_fields :: "(ustr \<times> json) list \<Rightarrow> (ustr \<times> json) list \<Rightarrow> (ustr \<times> change) list
        \<Rightarrow> projection_error + (ustr \<times> json) list"
  and apply_items :: "nat \<Rightarrow> nat \<Rightarrow> json list \<Rightarrow> (nat \<times> change) list \<Rightarrow> projection_error + json list" where
  "apply_change before (Replace v) = Inr v"
| "apply_change before (Append t pos) =
     (case before of
        JStr s \<Rightarrow> if length s = pos then Inr (JStr (s @ t)) else Inl BadTextOffset
      | _ \<Rightarrow> Inl BadTextOffset)"
| "apply_change before (Fields patches removed) =
     (case before of
        JObj kvs \<Rightarrow> map_sum id JObj (apply_fields kvs (foldl (\<lambda>r k. AList.delete k r) kvs removed) patches)
      | _ \<Rightarrow> Inl WrongBase)"
| "apply_change before (Items patches len) =
     (case before of
        JList xs \<Rightarrow>
          (if \<exists>i \<in> set [length xs..<len]. i \<notin> fst ` set patches then Inl MissingBase
           else map_sum id JList
                  (apply_items (length xs) len (take len xs @ replicate (len - length xs) JNull) patches))
      | _ \<Rightarrow> Inl WrongBase)"
| "apply_fields old acc [] = Inr acc"
| "apply_fields old acc ((k, p) # ps) =
     (case apply_change (field_or_null old k) p of
        Inl e \<Rightarrow> Inl e
      | Inr v \<Rightarrow> apply_fields old (AList.update k v acc) ps)"
| "apply_items orig len acc [] = Inr acc"
| "apply_items orig len acc ((i, p) # ps) =
     (if len \<le> i then Inl BadIndex
      else (case apply_change (if i < orig then acc ! i else JNull) p of
              Inl e \<Rightarrow> Inl e
            | Inr v \<Rightarrow> apply_items orig len (acc[i := v]) ps))"

definition apply_value_change :: "json \<Rightarrow> change option \<Rightarrow> projection_error + json" where
  "apply_value_change before c = (case c of None \<Rightarrow> Inr before | Some ch \<Rightarrow> apply_change before ch)"

section \<open>The log\<close>

type_synonym entry = "int \<times> change option"

text \<open>
  \<open>append_projection\<close>: what lies beyond the committed position is cut off, the new entries are
  written, and the new position is returned.
\<close>

definition append_projection ::
    "entry list \<Rightarrow> nat \<Rightarrow> int \<Rightarrow> json \<Rightarrow> json \<Rightarrow> int option \<Rightarrow> entry list \<times> nat" where
  "append_projection file committed revision previous current seed =
     (let file' = take committed file
            @ (case seed of Some r \<Rightarrow> [(r, Some (Replace previous))] | None \<Rightarrow> [])
            @ [(revision, value_change previous current)] in
      (file', length file'))"

fun replay :: "int \<Rightarrow> json \<Rightarrow> int \<Rightarrow> entry list \<Rightarrow> projection_error + (json \<times> int)" where
  "replay revision state prev [] = Inr (state, prev)"
| "replay revision state prev ((r, c) # es) =
     (if \<not> (prev < r \<and> r \<le> revision) then Inl OutOfOrder
      else (case apply_value_change state c of
              Inl e \<Rightarrow> Inl e
            | Inr state' \<Rightarrow> replay revision state' r es))"

fun is_object :: "json \<Rightarrow> bool" where
  "is_object (JObj kvs) = True"
| "is_object _ = False"

definition read_projection :: "entry list \<Rightarrow> nat \<Rightarrow> int \<Rightarrow> projection_error + json" where
  "read_projection file committed revision =
     (if length file < committed \<or> committed = 0 then Inl Truncated
      else (case replay revision (JObj []) 0 (take committed file) of
              Inl e \<Rightarrow> Inl e
            | Inr (state, prev) \<Rightarrow>
                if prev \<noteq> revision \<or> \<not> is_object state then Inl ManifestMismatch else Inr state))"

section \<open>Equality of JSON values\<close>

text \<open>Python's equality of two decoded values does not see the order of an object's fields.\<close>

datatype jvalue =
  MNull | MBool bool | MInt int | MFloat real | MStr ustr | MList "jvalue list" | MObj "ustr \<Rightarrow> jvalue option"

primrec meaning :: "json \<Rightarrow> jvalue" where
  "meaning JNull = MNull"
| "meaning (JBool b) = MBool b"
| "meaning (JInt i) = MInt i"
| "meaning (JFloat r) = MFloat r"
| "meaning (JStr s) = MStr s"
| "meaning (JList xs) = MList (map meaning xs)"
| "meaning (JObj kvs) = MObj (map_of (map (map_prod id meaning) kvs))"

text \<open>Every object in the value has distinct keys.\<close>

primrec json_ok :: "json \<Rightarrow> bool" where
  "json_ok JNull = True"
| "json_ok (JBool b) = True"
| "json_ok (JInt i) = True"
| "json_ok (JFloat r) = True"
| "json_ok (JStr s) = True"
| "json_ok (JList xs) = list_all id (map json_ok xs)"
| "json_ok (JObj kvs) = (distinct (map fst kvs) \<and> list_all snd (map (map_prod id json_ok) kvs))"

lemma map_of_meaning: "map_of (map (map_prod id meaning) kvs) k = map_option meaning (map_of kvs k)"
  by (induction kvs) auto

lemma meaning_obj: "meaning a = MObj m \<longleftrightarrow> (\<exists>kvs. a = JObj kvs \<and> m = (\<lambda>k. map_option meaning (map_of kvs k)))"
  by (cases a) (auto simp: map_of_meaning [symmetric])

lemma meaning_list: "meaning a = MList ms \<longleftrightarrow> (\<exists>xs. a = JList xs \<and> ms = map meaning xs)"
  by (cases a) auto

lemma meaning_str: "meaning a = MStr s \<longleftrightarrow> a = JStr s"
  by (cases a) auto

section \<open>Encoding and decoding\<close>

definition field_change :: "(ustr \<times> json) list \<Rightarrow> ustr \<Rightarrow> json \<Rightarrow> change option" where
  "field_change old k v = (case map_of old k of Some b \<Rightarrow> value_change b v | None \<Rightarrow> Some (Replace v))"

definition item_change :: "json list \<Rightarrow> nat \<Rightarrow> json \<Rightarrow> change option" where
  "item_change old i v = (if i < length old then value_change (old ! i) v else Some (Replace v))"

lemma fields_change_Cons:
  "fields_change old ((k, v) # kvs) =
     (case field_change old k v of Some c \<Rightarrow> (k, c) # fields_change old kvs | None \<Rightarrow> fields_change old kvs)"
  by (simp add: field_change_def)

declare fields_change.simps(2) [simp del]

lemma fields_change_keys: "fst ` set (fields_change old kvs) \<subseteq> fst ` set kvs"
proof (induction kvs)
  case (Cons kv kvs)
  obtain k v where "kv = (k, v)" by (cases kv)
  with Cons show ?case by (cases "field_change old k v") (simp_all add: fields_change_Cons subset_insertI2)
qed simp

lemma fields_change_mem:
  "distinct (map fst kvs) \<Longrightarrow> (k, c) \<in> set (fields_change old kvs)
    \<longleftrightarrow> (\<exists>v. map_of kvs k = Some v \<and> field_change old k v = Some c)"
proof (induction kvs)
  case (Cons kv kvs)
  obtain k0 v0 where kv: "kv = (k0, v0)" by (cases kv)
  have k0: "k0 \<notin> fst ` set (fields_change old kvs)"
    using Cons.prems kv fields_change_keys [of old kvs] by auto
  show ?case
  proof (cases "k = k0")
    case True
    then have "(k, c) \<notin> set (fields_change old kvs)" using k0 by force
    with True kv show ?thesis by (auto simp: fields_change_Cons split: option.splits)
  next
    case False
    with Cons kv show ?thesis by (auto simp: fields_change_Cons split: option.splits)
  qed
qed simp

lemma fields_change_distinct: "distinct (map fst kvs) \<Longrightarrow> distinct (map fst (fields_change old kvs))"
proof (induction kvs)
  case (Cons kv kvs)
  obtain k v where kv: "kv = (k, v)" by (cases kv)
  with Cons have "k \<notin> fst ` set (fields_change old kvs)" "distinct (map fst (fields_change old kvs))"
    using fields_change_keys [of old kvs] by auto
  then show ?case using kv by (simp add: fields_change_Cons split: option.splits)
qed simp

lemma items_change_mem:
  "(j, c) \<in> set (items_change old i vs)
    \<longleftrightarrow> (\<exists>d < length vs. j = i + d \<and> item_change old j (vs ! d) = Some c)"
proof (induction vs arbitrary: i)
  case (Cons v vs)
  have "(j, c) \<in> set (items_change old i (v # vs))
      \<longleftrightarrow> (j = i \<and> item_change old i v = Some c) \<or> (j, c) \<in> set (items_change old (Suc i) vs)"
    by (auto simp: item_change_def split: option.splits)
  also have "\<dots> \<longleftrightarrow> (\<exists>d < length (v # vs). j = i + d \<and> item_change old j ((v # vs) ! d) = Some c)"
    unfolding Cons.IH
    by (auto simp: less_Suc_eq_0_disj)
  finally show ?case .
qed simp

lemma items_change_distinct: "distinct (map fst (items_change old i vs))"
proof (induction vs arbitrary: i)
  case (Cons v vs)
  have "i \<notin> fst ` set (items_change old (Suc i) vs)" by (auto simp: items_change_mem)
  with Cons show ?case by (auto split: option.splits)
qed simp

lemma apply_fields_sound:
  assumes "distinct (map fst ps)"
    and "\<And>k p. (k, p) \<in> set ps \<Longrightarrow> \<exists>r. apply_change (field_or_null old k) p = Inr r \<and> Some (meaning r) = w k"
  shows "\<exists>res. apply_fields old acc ps = Inr res
     \<and> (\<forall>k. map_option meaning (map_of res k) = (if k \<in> fst ` set ps then w k else map_option meaning (map_of acc k)))"
  using assms
proof (induction ps arbitrary: acc)
  case Nil
  then show ?case by simp
next
  case (Cons kp ps)
  obtain k p where kp: "kp = (k, p)" by (cases kp)
  obtain r where r: "apply_change (field_or_null old k) p = Inr r" "Some (meaning r) = w k"
    using Cons.prems(2) [of k p] kp by auto
  have "distinct (map fst ps)" using Cons.prems(1) kp by simp
  from Cons.IH [OF this, of "AList.update k r acc"] Cons.prems(2) obtain res where
    "apply_fields old (AList.update k r acc) ps = Inr res"
    "\<forall>j. map_option meaning (map_of res j) = (if j \<in> fst ` set ps then w j
          else map_option meaning (map_of (AList.update k r acc) j))" by auto
  with r kp Cons.prems(1) show ?case by (auto simp: update_conv)
qed

lemma apply_items_sound:
  assumes "distinct (map fst ps)" "length acc = len"
    and "\<And>i p. (i, p) \<in> set ps \<Longrightarrow>
       i < len \<and> (\<exists>r. apply_change (if i < orig then acc ! i else JNull) p = Inr r \<and> meaning r = w i)"
  shows "\<exists>res. apply_items orig len acc ps = Inr res \<and> length res = len
     \<and> (\<forall>i < len. meaning (res ! i) = (if i \<in> fst ` set ps then w i else meaning (acc ! i)))"
  using assms
proof (induction ps arbitrary: acc)
  case Nil
  then show ?case by simp
next
  case (Cons ip ps)
  obtain i p where ip: "ip = (i, p)" by (cases ip)
  obtain r where r: "i < len" "apply_change (if i < orig then acc ! i else JNull) p = Inr r" "meaning r = w i"
    using Cons.prems(3) [of i p] ip by auto
  have fresh: "j \<noteq> i" if "(j, q) \<in> set ps" for j q
    using Cons.prems(1) ip that by force
  have ok: "j < len \<and> (\<exists>r'. apply_change (if j < orig then acc[i := r] ! j else JNull) q = Inr r' \<and> meaning r' = w j)"
    if "(j, q) \<in> set ps" for j q
    using Cons.prems(3) [of j q] that fresh [OF that] ip by (cases "j < orig") auto
  have "distinct (map fst ps)" "length (acc[i := r]) = len" using Cons.prems(1,2) ip by simp_all
  from Cons.IH [OF this ok] obtain res where
    "apply_items orig len (acc[i := r]) ps = Inr res" "length res = len"
    "\<forall>j < len. meaning (res ! j) = (if j \<in> fst ` set ps then w j else meaning (acc[i := r] ! j))"
    by auto
  moreover have "i \<notin> fst ` set ps" using Cons.prems(1) ip by simp
  ultimately show ?case using r ip Cons.prems(2) by (auto simp: nth_list_update)
qed

lemma foldl_delete: "map_of (foldl (\<lambda>r k. AList.delete k r) kvs ks) j = (if j \<in> set ks then None else map_of kvs j)"
  by (induction ks arbitrary: kvs) (auto simp: delete_conv')

lemma json_ok_field: "json_ok (JObj kvs) \<Longrightarrow> map_of kvs k = Some v \<Longrightarrow> json_ok v"
  by (auto simp: list_all_iff dest!: map_of_SomeD)

lemma json_ok_item: "json_ok (JList xs) \<Longrightarrow> i < length xs \<Longrightarrow> json_ok (xs ! i)"
  by (auto simp: list_all_iff)

definition sound_change :: "json \<Rightarrow> json \<Rightarrow> bool" where
  "sound_change a b \<longleftrightarrow>
     (case value_change a b of
        None \<Rightarrow> meaning a = meaning b
      | Some c \<Rightarrow> \<forall>a'. meaning a' = meaning a \<longrightarrow> (\<exists>r. apply_change a' c = Inr r \<and> meaning r = meaning b))"

lemma unchanged_field:
  assumes sub: "\<forall>k v a. map_of kvs k = Some v \<longrightarrow> sound_change a v" and d: "distinct (map fst kvs)"
    and k: "k \<notin> fst ` set (fields_change old kvs)" "k \<notin> set (filter (\<lambda>k. k \<notin> fst ` set kvs) (map fst old))"
  shows "map_option meaning (map_of old k) = map_option meaning (map_of kvs k)"
proof (cases "map_of kvs k")
  case None
  then have "k \<notin> fst ` set kvs" by (simp add: map_of_eq_None_iff)
  then have "k \<notin> fst ` set old" using k(2) by auto
  then show ?thesis using None by (simp add: map_of_eq_None_iff [THEN iffD2])
next
  case (Some v)
  have "field_change old k v = None"
  proof (rule ccontr)
    assume "field_change old k v \<noteq> None"
    then obtain c where "(k, c) \<in> set (fields_change old kvs)"
      using fields_change_mem [OF d, of k _ old] Some by auto
    with k(1) show False by force
  qed
  then obtain b where b: "map_of old k = Some b" "value_change b v = None"
    by (auto simp: field_change_def split: option.splits)
  with sub Some have "sound_change b v" by blast
  with b Some show ?thesis by (simp add: sound_change_def)
qed

lemma changed_field:
  assumes sub: "\<forall>k v a. map_of kvs k = Some v \<longrightarrow> sound_change a v" and d: "distinct (map fst kvs)"
    and old': "\<And>k. map_option meaning (map_of old' k) = map_option meaning (map_of old k)"
    and kp: "(k, p) \<in> set (fields_change old kvs)"
  shows "\<exists>r. apply_change (field_or_null old' k) p = Inr r \<and> Some (meaning r) = map_option meaning (map_of kvs k)"
proof -
  obtain v where v: "map_of kvs k = Some v" "field_change old k v = Some p"
    using kp fields_change_mem [OF d] by auto
  show ?thesis
  proof (cases "map_of old k")
    case None
    with v have "p = Replace v" by (simp add: field_change_def)
    with v show ?thesis by simp
  next
    case (Some b)
    then obtain b' where b': "map_of old' k = Some b'" "meaning b' = meaning b"
      using old' [of k] by auto
    from Some v(2) have "value_change b v = Some p" by (simp add: field_change_def)
    moreover have "sound_change b v" using sub v(1) by blast
    ultimately obtain r where "apply_change b' p = Inr r" "meaning r = meaning v"
      using b'(2) by (auto simp: sound_change_def)
    with b'(1) v(1) show ?thesis by (simp add: field_or_null_def)
  qed
qed

lemma apply_fields_change:
  assumes sub: "\<forall>k v a. map_of kvs k = Some v \<longrightarrow> sound_change a v" and d: "distinct (map fst kvs)"
    and old': "\<And>k. map_option meaning (map_of old' k) = map_option meaning (map_of old k)"
    and removed: "removed = filter (\<lambda>k. k \<notin> fst ` set kvs) (map fst old)"
  shows "\<exists>res. apply_fields old' (foldl (\<lambda>r k. AList.delete k r) old' removed) (fields_change old kvs) = Inr res
    \<and> (\<forall>k. map_option meaning (map_of res k) = map_option meaning (map_of kvs k))"
proof -
  let ?start = "foldl (\<lambda>r k. AList.delete k r) old' removed" and ?keys = "fst ` set (fields_change old kvs)"
  obtain res where res: "apply_fields old' ?start (fields_change old kvs) = Inr res"
    "\<And>k. map_option meaning (map_of res k) =
       (if k \<in> ?keys then map_option meaning (map_of kvs k) else map_option meaning (map_of ?start k))"
    using apply_fields_sound [OF fields_change_distinct [OF d],
        where old = old' and w = "\<lambda>k. map_option meaning (map_of kvs k)"] changed_field [OF sub d old'] by meson
  have "map_option meaning (map_of res k) = map_option meaning (map_of kvs k)" for k
  proof (cases "k \<in> ?keys \<or> k \<in> set removed")
    case True
    then show ?thesis using res(2) [of k] by (auto simp: foldl_delete removed map_of_eq_None_iff)
  next
    case False
    then have "map_of ?start k = map_of old' k" unfolding foldl_delete by simp
    then show ?thesis
      using False res(2) [of k] old' [of k] unchanged_field [OF sub d, of k old] removed by simp
  qed
  with res(1) show ?thesis by blast
qed

lemma sound_change_obj:
  assumes sub: "\<forall>k v a. map_of kvs k = Some v \<longrightarrow> sound_change a v" and d: "distinct (map fst kvs)"
  shows "sound_change (JObj old) (JObj kvs)"
proof -
  let ?changed = "fields_change old kvs"
  let ?removed = "filter (\<lambda>k. k \<notin> fst ` set kvs) (map fst old)"
  have vc: "value_change (JObj old) (JObj kvs) =
      (if ?changed \<noteq> [] \<or> ?removed \<noteq> [] then Some (Fields ?changed ?removed) else None)"
    by (simp add: value_change.simps Let_def)
  show ?thesis
  proof (cases "?changed \<noteq> [] \<or> ?removed \<noteq> []")
    case False
    then have "map_option meaning (map_of old k) = map_option meaning (map_of kvs k)" for k
      using unchanged_field [OF sub d, of k old] by simp
    then show ?thesis using False vc by (simp add: sound_change_def map_of_meaning [abs_def])
  next
    case True
    have "\<exists>r. apply_change a' (Fields ?changed ?removed) = Inr r \<and> meaning r = meaning (JObj kvs)"
      if a': "meaning a' = meaning (JObj old)" for a'
    proof -
      obtain old' where old': "a' = JObj old'"
        "\<And>k. map_option meaning (map_of old' k) = map_option meaning (map_of old k)"
        using a' by (auto simp: meaning_obj map_of_meaning [abs_def]) (metis (mono_tags))
      from apply_fields_change [OF sub d old'(2) refl] old'(1) show ?thesis
        by (auto simp: map_of_meaning [abs_def])
    qed
    then show ?thesis using True vc by (simp add: sound_change_def)
  qed
qed

lemma unchanged_item:
  assumes sub: "\<forall>i a. i < length xs \<longrightarrow> sound_change a (xs ! i)"
    and i: "i < length xs" "i \<notin> fst ` set (items_change old 0 xs)"
  shows "i < length old \<and> meaning (old ! i) = meaning (xs ! i)"
proof -
  have "item_change old i (xs ! i) = None"
  proof (rule ccontr)
    assume "item_change old i (xs ! i) \<noteq> None"
    then obtain c where "(i, c) \<in> set (items_change old 0 xs)" using i(1) by (auto simp: items_change_mem)
    with i(2) show False by force
  qed
  moreover have "sound_change (old ! i) (xs ! i)" using sub i(1) by blast
  ultimately show ?thesis by (auto simp: item_change_def sound_change_def split: if_splits)
qed

lemma changed_item:
  assumes sub: "\<forall>i a. i < length xs \<longrightarrow> sound_change a (xs ! i)"
    and same: "map meaning old' = map meaning old"
    and acc: "i < length old' \<Longrightarrow> i < length xs \<Longrightarrow> acc ! i = old' ! i"
    and ip: "(i, p) \<in> set (items_change old 0 xs)"
  shows "i < length xs
    \<and> (\<exists>r. apply_change (if i < length old' then acc ! i else JNull) p = Inr r \<and> meaning r = meaning (xs ! i))"
proof -
  have len: "length old' = length old" using same by (metis length_map)
  from ip have i: "i < length xs" "item_change old i (xs ! i) = Some p" by (auto simp: items_change_mem)
  show ?thesis
  proof (cases "i < length old")
    case False
    with i show ?thesis by (auto simp: item_change_def len)
  next
    case True
    then have "value_change (old ! i) (xs ! i) = Some p" using i(2) by (simp add: item_change_def)
    moreover have "sound_change (old ! i) (xs ! i)" using sub i(1) by blast
    moreover have "meaning (old' ! i) = meaning (old ! i)" using same True len by (metis nth_map)
    ultimately show ?thesis using acc i(1) True len by (simp add: sound_change_def)
  qed
qed

lemma apply_items_change:
  assumes sub: "\<forall>i a. i < length xs \<longrightarrow> sound_change a (xs ! i)"
    and same: "map meaning old' = map meaning old"
  shows "\<exists>r. apply_change (JList old') (Items (items_change old 0 xs) (length xs)) = Inr r
    \<and> meaning r = meaning (JList xs)"
proof -
  let ?changed = "items_change old 0 xs"
  let ?acc = "take (length xs) old' @ replicate (length xs - length old') JNull"
  have len: "length old' = length old" using same by (metis length_map)
  have acc: "length ?acc = length xs" "i < length old' \<Longrightarrow> i < length xs \<Longrightarrow> ?acc ! i = old' ! i" for i
    by (auto simp: nth_append)
  obtain res where res: "apply_items (length old') (length xs) ?acc ?changed = Inr res" "length res = length xs"
    "\<forall>i < length xs. meaning (res ! i) = (if i \<in> fst ` set ?changed then meaning (xs ! i) else meaning (?acc ! i))"
    using apply_items_sound [OF items_change_distinct acc(1) changed_item [OF sub same acc(2)]] by blast
  have "meaning (res ! i) = meaning (xs ! i)" if i: "i < length xs" for i
  proof (cases "i \<in> fst ` set ?changed")
    case False
    with unchanged_item [OF sub i] have "i < length old'" "meaning (old ! i) = meaning (xs ! i)"
      by (simp_all add: len)
    moreover from this same len have "meaning (old' ! i) = meaning (old ! i)" by (metis nth_map)
    ultimately show ?thesis using res(3) i False acc(2) [of i] by simp
  qed (use res(3) i in simp)
  then have "map meaning res = map meaning xs" using res(2) by (intro nth_equalityI) auto
  moreover have "\<not> (\<exists>i \<in> set [length old'..<length xs]. i \<notin> fst ` set ?changed)"
  proof
    assume "\<exists>i \<in> set [length old'..<length xs]. i \<notin> fst ` set ?changed"
    then obtain i where "length old' \<le> i" "i < length xs" "i \<notin> fst ` set ?changed" by auto
    with unchanged_item [OF sub, of i old] len show False by auto
  qed
  ultimately show ?thesis using res(1) by simp
qed

lemma sound_change_list:
  assumes sub: "\<forall>i a. i < length xs \<longrightarrow> sound_change a (xs ! i)"
  shows "sound_change (JList old) (JList xs)"
proof -
  let ?changed = "items_change old 0 xs"
  have vc: "value_change (JList old) (JList xs) =
      (if ?changed \<noteq> [] \<or> length old \<noteq> length xs then Some (Items ?changed (length xs)) else None)"
    by (simp add: value_change.simps Let_def)
  show ?thesis
  proof (cases "?changed \<noteq> [] \<or> length old \<noteq> length xs")
    case False
    then have "map meaning old = map meaning xs"
      using unchanged_item [OF sub, of _ old] by (intro nth_equalityI) auto
    with False vc show ?thesis by (simp add: sound_change_def)
  next
    case True
    have "\<exists>r. apply_change a' (Items ?changed (length xs)) = Inr r \<and> meaning r = meaning (JList xs)"
      if "meaning a' = meaning (JList old)" for a'
      using apply_items_change [OF sub, of _ old] that by (auto simp: meaning_list simp del: apply_change.simps)
    then show ?thesis using True vc by (simp add: sound_change_def)
  qed
qed

lemma sound_change_plain:
  "value_change a b = (if a = b then None else Some (Replace b)) \<Longrightarrow> sound_change a b"
  by (auto simp: sound_change_def)

lemma value_change_sound: "json_ok b \<Longrightarrow> sound_change a b"
proof (induction b arbitrary: a)
  case (JStr s)
  show ?case
  proof (cases a)
    case (JStr old)
    then show ?thesis
      by (auto simp: sound_change_def value_change.simps meaning_str startswith_iff)
  qed (simp_all add: sound_change_def value_change.simps)
next
  case (JList xs)
  have sub: "sound_change c (xs ! i)" if "i < length xs" for i c
    using JList.IH [of "xs ! i" c] JList.prems json_ok_item that by auto
  show ?case
  proof (cases a)
    case (JList old)
    then show ?thesis using sound_change_list sub by blast
  qed (simp_all add: sound_change_def value_change.simps)
next
  case (JObj kvs)
  have sub: "sound_change c v" if "map_of kvs k = Some v" for k v c
    using JObj.IH [of "(k, v)" v c] JObj.prems json_ok_field [OF JObj.prems that] map_of_SomeD [OF that] by auto
  show ?case
  proof (cases a)
    case (JObj old)
    then show ?thesis using sound_change_obj sub JObj.prems by auto
  qed (simp_all add: sound_change_def value_change.simps)
qed (auto intro!: sound_change_plain simp: value_change.simps)

lemma change_applies:
  assumes "json_ok after" "meaning base = meaning before"
  shows "\<exists>r. apply_value_change base (value_change before after) = Inr r \<and> meaning r = meaning after"
  using value_change_sound [OF assms(1), of before] assms(2)
  by (auto simp: sound_change_def apply_value_change_def split: option.splits)

text \<open>
  Encoding the difference of two JSON values and applying it to any base
  that equals the first gives a value equal to the second, never an error; no difference is
  reported only for equal values. Objects are compared as Python compares dicts.
\<close>

theorem change_roundtrip:
  assumes "json_ok after" "meaning base = meaning before"
  shows "\<exists>r. apply_value_change base (value_change before after) = Inr r \<and> meaning r = meaning after"
  using assms by (rule change_applies)

definition before_ex :: json where
  "before_ex = JObj [(u ''a'', JStr (u ''he'')), (u ''b'', JList [JInt 1]), (u ''c'', JNull)]"

definition after_ex :: json where
  "after_ex = JObj [(u ''b'', JList [JInt 1, JInt 2]), (u ''a'', JStr (u ''hello''))]"

theorem change_roundtrip_witness:
  "value_change before_ex after_ex = Some (Fields [(u ''b'', Items [(1, Replace (JInt 2))] 2),
      (u ''a'', Append (u ''llo'') 2)] [u ''c''])
   \<and> (\<exists>r. apply_value_change before_ex (value_change before_ex after_ex) = Inr r \<and> meaning r = meaning after_ex)"
proof -
  have "json_ok after_ex" by (simp add: after_ex_def u_def)
  from change_roundtrip [OF this refl, of before_ex] show ?thesis
    by (simp add: before_ex_def after_ex_def value_change.simps fields_change.simps u_def)
qed

section \<open>Publication\<close>

lemma replay_append:
  "replay rvn st prev (es @ fs) =
     (case replay rvn st prev es of Inl e \<Rightarrow> Inl e | Inr (st', prvn') \<Rightarrow> replay rvn st' prvn' fs)"
  by (induction rvn st prev es rule: replay.induct) (auto split: sum.splits)

lemma replay_limit: "replay rvn st prev es = Inr (st', p) \<Longrightarrow> rvn \<le> rvn' \<Longrightarrow> replay rvn' st prev es = Inr (st', p)"
  by (induction rvn st prev es rule: replay.induct) (auto split: sum.splits if_splits)

lemma is_object_meaning: "meaning a = meaning b \<Longrightarrow> is_object b \<Longrightarrow> is_object a"
  by (cases b; cases a) auto

text \<open>
  Claim C28. Publishing a revision and reading it back gives the published state: when
  the committed prefix reads as the previous state, appending a later revision, over whatever a
  failed publication left behind, makes the new committed prefix read as the current state; a
  first publication seeds the log with its previous state.
\<close>

theorem publication_roundtrip:
  assumes current: "json_ok current" "is_object current" and later: "p < q"
    and start: "seed = None \<and> (\<exists>st. read_projection file n p = Inr st \<and> meaning st = meaning previous)
      \<or> n = 0 \<and> (\<exists>r. seed = Some r \<and> 0 < r \<and> r < q)"
  shows "\<exists>st. read_projection (fst (append_projection (take n file @ garbage) n q previous current seed))
            (snd (append_projection (take n file @ garbage) n q previous current seed)) q = Inr st
          \<and> meaning st = meaning current"
proof -
  have step: "\<exists>st'. apply_value_change st (value_change previous current) = Inr st' \<and> meaning st' = meaning current
      \<and> is_object st'" if "meaning st = meaning previous" for st
    using change_applies [OF current(1) that] is_object_meaning current(2) by blast
  from start show ?thesis
  proof
    assume *: "seed = None \<and> (\<exists>st. read_projection file n p = Inr st \<and> meaning st = meaning previous)"
    then obtain st where st: "read_projection file n p = Inr st" "meaning st = meaning previous" by blast
    then have n: "n \<le> length file" "n \<noteq> 0" and "replay p (JObj []) 0 (take n file) = Inr (st, p)"
      by (auto simp: read_projection_def split: if_splits sum.splits prod.splits)
    then have before: "replay q (JObj []) 0 (take n file) = Inr (st, p)"
      using replay_limit [of p "JObj []" 0 "take n file" st p q] later by simp
    obtain st' where st': "apply_value_change st (value_change previous current) = Inr st'"
      "meaning st' = meaning current" "is_object st'" using step [OF st(2)] by blast
    have "replay q (JObj []) 0 (take n file @ [(q, value_change previous current)]) = Inr (st', q)"
      using before st' later by (simp add: replay_append)
    then show ?thesis
      using st' n * by (simp add: read_projection_def append_projection_def Let_def min_def)
  next
    assume *: "n = 0 \<and> (\<exists>r. seed = Some r \<and> 0 < r \<and> r < q)"
    then obtain r where r: "n = 0" "seed = Some r" "0 < r" "r < q" by blast
    obtain st' where st': "apply_value_change previous (value_change previous current) = Inr st'"
      "meaning st' = meaning current" "is_object st'" using step [of previous] by blast
    have "apply_value_change (JObj []) (Some (Replace previous)) = Inr previous"
      by (simp add: apply_value_change_def)
    then have "replay q (JObj []) 0 [(r, Some (Replace previous)), (q, value_change previous current)] = Inr (st', q)"
      using r st' by simp
    then show ?thesis using r st' by (simp add: read_projection_def append_projection_def Let_def)
  qed
qed

theorem publication_roundtrip_witness:
  "\<exists>st. read_projection (fst (append_projection (take 0 [] @ []) 0 2 before_ex after_ex (Some 1)))
       (snd (append_projection (take 0 [] @ []) 0 2 before_ex after_ex (Some 1))) 2 = Inr st
     \<and> meaning st = meaning after_ex"
proof -
  have "json_ok after_ex" "is_object after_ex" by (simp_all add: after_ex_def u_def)
  then show ?thesis by (rule publication_roundtrip [where p = 1]) simp_all
qed

end
