(* ===== verification/ContextDelta.thy ===== *)
theory ContextDelta
  imports Prelude
begin

text \<open>
  Context changes between durable checkpoints: \<open>backend/conversations/context_delta.py\<close>.

  A snapshot is a dict whose key \<open>history\<close>, a list, is treated apart from the other keys; here it
  is a record of the other fields (an association list) and of the history, if present. In a
  delta, \<open>d_removed\<close> holds the removed keys other than \<open>history\<close> and \<open>d_drop_history\<close> says
  whether that one is removed; \<open>d_history\<close> is the pair \<open>history_from\<close>, \<open>history\<close>, which the code
  writes together. Keys and values are compared with \<open>==\<close> only, so both are type parameters. The
  order of \<open>removed\<close> (sorted in a composition) carries no meaning.
\<close>

record ('k, 'v, 'm) snap =
  sn_fields :: "('k \<times> 'v) list"
  sn_history :: "'m list option"

record ('k, 'v, 'm) delta =
  d_set :: "('k \<times> 'v) list"
  d_removed :: "'k list"
  d_drop_history :: bool
  d_history :: "(int \<times> 'm list) option"

section \<open>Building, applying, composing\<close>

fun common_prefix :: "'m list \<Rightarrow> 'm list \<Rightarrow> nat" where
  "common_prefix (a # as) (b # bs) = (if a = b then Suc (common_prefix as bs) else 0)"
| "common_prefix _ _ = 0"

definition history_of :: "('k, 'v, 'm) snap \<Rightarrow> 'm list" where
  "history_of s = (case sn_history s of Some h \<Rightarrow> h | None \<Rightarrow> [])"

definition context_snapshot_delta :: "('k, 'v, 'm) snap \<Rightarrow> ('k, 'v, 'm) snap \<Rightarrow> ('k, 'v, 'm) delta" where
  "context_snapshot_delta before after =
     \<lparr>d_set = filter (\<lambda>(k, v). map_of (sn_fields before) k \<noteq> Some v) (sn_fields after),
      d_removed = filter (\<lambda>k. k \<notin> fst ` set (sn_fields after)) (map fst (sn_fields before)),
      d_drop_history = (sn_history before \<noteq> None \<and> sn_history after = None),
      d_history =
        (case sn_history after of
           None \<Rightarrow> None
         | Some new \<Rightarrow>
             (let old = history_of before; p = common_prefix old new in
              if p \<noteq> length old \<or> p \<noteq> length new \<or> sn_history before = None
              then Some (int p, drop p new) else None))\<rparr>"

datatype delta_error = BadHistoryStart int

definition apply_context_snapshot_delta ::
    "('k, 'v, 'm) snap \<Rightarrow> ('k, 'v, 'm) delta \<Rightarrow> delta_error + ('k, 'v, 'm) snap" where
  "apply_context_snapshot_delta s d =
     (let kept = filter (\<lambda>(k, v). k \<notin> set (d_removed d)) (sn_fields s);
          fields = foldl (\<lambda>fs (k, v). AList.update k v fs) kept (d_set d);
          kept_history = (if d_drop_history d then None else sn_history s) in
      case d_history d of
        None \<Rightarrow> Inr \<lparr>sn_fields = fields, sn_history = kept_history\<rparr>
      | Some (p, new) \<Rightarrow>
          (let history = history_of s in
           if \<not> (0 \<le> p \<and> p \<le> int (length history)) then Inl (BadHistoryStart p)
           else Inr \<lparr>sn_fields = fields, sn_history = Some (take (nat p) history @ new)\<rparr>))"

definition compose_context_snapshot_deltas ::
    "('k, 'v, 'm) delta \<Rightarrow> ('k, 'v, 'm) delta \<Rightarrow> ('k, 'v, 'm) delta" where
  "compose_context_snapshot_deltas d e =
     (let values = foldl (\<lambda>fs (k, v). AList.update k v fs)
            (filter (\<lambda>(k, v). k \<notin> set (d_removed e)) (d_set d)) (d_set e);
          removed = filter (\<lambda>k. k \<notin> fst ` set values) (remdups (d_removed d @ d_removed e));
          drop = (d_drop_history d \<or> d_drop_history e) in
      case d_history e of
        Some (start, new) \<Rightarrow>
          (let hist = (case d_history d of
                 Some (p, old) \<Rightarrow>
                   if p < start then (p, take (nat (start - p)) old @ new) else (start, new)
               | None \<Rightarrow> (start, new)) in
           \<lparr>d_set = values, d_removed = removed, d_drop_history = False,
            d_history = Some (if d_drop_history d then 0 else fst hist, snd hist)\<rparr>)
      | None \<Rightarrow>
          \<lparr>d_set = values, d_removed = removed, d_drop_history = drop,
           d_history = (if d_drop_history e then None else d_history d)\<rparr>)"

text \<open>
  \<open>rebase_turn_admissions\<close>: the boundaries of the turns that survive a compaction. A boundary is
  reduced to the two positions the code reads and rewrites.
\<close>

record boundary_span =
  history_start :: int
  history_end :: int

definition rebase_turn_admissions :: "('k \<times> boundary_span) list \<Rightarrow> int \<Rightarrow> int \<Rightarrow> ('k \<times> boundary_span) list" where
  "rebase_turn_admissions admissions removed_prefix inserted_prefix =
     map (\<lambda>(m, b). (m, \<lparr>history_start = inserted_prefix + history_start b - removed_prefix,
                        history_end = inserted_prefix + history_end b - removed_prefix\<rparr>))
       (filter (\<lambda>(m, b). removed_prefix \<le> history_start b \<and> removed_prefix \<le> history_end b) admissions)"

section \<open>Reading a snapshot\<close>

definition same_snap :: "('k, 'v, 'm) snap \<Rightarrow> ('k, 'v, 'm) snap \<Rightarrow> bool" where
  "same_snap s t \<longleftrightarrow> map_of (sn_fields s) = map_of (sn_fields t) \<and> sn_history s = sn_history t"

lemma map_of_filter_keys: "map_of (filter (\<lambda>(k, v). P k) kvs) k = (if P k then map_of kvs k else None)"
  by (induction kvs) auto

lemma map_of_filter_distinct:
  assumes "distinct (map fst kvs)"
  shows "map_of (filter (\<lambda>(k, v). P k v) kvs) k =
     (case map_of kvs k of Some v \<Rightarrow> if P k v then Some v else None | None \<Rightarrow> None)"
  using assms
proof (induction kvs)
  case (Cons kv kvs)
  obtain k0 v0 where kv: "kv = (k0, v0)" by (cases kv)
  have "map_of (filter (\<lambda>(k, v). P k v) kvs) k0 = None"
    using Cons.prems kv by (auto simp: map_of_eq_None_iff)
  then show ?case using Cons kv by (auto split: option.splits)
qed simp

lemma map_of_fold_update:
  "map_of (foldl (\<lambda>fs (k, v). AList.update k v fs) fs kvs) k =
     (case map_of (rev kvs) k of Some v \<Rightarrow> Some v | None \<Rightarrow> map_of fs k)"
  by (induction kvs arbitrary: fs) (auto simp: update_conv map_add_def split: option.splits)

lemma keys_fold_update:
  "fst ` set (foldl (\<lambda>fs (k, v). AList.update k v fs) fs kvs) = fst ` set fs \<union> fst ` set kvs"
  by (induction kvs arbitrary: fs)
    (auto simp: dom_map_of_conv_image_fst [symmetric] update_conv case_prod_beta split: if_splits)

lemma map_of_rev_distinct: "distinct (map fst kvs) \<Longrightarrow> map_of (rev kvs) = map_of kvs"
  by (simp add: map_of_inject_set distinct_map rev_map [symmetric])

lemma common_prefix_take: "take (common_prefix as bs) as = take (common_prefix as bs) bs"
  by (induction as bs rule: common_prefix.induct) auto

lemma common_prefix_le: "common_prefix as bs \<le> length as" "common_prefix as bs \<le> length bs"
  by (induction as bs rule: common_prefix.induct) auto

lemma common_prefix_rebuild: "take (common_prefix as bs) as @ drop (common_prefix as bs) bs = bs"
  by (metis common_prefix_take append_take_drop_id)

lemma common_prefix_full:
  "common_prefix as bs = length as \<Longrightarrow> length bs = length as \<Longrightarrow> as = bs"
  by (metis common_prefix_take take_all le_refl)

text \<open>The fields of the snapshot a delta leads to.\<close>

lemma apply_fields_of:
  assumes "apply_context_snapshot_delta s d = Inr t"
  shows "map_of (sn_fields t) k =
     (case map_of (rev (d_set d)) k of
        Some v \<Rightarrow> Some v
      | None \<Rightarrow> if k \<in> set (d_removed d) then None else map_of (sn_fields s) k)"
proof -
  have "sn_fields t = foldl (\<lambda>fs (k, v). AList.update k v fs)
      (filter (\<lambda>(k, v). k \<notin> set (d_removed d)) (sn_fields s)) (d_set d)"
    using assms by (auto simp: apply_context_snapshot_delta_def Let_def split: option.splits prod.splits if_splits)
  then show ?thesis by (simp add: map_of_fold_update map_of_filter_keys split: option.splits)
qed

lemma apply_history_of:
  assumes "apply_context_snapshot_delta s d = Inr t"
  shows "sn_history t =
     (case d_history d of
        None \<Rightarrow> if d_drop_history d then None else sn_history s
      | Some (p, new) \<Rightarrow> Some (take (nat p) (history_of s) @ new))"
    and "\<And>p new. d_history d = Some (p, new) \<Longrightarrow> 0 \<le> p \<and> p \<le> int (length (history_of s))"
  using assms by (auto simp: apply_context_snapshot_delta_def Let_def split: option.splits prod.splits if_splits)

lemma apply_defined:
  "(\<And>p new. d_history d = Some (p, new) \<Longrightarrow> 0 \<le> p \<and> p \<le> int (length (history_of s)))
   \<Longrightarrow> \<exists>t. apply_context_snapshot_delta s d = Inr t"
  by (auto simp: apply_context_snapshot_delta_def Let_def split: option.splits prod.splits)

text \<open>
  The delta of two snapshots, applied to the first, is never refused and
  gives the second.
\<close>

theorem delta_roundtrip:
  assumes "distinct (map fst (sn_fields after))"
  shows "\<exists>t. apply_context_snapshot_delta before (context_snapshot_delta before after) = Inr t \<and> same_snap t after"
proof -
  let ?d = "context_snapshot_delta before after"
  have start: "0 \<le> p \<and> p \<le> int (length (history_of before))" if "d_history ?d = Some (p, new)" for p new
    using that common_prefix_le(1)
    by (auto simp: context_snapshot_delta_def Let_def split: option.splits if_splits)
  then obtain t where t: "apply_context_snapshot_delta before ?d = Inr t"
    using apply_defined by blast
  have "map_of (sn_fields t) k = map_of (sn_fields after) k" for k
  proof -
    let ?set = "filter (\<lambda>(k, v). map_of (sn_fields before) k \<noteq> Some v) (sn_fields after)"
    have dist: "distinct (map fst ?set)" using assms by (simp add: distinct_map_filter)
    have set: "map_of ?set k = (case map_of (sn_fields after) k of
        Some v \<Rightarrow> if map_of (sn_fields before) k \<noteq> Some v then Some v else None | None \<Rightarrow> None)"
      using map_of_filter_distinct [OF assms] by simp
    have d: "d_set ?d = ?set"
      "set (d_removed ?d) = dom (map_of (sn_fields before)) - dom (map_of (sn_fields after))"
      by (auto simp: context_snapshot_delta_def dom_map_of_conv_image_fst)
    show ?thesis
      using apply_fields_of [OF t, of k] set map_of_rev_distinct [OF dist]
      unfolding d by (cases "map_of (sn_fields after) k"; cases "map_of (sn_fields before) k") auto
  qed
  moreover have "sn_history t = sn_history after"
    using apply_history_of(1) [OF t]
    by (auto simp: context_snapshot_delta_def Let_def history_of_def common_prefix_rebuild
        dest: common_prefix_full split: option.splits if_splits)
  ultimately show ?thesis using t by (auto simp: same_snap_def)
qed

theorem delta_roundtrip_witness:
  "\<exists>t. apply_context_snapshot_delta \<lparr>sn_fields = [(1::int, ''a''), (2, ''b'')], sn_history = Some [1::int, 2]\<rparr>
        (context_snapshot_delta \<lparr>sn_fields = [(1, ''a''), (2, ''b'')], sn_history = Some [1, 2]\<rparr>
           \<lparr>sn_fields = [(1, ''c'')], sn_history = Some [1, 3, 4]\<rparr>) = Inr t
     \<and> same_snap t \<lparr>sn_fields = [(1, ''c'')], sn_history = Some [1, 3, 4]\<rparr>"
  by (rule delta_roundtrip) simp

section \<open>Composition\<close>

text \<open>A delta as \<open>context_snapshot_delta\<close> writes it does not both remove and set a key.\<close>

definition delta_ok :: "('k, 'v, 'm) delta \<Rightarrow> bool" where
  "delta_ok d \<longleftrightarrow> distinct (map fst (d_set d)) \<and> set (d_removed d) \<inter> fst ` set (d_set d) = {}
     \<and> \<not> (d_drop_history d \<and> d_history d \<noteq> None)"

lemma distinct_fold_update:
  "distinct (map fst fs) \<Longrightarrow> distinct (map fst (foldl (\<lambda>fs (k, v). AList.update k v fs) fs kvs))"
  by (induction kvs arbitrary: fs) (auto simp: distinct_update)

lemma compose_set:
  assumes "delta_ok d" "delta_ok e"
  shows "map_of (rev (d_set (compose_context_snapshot_deltas d e))) k =
     (case map_of (d_set e) k of
        Some v \<Rightarrow> Some v
      | None \<Rightarrow> if k \<in> set (d_removed e) then None else map_of (d_set d) k)"
proof -
  let ?base = "filter (\<lambda>(k, v). k \<notin> set (d_removed e)) (d_set d)"
  let ?vals = "foldl (\<lambda>fs (k, v). AList.update k v fs) ?base (d_set e)"
  have set: "d_set (compose_context_snapshot_deltas d e) = ?vals"
    by (auto simp: compose_context_snapshot_deltas_def Let_def split: option.splits prod.splits)
  have "distinct (map fst ?base)" using assms(1) by (simp add: delta_ok_def distinct_map_filter)
  then have "distinct (map fst ?vals)" by (rule distinct_fold_update)
  then show ?thesis
    using map_of_rev_distinct [of "d_set e"] assms(2)
    by (simp add: set map_of_rev_distinct map_of_fold_update map_of_filter_keys delta_ok_def split: option.splits)
qed

lemma compose_removed:
  "k \<in> set (d_removed (compose_context_snapshot_deltas d e)) \<longleftrightarrow>
     (k \<in> set (d_removed d) \<or> k \<in> set (d_removed e))
     \<and> k \<notin> fst ` set (d_set e) \<and> (k \<in> fst ` set (d_set d) \<longrightarrow> k \<in> set (d_removed e))"
proof -
  let ?base = "filter (\<lambda>(k, v). k \<notin> set (d_removed e)) (d_set d)"
  have "set (d_removed (compose_context_snapshot_deltas d e)) =
      {k. (k \<in> set (d_removed d) \<or> k \<in> set (d_removed e))
        \<and> k \<notin> fst ` set (foldl (\<lambda>fs (k, v). AList.update k v fs) ?base (d_set e))}"
    by (auto simp: compose_context_snapshot_deltas_def Let_def split: option.splits prod.splits)
  then show ?thesis by (force simp: keys_fold_update)
qed

lemma compose_history:
  "d_history (compose_context_snapshot_deltas d e) =
     (case d_history e of
        Some (start, new) \<Rightarrow>
          (case d_history d of
             Some (p, old) \<Rightarrow>
               if p < start then Some (if d_drop_history d then 0 else p, take (nat (start - p)) old @ new)
               else Some (if d_drop_history d then 0 else start, new)
           | None \<Rightarrow> Some (if d_drop_history d then 0 else start, new))
      | None \<Rightarrow> if d_drop_history e then None else d_history d)"
  "d_drop_history (compose_context_snapshot_deltas d e) =
     (d_history e = None \<and> (d_drop_history d \<or> d_drop_history e))"
  by (auto simp: compose_context_snapshot_deltas_def Let_def split: option.splits prod.splits)

lemma take_spliced:
  assumes "0 \<le> p" "p < start" "p \<le> int (length h)"
  shows "take (nat start) (take (nat p) h @ old) = take (nat p) h @ take (nat (start - p)) old"
proof -
  have "length (take (nat p) h) = nat p" using assms by simp
  then show ?thesis using assms by (simp add: nat_diff_distrib)
qed

lemma take_shorter:
  assumes "0 \<le> start" "start \<le> p" "p \<le> int (length h)"
  shows "take (nat start) (take (nat p) h @ old) = take (nat start) h"
  using assms by (simp add: min_def nat_le_iff nat_mono)

lemma history_after:
  assumes "apply_context_snapshot_delta s d = Inr t"
  shows "history_of t = (case d_history d of None \<Rightarrow> if d_drop_history d then [] else history_of s
      | Some (p, new) \<Rightarrow> take (nat p) (history_of s) @ new)"
  using apply_history_of(1) [OF assms] by (auto simp: history_of_def split: option.splits)

text \<open>The range check of the composed history passes where those of the parts do.\<close>

lemma compose_in_range:
  assumes first: "apply_context_snapshot_delta s d = Inr t" and second: "apply_context_snapshot_delta t e = Inr v"
    and c: "d_history (compose_context_snapshot_deltas d e) = Some (p, new)"
  shows "0 \<le> p \<and> p \<le> int (length (history_of s))"
proof (cases "d_history e")
  case None
  with c apply_history_of(2) [OF first] show ?thesis by (auto simp: compose_history split: if_splits)
next
  case (Some sn)
  obtain start enew where sn: "d_history e = Some (start, enew)" using Some by (cases sn) auto
  with apply_history_of(2) [OF second] have bound: "0 \<le> start" "start \<le> int (length (history_of t))" by auto
  show ?thesis
  proof (cases "d_history d")
    case None
    with c sn bound history_after [OF first] show ?thesis by (auto simp: compose_history split: if_splits)
  next
    case (Some po)
    obtain p0 old where po: "d_history d = Some (p0, old)" using Some by (cases po) auto
    with c sn bound apply_history_of(2) [OF first po] show ?thesis by (auto simp: compose_history split: if_splits)
  qed
qed

lemma compose_fields:
  assumes ok: "delta_ok d" "delta_ok e"
    and first: "apply_context_snapshot_delta s d = Inr t" and second: "apply_context_snapshot_delta t e = Inr v"
    and both: "apply_context_snapshot_delta s (compose_context_snapshot_deltas d e) = Inr w"
  shows "map_of (sn_fields w) k = map_of (sn_fields v) k"
proof -
  have rev: "map_of (rev (d_set d)) = map_of (d_set d)" "map_of (rev (d_set e)) = map_of (d_set e)"
    using ok map_of_rev_distinct by (auto simp: delta_ok_def)
  have in_d: "k \<in> fst ` set (d_set d) \<longleftrightarrow> map_of (d_set d) k \<noteq> None"
    and in_e: "k \<in> fst ` set (d_set e) \<longleftrightarrow> map_of (d_set e) k \<noteq> None"
    by (simp_all add: map_of_eq_None_iff)
  have "map_of (d_set d) k \<noteq> None \<Longrightarrow> k \<notin> set (d_removed d)"
    using ok(1) unfolding in_d [symmetric] by (auto simp: delta_ok_def)
  then show ?thesis
    using apply_fields_of [OF both, of k] apply_fields_of [OF first, of k] apply_fields_of [OF second, of k]
    unfolding rev compose_set [OF ok] compose_removed in_d in_e
    by (cases "map_of (d_set d) k"; cases "map_of (d_set e) k") auto
qed

lemma compose_histories:
  assumes ok: "delta_ok d" "delta_ok e"
    and first: "apply_context_snapshot_delta s d = Inr t" and second: "apply_context_snapshot_delta t e = Inr v"
    and both: "apply_context_snapshot_delta s (compose_context_snapshot_deltas d e) = Inr w"
  shows "sn_history w = sn_history v"
proof (cases "d_history e")
  case None
  then show ?thesis
    using apply_history_of(1) [OF both] apply_history_of(1) [OF first] apply_history_of(1) [OF second] ok
    by (auto simp: compose_history delta_ok_def split: option.splits if_splits)
next
  case (Some sn)
  note hw = apply_history_of(1) [OF both] and hv = apply_history_of(1) [OF second] and th = history_after [OF first]
  obtain start enew where sn: "d_history e = Some (start, enew)" using Some by (cases sn) auto
  with apply_history_of(2) [OF second] have bound: "0 \<le> start" "start \<le> int (length (history_of t))" by auto
  show ?thesis
  proof (cases "d_history d")
    case None
    then show ?thesis using hw hv th sn bound by (auto simp: compose_history split: if_splits)
  next
    case (Some po)
    obtain p0 old where po: "d_history d = Some (p0, old)" using Some by (cases po) auto
    then have "\<not> d_drop_history d" using ok(1) by (auto simp: delta_ok_def)
    then show ?thesis
      using hw hv th sn po bound apply_history_of(2) [OF first po]
        take_spliced [of p0 start "history_of s" old] take_shorter [of start p0 "history_of s" old]
      by (auto simp: compose_history split: if_splits)
  qed
qed

text \<open>
  Applying the composition of two deltas, as the code writes deltas, equals applying the one after the other where
  that is not refused.
\<close>

theorem composition_applies_both:
  assumes ok: "delta_ok d" "delta_ok e"
    and first: "apply_context_snapshot_delta s d = Inr t"
    and second: "apply_context_snapshot_delta t e = Inr v"
  shows "\<exists>w. apply_context_snapshot_delta s (compose_context_snapshot_deltas d e) = Inr w \<and> same_snap w v"
proof -
  obtain w where w: "apply_context_snapshot_delta s (compose_context_snapshot_deltas d e) = Inr w"
    using apply_defined compose_in_range [OF first second] by blast
  with compose_fields [OF ok first second w] compose_histories [OF ok first second w]
  show ?thesis by (auto simp: same_snap_def)
qed

text \<open>
  Where the second is refused, the composition need not be: it reads only its own start. Deltas of consecutive
  snapshots never get there.
\<close>

lemma composition_accepts_more:
  "apply_context_snapshot_delta \<lparr>sn_fields = [], sn_history = Some [7]\<rparr> \<lparr>d_set = [], d_removed = [], d_drop_history = False, d_history = Some (0, [])\<rparr>
     = Inr \<lparr>sn_fields = [] :: (int \<times> int) list, sn_history = Some [] :: int list option\<rparr>
   \<and> apply_context_snapshot_delta \<lparr>sn_fields = [] :: (int \<times> int) list, sn_history = Some [] :: int list option\<rparr>
       \<lparr>d_set = [], d_removed = [], d_drop_history = False, d_history = Some (2, [9])\<rparr> = Inl (BadHistoryStart 2)
   \<and> apply_context_snapshot_delta \<lparr>sn_fields = [], sn_history = Some [7]\<rparr>
       (compose_context_snapshot_deltas \<lparr>d_set = [], d_removed = [], d_drop_history = False, d_history = Some (0, [])\<rparr>
          \<lparr>d_set = [], d_removed = [], d_drop_history = False, d_history = Some (2, [9])\<rparr>)
     = Inr \<lparr>sn_fields = [] :: (int \<times> int) list, sn_history = Some [9] :: int list option\<rparr>"
  by code_simp

section \<open>From a checkpoint through any number of snapshots\<close>

text \<open>
  The repository starts from the delta that changes nothing and composes it with the delta of every new
  snapshot, without loading the checkpoint.
\<close>

definition no_change :: "('k, 'v, 'm) delta" where
  "no_change = \<lparr>d_set = [], d_removed = [], d_drop_history = False, d_history = None\<rparr>"

fun composed_through :: "('k, 'v, 'm) snap \<Rightarrow> ('k, 'v, 'm) delta \<Rightarrow> ('k, 'v, 'm) snap list \<Rightarrow> ('k, 'v, 'm) delta" where
  "composed_through current d [] = d"
| "composed_through current d (s # ss) =
     composed_through s (compose_context_snapshot_deltas d (context_snapshot_delta current s)) ss"

lemma snapshot_delta_ok: "distinct (map fst (sn_fields after)) \<Longrightarrow> delta_ok (context_snapshot_delta before after)"
  by (force simp: delta_ok_def context_snapshot_delta_def distinct_map_filter split: option.splits)

lemma compose_ok:
  assumes "delta_ok d" "delta_ok e"
  shows "delta_ok (compose_context_snapshot_deltas d e)"
proof -
  let ?c = "compose_context_snapshot_deltas d e"
  have "d_set ?c = foldl (\<lambda>fs (k, v). AList.update k v fs) (filter (\<lambda>(k, v). k \<notin> set (d_removed e)) (d_set d)) (d_set e)"
    by (auto simp: compose_context_snapshot_deltas_def Let_def split: option.splits prod.splits)
  then have "distinct (map fst (d_set ?c))"
    using assms(1) by (auto simp: delta_ok_def intro!: distinct_fold_update distinct_map_filter)
  moreover have "set (d_removed ?c) \<inter> fst ` set (d_set ?c) = {}"
    by (auto simp: compose_context_snapshot_deltas_def Let_def split: option.splits prod.splits)
  moreover have "\<not> (d_drop_history ?c \<and> d_history ?c \<noteq> None)"
    using assms by (auto simp: compose_history delta_ok_def split: option.splits if_splits)
  ultimately show ?thesis by (simp add: delta_ok_def)
qed

text \<open>A delta leads two equal snapshots to equal ones.\<close>

lemma apply_same:
  assumes "apply_context_snapshot_delta s d = Inr s'" "same_snap t s"
  shows "\<exists>t'. apply_context_snapshot_delta t d = Inr t' \<and> same_snap t' s'"
proof -
  have h: "history_of t = history_of s" "sn_history t = sn_history s" "map_of (sn_fields t) = map_of (sn_fields s)"
    using assms(2) by (simp_all add: same_snap_def history_of_def)
  then obtain t' where t': "apply_context_snapshot_delta t d = Inr t'"
    using apply_defined [of d t] apply_history_of(2) [OF assms(1)] by auto
  have "map_of (sn_fields t') k = map_of (sn_fields s') k" for k
    unfolding apply_fields_of [OF t'] apply_fields_of [OF assms(1)] h ..
  moreover have "sn_history t' = sn_history s'"
    unfolding apply_history_of(1) [OF t'] apply_history_of(1) [OF assms(1)] h ..
  ultimately show ?thesis using t' by (auto simp: same_snap_def)
qed

lemma same_snap_trans: "same_snap s t \<Longrightarrow> same_snap t w \<Longrightarrow> same_snap s w"
  by (simp add: same_snap_def)

lemma composed_through_leads:
  "delta_ok d \<Longrightarrow> apply_context_snapshot_delta checkpoint d = Inr t \<Longrightarrow> same_snap t current
   \<Longrightarrow> \<forall>s \<in> set ss. distinct (map fst (sn_fields s))
   \<Longrightarrow> \<exists>w. apply_context_snapshot_delta checkpoint (composed_through current d ss) = Inr w \<and> same_snap w (last (current # ss))"
proof (induction ss arbitrary: current d t)
  case (Cons s ss)
  let ?e = "context_snapshot_delta current s"
  have s: "distinct (map fst (sn_fields s))" using Cons.prems(4) by simp
  from delta_roundtrip [OF s, of current] obtain u1 where e: "apply_context_snapshot_delta current ?e = Inr u1" "same_snap u1 s"
    by blast
  from apply_same [OF e(1) Cons.prems(3)] obtain v where v: "apply_context_snapshot_delta t ?e = Inr v" "same_snap v u1" by blast
  from composition_applies_both [OF Cons.prems(1) snapshot_delta_ok [OF s] Cons.prems(2) v(1)] obtain w where
    w: "apply_context_snapshot_delta checkpoint (compose_context_snapshot_deltas d ?e) = Inr w" "same_snap w v" by blast
  have "same_snap w s" using w(2) v(2) e(2) by (blast intro: same_snap_trans)
  from Cons.IH [OF compose_ok [OF Cons.prems(1) snapshot_delta_ok [OF s]] w(1) this] Cons.prems(4) show ?case by simp
qed auto

text \<open>
  Claim C35. Composing the deltas of consecutive snapshots, from the delta that changes nothing on and without loading the
  checkpoint, gives a delta that is never refused by the checkpoint and leads to the last snapshot,
  whatever number of snapshots there was and whatever each of them changed, removed, truncated or appended (snapshots have
  each key once, as dicts do).
\<close>

theorem checkpoint_follows_snapshots:
  assumes "\<forall>s \<in> set ss. distinct (map fst (sn_fields s))"
  shows "\<exists>w. apply_context_snapshot_delta checkpoint (composed_through checkpoint no_change ss) = Inr w
    \<and> same_snap w (last (checkpoint # ss))"
proof (rule composed_through_leads [OF _ _ _ assms])
  show "delta_ok no_change" by (simp add: delta_ok_def no_change_def)
  show "apply_context_snapshot_delta checkpoint no_change = Inr checkpoint"
    by (simp add: apply_context_snapshot_delta_def no_change_def)
qed (simp add: same_snap_def)

definition snap_ex :: "(int \<times> string) list \<Rightarrow> int list option \<Rightarrow> (int, string, int) snap" where
  "snap_ex fs h = \<lparr>sn_fields = fs, sn_history = h\<rparr>"

theorem composition_applies_both_witness:
  "\<exists>w. apply_context_snapshot_delta (snap_ex [(1, ''a'')] (Some [1, 2]))
        (compose_context_snapshot_deltas
           (context_snapshot_delta (snap_ex [(1, ''a'')] (Some [1, 2])) (snap_ex [(2, ''b'')] (Some [1, 3, 4])))
           (context_snapshot_delta (snap_ex [(2, ''b'')] (Some [1, 3, 4])) (snap_ex [] (Some [1, 3, 5])))) = Inr w
     \<and> same_snap w (snap_ex [] (Some [1, 3, 5]))"
  by (rule composition_applies_both [where t = "snap_ex [(2, ''b'')] (Some [1, 3, 4])"])
    (simp_all add: delta_ok_def context_snapshot_delta_def apply_context_snapshot_delta_def
      history_of_def snap_ex_def Let_def)

theorem checkpoint_follows_snapshots_witness:
  "\<exists>w. apply_context_snapshot_delta (snap_ex [(1, ''a'')] (Some [1, 2]))
        (composed_through (snap_ex [(1, ''a'')] (Some [1, 2])) no_change
           [snap_ex [(2, ''b'')] (Some [1, 3, 4]), snap_ex [(2, ''b'')] None, snap_ex [(1, ''c'')] (Some [1, 3])]) = Inr w
     \<and> same_snap w (last (snap_ex [(1, ''a'')] (Some [1, 2]) #
           [snap_ex [(2, ''b'')] (Some [1, 3, 4]), snap_ex [(2, ''b'')] None, snap_ex [(1, ''c'')] (Some [1, 3])]))"
  by (rule checkpoint_follows_snapshots) (simp add: snap_ex_def)

end
