(* ===== verification/Sse.thy ===== *)
theory Sse
  imports Prelude
begin

text \<open>
  Bounded parsing of provider event streams: \<open>backend/llm/sse.py\<close>.

  The byte path of \<open>iter_sse_data\<close> is the state \<open>sse\<close> (the buffer and the parts of the current
  event, the variables of the generator) and one step per chunk; what the generator yields is
  the list of payloads, and an exception ends it. \<open>SSEMalformedBudget\<close> is \<open>malformed_budget\<close>. The
  environment is an argument. The line path for clients without \<open>aiter_bytes\<close> is \<open>line_payloads\<close>.
\<close>

section \<open>Configuration\<close>

definition bounded_env_int :: "ustr option \<Rightarrow> int \<Rightarrow> int \<Rightarrow> int \<Rightarrow> int" where
  "bounded_env_int raw dflt lo hi =
     (let r = ustrip (case raw of Some s \<Rightarrow> s | None \<Rightarrow> []) in
      if r = [] then dflt
      else (case py_int r of None \<Rightarrow> dflt | Some v \<Rightarrow> max lo (min v hi)))"

definition default_max_line_bytes :: int where "default_max_line_bytes = 8 * 1024 * 1024"
definition default_max_event_bytes :: int where "default_max_event_bytes = 16 * 1024 * 1024"
definition default_max_consecutive_malformed :: int where "default_max_consecutive_malformed = 8"
definition default_max_malformed_bytes :: int where "default_max_malformed_bytes = 256 * 1024"
definition max_configured_bytes :: int where "max_configured_bytes = 64 * 1024 * 1024"

record limits =
  max_line :: nat
  max_event :: nat

definition sse_limits :: "ustr option \<Rightarrow> ustr option \<Rightarrow> limits" where
  "sse_limits line_env event_env =
     \<lparr>max_line = nat (bounded_env_int line_env default_max_line_bytes 1024 max_configured_bytes),
      max_event = nat (bounded_env_int event_env default_max_event_bytes 1024 max_configured_bytes)\<rparr>"

datatype sse_error = LineTooLong | EventTooLarge | NotUtf8

section \<open>The malformed budget\<close>

record malformed_budget =
  mb_max_consecutive :: int
  mb_max_bytes :: int
  mb_consecutive :: int
  mb_bytes :: int

definition new_budget :: "ustr option \<Rightarrow> ustr option \<Rightarrow> malformed_budget" where
  "new_budget consecutive_env bytes_env =
     \<lparr>mb_max_consecutive = bounded_env_int consecutive_env default_max_consecutive_malformed 1 1000,
      mb_max_bytes = bounded_env_int bytes_env default_max_malformed_bytes 1024 max_configured_bytes,
      mb_consecutive = 0, mb_bytes = 0\<rparr>"

definition accept_frame :: "malformed_budget \<Rightarrow> malformed_budget" where
  "accept_frame b = b\<lparr>mb_consecutive := 0\<rparr>"

text \<open>The state after the call, and whether it raised.\<close>

definition reject_frame :: "malformed_budget \<Rightarrow> ustr \<Rightarrow> malformed_budget \<times> bool" where
  "reject_frame b payload =
     (let b' = b\<lparr>mb_consecutive := mb_consecutive b + 1, mb_bytes := mb_bytes b + int (utf8_size payload)\<rparr> in
      (b', mb_max_consecutive b' < mb_consecutive b' \<or> mb_max_bytes b' < mb_bytes b'))"

section \<open>The byte path\<close>

type_synonym bytes = "int list"

record sse =
  line_buffer :: bytes
  event_parts :: "bytes list"
  event_bytes :: nat

definition empty_sse :: sse where
  "empty_sse = \<lparr>line_buffer = [], event_parts = [], event_bytes = 0\<rparr>"

definition ascii :: "string \<Rightarrow> bytes" where
  "ascii s = map of_char s"

definition drop_cr :: "bytes \<Rightarrow> bytes" where
  "drop_cr raw = (if raw \<noteq> [] \<and> last raw = 13 then butlast raw else raw)"

definition data_field :: "bytes \<Rightarrow> bytes" where
  "data_field line = (let d = drop 5 line in if startswith d [32] then drop 1 d else d)"

definition consume_line :: "limits \<Rightarrow> sse \<Rightarrow> bytes \<Rightarrow> sse_error + (sse \<times> ustr option)" where
  "consume_line lim st raw =
     (let line = drop_cr raw in
      if max_line lim < length line then Inl LineTooLong
      else if line = [] then
        (if event_parts st = [] then Inr (st, None)
         else (case utf8_decode (join [10] (event_parts st)) of
                 None \<Rightarrow> Inl NotUtf8
               | Some t \<Rightarrow> Inr (st\<lparr>event_parts := [], event_bytes := 0\<rparr>, Some t)))
      else if startswith line (ascii '':'') \<or> startswith line (ascii ''event:'') then Inr (st, None)
      else if \<not> startswith line (ascii ''data:'') then Inr (st, None)
      else
       (let d = data_field line;
            projected = event_bytes st + length d + (if event_parts st = [] then 0 else 1) in
        if max_event lim < projected then Inl EventTooLarge
        else Inr (st\<lparr>event_parts := event_parts st @ [d], event_bytes := projected\<rparr>, None)))"

text \<open>What the generator has yielded when it stops, and how it stops: an exception or a state.\<close>

type_synonym 'a yields = "ustr list \<times> (sse_error + 'a)"

definition emit :: "ustr option \<Rightarrow> 'a yields \<Rightarrow> 'a yields" where
  "emit p r = (case p of None \<Rightarrow> r | Some t \<Rightarrow> (t # fst r, snd r))"

definition and_then :: "'a yields \<Rightarrow> ('a \<Rightarrow> 'b yields) \<Rightarrow> 'b yields" where
  "and_then r f =
     (case snd r of
        Inl e \<Rightarrow> (fst r, Inl e)
      | Inr st \<Rightarrow> (fst r @ fst (f st), snd (f st)))"

definition step_line :: "limits \<Rightarrow> sse \<Rightarrow> bytes \<Rightarrow> sse yields" where
  "step_line lim st raw =
     (case consume_line lim st raw of
        Inl e \<Rightarrow> ([], Inl e)
      | Inr (st', p) \<Rightarrow> emit p ([], Inr st'))"

lemma step_line_buffer: "snd (step_line lim st raw) = Inr st' \<Longrightarrow> line_buffer st' = line_buffer st"
  by (auto simp: step_line_def consume_line_def emit_def Let_def split: sum.splits option.splits if_splits prod.splits)

text \<open>The inner loop: every complete line of the buffer is consumed.\<close>

function drain :: "limits \<Rightarrow> sse \<Rightarrow> sse yields" where
  "drain lim st =
     (if 10 \<notin> set (line_buffer st) then ([], Inr st)
      else
       (let raw = takeWhile (\<lambda>b. b \<noteq> 10) (line_buffer st);
            now = step_line lim (st\<lparr>line_buffer := drop (Suc (length raw)) (line_buffer st)\<rparr>) raw in
        (case snd now of
           Inl e \<Rightarrow> (fst now, Inl e)
         | Inr st' \<Rightarrow> (let later = drain lim st' in (fst now @ fst later, snd later)))))"
  by pat_completeness auto
termination
proof (relation "measure (\<lambda>(lim, st). length (line_buffer st))", goal_cases)
  case (2 lim st raw now st')
  then have "line_buffer st' = drop (Suc (length raw)) (line_buffer st)"
    using step_line_buffer by fastforce
  moreover have "line_buffer st \<noteq> []" using 2 by auto
  ultimately show ?case by simp
qed simp

declare drain.simps [simp del]

definition feed :: "limits \<Rightarrow> sse \<Rightarrow> bytes \<Rightarrow> sse yields" where
  "feed lim st chunk =
     and_then (drain lim (st\<lparr>line_buffer := line_buffer st @ chunk\<rparr>))
       (\<lambda>st'. if max_line lim < length (line_buffer st') then ([], Inl LineTooLong) else ([], Inr st'))"

fun feed_all :: "limits \<Rightarrow> sse \<Rightarrow> bytes list \<Rightarrow> sse yields" where
  "feed_all lim st [] = ([], Inr st)"
| "feed_all lim st (c # cs) = and_then (feed lim st c) (\<lambda>st'. feed_all lim st' cs)"

definition finish :: "limits \<Rightarrow> sse \<Rightarrow> sse yields" where
  "finish lim st =
     and_then (if line_buffer st \<noteq> [] then step_line lim st (line_buffer st) else ([], Inr st))
       (\<lambda>st'. if event_parts st' \<noteq> [] then step_line lim st' [] else ([], Inr st'))"

definition iter_sse_data :: "limits \<Rightarrow> bytes list \<Rightarrow> ustr list \<times> sse_error option" where
  "iter_sse_data lim chunks =
     (let r = and_then (feed_all lim empty_sse chunks) (finish lim) in
      (fst r, case snd r of Inl e \<Rightarrow> Some e | Inr st \<Rightarrow> None))"

section \<open>The line path\<close>

definition line_payload :: "ustr \<Rightarrow> ustr option" where
  "line_payload raw =
     (let line = rstrip_by (\<lambda>c. c = 13 \<or> c = 10) raw in
      if line = [] \<or> startswith line (u '':'') \<or> startswith line (u ''event:'') then None
      else Some (if startswith line (u ''data:'') then
                   (let d = drop 5 line in if startswith d (u '' '') then drop 1 d else d)
                 else line))"

fun line_payloads :: "limits \<Rightarrow> ustr list \<Rightarrow> ustr list \<times> sse_error option" where
  "line_payloads lim [] = ([], None)"
| "line_payloads lim (raw # raws) =
     (if max_line lim < utf8_size raw then ([], Some LineTooLong)
      else (case line_payload raw of
              None \<Rightarrow> line_payloads lim raws
            | Some line \<Rightarrow>
                if max_event lim < utf8_size line then ([], Some EventTooLarge)
                else if line = [] then line_payloads lim raws
                else (case line_payloads lim raws of (out, e) \<Rightarrow> (line # out, e))))"

section \<open>Reading a whole stream at once\<close>

text \<open>The reference reader: the lines of the concatenated bytes, then what is left.\<close>

fun consume_all :: "limits \<Rightarrow> sse \<Rightarrow> bytes list \<Rightarrow> sse yields" where
  "consume_all lim st [] = ([], Inr st)"
| "consume_all lim st (l # ls) = and_then (step_line lim st l) (\<lambda>st'. consume_all lim st' ls)"

definition read_lines :: "limits \<Rightarrow> bytes \<Rightarrow> ustr list \<times> sse_error option" where
  "read_lines lim stream =
     (let ls = split_on 10 stream;
          r = and_then (consume_all lim empty_sse (butlast ls))
                (\<lambda>st. finish lim (st\<lparr>line_buffer := last ls\<rparr>)) in
      (fst r, case snd r of Inl e \<Rightarrow> Some e | Inr st \<Rightarrow> None))"

lemma and_then_return [simp]: "and_then ([], Inr st) f = f st"
  by (simp add: and_then_def)

lemma and_then_assoc: "and_then (and_then r f) g = and_then r (\<lambda>st. and_then (f st) g)"
  by (auto simp: and_then_def split: sum.splits)

lemma and_then_cong: "(\<And>st. snd r = Inr st \<Longrightarrow> f st = g st) \<Longrightarrow> and_then r f = and_then r g"
  by (auto simp: and_then_def split: sum.splits)

lemma consume_all_append:
  "consume_all lim st (as @ bs) = and_then (consume_all lim st as) (\<lambda>st'. consume_all lim st' bs)"
  by (induction as arbitrary: st) (simp_all add: and_then_assoc)

text \<open>Lines do not look at the buffer.\<close>

lemma step_line_with_buffer:
  "step_line lim (st\<lparr>line_buffer := b\<rparr>) raw =
     and_then (step_line lim st raw) (\<lambda>st'. ([], Inr (st'\<lparr>line_buffer := b\<rparr>)))"
  by (auto simp: step_line_def consume_line_def emit_def and_then_def Let_def split: option.splits)

lemma consume_all_with_buffer:
  "consume_all lim (st\<lparr>line_buffer := b\<rparr>) ls =
     and_then (consume_all lim st ls) (\<lambda>st'. ([], Inr (st'\<lparr>line_buffer := b\<rparr>)))"
  by (induction ls arbitrary: st) (simp_all add: step_line_with_buffer and_then_assoc)

lemma split_on_break:
  fixes s :: bytes
  shows "10 \<in> set s \<Longrightarrow> split_on 10 s =
     takeWhile (\<lambda>b. b \<noteq> 10) s # split_on 10 (drop (Suc (length (takeWhile (\<lambda>b. b \<noteq> 10) s))) s)"
proof -
  assume in10: "10 \<in> set s"
  let ?w = "takeWhile (\<lambda>b. b \<noteq> 10) s"
  have "dropWhile (\<lambda>b. b \<noteq> 10) s \<noteq> []" using in10 by (auto simp: dropWhile_eq_Nil_conv)
  then obtain r where r: "dropWhile (\<lambda>b. b \<noteq> 10) s = 10 # r"
    by (cases "dropWhile (\<lambda>b. b \<noteq> 10) s") (auto simp: dropWhile_eq_Cons_conv)
  then have s: "s = ?w @ 10 # r" by (metis takeWhile_dropWhile_id)
  have "10 \<notin> set ?w" by (auto dest: set_takeWhileD)
  then have "split_on 10 s = ?w # split_on 10 r" by (subst s) (rule split_on_append)
  moreover have "drop (Suc (length ?w)) s = r" by (subst (2) s) simp
  ultimately show ?thesis by simp
qed

lemma drain_lines:
  "drain lim st = and_then (consume_all lim st (butlast (split_on 10 (line_buffer st))))
     (\<lambda>st'. ([], Inr (st'\<lparr>line_buffer := last (split_on 10 (line_buffer st))\<rparr>)))"
proof (induction lim st rule: drain.induct)
  case (1 lim st)
  show ?case
  proof (cases "10 \<in> set (line_buffer st)")
    case False
    then show ?thesis by (subst drain.simps) (simp add: split_on_no_sep)
  next
    case True
    define raw where "raw = takeWhile (\<lambda>b. b \<noteq> 10) (line_buffer st)"
    define rest where "rest = drop (Suc (length raw)) (line_buffer st)"
    let ?st1 = "st\<lparr>line_buffer := rest\<rparr>"
    have split: "split_on 10 (line_buffer st) = raw # split_on 10 rest"
      using split_on_break [OF True] by (simp add: raw_def rest_def)
    have unfold: "drain lim st = and_then (step_line lim ?st1 raw) (drain lim)"
      using True by (subst drain.simps)
        (simp add: raw_def [symmetric] rest_def [symmetric] Let_def and_then_def split: prod.splits sum.splits)
    have ih: "drain lim st2 = and_then (consume_all lim st2 (butlast (split_on 10 rest)))
        (\<lambda>st'. ([], Inr (st'\<lparr>line_buffer := last (split_on 10 rest)\<rparr>)))"
      if s2: "snd (step_line lim ?st1 raw) = Inr st2" for st2
    proof -
      have "line_buffer st2 = rest" using step_line_buffer [OF s2] by simp
      moreover have "drain lim st2 = and_then (consume_all lim st2 (butlast (split_on 10 (line_buffer st2))))
        (\<lambda>st'. ([], Inr (st'\<lparr>line_buffer := last (split_on 10 (line_buffer st2))\<rparr>)))"
        using 1 [OF _ refl refl] True s2 by (simp add: raw_def rest_def)
      ultimately show ?thesis by simp
    qed
    have "drain lim st = and_then (step_line lim ?st1 raw) (\<lambda>st2.
        and_then (consume_all lim st2 (butlast (split_on 10 rest)))
          (\<lambda>st'. ([], Inr (st'\<lparr>line_buffer := last (split_on 10 rest)\<rparr>))))"
      unfolding unfold by (rule and_then_cong) (rule ih)
    also have "\<dots> = and_then (consume_all lim ?st1 (butlast (split_on 10 (line_buffer st))))
        (\<lambda>st'. ([], Inr (st'\<lparr>line_buffer := last (split_on 10 (line_buffer st))\<rparr>)))"
      by (simp add: split and_then_assoc)
    also have "\<dots> = and_then (consume_all lim st (butlast (split_on 10 (line_buffer st))))
        (\<lambda>st'. ([], Inr (st'\<lparr>line_buffer := last (split_on 10 (line_buffer st))\<rparr>)))"
      by (simp add: consume_all_with_buffer and_then_assoc)
    finally show ?thesis .
  qed
qed

lemma split_on_cat: "split_on c (a @ b) = butlast (split_on c a) @ split_on c (last (split_on c a) @ b)"
proof (induction a)
  case (Cons x a)
  obtain w ws where w: "split_on c a = w # ws" by (cases "split_on c a") auto
  obtain v vs where v: "split_on c (last (split_on c a) @ b) = v # vs"
    by (cases "split_on c (last (split_on c a) @ b)") auto
  show ?case using Cons w v by (cases ws) (auto split: list.splits)
qed simp

lemma split_on_hd_prefix:
  assumes "c \<notin> set w"
  shows "\<exists>x xs. split_on c (w @ b) = (w @ x) # xs"
  using assms
proof (induction w)
  case Nil
  then show ?case by (cases "split_on c b") auto
next
  case (Cons a w)
  then show ?case by (auto split: list.splits)
qed

definition lines_bounded :: "limits \<Rightarrow> bytes \<Rightarrow> bool" where
  "lines_bounded lim s \<longleftrightarrow> (\<forall>l \<in> set (split_on 10 s). length l \<le> max_line lim)"

lemma lines_bounded_cat:
  assumes "lines_bounded lim (a @ b)"
  shows "lines_bounded lim (last (split_on 10 a) @ b)" "length (last (split_on 10 a)) \<le> max_line lim"
proof -
  show rest: "lines_bounded lim (last (split_on 10 a) @ b)"
    using assms split_on_cat [of 10 a b] by (auto simp: lines_bounded_def)
  have "10 \<notin> set (last (split_on 10 a))" by (rule split_on_parts [where s = a]) simp
  then obtain x xs where "split_on 10 (last (split_on 10 a) @ b) = (last (split_on 10 a) @ x) # xs"
    using split_on_hd_prefix [of 10 "last (split_on 10 a)" b] by metis
  with rest show "length (last (split_on 10 a)) \<le> max_line lim" by (auto simp: lines_bounded_def)
qed

lemma feed_all_lines:
  assumes "lines_bounded lim (line_buffer st @ concat chunks)" "10 \<notin> set (line_buffer st)"
  shows "and_then (feed_all lim st chunks) (finish lim)
       = and_then (consume_all lim st (butlast (split_on 10 (line_buffer st @ concat chunks))))
           (\<lambda>st'. finish lim (st'\<lparr>line_buffer := last (split_on 10 (line_buffer st @ concat chunks))\<rparr>))"
  using assms
proof (induction chunks arbitrary: st)
  case Nil
  then show ?case by (simp add: split_on_no_sep)
next
  case (Cons c cs)
  let ?L = "split_on 10 (line_buffer st @ c)"
  have bounded: "lines_bounded lim (last ?L @ concat cs)" "length (last ?L) \<le> max_line lim"
    using lines_bounded_cat [of lim "line_buffer st @ c" "concat cs"] Cons.prems(1) by simp_all
  have sep: "10 \<notin> set (last ?L)" by (rule split_on_parts [where s = "line_buffer st @ c"]) simp
  have "feed lim st c = and_then (consume_all lim st (butlast ?L)) (\<lambda>st'. ([], Inr (st'\<lparr>line_buffer := last ?L\<rparr>)))"
    using bounded(2) by (simp add: feed_def drain_lines consume_all_with_buffer and_then_assoc not_less)
  then have "and_then (feed_all lim st (c # cs)) (finish lim)
      = and_then (consume_all lim st (butlast ?L))
          (\<lambda>st'. and_then (feed_all lim (st'\<lparr>line_buffer := last ?L\<rparr>) cs) (finish lim))"
    by (simp add: and_then_assoc)
  also have "\<dots> = and_then (consume_all lim st (butlast ?L))
      (\<lambda>st'. and_then (consume_all lim st' (butlast (split_on 10 (last ?L @ concat cs))))
        (\<lambda>st''. finish lim (st''\<lparr>line_buffer := last (split_on 10 (last ?L @ concat cs))\<rparr>)))"
    using Cons.IH [of "st'\<lparr>line_buffer := last ?L\<rparr>" for st'] bounded(1) sep
    by (intro and_then_cong) (simp add: consume_all_with_buffer and_then_assoc)
  also have "\<dots> = and_then (consume_all lim st (butlast (split_on 10 (line_buffer st @ concat (c # cs)))))
      (\<lambda>st'. finish lim (st'\<lparr>line_buffer := last (split_on 10 (line_buffer st @ concat (c # cs)))\<rparr>))"
    using split_on_cat [of 10 "line_buffer st @ c" "concat cs"]
    by (simp add: consume_all_append and_then_assoc butlast_append)
  finally show ?case .
qed

text \<open>
  Claim C23. The payloads and the error of a stream do not depend on how the transport
  cuts it into chunks: while no raw line exceeds the line limit, reading chunk by chunk equals
  reading the lines of the concatenated bytes.
\<close>

theorem chunking_is_irrelevant:
  assumes "lines_bounded lim (concat chunks)"
  shows "iter_sse_data lim chunks = read_lines lim (concat chunks)"
  using feed_all_lines [of lim empty_sse chunks] assms
  by (simp add: iter_sse_data_def read_lines_def empty_sse_def Let_def)

definition limits_ex :: limits where
  "limits_ex = \<lparr>max_line = 20, max_event = 12\<rparr>"

theorem chunking_is_irrelevant_witness:
  "iter_sse_data limits_ex [ascii ''dat'', ascii ''a: a'' @ [10] @ ascii ''data:b'' @ [13], [10, 10]]
     = read_lines limits_ex (ascii ''data: a'' @ [10] @ ascii ''data:b'' @ [13, 10, 10])
   \<and> iter_sse_data limits_ex [ascii ''data: a'', [10] @ ascii ''data:b'' @ [10, 10]] = ([[97, 10, 98]], None)"
proof -
  have "lines_bounded limits_ex (concat [ascii ''dat'', ascii ''a: a'' @ [10] @ ascii ''data:b'' @ [13], [10, 10]])"
    by (simp add: lines_bounded_def limits_ex_def ascii_def)
  from chunking_is_irrelevant [OF this] show ?thesis
    by (simp add: ascii_def) code_simp
qed

text \<open>
  The check of the unfinished buffer counts a carriage return that the check of a finished line
  does not: a line of exactly the limit that ends in CR LF is refused when a chunk ends between
  the two, and accepted otherwise.
\<close>

lemma line_limit_depends_on_chunking:
  "iter_sse_data \<lparr>max_line = 6, max_event = 12\<rparr> [ascii ''data:a'' @ [13], [10, 10]] = ([], Some LineTooLong)
   \<and> iter_sse_data \<lparr>max_line = 6, max_event = 12\<rparr> [ascii ''data:a'' @ [13, 10, 10]] = ([[97]], None)"
  by code_simp

section \<open>Memory bounds\<close>

definition sse_ok :: "limits \<Rightarrow> sse \<Rightarrow> bool" where
  "sse_ok lim st \<longleftrightarrow> event_bytes st = length (join [10] (event_parts st)) \<and> event_bytes st \<le> max_event lim"

lemma length_join: "length (join [s] (ws @ [w])) = length (join [s] ws) + length w + (if ws = [] then 0 else 1)"
  by (induction "[s]" ws rule: join.induct) (auto simp: neq_Nil_conv)

lemma step_line_ok: "sse_ok lim st \<Longrightarrow> snd (step_line lim st raw) = Inr st' \<Longrightarrow> sse_ok lim st'"
  by (auto simp: step_line_def consume_line_def emit_def sse_ok_def length_join Let_def
      split: sum.splits option.splits if_splits prod.splits)

lemma and_then_Inr: "snd (and_then r f) = Inr st' \<longleftrightarrow> (\<exists>st. snd r = Inr st \<and> snd (f st) = Inr st')"
  by (auto simp: and_then_def split: sum.splits)

lemma consume_all_ok: "sse_ok lim st \<Longrightarrow> snd (consume_all lim st ls) = Inr st' \<Longrightarrow> sse_ok lim st'"
  by (induction ls arbitrary: st) (auto simp: and_then_Inr dest: step_line_ok)

lemma feed_ok:
  assumes "sse_ok lim st" "snd (feed lim st c) = Inr st'"
  shows "sse_ok lim st' \<and> length (line_buffer st') \<le> max_line lim"
proof -
  have "sse_ok lim (st\<lparr>line_buffer := line_buffer st @ c\<rparr>)" using assms(1) by (simp add: sse_ok_def)
  moreover obtain st1 where st1:
    "snd (consume_all lim (st\<lparr>line_buffer := line_buffer st @ c\<rparr>) (butlast (split_on 10 (line_buffer st @ c)))) = Inr st1"
    "st' = st1\<lparr>line_buffer := last (split_on 10 (line_buffer st @ c))\<rparr>"
    "length (line_buffer st') \<le> max_line lim"
    using assms(2) by (auto simp: feed_def drain_lines and_then_Inr split: if_splits)
  ultimately have "sse_ok lim st1" using consume_all_ok by blast
  with st1 show ?thesis by (simp add: sse_ok_def)
qed

text \<open>
  Whatever the provider sends, between two chunks the parser holds at most one
  line limit of unfinished line and one event limit of unfinished event, and its counter is the
  size of the event it holds.
\<close>

theorem stream_memory_bounded:
  assumes "chunks \<noteq> []" "snd (feed_all lim empty_sse chunks) = Inr st"
  shows "length (line_buffer st) \<le> max_line lim
       \<and> length (join [10] (event_parts st)) \<le> max_event lim
       \<and> event_bytes st = length (join [10] (event_parts st))"
proof -
  have "sse_ok lim st' \<Longrightarrow> length (line_buffer st') \<le> max_line lim \<Longrightarrow> snd (feed_all lim st' cs) = Inr st
      \<Longrightarrow> sse_ok lim st \<and> length (line_buffer st) \<le> max_line lim" for st' cs
    by (induction cs arbitrary: st') (auto simp: and_then_Inr dest: feed_ok)
  moreover have "sse_ok lim empty_sse" by (simp add: sse_ok_def empty_sse_def)
  moreover have "length (line_buffer empty_sse) \<le> max_line lim" by (simp add: empty_sse_def)
  ultimately have "sse_ok lim st \<and> length (line_buffer st) \<le> max_line lim" using assms(2) by blast
  then show ?thesis by (auto simp: sse_ok_def)
qed

theorem stream_memory_bounded_witness:
  "length (line_buffer \<lparr>line_buffer = ascii ''da'', event_parts = [], event_bytes = 0\<rparr>) \<le> max_line limits_ex"
proof -
  have "snd (feed_all limits_ex empty_sse [ascii ''da'']) =
      Inr \<lparr>line_buffer = ascii ''da'', event_parts = [], event_bytes = 0\<rparr>"
    by code_simp
  from stream_memory_bounded [OF _ this] show ?thesis by blast
qed

section \<open>The malformed budget holds\<close>

datatype frame = Good | Malformed ustr

fun budget_run :: "malformed_budget \<Rightarrow> frame list \<Rightarrow> malformed_budget \<times> bool" where
  "budget_run b [] = (b, False)"
| "budget_run b (Good # fs) = budget_run (accept_frame b) fs"
| "budget_run b (Malformed p # fs) = (case reject_frame b p of (b', raised) \<Rightarrow> if raised then (b', True) else budget_run b' fs)"

definition malformed_bytes :: "frame list \<Rightarrow> int" where
  "malformed_bytes fs = sum_list (map (\<lambda>f. case f of Good \<Rightarrow> 0 | Malformed p \<Rightarrow> int (utf8_size p)) fs)"

lemma budget_run_ok:
  assumes "\<not> snd (budget_run b fs)" "mb_consecutive b \<le> mb_max_consecutive b" "mb_bytes b \<le> mb_max_bytes b"
    "0 \<le> mb_max_consecutive b"
  shows "mb_bytes b + malformed_bytes fs \<le> mb_max_bytes b
    \<and> (\<forall>n ps gs. fs = map Malformed ps @ gs \<longrightarrow> mb_consecutive b + int (length ps) \<le> mb_max_consecutive b)
    \<and> (\<forall>us ps gs. fs = us @ Good # map Malformed ps @ gs \<longrightarrow> int (length ps) \<le> mb_max_consecutive b)"
  using assms
proof (induction b fs rule: budget_run.induct)
  case (1 b)
  then show ?case by (simp add: malformed_bytes_def)
next
  case (2 b fs)
  then show ?case
    by (auto simp: malformed_bytes_def accept_frame_def Cons_eq_append_conv append_eq_Cons_conv map_eq_Cons_conv)
next
  case (3 b p fs)
  let ?b = "b\<lparr>mb_consecutive := mb_consecutive b + 1, mb_bytes := mb_bytes b + int (utf8_size p)\<rparr>"
  have rej: "reject_frame b p = (?b, False)" "\<not> snd (budget_run ?b fs)"
    using 3(2) by (auto simp: reject_frame_def Let_def split: if_splits)
  then have "mb_consecutive ?b \<le> mb_max_consecutive ?b" "mb_bytes ?b \<le> mb_max_bytes ?b"
    by (auto simp: reject_frame_def Let_def)
  with 3(1) [of ?b False] rej 3(5) have
    ih: "mb_bytes ?b + malformed_bytes fs \<le> mb_max_bytes b"
      "\<And>ps gs. fs = map Malformed ps @ gs \<Longrightarrow> mb_consecutive b + 1 + int (length ps) \<le> mb_max_consecutive b"
      "\<And>us ps gs. fs = us @ Good # map Malformed ps @ gs \<Longrightarrow> int (length ps) \<le> mb_max_consecutive b"
    by auto
  have "mb_consecutive b + int (length ps) \<le> mb_max_consecutive b" if "Malformed p # fs = map Malformed ps @ gs" for ps gs
    using that ih(2) [of "tl ps" gs] 3(3) by (cases ps) auto
  moreover have "int (length ps) \<le> mb_max_consecutive b"
    if "Malformed p # fs = us @ Good # map Malformed ps @ gs" for us ps gs
    using that ih(3) [of "tl us" ps gs] by (cases us) auto
  moreover have "mb_bytes b + malformed_bytes (Malformed p # fs) \<le> mb_max_bytes b"
    using ih(1) by (simp add: malformed_bytes_def)
  ultimately show ?case by blast
qed

text \<open>
  A stream that the malformed budget lets through holds at most the configured
  number of malformed bytes in all, and no run of malformed frames longer than the configured one;
  one malformed frame within the limits is always tolerated.
\<close>

theorem malformed_budget_bounds:
  assumes "\<not> snd (budget_run (new_budget ce be) fs)"
  shows "malformed_bytes fs \<le> mb_max_bytes (new_budget ce be)
    \<and> (\<forall>us ps gs. fs = us @ map Malformed ps @ gs \<and> (us = [] \<or> last us = Good)
         \<longrightarrow> int (length ps) \<le> mb_max_consecutive (new_budget ce be))"
proof -
  have pos: "0 \<le> bounded_env_int raw d lo hi" if "0 \<le> lo" "0 \<le> d" for raw d lo hi
    using that by (auto simp: bounded_env_int_def Let_def split: option.splits)
  let ?b = "new_budget ce be"
  have b: "mb_consecutive ?b = 0" "mb_bytes ?b = 0" "0 \<le> mb_max_consecutive ?b" "0 \<le> mb_max_bytes ?b"
    by (simp_all add: new_budget_def pos default_max_malformed_bytes_def default_max_consecutive_malformed_def)
  from budget_run_ok [OF assms] b have
    r: "malformed_bytes fs \<le> mb_max_bytes ?b"
      "\<And>ps gs. fs = map Malformed ps @ gs \<Longrightarrow> int (length ps) \<le> mb_max_consecutive ?b"
      "\<And>us ps gs. fs = us @ Good # map Malformed ps @ gs \<Longrightarrow> int (length ps) \<le> mb_max_consecutive ?b"
    by auto
  have "int (length ps) \<le> mb_max_consecutive ?b"
    if "fs = us @ map Malformed ps @ gs" "us = [] \<or> last us = Good" for us ps gs
  proof (cases "us = []")
    case True
    with that r(2) show ?thesis by simp
  next
    case False
    with that have "fs = butlast us @ Good # map Malformed ps @ gs" by (metis append_butlast_last_id append_Cons append_Nil append_assoc)
    then show ?thesis by (rule r(3))
  qed
  with r(1) show ?thesis by blast
qed

theorem malformed_budget_bounds_witness:
  "malformed_bytes [Malformed (u ''x''), Good] \<le> mb_max_bytes (new_budget None None)"
proof -
  have "\<not> snd (budget_run (new_budget None None) [Malformed (u ''x''), Good])" by code_simp
  from malformed_budget_bounds [OF this] show ?thesis by blast
qed

end
