(* ===== verification/Cron.thy ===== *)
theory Cron
  imports Prelude
begin

text \<open>
  Cron expressions: the parser, the matcher and the search for the next run of
  \<open>backend/tasks/scheduler.py\<close>.

  A set of field values is the list of its members without repetition. Time is an integer number
  of seconds since the epoch, of which the search reads whole minutes. The wall clock of a time
  zone (the standard library's zone database) is an argument: \<open>local m\<close> is the civil time of
  minute \<open>m\<close> in the schedule's zone, and an unknown zone is \<open>None\<close> in \<open>zones\<close>. \<open>\d\<close> and \<open>int\<close> are
  read on ASCII digits.
\<close>

section \<open>Fields\<close>

datatype cron_error =
  StepNotPositive | RangeOutOfBounds | UnsupportedField | ValueOutOfBounds | EmptyField

definition all_digits :: "ustr \<Rightarrow> bool" where
  "all_digits s \<longleftrightarrow> s \<noteq> [] \<and> (\<forall>c \<in> set s. digit_code c)"

definition digits_nat :: "ustr \<Rightarrow> int" where
  "digits_nat s = foldl (\<lambda>acc c. acc * 10 + (c - 48)) 0 s"

text \<open>The three shapes of a part: a wildcard, a range, a value; a step is optional in the first two.\<close>

datatype cron_part = Wildcard int | Range int int int | Single int

definition optional_step :: "ustr \<Rightarrow> int option" where
  "optional_step s =
     (if s = [] then Some 1
      else if hd s = 47 \<and> all_digits (tl s) then Some (digits_nat (tl s)) else None)"

definition cron_part_of :: "ustr \<Rightarrow> cron_part option" where
  "cron_part_of part =
     (if part = [] then None
      else if hd part = 42 then map_option Wildcard (optional_step (tl part))
      else
       (let lo = takeWhile digit_code part; r = dropWhile digit_code part in
        if lo = [] then None
        else if r = [] then Some (Single (digits_nat lo))
        else if hd r = 45 then
         (let hi = takeWhile digit_code (tl r); r' = dropWhile digit_code (tl r) in
          if hi = [] then None
          else map_option (Range (digits_nat lo) (digits_nat hi)) (optional_step r'))
        else None))"

definition steps :: "int \<Rightarrow> int \<Rightarrow> int \<Rightarrow> int list" where
  "steps lo hi step = map (\<lambda>k. lo + int k * step) [0..<nat ((hi - lo) div step + 1)]"

definition part_values :: "int \<Rightarrow> int \<Rightarrow> bool \<Rightarrow> cron_part option \<Rightarrow> cron_error + int list" where
  "part_values min_val max_val dow p =
     (case p of
        None \<Rightarrow> Inl UnsupportedField
      | Some (Wildcard step) \<Rightarrow>
          if step < 1 then Inl StepNotPositive else Inr (steps min_val max_val step)
      | Some (Range lo hi step) \<Rightarrow>
          (if lo < min_val \<or> (if dow then 7 else max_val) < hi \<or> hi < lo \<or> step < 1 then Inl RangeOutOfBounds
           else Inr (map (\<lambda>v. if dow \<and> v = 7 then 0 else v) (steps lo hi step)))
      | Some (Single value) \<Rightarrow>
          (let v = (if dow \<and> value = 7 then 0 else value) in
           if v < min_val \<or> max_val < v then Inl ValueOutOfBounds else Inr [v]))"

fun parse_parts :: "int \<Rightarrow> int \<Rightarrow> bool \<Rightarrow> ustr list \<Rightarrow> cron_error + int list" where
  "parse_parts min_val max_val dow [] = Inr []"
| "parse_parts min_val max_val dow (p # ps) =
     (case part_values min_val max_val dow (cron_part_of p) of
        Inl e \<Rightarrow> Inl e
      | Inr vs \<Rightarrow> map_sum id (\<lambda>ws. vs @ ws) (parse_parts min_val max_val dow ps))"

definition parse_cron_field :: "ustr \<Rightarrow> int \<Rightarrow> int \<Rightarrow> bool \<Rightarrow> cron_error + int list" where
  "parse_cron_field field min_val max_val dow =
     (case parse_parts min_val max_val dow (split_on 44 field) of
        Inl e \<Rightarrow> Inl e
      | Inr vs \<Rightarrow> if vs = [] then Inl EmptyField else Inr (remdups vs))"

record cron_fields =
  minutes :: "int list"
  hours :: "int list"
  doms :: "int list"
  months :: "int list"
  dows :: "int list"

text \<open>\<open>str.split()\<close>: the words between runs of blanks.\<close>

function words :: "ustr \<Rightarrow> ustr list" where
  "words s =
     (let t = dropWhile uspace s in
      if t = [] then [] else takeWhile (\<lambda>c. \<not> uspace c) t # words (dropWhile (\<lambda>c. \<not> uspace c) t))"
  by pat_completeness auto
termination
proof (relation "measure length", goal_cases)
  case (2 s t)
  then have "t \<noteq> []" by simp
  then obtain c r where t: "t = c # r" using list.exhaust by blast
  then have "\<not> uspace c" using 2 hd_dropWhile [of uspace s] by simp
  have "length t \<le> length s" using 2 length_dropWhile_le by simp
  moreover have "length (dropWhile (\<lambda>c. \<not> uspace c) t) \<le> length r"
    using t \<open>\<not> uspace c\<close> by (simp add: length_dropWhile_le)
  ultimately show ?case using t by simp
qed simp

declare words.simps [simp del]

definition parse_cron_expression :: "ustr \<Rightarrow> cron_fields option" where
  "parse_cron_expression e =
     (case words (ustrip e) of
        [a, b, c, d, f] \<Rightarrow>
          (case (parse_cron_field a 0 59 False, parse_cron_field b 0 23 False, parse_cron_field c 1 31 False,
                 parse_cron_field d 1 12 False, parse_cron_field f 0 6 True) of
             (Inr ms, Inr hs, Inr ds, Inr mos, Inr ws) \<Rightarrow>
               Some \<lparr>minutes = ms, hours = hs, doms = ds, months = mos, dows = ws\<rparr>
           | _ \<Rightarrow> None)
      | _ \<Rightarrow> None)"

section \<open>Matching\<close>

record civil =
  cv_minute :: int
  cv_hour :: int
  cv_day :: int
  cv_month :: int
  cv_weekday :: int  \<comment> \<open>Monday is 0\<close>

definition cron_parts_match :: "cron_fields \<Rightarrow> civil \<Rightarrow> bool" where
  "cron_parts_match p t =
     (let cron_dow = (cv_weekday t + 1) mod 7;
          dom_wild = length (doms p) = 31;
          dow_wild = length (dows p) = 7;
          dom_match = cv_day t \<in> set (doms p);
          dow_match = cron_dow \<in> set (dows p);
          day_match = (if dom_wild \<and> dow_wild then True
                       else if dom_wild then dow_match
                       else if dow_wild then dom_match
                       else dom_match \<or> dow_match) in
      cv_minute t \<in> set (minutes p) \<and> cv_hour t \<in> set (hours p) \<and> cv_month t \<in> set (months p) \<and> day_match)"

record clock_env =
  local_zone :: "int \<Rightarrow> civil"
  zones :: "ustr \<Rightarrow> (int \<Rightarrow> civil) option"

datatype zone_error = UnknownZone ustr

definition schedule_timezone :: "clock_env \<Rightarrow> ustr \<Rightarrow> zone_error + (int \<Rightarrow> civil)" where
  "schedule_timezone env name =
     (let v = ustrip name in
      if v = [] then Inr (local_zone env)
      else (case zones env v of None \<Rightarrow> Inl (UnknownZone v) | Some z \<Rightarrow> Inr z))"

definition is_valid_timezone :: "clock_env \<Rightarrow> ustr \<Rightarrow> bool" where
  "is_valid_timezone env name = (let v = ustrip name in v \<noteq> [] \<and> zones env v \<noteq> None)"

definition cron_matches :: "clock_env \<Rightarrow> ustr \<Rightarrow> int \<Rightarrow> ustr \<Rightarrow> zone_error + bool" where
  "cron_matches env expression seconds timezone =
     (case parse_cron_expression expression of
        None \<Rightarrow> Inr False
      | Some p \<Rightarrow> map_sum id (\<lambda>z. cron_parts_match p (z (seconds div 60))) (schedule_timezone env timezone))"

text \<open>The search loop, minute by minute up to the deadline.\<close>

function next_match :: "(int \<Rightarrow> bool) \<Rightarrow> int \<Rightarrow> int \<Rightarrow> int option" where
  "next_match matches current deadline =
     (if deadline < current then None
      else if matches current then Some current
      else next_match matches (current + 1) deadline)"
  by pat_completeness auto
termination
  by (relation "measure (\<lambda>(m, current, deadline). nat (deadline + 1 - current))") auto

declare next_match.simps [simp del]

text \<open>The result is a minute; the code returns it as a datetime in UTC.\<close>

definition next_run_after :: "clock_env \<Rightarrow> ustr \<Rightarrow> int \<Rightarrow> ustr \<Rightarrow> int \<Rightarrow> zone_error + int option" where
  "next_run_after env expression seconds timezone max_days =
     (if max_days \<le> 0 then Inr None
      else (case parse_cron_expression expression of
              None \<Rightarrow> Inr None
            | Some p \<Rightarrow>
                (let current = seconds div 60 + 1; deadline = current + max_days * 1440 in
                 map_sum id (\<lambda>z. next_match (\<lambda>m. cron_parts_match p (z m)) current deadline)
                   (schedule_timezone env timezone))))"

section \<open>Parsing\<close>

lemma mem_steps:
  assumes "1 \<le> step" "lo \<le> hi"
  shows "v \<in> set (steps lo hi step) \<longleftrightarrow> lo \<le> v \<and> v \<le> hi \<and> (v - lo) mod step = 0"
proof
  assume "v \<in> set (steps lo hi step)"
  then obtain k where k: "v = lo + int k * step" "int k < (hi - lo) div step + 1"
    using assms by (auto simp: steps_def)
  then have "int k * step \<le> (hi - lo) div step * step" using assms by (intro mult_right_mono) auto
  also have "\<dots> \<le> hi - lo" using assms by (simp add: minus_mod_eq_div_mult [symmetric])
  finally show "lo \<le> v \<and> v \<le> hi \<and> (v - lo) mod step = 0" using k assms by simp
next
  assume v: "lo \<le> v \<and> v \<le> hi \<and> (v - lo) mod step = 0"
  let ?k = "nat ((v - lo) div step)"
  have "v = lo + int ?k * step"
    using v assms minus_mod_eq_div_mult [of "v - lo" step] by (simp add: pos_imp_zdiv_nonneg_iff)
  moreover have "(v - lo) div step \<le> (hi - lo) div step" using v assms by (intro zdiv_mono1) auto
  then have "?k < nat ((hi - lo) div step + 1)"
    using v assms by (simp add: pos_imp_zdiv_nonneg_iff nat_less_eq_zless)
  ultimately show "v \<in> set (steps lo hi step)"
    unfolding steps_def set_map set_upt by (intro image_eqI [of _ _ ?k]) auto
qed

lemma part_values_bounds:
  "part_values lo hi dow p = Inr vs \<Longrightarrow> lo \<le> hi \<Longrightarrow> (dow \<Longrightarrow> lo = 0 \<and> hi = 6)
   \<Longrightarrow> vs \<noteq> [] \<and> (\<forall>v \<in> set vs. lo \<le> v \<and> v \<le> hi)"
proof -
  assume pv: "part_values lo hi dow p = Inr vs" and le: "lo \<le> hi" and dow: "dow \<Longrightarrow> lo = 0 \<and> hi = 6"
  have ne: "steps a b s \<noteq> []" if "1 \<le> s" "a \<le> b" for a b s
    using mem_steps [OF that, of a] that by auto
  show ?thesis
    using pv le dow ne
    by (auto simp: part_values_def Let_def mem_steps split: option.splits cron_part.splits if_splits)
qed

lemma parse_parts_bounds:
  "parse_parts lo hi dow ps = Inr vs \<Longrightarrow> lo \<le> hi \<Longrightarrow> (dow \<Longrightarrow> lo = 0 \<and> hi = 6)
   \<Longrightarrow> \<forall>v \<in> set vs. lo \<le> v \<and> v \<le> hi"
proof (induction ps arbitrary: vs)
  case (Cons p ps)
  then obtain as bs where *: "part_values lo hi dow (cron_part_of p) = Inr as"
    "parse_parts lo hi dow ps = Inr bs" "vs = as @ bs"
    by (auto simp: map_sum_Inr split: sum.splits)
  from Cons.IH [OF *(2)] part_values_bounds [OF *(1)] Cons.prems(2,3) *(3) show ?case by auto
qed simp

text \<open>
  A field that parses gives a nonempty set of distinct values inside the field's
  bounds, with Sunday always 0 in the day-of-week field, and a wildcard gives all of them.
\<close>

theorem cron_field_bounds:
  assumes "parse_cron_field f lo hi dow = Inr vs" "lo \<le> hi" "dow \<longrightarrow> lo = 0 \<and> hi = 6"
  shows "vs \<noteq> [] \<and> distinct vs \<and> (\<forall>v \<in> set vs. lo \<le> v \<and> v \<le> hi)
    \<and> (f = [42] \<longrightarrow> set vs = {lo..hi})"
proof -
  obtain ws where ws: "parse_parts lo hi dow (split_on 44 f) = Inr ws" "ws \<noteq> []" "vs = remdups ws"
    using assms(1) by (auto simp: parse_cron_field_def split: sum.splits if_splits)
  have bound: "\<forall>v \<in> set ws. lo \<le> v \<and> v \<le> hi"
    by (rule parse_parts_bounds [OF ws(1) assms(2)]) (use assms(3) in auto)
  have wild: "set ws = {lo..hi}" if f: "f = [42]"
  proof -
    have "part_values lo hi dow (cron_part_of [42]) = Inr (steps lo hi 1)"
      by (simp add: cron_part_of_def optional_step_def part_values_def)
    then have all: "parse_parts lo hi dow [[42]] = Inr (steps lo hi 1)" by simp
    have "split_on 44 f = [[42]]" using f by simp
    then have "ws = steps lo hi 1" using ws(1) all by (simp del: parse_parts.simps)
    then have "v \<in> set ws \<longleftrightarrow> v \<in> {lo..hi}" for v using mem_steps [of 1 lo hi v] assms(2) by simp
    then show ?thesis by blast
  qed
  show ?thesis
  proof (intro conjI impI)
    show "vs \<noteq> []" using ws by simp
    show "distinct vs" using ws by simp
    show "\<forall>v \<in> set vs. lo \<le> v \<and> v \<le> hi" using ws(3) bound by simp
    show "set vs = {lo..hi}" if "f = [42]" using ws(3) wild [OF that] by simp
  qed
qed

theorem cron_field_bounds_witness:
  "parse_cron_field (u ''5-7'') 0 6 True = Inr [5, 6, 0]
   \<and> (\<forall>v \<in> set [5, 6, 0 :: int]. 0 \<le> v \<and> v \<le> 6)"
proof -
  have p: "parse_cron_field (u ''5-7'') 0 6 True = Inr [5, 6, 0]" by code_simp
  from cron_field_bounds [OF p] p show ?thesis by simp
qed

section \<open>The next run\<close>

lemma next_match_Some:
  "next_match m a b = Some t \<longleftrightarrow> a \<le> t \<and> t \<le> b \<and> m t \<and> (\<forall>s. a \<le> s \<and> s < t \<longrightarrow> \<not> m s)"
proof (induction m a b rule: next_match.induct)
  case (1 m a b)
  show ?case
  proof (cases "b < a \<or> m a")
    case True
    then show ?thesis by (subst next_match.simps) (auto simp: not_less dest: order.order_iff_strict [THEN iffD1])
  next
    case False
    then have "next_match m a b = next_match m (a + 1) b" by (subst next_match.simps) simp
    moreover have "a \<le> s \<longleftrightarrow> s = a \<or> a + 1 \<le> s" for s by auto
    ultimately show ?thesis using 1 False by auto
  qed
qed

lemma next_match_None: "next_match m a b = None \<longleftrightarrow> (\<forall>s. a \<le> s \<and> s \<le> b \<longrightarrow> \<not> m s)"
proof (induction m a b rule: next_match.induct)
  case (1 m a b)
  show ?case
  proof (cases "b < a \<or> m a")
    case True
    then show ?thesis by (subst next_match.simps) auto
  next
    case False
    then have "next_match m a b = next_match m (a + 1) b" by (subst next_match.simps) simp
    moreover have "a \<le> s \<longleftrightarrow> s = a \<or> a + 1 \<le> s" for s by auto
    ultimately show ?thesis using 1 False by auto
  qed
qed

text \<open>
  Claim C34. For an expression that parses and a zone that resolves, the answer is a minute exactly when that minute
  lies strictly after the given instant and not behind the horizon (\<open>max_days\<close> days behind the first
  whole minute after the instant), its civil time in the schedule's zone matches the expression, and
  no earlier minute after the instant matches; and there is no run exactly when no minute up to the
  horizon matches.
\<close>

theorem next_run_is_first_match:
  assumes "parse_cron_expression e = Some p" "schedule_timezone env tz = Inr z" "0 < max_days"
    "next_run_after env e seconds tz max_days = Inr r"
  shows "(\<forall>m. r = Some m \<longleftrightarrow> seconds < m * 60 \<and> m \<le> seconds div 60 + 1 + max_days * 1440
            \<and> cron_parts_match p (z m)
            \<and> (\<forall>s. seconds < s * 60 \<and> s < m \<longrightarrow> \<not> cron_parts_match p (z s)))
       \<and> (r = None \<longleftrightarrow> (\<forall>s. seconds < s * 60 \<and> s \<le> seconds div 60 + 1 + max_days * 1440
            \<longrightarrow> \<not> cron_parts_match p (z s)))"
proof -
  have r: "r = next_match (\<lambda>m. cron_parts_match p (z m)) (seconds div 60 + 1) (seconds div 60 + 1 + max_days * 1440)"
    using assms by (simp add: next_run_after_def Let_def)
  have later: "seconds < s * 60 \<longleftrightarrow> seconds div 60 + 1 \<le> s" for s by linarith
  show ?thesis unfolding r later next_match_Some next_match_None by simp
qed

definition utc_ex :: "int \<Rightarrow> civil" where
  "utc_ex m = \<lparr>cv_minute = m mod 60, cv_hour = (m div 60) mod 24, cv_day = 1, cv_month = 1, cv_weekday = 0\<rparr>"

definition env_ex :: clock_env where
  "env_ex = \<lparr>local_zone = utc_ex, zones = (\<lambda>n. None)\<rparr>"

theorem next_run_is_first_match_witness:
  "next_run_after env_ex (u ''*/15 * * * *'') 100 [] 366 = Inr (Some 15)
   \<and> 100 < (15::int) * 60 \<and> (15::int) \<le> 100 div 60 + 1 + 366 * 1440"
proof -
  let ?p = "\<lparr>minutes = [0, 15, 30, 45], hours = map int [0..<24], doms = map int [1..<32],
      months = map int [1..<13], dows = map int [0..<7]\<rparr>"
  have p: "parse_cron_expression (u ''*/15 * * * *'') = Some ?p" by code_simp
  have z: "schedule_timezone env_ex [] = Inr utc_ex" by (simp add: schedule_timezone_def env_ex_def ustrip_def)
  have n: "next_run_after env_ex (u ''*/15 * * * *'') 100 [] 366 = Inr (Some 15)" by code_simp
  from next_run_is_first_match [OF p z _ n] n show ?thesis by simp
qed

text \<open>
  A schedule that leaves the day open fires: with wildcard day, month and
  weekday fields, in a zone whose clock runs through the hours of the day, the next run exists and
  is at most one day away.
\<close>

theorem daily_schedule_fires:
  assumes p: "parse_cron_expression e = Some p" and z: "schedule_timezone env tz = Inr z"
    and wild: "length (doms p) = 31" "length (dows p) = 7" "set (months p) = {1..12}"
    and clock: "\<And>m. cv_minute (z m) = (m + offset) mod 60" "\<And>m. cv_hour (z m) = ((m + offset) div 60) mod 24"
      "\<And>m. 1 \<le> cv_month (z m) \<and> cv_month (z m) \<le> 12"
    and some: "mi \<in> set (minutes p)" "0 \<le> mi" "mi < 60" "h \<in> set (hours p)" "0 \<le> h" "h < 24"
    and days: "0 < max_days"
  shows "\<exists>m. next_run_after env e seconds tz max_days = Inr (Some m)
    \<and> seconds div 60 < m \<and> m \<le> seconds div 60 + 1440"
proof -
  let ?c = "seconds div 60 + 1" and ?g = "\<lambda>m. cron_parts_match p (z m)"
  define t where "t = ?c + (h * 60 + mi - (?c + offset)) mod 1440"
  have range: "?c \<le> t" "t \<le> ?c + 1439" unfolding t_def by simp_all
  have "(t + offset) mod 1440 = (h * 60 + mi) mod 1440"
  proof -
    have "t + offset = (?c + offset) + (h * 60 + mi - (?c + offset)) mod 1440" unfolding t_def by simp
    then have "(t + offset) mod 1440 = ((?c + offset) + (h * 60 + mi - (?c + offset))) mod 1440"
      by (simp only: mod_add_right_eq)
    then show ?thesis by simp
  qed
  then have tod: "(t + offset) mod 1440 = h * 60 + mi" using some by simp
  have "(t + offset) mod 60 = ((t + offset) mod 1440) mod 60" by (simp add: mod_mod_cancel)
  then have minute: "(t + offset) mod 60 = mi" using tod some by simp
  have hour: "((t + offset) div 60) mod 24 = h"
  proof -
    have "t + offset = 1440 * ((t + offset) div 1440) + (h * 60 + mi)"
      using tod by (metis mult_div_mod_eq)
    then have "(t + offset) div 60 = 24 * ((t + offset) div 1440) + h" using some by linarith
    then show ?thesis using some by simp
  qed
  have match: "?g t"
    using wild clock(3) [of t] some minute hour by (simp add: cron_parts_match_def Let_def clock(1,2))
  have dl: "t \<le> ?c + max_days * 1440" using range days by linarith
  have "next_match ?g ?c (?c + max_days * 1440) \<noteq> None"
    using next_match_None [of ?g ?c "?c + max_days * 1440"] match range dl by auto
  then obtain m where m: "next_match ?g ?c (?c + max_days * 1440) = Some m" by auto
  then have "?c \<le> m" "m \<le> t"
    using next_match_Some [of ?g ?c "?c + max_days * 1440" m] match range by (auto simp: not_le [symmetric])
  with m p z days range show ?thesis by (simp add: next_run_after_def Let_def)
qed

lemma months_all: "set (map int [1..<13]) = {1..12}"
  unfolding set_map set_upt image_int_atLeastLessThan by auto

theorem daily_schedule_fires_witness:
  "\<exists>m. next_run_after env_ex (u ''30 9 * * *'') 100 [] 366 = Inr (Some m) \<and> (100::int) div 60 < m \<and> m \<le> 100 div 60 + 1440"
proof -
  let ?p = "\<lparr>minutes = [30], hours = [9], doms = map int [1..<32], months = map int [1..<13], dows = map int [0..<7]\<rparr>"
  have p: "parse_cron_expression (u ''30 9 * * *'') = Some ?p" by code_simp
  have z: "schedule_timezone env_ex [] = Inr utc_ex" by (simp add: schedule_timezone_def env_ex_def ustrip_def)
  show ?thesis
    by (rule daily_schedule_fires [OF p z, where offset = 0 and mi = 30 and h = 9])
      (simp_all only: cron_fields.simps utc_ex_def civil.simps months_all length_map, simp_all)
qed

text \<open>
  A schedule for 29 February has no run within the horizon of 366 days unless a leap day lies in it;
  the search answers \<open>None\<close>, as it does for an expression that does not parse.
\<close>

lemma bad_expression_has_no_run: "next_run_after env_ex (u ''61 * * * *'') 100 [] 366 = Inr None"
  by code_simp

end
