(* ===== verification/FileCache.thy ===== *)
theory FileCache
  imports Prelude
begin

text \<open>
  The file state cache: \<open>backend/workspace/file_state_cache.py\<close>.

  The ordered dictionary is an association list, least recently used entry first. Resolving a path
  and its canonical key belong to the operating system: the operations take the resolved path and its
  key, and \<open>get\<close> takes what \<open>path.stat()\<close> answers (\<open>None\<close> for an \<open>OSError\<close>). Every method holds the
  lock for its whole effect on the state.
\<close>

section \<open>State\<close>

text \<open>The fields of \<open>os.stat_result\<close> that the cache compares.\<close>

record file_stamp =
  st_mtime_ns :: int
  st_size :: int
  st_ino :: int

record file_entry =
  path :: ustr
  content :: ustr
  size_bytes :: int
  stat_result :: file_stamp
  language_hint :: ustr

record file_cache =
  max_entries :: int
  max_size_bytes :: int
  cached :: "(ustr \<times> file_entry) list"
  total_size :: int

definition DEFAULT_MAX_ENTRIES :: int where "DEFAULT_MAX_ENTRIES = 100"
definition DEFAULT_MAX_SIZE_BYTES :: int where "DEFAULT_MAX_SIZE_BYTES = 25 * 1024 * 1024"

definition new_cache :: "int \<Rightarrow> int \<Rightarrow> file_cache" where
  "new_cache entries bytes = \<lparr>max_entries = entries, max_size_bytes = bytes, cached = [], total_size = 0\<rparr>"

section \<open>Operations\<close>

definition remove_entry :: "ustr \<Rightarrow> file_cache \<Rightarrow> file_cache" where
  "remove_entry k c =
     (case map_of (cached c) k of
        None \<Rightarrow> c
      | Some e \<Rightarrow> c\<lparr>cached := AList.delete k (cached c), total_size := total_size c - size_bytes e\<rparr>)"

definition evict_lru :: "file_cache \<Rightarrow> file_cache" where
  "evict_lru c =
     (case cached c of
        [] \<Rightarrow> c
      | (k, e) # rest \<Rightarrow> c\<lparr>cached := rest, total_size := total_size c - size_bytes e\<rparr>)"

definition get :: "ustr \<Rightarrow> file_stamp option \<Rightarrow> file_cache \<Rightarrow> file_entry option \<times> file_cache" where
  "get k stat c =
     (case map_of (cached c) k of
        None \<Rightarrow> (None, c)
      | Some e \<Rightarrow>
         (case stat of
            None \<Rightarrow> (None, remove_entry k c)
          | Some s \<Rightarrow>
              if (st_mtime_ns s, st_size s, st_ino s)
                   \<noteq> (st_mtime_ns (stat_result e), st_size (stat_result e), st_ino (stat_result e))
              then (None, remove_entry k c)
              else (Some e, c\<lparr>cached := AList.delete k (cached c) @ [(k, e)]\<rparr>)))"

text \<open>Text holding a surrogate has no UTF-8 encoding: \<open>content.encode\<close> raises before the cache is touched.\<close>

definition encodable :: "ustr \<Rightarrow> bool" where
  "encodable s \<longleftrightarrow> (\<forall>c \<in> set s. \<not> (55296 \<le> c \<and> c \<le> 57343))"

definition overfull :: "int \<Rightarrow> file_cache \<Rightarrow> bool" where
  "overfull n c \<longleftrightarrow> max_entries c \<le> int (length (cached c)) \<or> max_size_bytes c < total_size c + n"

function make_room :: "int \<Rightarrow> file_cache \<Rightarrow> file_cache" where
  "make_room n c =
     (if overfull n c \<and> cached c \<noteq> [] then make_room n (evict_lru c) else c)"
  by pat_completeness auto
termination
  by (relation "measure (\<lambda>(_, c). length (cached c))") (auto simp: evict_lru_def split: list.splits)

declare make_room.simps [simp del]

definition new_entry :: "ustr \<Rightarrow> ustr \<Rightarrow> ustr \<Rightarrow> file_stamp \<Rightarrow> file_entry" where
  "new_entry p body hint stat = \<lparr>path = p, content = body, size_bytes = int (utf8_size body),
     stat_result = stat, language_hint = hint\<rparr>"

definition put :: "ustr \<Rightarrow> file_entry \<Rightarrow> file_cache \<Rightarrow> file_cache" where
  "put k e c =
     (let c1 = remove_entry k c in
      if max_size_bytes c1 div 4 < size_bytes e then c1
      else
       (let c2 = make_room (size_bytes e) c1 in
        c2\<lparr>cached := cached c2 @ [(k, e)], total_size := total_size c2 + size_bytes e\<rparr>))"

definition put_file :: "ustr \<Rightarrow> ustr \<Rightarrow> ustr \<Rightarrow> ustr \<Rightarrow> file_stamp \<Rightarrow> file_cache \<Rightarrow> file_cache option" where
  "put_file p k body hint stat c =
     (if encodable body then Some (put k (new_entry p body hint stat) c) else None)"

definition invalidate :: "ustr \<Rightarrow> file_cache \<Rightarrow> file_cache" where
  "invalidate k c = (if map_of (cached c) k \<noteq> None then remove_entry k c else c)"

definition clear :: "file_cache \<Rightarrow> file_cache" where
  "clear c = c\<lparr>cached := [], total_size := 0\<rparr>"

section \<open>Runs\<close>

datatype cache_op =
    Put ustr ustr ustr ustr file_stamp
  | Get ustr "file_stamp option"
  | Invalidate ustr
  | Clear

text \<open>A \<open>put\<close> that raises leaves the cache as it is.\<close>

fun cache_step :: "file_cache \<Rightarrow> cache_op \<Rightarrow> file_cache" where
  "cache_step c (Put p k body hint stat) = (case put_file p k body hint stat c of Some c' \<Rightarrow> c' | None \<Rightarrow> c)"
| "cache_step c (Get k stat) = snd (get k stat c)"
| "cache_step c (Invalidate k) = invalidate k c"
| "cache_step c Clear = clear c"

text \<open>The contract: the entry last put under a key and not withdrawn since.\<close>

fun last_put :: "ustr \<Rightarrow> file_entry option \<Rightarrow> cache_op \<Rightarrow> file_entry option" where
  "last_put k m (Put p k' body hint stat) =
     (if k' = k \<and> encodable body then Some (new_entry p body hint stat) else m)"
| "last_put k m (Get k' stat) = m"
| "last_put k m (Invalidate k') = (if k' = k then None else m)"
| "last_put k m Clear = None"

section \<open>Invariant\<close>

definition sizes :: "(ustr \<times> file_entry) list \<Rightarrow> int" where
  "sizes es = sum_list (map (size_bytes \<circ> snd) es)"

definition accounted :: "file_cache \<Rightarrow> bool" where
  "accounted c \<longleftrightarrow> dict_ok (cached c) \<and> total_size c = sizes (cached c)
     \<and> (\<forall>(k, e) \<in> set (cached c). 0 \<le> size_bytes e)"

definition cache_ok :: "file_cache \<Rightarrow> bool" where
  "cache_ok c \<longleftrightarrow> accounted c \<and> int (length (cached c)) \<le> max 1 (max_entries c)
     \<and> total_size c \<le> max 0 (max_size_bytes c)"

lemma sizes_simps [simp]: "sizes [] = 0" "sizes (p # es) = size_bytes (snd p) + sizes es" "sizes (es @ fs) = sizes es + sizes fs"
  by (simp_all add: sizes_def)

lemma sizes_delete: "dict_ok es \<Longrightarrow> map_of es k = Some e \<Longrightarrow> sizes (AList.delete k es) = sizes es - size_bytes e"
  by (induction es) (auto simp: delete_absent map_of_eq_None_iff)

lemma sizes_nonneg: "\<forall>(k, e) \<in> set es. 0 \<le> size_bytes e \<Longrightarrow> 0 \<le> sizes es"
  by (induction es) auto

lemma remove_entry_cached: "cached (remove_entry k c) = AList.delete k (cached c)"
  by (simp add: remove_entry_def delete_absent split: option.splits)

lemma limits_unchanged [simp]:
  "max_entries (remove_entry k c) = max_entries c" "max_size_bytes (remove_entry k c) = max_size_bytes c"
  by (simp_all add: remove_entry_def split: option.splits)

lemma in_delete: "p \<in> set (AList.delete k es) \<Longrightarrow> p \<in> set es"
  by (simp add: AList.delete_eq)

lemma deleted_key: "(k, e) \<notin> set (AList.delete k es)"
  by (simp add: AList.delete_eq)

lemma remove_entry_accounted: "accounted c \<Longrightarrow> accounted (remove_entry k c)"
  by (auto simp: accounted_def remove_entry_def sizes_delete dict_ok_delete delete_absent split: option.splits
      dest: in_delete)

lemma remove_entry_ok: "cache_ok c \<Longrightarrow> cache_ok (remove_entry k c)"
proof -
  assume c: "cache_ok c"
  then have "accounted (remove_entry k c)" by (simp add: cache_ok_def remove_entry_accounted)
  moreover have "total_size (remove_entry k c) \<le> total_size c"
    using c by (auto simp: cache_ok_def accounted_def remove_entry_def split: option.splits dest: map_of_SomeD)
  ultimately show ?thesis
    using c length_delete_le [of k "cached c"] by (auto simp: cache_ok_def remove_entry_cached)
qed

text \<open>A cache after its first \<open>n\<close> entries have gone.\<close>

definition dropped :: "nat \<Rightarrow> file_cache \<Rightarrow> file_cache" where
  "dropped n c = c\<lparr>cached := drop n (cached c), total_size := total_size c - sizes (take n (cached c))\<rparr>"

lemma dropped_simps [simp]:
  "cached (dropped n c) = drop n (cached c)" "max_entries (dropped n c) = max_entries c"
  "max_size_bytes (dropped n c) = max_size_bytes c"
  by (simp_all add: dropped_def)

lemma dropped_0 [simp]: "dropped 0 c = c"
  by (simp add: dropped_def)

lemma dropped_evict: "cached c \<noteq> [] \<Longrightarrow> dropped n (evict_lru c) = dropped (Suc n) c"
  by (auto simp: dropped_def evict_lru_def split: list.splits)

lemma make_room_dropped:
  "\<exists>m. make_room n c = dropped m c \<and> (\<forall>i < m. overfull n (dropped i c))
     \<and> (overfull n (dropped m c) \<longrightarrow> cached (dropped m c) = [])"
proof (induction n c rule: make_room.induct)
  case (1 n c)
  show ?case
  proof (cases "overfull n c \<and> cached c \<noteq> []")
    case True
    then obtain m where m: "make_room n (evict_lru c) = dropped m (evict_lru c)"
      "\<forall>i < m. overfull n (dropped i (evict_lru c))"
      "overfull n (dropped m (evict_lru c)) \<longrightarrow> cached (dropped m (evict_lru c)) = []"
      using 1 by blast
    have "\<forall>i < Suc m. overfull n (dropped i c)"
      using m(2) True by (auto simp: dropped_evict less_Suc_eq_0_disj)
    with m(1,3) True show ?thesis
      by (intro exI [of _ "Suc m"]) (simp add: make_room.simps [of n c] dropped_evict)
  next
    case False
    then show ?thesis by (intro exI [of _ 0]) (auto simp: make_room.simps [of n c])
  qed
qed

lemma dropped_accounted:
  assumes "accounted c"
  shows "accounted (dropped m c)" "total_size (dropped m c) = sizes (drop m (cached c))"
proof -
  have "sizes (cached c) = sizes (take m (cached c)) + sizes (drop m (cached c))"
    by (metis append_take_drop_id sizes_simps(3))
  moreover from this show "total_size (dropped m c) = sizes (drop m (cached c))"
    using assms by (simp add: accounted_def dropped_def)
  ultimately show "accounted (dropped m c)"
    using assms by (auto simp: accounted_def drop_map [symmetric] dest: in_set_dropD)
qed

lemma overfull_dropped:
  "accounted c \<Longrightarrow> overfull n (dropped m c) \<longleftrightarrow>
     max_entries c \<le> int (length (drop m (cached c))) \<or> max_size_bytes c < sizes (drop m (cached c)) + n"
  by (simp add: overfull_def dropped_accounted)

section \<open>Correctness\<close>

text \<open>
  What a put of an entry that fits does: the entries used least recently go, no more of them than the
  two limits ask for, and the new entry becomes the most recent one.
\<close>

lemma put_fits:
  assumes "accounted c" "size_bytes e \<le> max_size_bytes c div 4"
  obtains m where
    "cached (put k e c) = drop m (AList.delete k (cached c)) @ [(k, e)]"
    "total_size (put k e c) = sizes (drop m (AList.delete k (cached c))) + size_bytes e"
    "\<forall>i < m. max_entries c \<le> int (length (drop i (AList.delete k (cached c))))
       \<or> max_size_bytes c < sizes (drop i (AList.delete k (cached c))) + size_bytes e"
    "drop m (AList.delete k (cached c)) = [] \<or>
     (int (length (drop m (AList.delete k (cached c)))) < max_entries c
      \<and> sizes (drop m (AList.delete k (cached c))) + size_bytes e \<le> max_size_bytes c)"
    "max_entries (put k e c) = max_entries c" "max_size_bytes (put k e c) = max_size_bytes c"
proof -
  let ?c = "remove_entry k c"
  have a: "accounted ?c" by (rule remove_entry_accounted) (rule assms(1))
  obtain m where m: "make_room (size_bytes e) ?c = dropped m ?c"
    "\<forall>i < m. overfull (size_bytes e) (dropped i ?c)"
    "overfull (size_bytes e) (dropped m ?c) \<longrightarrow> cached (dropped m ?c) = []"
    using make_room_dropped by blast
  have p: "put k e c = (dropped m ?c)\<lparr>cached := cached (dropped m ?c) @ [(k, e)],
      total_size := total_size (dropped m ?c) + size_bytes e\<rparr>"
    using assms(2) by (simp add: put_def Let_def m(1))
  show ?thesis
  proof (rule that)
    show "cached (put k e c) = drop m (AList.delete k (cached c)) @ [(k, e)]"
      by (simp add: p remove_entry_cached)
    show "total_size (put k e c) = sizes (drop m (AList.delete k (cached c))) + size_bytes e"
      using dropped_accounted(2) [OF a] by (simp add: p remove_entry_cached)
    show "\<forall>i < m. max_entries c \<le> int (length (drop i (AList.delete k (cached c))))
       \<or> max_size_bytes c < sizes (drop i (AList.delete k (cached c))) + size_bytes e"
      using m(2) by (simp add: overfull_dropped [OF a] remove_entry_cached)
    show "drop m (AList.delete k (cached c)) = [] \<or>
      (int (length (drop m (AList.delete k (cached c)))) < max_entries c
       \<and> sizes (drop m (AList.delete k (cached c))) + size_bytes e \<le> max_size_bytes c)"
      using m(3) unfolding overfull_dropped [OF a] dropped_simps limits_unchanged remove_entry_cached
      by (auto simp only: not_le de_Morgan_disj)
  qed (simp_all add: p)
qed

lemma put_too_large: "max_size_bytes c div 4 < size_bytes e \<Longrightarrow> put k e c = remove_entry k c"
  by (simp add: put_def Let_def)

lemma put_accounted:
  assumes "accounted c" "0 \<le> size_bytes e"
  shows "accounted (put k e c)"
proof (cases "max_size_bytes c div 4 < size_bytes e")
  case True
  then show ?thesis by (simp add: put_too_large remove_entry_accounted assms)
next
  case False
  let ?d = "AList.delete k (cached c)"
  from False obtain m where m: "cached (put k e c) = drop m ?d @ [(k, e)]"
    "total_size (put k e c) = sizes (drop m ?d) + size_bytes e"
    using put_fits [OF assms(1), of e k] by (metis not_le)
  have d: "dict_ok ?d" "k \<notin> fst ` set ?d" "\<forall>(k, e) \<in> set ?d. 0 \<le> size_bytes e"
    using assms(1) by (auto simp: accounted_def dict_ok_delete deleted_key dest: in_delete)
  then have "dict_ok (drop m ?d @ [(k, e)])"
    by (auto simp: drop_map [symmetric] dest: in_set_dropD)
  moreover have "\<forall>(k, e) \<in> set (drop m ?d). 0 \<le> size_bytes e"
    using d(3) by (auto dest: in_set_dropD)
  ultimately show ?thesis
    using assms(2) unfolding accounted_def m by simp
qed

lemma put_ok:
  assumes "cache_ok c" "0 \<le> size_bytes e"
  shows "cache_ok (put k e c)"
proof (cases "max_size_bytes c div 4 < size_bytes e")
  case True
  then show ?thesis by (simp add: put_too_large remove_entry_ok assms)
next
  case False
  let ?d = "AList.delete k (cached c)"
  from assms(1) have a: "accounted c" by (simp add: cache_ok_def)
  from False obtain m where m: "cached (put k e c) = drop m ?d @ [(k, e)]"
    "total_size (put k e c) = sizes (drop m ?d) + size_bytes e"
    "drop m ?d = [] \<or> (int (length (drop m ?d)) < max_entries c \<and> sizes (drop m ?d) + size_bytes e \<le> max_size_bytes c)"
    "max_entries (put k e c) = max_entries c" "max_size_bytes (put k e c) = max_size_bytes c"
    using put_fits [OF a, of e k] by (metis not_le)
  have "accounted (put k e c)" by (rule put_accounted [OF a assms(2)])
  moreover from m(3) have "int (length (drop m ?d @ [(k, e)])) \<le> max 1 (max_entries c)"
    by (elim disjE) (simp_all del: drop_eq_Nil length_drop)
  moreover from m(3) have "sizes (drop m ?d) + size_bytes e \<le> max 0 (max_size_bytes c)"
  proof
    assume "drop m ?d = []"
    then show ?thesis using False assms(2) by (simp del: drop_eq_Nil)
  qed linarith
  ultimately show ?thesis unfolding cache_ok_def m by simp
qed

lemma get_ok: "cache_ok c \<Longrightarrow> cache_ok (snd (get k stat c))"
proof -
  assume c: "cache_ok c"
  have "cache_ok (c\<lparr>cached := AList.delete k (cached c) @ [(k, e)]\<rparr>)" if e: "map_of (cached c) k = Some e" for e
  proof -
    have "length (AList.delete k (cached c)) < length (cached c)"
      unfolding AList.delete_eq using map_of_SomeD [OF e] by (rule length_filter_less) simp
    then show ?thesis
      using c e
      by (auto simp: cache_ok_def accounted_def dict_ok_delete sizes_delete deleted_key dest: in_delete map_of_SomeD)
  qed
  with c show ?thesis by (auto simp: get_def remove_entry_ok split: option.splits)
qed

lemma cache_step_ok: "cache_ok c \<Longrightarrow> cache_ok (cache_step c op)"
  by (cases op)
    (auto simp: put_file_def new_entry_def put_ok get_ok remove_entry_ok invalidate_def clear_def
      cache_ok_def [of "clear c" for c] cache_ok_def [of "c\<lparr>cached := [], total_size := 0\<rparr>" for c] accounted_def)

interpretation cache_run: invariant_machine cache_step cache_ok
  by unfold_locales (rule cache_step_ok)

lemma new_cache_ok: "cache_ok (new_cache n b)"
  by (simp add: cache_ok_def accounted_def new_cache_def)

lemma put_limits: "max_entries (put k e c) = max_entries c" "max_size_bytes (put k e c) = max_size_bytes c"
  using make_room_dropped [of "size_bytes e" "remove_entry k c"] by (auto simp: put_def Let_def)

lemma limits_kept: "max_entries (cache_step c op) = max_entries c \<and> max_size_bytes (cache_step c op) = max_size_bytes c"
  by (cases op) (auto simp: put_file_def put_limits get_def invalidate_def clear_def split: option.splits)

lemma run_limits:
  "max_entries (foldl cache_step c ops) = max_entries c \<and> max_size_bytes (foldl cache_step c ops) = max_size_bytes c"
  by (induction ops arbitrary: c) (simp_all add: limits_kept)

text \<open>
  Whatever files are put, read, invalidated and cleared, in any order, the cache holds one
  entry per key, its size counter is the sum of the sizes of its entries, and neither limit is ever
  passed (a limit of no entries still lets one in).
\<close>

theorem cache_within_limits:
  "let c = foldl cache_step (new_cache n b) ops in
     dict_ok (cached c) \<and> total_size c = sizes (cached c)
     \<and> int (length (cached c)) \<le> max 1 n \<and> 0 \<le> total_size c \<and> total_size c \<le> max 0 b"
proof -
  have "cache_ok (foldl cache_step (new_cache n b) ops)"
    by (rule cache_run.run_inv) (rule new_cache_ok)
  moreover have "max_entries (foldl cache_step (new_cache n b) ops) = n"
    "max_size_bytes (foldl cache_step (new_cache n b) ops) = b"
    using run_limits [of "new_cache n b" ops] by (simp_all add: new_cache_def)
  ultimately show ?thesis
    using sizes_nonneg by (auto simp: cache_ok_def accounted_def Let_def)
qed

section \<open>What a hit returns\<close>

lemma lookup_drop: "dict_ok es \<Longrightarrow> map_of (drop m es) k = Some e \<Longrightarrow> map_of es k = Some e"
  by (metis drop_map distinct_drop in_set_dropD map_of_SomeD map_of_is_SomeI)

lemma lookup_remove: "map_of (cached (remove_entry k c)) k' = Some e \<Longrightarrow> k' \<noteq> k \<and> map_of (cached c) k' = Some e"
  by (auto simp: remove_entry_cached dict_get_delete split: if_splits)

lemma lookup_put:
  assumes "accounted c" "map_of (cached (put k e c)) k' = Some f"
  shows "if k' = k then f = e else map_of (cached c) k' = Some f"
proof (cases "max_size_bytes c div 4 < size_bytes e")
  case True
  then show ?thesis using assms(2) lookup_remove [of k c k' f] by (simp add: put_too_large)
next
  case False
  then obtain m where m: "cached (put k e c) = drop m (AList.delete k (cached c)) @ [(k, e)]"
    using put_fits [OF assms(1), of e k] by (metis not_le)
  have d: "dict_ok (AList.delete k (cached c))" using assms(1) by (simp add: accounted_def dict_ok_delete)
  have "map_of (drop m (AList.delete k (cached c))) k' = Some f \<or> map_of [(k, e)] k' = Some f"
    using assms(2) unfolding m map_of_append map_add_Some_iff by blast
  then show ?thesis
  proof
    assume "map_of (drop m (AList.delete k (cached c))) k' = Some f"
    then have "map_of (AList.delete k (cached c)) k' = Some f" by (rule lookup_drop [OF d])
    then show ?thesis by (simp add: dict_get_delete split: if_splits)
  qed (simp split: if_splits)
qed

lemma lookup_get: "map_of (cached (snd (get k stat c))) k' = Some e \<Longrightarrow> map_of (cached c) k' = Some e"
  by (auto simp: get_def dict_get_delete map_add_Some_iff dest: lookup_remove split: option.splits if_splits)

lemma lookup_step:
  assumes "accounted c" "\<And>e. map_of (cached c) k = Some e \<Longrightarrow> m = Some e"
    and "map_of (cached (cache_step c op)) k = Some e"
  shows "last_put k m op = Some e"
  using assms
  by (cases op)
    (auto simp: put_file_def invalidate_def clear_def split: if_splits
      dest: lookup_remove lookup_get lookup_put)

lemma lookup_run:
  assumes "cache_ok c" "\<And>e. map_of (cached c) k = Some e \<Longrightarrow> m = Some e"
    and "map_of (cached (foldl cache_step c ops)) k = Some e"
  shows "foldl (last_put k) m ops = Some e"
  using assms
proof (induction ops arbitrary: c m)
  case (Cons op ops)
  then show ?case
    using lookup_step [of c k m op] cache_step_ok [of c op] by (simp add: cache_ok_def)
qed auto

lemma get_hit:
  "fst (get k stat c) = Some e \<Longrightarrow> map_of (cached c) k = Some e \<and> stat = Some (stat_result e)"
  by (auto simp: get_def split: option.splits if_splits)

text \<open>
  Claim C26. A hit is never stale: after any run of operations, an entry that a read returns is the one
  last put under this key and not invalidated or cleared since, and the file on disk has the
  modification time, size and inode it had when that content was read.
\<close>

theorem hit_is_last_put:
  assumes "fst (get k stat (foldl cache_step (new_cache n b) ops)) = Some e"
  shows "foldl (last_put k) None ops = Some e \<and> stat = Some (stat_result e)"
  using get_hit [OF assms] lookup_run [OF new_cache_ok, of n b k None ops e] by (simp add: new_cache_def)

definition sample_stamp :: file_stamp where
  "sample_stamp = \<lparr>st_mtime_ns = 7, st_size = 2, st_ino = 1\<rparr>"

definition sample_ops :: "cache_op list" where
  "sample_ops =
     [Put (u ''/a'') (u ''a'') (u ''old'') [] sample_stamp, Put (u ''/b'') (u ''b'') (u ''x'') [] sample_stamp,
      Put (u ''/a'') (u ''a'') (u ''new'') [] sample_stamp, Put (u ''/c'') (u ''c'') (u ''y'') [] sample_stamp]"

lemma hit_is_last_put_witness:
  "foldl (last_put (u ''a'')) None sample_ops = Some (new_entry (u ''/a'') (u ''new'') [] sample_stamp)"
proof -
  have "fst (get (u ''a'') (Some sample_stamp) (foldl cache_step (new_cache 2 100) sample_ops))
      = Some (new_entry (u ''/a'') (u ''new'') [] sample_stamp)"
    by code_simp
  from hit_is_last_put [OF this] show ?thesis by blast
qed

section \<open>Eviction\<close>

text \<open>
  Putting an entry that fits evicts exactly the least recently used entries that stand in its
  way: the others keep their order of use, every entry that goes was needed to come under the limits,
  and the new entry is the most recent one. A hit makes its entry the most recent one and evicts nothing.
\<close>

theorem eviction_is_least_recently_used:
  assumes "cache_ok c" "size_bytes e \<le> max_size_bytes c div 4"
    and "old = AList.delete k (cached c)"
  shows "(\<exists>m. cached (put k e c) = drop m old @ [(k, e)]
       \<and> (\<forall>i < m. max_entries c \<le> int (length (drop i old)) \<or> max_size_bytes c < sizes (drop i old) + size_bytes e))
     \<and> (fst (get k stat c) = Some f \<longrightarrow> cached (snd (get k stat c)) = old @ [(k, f)])"
proof -
  have "accounted c" using assms(1) by (simp add: cache_ok_def)
  from put_fits [OF this assms(2), of k] have "\<exists>m. cached (put k e c) = drop m old @ [(k, e)]
       \<and> (\<forall>i < m. max_entries c \<le> int (length (drop i old)) \<or> max_size_bytes c < sizes (drop i old) + size_bytes e)"
    unfolding assms(3) by metis
  moreover have "fst (get k stat c) = Some f \<longrightarrow> cached (snd (get k stat c)) = old @ [(k, f)]"
    by (auto simp: get_def assms(3) split: option.splits if_splits)
  ultimately show ?thesis by blast
qed

lemma eviction_is_least_recently_used_witness:
  "\<exists>m. cached (put (u ''d'') (new_entry (u ''/d'') (u ''z'') [] sample_stamp) (foldl cache_step (new_cache 2 100) sample_ops))
     = drop m (AList.delete (u ''d'') (cached (foldl cache_step (new_cache 2 100) sample_ops)))
       @ [(u ''d'', new_entry (u ''/d'') (u ''z'') [] sample_stamp)]"
proof -
  let ?c = "foldl cache_step (new_cache 2 100) sample_ops"
  have "cache_ok ?c" by (rule cache_run.run_inv) (rule new_cache_ok)
  moreover have "size_bytes (new_entry (u ''/d'') (u ''z'') [] sample_stamp) \<le> max_size_bytes ?c div 4"
    by code_simp
  ultimately show ?thesis
    using eviction_is_least_recently_used [OF _ _ refl, of ?c "new_entry (u ''/d'') (u ''z'') [] sample_stamp" "u ''d''"] by blast
qed

end
