(* ===== verification/Hooks.thy ===== *)
theory Hooks
  imports Json
begin

text \<open>
  Lifecycle hooks: what the outputs of the hooks of one event amount to.
  \<open>backend/hooks/policy.py\<close> (the policy of every event), \<open>backend/hooks/reducer.py\<close> (the reduction of
  the executions to one result) and the exact-name part of \<open>backend/hooks/dispatcher.py\<close>.

  The parser \<open>json.loads\<close>, \<open>str\<close> of a JSON value that is not a text and \<open>repr\<close> of a text are the
  fields of a \<open>python\<close> record, an argument of the operations that use them.
\<close>

section \<open>Policies\<close>

datatype successful_output = IGNORE | MODEL | USER | COMPACT_INSTRUCTIONS | WORKTREE_PATH
datatype hook_scope = THREAD | TURN

record hook_policy =
  matcher_applies :: bool
  exit_two_blocks :: bool
  json_can_block :: bool
  ignore_blocking :: bool
  fire_and_forget :: bool
  http_allowed :: bool
  successful_output :: successful_output
  scope :: hook_scope
  default_timeout_seconds :: int
  max_timeout_seconds :: "int option"
  additional_context :: bool

definition OBSERVER :: hook_policy where
  "OBSERVER = \<lparr>matcher_applies = True, exit_two_blocks = False, json_can_block = False,
     ignore_blocking = False, fire_and_forget = False, http_allowed = True,
     successful_output = IGNORE, scope = TURN, default_timeout_seconds = 600,
     max_timeout_seconds = None, additional_context = False\<rparr>"

definition BLOCKER :: hook_policy where
  "BLOCKER = OBSERVER\<lparr>exit_two_blocks := True, json_can_block := True\<rparr>"

definition policies :: "(ustr \<times> hook_policy) list" where
  "policies = map (\<lambda>(k, p). (u k, p))
     [(''session_start'', OBSERVER\<lparr>ignore_blocking := True, http_allowed := False,
         successful_output := MODEL, scope := THREAD, additional_context := True\<rparr>),
      (''user_prompt_submit'', BLOCKER\<lparr>matcher_applies := False, successful_output := MODEL,
         additional_context := True\<rparr>),
      (''pre_tool_use'', BLOCKER\<lparr>additional_context := True\<rparr>),
      (''post_tool_use'', BLOCKER\<lparr>additional_context := True\<rparr>),
      (''post_tool_use_failure'', OBSERVER\<lparr>exit_two_blocks := True, additional_context := True\<rparr>),
      (''notification'', OBSERVER),
      (''pre_compact'', BLOCKER\<lparr>successful_output := COMPACT_INSTRUCTIONS\<rparr>),
      (''post_compact'', OBSERVER\<lparr>successful_output := USER\<rparr>),
      (''permission_request'', OBSERVER\<lparr>json_can_block := True\<rparr>),
      (''permission_denied'', OBSERVER),
      (''stop_failure'', OBSERVER\<lparr>ignore_blocking := True, fire_and_forget := True\<rparr>),
      (''subagent_start'', OBSERVER\<lparr>ignore_blocking := True, successful_output := MODEL,
         scope := THREAD, additional_context := True\<rparr>),
      (''subagent_stop'', BLOCKER),
      (''teammate_idle'', BLOCKER\<lparr>matcher_applies := False\<rparr>),
      (''task_created'', BLOCKER\<lparr>matcher_applies := False\<rparr>),
      (''task_completed'', BLOCKER\<lparr>matcher_applies := False\<rparr>),
      (''elicitation'', BLOCKER), (''elicitation_result'', BLOCKER), (''config_change'', BLOCKER),
      (''worktree_create'', OBSERVER\<lparr>matcher_applies := False, successful_output := WORKTREE_PATH,
         scope := THREAD\<rparr>),
      (''worktree_remove'', OBSERVER\<lparr>matcher_applies := False, scope := THREAD\<rparr>),
      (''instructions_loaded'', OBSERVER\<lparr>ignore_blocking := True\<rparr>),
      (''cwd_changed'', OBSERVER\<lparr>matcher_applies := False, ignore_blocking := True, scope := THREAD\<rparr>),
      (''file_changed'', OBSERVER\<lparr>ignore_blocking := True, scope := THREAD\<rparr>),
      (''session_end'', OBSERVER\<lparr>ignore_blocking := True, scope := THREAD,
         default_timeout_seconds := 1, max_timeout_seconds := Some 3\<rparr>),
      (''stop'', BLOCKER\<lparr>matcher_applies := False\<rparr>)]"

definition event_policy :: "ustr \<Rightarrow> hook_policy" where
  "event_policy event = (case map_of policies event of Some p \<Rightarrow> p | None \<Rightarrow> OBSERVER)"

section \<open>Selection\<close>

text \<open>
  \<open>search\<close> is \<open>re.search\<close> of a pattern in a text, \<open>None\<close> when the pattern does not compile.
\<close>

definition matcher_char :: "int \<Rightarrow> bool" where
  "matcher_char c \<longleftrightarrow> ualpha_ascii c \<or> digit_code c \<or> c = 95 \<or> c = 124"

definition is_exact_matcher :: "ustr \<Rightarrow> bool" where
  "is_exact_matcher raw \<longleftrightarrow> raw \<noteq> [] \<and> (\<forall>c \<in> set raw. matcher_char c)"

definition matcher_matches :: "(ustr \<Rightarrow> ustr \<Rightarrow> bool option) \<Rightarrow> ustr \<Rightarrow> ustr \<Rightarrow> bool" where
  "matcher_matches search pattern target =
     (let raw = ustrip pattern in
      if raw = [] \<or> raw = u ''*'' then True
      else if is_exact_matcher raw then (\<exists>candidate \<in> set (split_on 124 raw). ustrip candidate = target)
      else search raw target = Some True)"

definition select_handlers ::
    "(ustr \<Rightarrow> ustr \<Rightarrow> bool option) \<Rightarrow> ('e \<Rightarrow> ustr) \<Rightarrow> 'e list \<Rightarrow> ustr \<Rightarrow> ustr \<Rightarrow> ('e \<Rightarrow> bool) \<Rightarrow> 'e list" where
  "select_handlers search raw_matcher entries event match_target condition_matches =
     (let should_filter = matcher_applies (event_policy event) \<and> match_target \<noteq> [] in
      filter (\<lambda>e. \<not> (should_filter \<and> \<not> matcher_matches search (raw_matcher e) match_target)
                  \<and> condition_matches e) entries)"

section \<open>Executions\<close>

record hook_entry =
  entry_id :: ustr
  source :: ustr
  source_path :: ustr
  display_order :: int
  status_message :: ustr
  context_limit :: "int option"

record hook_execution =
  entry :: hook_entry
  stdout :: ustr
  stderr :: ustr
  exit_code :: int
  configured_order :: int
  completion_order :: int
  duration_ms :: int
  execution_failed :: bool
  backgrounded :: bool

record run_summary =
  sum_entry :: hook_entry
  sum_configured :: int
  sum_completion :: int
  sum_duration :: int
  sum_exit_code :: int
  sum_status :: ustr
  runtime_error :: bool

record python =
  loads :: "ustr \<Rightarrow> json option"
  str_of :: "json \<Rightarrow> ustr"
  repr_of :: "ustr \<Rightarrow> ustr"

type_synonym json_object = "(ustr \<times> json) list"

definition or_else :: "ustr \<Rightarrow> ustr \<Rightarrow> ustr" where
  "or_else a b = (if a \<noteq> [] then a else b)"

text \<open>\<open>payload.get(k)\<close>, \<open>str(payload.get(k) or "")\<close> and the truth of \<open>payload.get(k)\<close>.\<close>

definition get_any :: "json_object \<Rightarrow> string \<Rightarrow> json" where
  "get_any obj k = (case map_of obj (u k) of Some j \<Rightarrow> j | None \<Rightarrow> JNull)"

definition truthy :: "json_object \<Rightarrow> string \<Rightarrow> bool" where
  "truthy obj k \<longleftrightarrow> \<not> json_falsy (get_any obj k)"

definition text_of :: "python \<Rightarrow> json_object \<Rightarrow> string \<Rightarrow> ustr" where
  "text_of py obj k = (if truthy obj k then json_text (str_of py) (get_any obj k) else [])"

definition lower_of :: "python \<Rightarrow> json_object \<Rightarrow> string \<Rightarrow> ustr" where
  "lower_of py obj k = ulower (ustrip (text_of py obj k))"

definition parse_json_object :: "python \<Rightarrow> ustr \<Rightarrow> json_object option" where
  "parse_json_object py value =
     (let stripped = ustrip value in
      if stripped = [] \<or> \<not> startswith stripped (u ''{'') then None
      else (case loads py stripped of Some (JObj obj) \<Rightarrow> Some obj | _ \<Rightarrow> None))"

definition normalize_permission :: "python \<Rightarrow> json_object \<Rightarrow> ustr" where
  "normalize_permission py obj =
     (let text' = lower_of py obj ''permission_decision'' in
      if text' \<in> set (map u [''allow'', ''deny'', ''ask'']) then text' else [])"

definition permission_fields :: "python \<Rightarrow> json_object \<Rightarrow> ustr \<times> ustr \<times> json" where
  "permission_fields py obj =
     (normalize_permission py obj, text_of py obj ''permission_decision_reason'', get_any obj ''updated_input'')"

section \<open>Added context\<close>

definition DEFAULT_CONTEXT_TOKEN_LIMIT :: int where "DEFAULT_CONTEXT_TOKEN_LIMIT = 2500"
definition CHARS_PER_APPROX_TOKEN :: int where "CHARS_PER_APPROX_TOKEN = 4"

definition token_limit :: "hook_entry \<Rightarrow> int" where
  "token_limit e = max 0 (case context_limit e of Some n \<Rightarrow> n | None \<Rightarrow> DEFAULT_CONTEXT_TOKEN_LIMIT)"

definition limit_additional_context :: "ustr \<Rightarrow> hook_entry \<Rightarrow> ustr" where
  "limit_additional_context value e =
     (if token_limit e = 0 then value
      else
       (let char_limit = max 1 (token_limit e * CHARS_PER_APPROX_TOKEN) in
        if int (length value) \<le> char_limit then value
        else take (nat char_limit) value @ [10, 10] @ u ''[Hook output truncated: ''
          @ int_text (int (length value) - char_limit) @ u '' characters omitted.]''))"

section \<open>The reduction of one execution\<close>

record reduction_acc =
  outputs :: "ustr list"
  feedback_parts :: "ustr list"
  context_parts :: "ustr list"
  compact_instructions :: "ustr list"
  errors :: "ustr list"
  system_messages :: "ustr list"
  watch_paths :: "ustr list"
  summaries :: "run_summary list"
  permission :: "ustr \<times> ustr"
  blocked :: bool
  block_message :: ustr
  failed :: bool
  updated_input :: json
  updated_mcp_tool_output :: json
  retry :: bool
  prevent_continuation :: bool
  stop_reason :: ustr
  initial_user_message :: ustr
  worktree_path :: ustr
  elicitation_action :: ustr
  elicitation_content :: json

definition empty_acc :: reduction_acc where
  "empty_acc = \<lparr>outputs = [], feedback_parts = [], context_parts = [], compact_instructions = [], errors = [],
     system_messages = [], watch_paths = [], summaries = [], permission = ([], []), blocked = False,
     block_message = [], failed = False, updated_input = JNull, updated_mcp_tool_output = JNull, retry = False,
     prevent_continuation = False, stop_reason = [], initial_user_message = [], worktree_path = [],
     elicitation_action = [], elicitation_content = JNull\<rparr>"

text \<open>What stays fixed while one execution is reduced.\<close>

record hook_call =
  py :: python
  event_key :: ustr
  expected_event_name :: ustr
  policy :: hook_policy

definition event_is :: "hook_call \<Rightarrow> string list \<Rightarrow> bool" where
  "event_is c names \<longleftrightarrow> event_key c \<in> set (map u names)"

text \<open>
  \<open>casefold\<close>, exact for every comparison with an ASCII name: the letters outside ASCII whose folding is
  ASCII are the sharp s, the long s, the Kelvin sign and the Latin ligatures.
\<close>

definition ucasefold :: "ustr \<Rightarrow> ustr" where
  "ucasefold s = concat (map (\<lambda>c.
     if c = 223 \<or> c = 7838 then u ''ss'' else if c = 383 then u ''s'' else if c = 8490 then u ''k''
     else if c = 64256 then u ''ff'' else if c = 64257 then u ''fi'' else if c = 64258 then u ''fl''
     else if c = 64259 then u ''ffi'' else if c = 64260 then u ''ffl''
     else if c = 64261 \<or> c = 64262 then u ''st'' else [ulower_code c]) s)"

definition managed_sources :: "ustr list" where
  "managed_sources = map u [''policy'', ''managed_requirements'', ''enterprise_managed'', ''mdm'',
     ''legacy_managed_config_file'', ''legacy_managed_config_mdm'']"

definition execution_blocking_allowed :: "hook_call \<Rightarrow> hook_execution \<Rightarrow> bool" where
  "execution_blocking_allowed c e \<longleftrightarrow>
     \<not> (event_is c [''config_change''] \<and> ucasefold (source (entry e)) \<in> set managed_sources)"

definition out_text :: "hook_execution \<Rightarrow> ustr" where "out_text e = ustrip (stdout e)"
definition err_text :: "hook_execution \<Rightarrow> ustr" where "err_text e = ustrip (stderr e)"

definition json_result :: "hook_call \<Rightarrow> hook_execution \<Rightarrow> json_object option" where
  "json_result c e = parse_json_object (py c) (out_text e)"

definition is_const :: "json_object \<Rightarrow> string \<Rightarrow> bool \<Rightarrow> bool" where
  "is_const obj k b \<longleftrightarrow> map_of obj (u k) = Some (JBool b)"

definition summarize :: "hook_call \<Rightarrow> hook_execution \<Rightarrow> reduction_acc \<Rightarrow> reduction_acc" where
  "summarize c e a =
     a\<lparr>outputs := (if out_text e \<noteq> [] \<and>
           \<not> (case json_result c e of Some obj \<Rightarrow> is_const obj ''suppress_output'' True | None \<Rightarrow> False)
         then outputs a @ [out_text e] else outputs a),
       summaries := summaries a @
         [\<lparr>sum_entry = entry e, sum_configured = configured_order e, sum_completion = completion_order e,
           sum_duration = duration_ms e, sum_exit_code = exit_code e,
           sum_status = (if backgrounded e then u ''backgrounded''
             else if exit_code e = 0 then u ''succeeded'' else u ''failed''),
           runtime_error = execution_failed e\<rparr>]\<rparr>"

definition note_error :: "hook_call \<Rightarrow> ustr \<Rightarrow> reduction_acc \<Rightarrow> reduction_acc" where
  "note_error c msg a =
     a\<lparr>errors := errors a @ [msg], failed := (if event_is c [''worktree_create''] then True else failed a)\<rparr>"

definition event_matches :: "hook_call \<Rightarrow> json_object \<Rightarrow> bool" where
  "event_matches c obj \<longleftrightarrow>
     text_of (py c) obj ''event'' = [] \<or> text_of (py c) obj ''event'' = expected_event_name c"

definition common_decision :: "hook_call \<Rightarrow> json_object \<Rightarrow> ustr" where
  "common_decision c obj = (if event_matches c obj then lower_of (py c) obj ''decision'' else [])"

definition block_asked :: "hook_call \<Rightarrow> hook_execution \<Rightarrow> json_object \<Rightarrow> bool" where
  "block_asked c e obj \<longleftrightarrow>
     common_decision c obj = u ''block'' \<and> json_can_block (policy c) \<and> execution_blocking_allowed c e"

text \<open>The decision, its reason and the changed input of one JSON result.\<close>

definition decide :: "hook_call \<Rightarrow> hook_execution \<Rightarrow> json_object \<Rightarrow> ustr \<times> ustr \<times> json" where
  "decide c e obj =
     (let (decision, reason, candidate) =
        (if event_matches c obj then permission_fields (py c) obj else ([], [], JNull)) in
      if common_decision c obj = u ''approve'' \<and> decision = [] then (u ''allow'', reason, candidate)
      else if block_asked c e obj then
        (u ''deny'', or_else (text_of (py c) obj ''reason'') reason, candidate)
      else (decision, reason, candidate))"

definition decision_rank :: "ustr \<Rightarrow> nat" where
  "decision_rank d = (if d = u ''allow'' then 1 else if d = u ''ask'' then 2 else if d = u ''deny'' then 3 else 0)"

definition merge_permission :: "ustr \<times> ustr \<Rightarrow> ustr \<times> ustr \<Rightarrow> ustr \<times> ustr" where
  "merge_permission v acc =
     (if fst v \<noteq> [] \<and> decision_rank (fst acc) \<le> decision_rank (fst v) then v else acc)"

text \<open>The parts of the JSON branch, in the order of the source.\<close>

definition note_event :: "hook_call \<Rightarrow> json_object \<Rightarrow> reduction_acc \<Rightarrow> reduction_acc" where
  "note_event c obj a =
     (if event_matches c obj then a
      else a\<lparr>errors := errors a @ [u ''Hook returned '' @ repr_of (py c) (text_of (py c) obj ''event'')
         @ u ''; expected '' @ repr_of (py c) (expected_event_name c)]\<rparr>)"

definition note_continue :: "hook_call \<Rightarrow> hook_execution \<Rightarrow> json_object \<Rightarrow> reduction_acc \<Rightarrow> reduction_acc" where
  "note_continue c e obj a =
     (if event_matches c obj \<and> is_const obj ''continue'' False \<and> \<not> ignore_blocking (policy c)
         \<and> execution_blocking_allowed c e
      then a\<lparr>prevent_continuation := True, stop_reason := text_of (py c) obj ''stop_reason''\<rparr> else a)"

definition note_system_message :: "hook_call \<Rightarrow> json_object \<Rightarrow> reduction_acc \<Rightarrow> reduction_acc" where
  "note_system_message c obj a =
     (if event_matches c obj \<and> truthy obj ''system_message''
      then a\<lparr>system_messages := system_messages a @ [text_of (py c) obj ''system_message'']\<rparr> else a)"

definition note_decision :: "hook_call \<Rightarrow> hook_execution \<Rightarrow> json_object \<Rightarrow> reduction_acc \<Rightarrow> reduction_acc" where
  "note_decision c e obj a =
     (let (decision, reason, candidate) = decide c e obj;
          a1 = (if candidate \<noteq> JNull then a\<lparr>updated_input := candidate\<rparr> else a);
          a2 = a1\<lparr>permission := merge_permission (decision, reason) (permission a1)\<rparr> in
      if decision = u ''deny'' \<and> json_can_block (policy c) \<and> \<not> ignore_blocking (policy c)
         \<and> execution_blocking_allowed c e
      then a2\<lparr>blocked := True, block_message := or_else reason (u ''Hook denied permission'')\<rparr> else a2)"

definition note_context :: "hook_call \<Rightarrow> hook_execution \<Rightarrow> json_object \<Rightarrow> reduction_acc \<Rightarrow> reduction_acc" where
  "note_context c e obj a =
     (case map_of obj (u ''additional_context'') of
        Some (JStr s) \<Rightarrow>
          if event_matches c obj \<and> additional_context (policy c) \<and> ustrip s \<noteq> []
          then a\<lparr>context_parts := context_parts a @ [limit_additional_context (ustrip s) (entry e)]\<rparr> else a
      | _ \<Rightarrow> a)"

definition path_texts :: "json \<Rightarrow> ustr list" where
  "path_texts j =
     (case j of
        JList xs \<Rightarrow> concat (map (\<lambda>x. case x of JStr s \<Rightarrow> if ustrip s \<noteq> [] then [s] else [] | _ \<Rightarrow> []) xs)
      | _ \<Rightarrow> [])"

definition note_elicitation :: "hook_call \<Rightarrow> hook_execution \<Rightarrow> json_object \<Rightarrow> reduction_acc \<Rightarrow> reduction_acc" where
  "note_elicitation c e obj a =
     (let action = lower_of (py c) obj ''action'' in
      if \<not> event_is c [''elicitation'', ''elicitation_result'']
         \<or> action \<notin> set (map u [''accept'', ''decline'', ''cancel'']) then a
      else
       (let a1 = a\<lparr>elicitation_action := action, elicitation_content := get_any obj ''content''\<rparr> in
        if action = u ''decline'' \<and> json_can_block (policy c) \<and> execution_blocking_allowed c e
        then a1\<lparr>blocked := True,
               block_message := or_else (text_of (py c) obj ''reason'') (u ''Elicitation denied by hook'')\<rparr>
        else a1))"

definition note_session_start :: "hook_call \<Rightarrow> json_object \<Rightarrow> reduction_acc \<Rightarrow> reduction_acc" where
  "note_session_start c obj a =
     (if event_is c [''session_start''] \<and> truthy obj ''initial_user_message''
      then a\<lparr>initial_user_message := text_of (py c) obj ''initial_user_message''\<rparr> else a)"

definition note_watch_paths :: "hook_call \<Rightarrow> json_object \<Rightarrow> reduction_acc \<Rightarrow> reduction_acc" where
  "note_watch_paths c obj a =
     (if event_is c [''session_start'', ''cwd_changed'', ''file_changed'']
      then a\<lparr>watch_paths := watch_paths a @ path_texts (get_any obj ''watch_paths'')\<rparr> else a)"

definition note_tool_output :: "hook_call \<Rightarrow> json_object \<Rightarrow> reduction_acc \<Rightarrow> reduction_acc" where
  "note_tool_output c obj a =
     (if event_is c [''post_tool_use''] \<and> map_of obj (u ''updated_mcp_tool_output'') \<noteq> None
      then a\<lparr>updated_mcp_tool_output := get_any obj ''updated_mcp_tool_output''\<rparr> else a)"

definition note_retry :: "hook_call \<Rightarrow> json_object \<Rightarrow> reduction_acc \<Rightarrow> reduction_acc" where
  "note_retry c obj a =
     (if event_is c [''permission_denied''] \<and> is_const obj ''retry'' True then a\<lparr>retry := True\<rparr> else a)"

definition note_worktree :: "hook_call \<Rightarrow> json_object \<Rightarrow> reduction_acc \<Rightarrow> reduction_acc" where
  "note_worktree c obj a =
     (if event_is c [''worktree_create''] \<and> truthy obj ''worktree_path''
      then a\<lparr>worktree_path := ustrip (text_of (py c) obj ''worktree_path'')\<rparr> else a)"

definition note_lifecycle :: "hook_call \<Rightarrow> hook_execution \<Rightarrow> json_object \<Rightarrow> reduction_acc \<Rightarrow> reduction_acc" where
  "note_lifecycle c e obj a =
     (if event_matches c obj
      then note_worktree c obj (note_elicitation c e obj (note_retry c obj (note_tool_output c obj
             (note_watch_paths c obj (note_session_start c obj a)))))
      else a)"

definition add_feedback :: "ustr \<Rightarrow> reduction_acc \<Rightarrow> reduction_acc" where
  "add_feedback f a =
     (if f \<noteq> [] \<and> f \<notin> set (feedback_parts a) then a\<lparr>feedback_parts := feedback_parts a @ [f]\<rparr> else a)"

definition note_feedback :: "hook_call \<Rightarrow> hook_execution \<Rightarrow> json_object \<Rightarrow> reduction_acc \<Rightarrow> reduction_acc" where
  "note_feedback c e obj a =
     (let a1 = (if event_matches c obj \<and> truthy obj ''feedback''
                then add_feedback (ustrip (text_of (py c) obj ''feedback'')) a else a) in
      if block_asked c e obj
      then add_feedback (ustrip (or_else (text_of (py c) obj ''reason'')
             (or_else (text_of (py c) obj ''feedback'') (u ''Hook blocked event'')))) a1
      else a1)"

definition note_json :: "hook_call \<Rightarrow> hook_execution \<Rightarrow> json_object \<Rightarrow> reduction_acc \<Rightarrow> reduction_acc" where
  "note_json c e obj a =
     note_feedback c e obj (note_lifecycle c e obj (note_context c e obj (note_decision c e obj
       (note_system_message c obj (note_continue c e obj (note_event c obj a))))))"

definition note_plain :: "hook_call \<Rightarrow> hook_execution \<Rightarrow> reduction_acc \<Rightarrow> reduction_acc" where
  "note_plain c e a =
     (if exit_code e = 0 \<and> out_text e \<noteq> [] \<and> json_result c e = None then
       (case successful_output (policy c) of
          MODEL \<Rightarrow> a\<lparr>context_parts := context_parts a @ [limit_additional_context (out_text e) (entry e)]\<rparr>
        | COMPACT_INSTRUCTIONS \<Rightarrow> a\<lparr>compact_instructions := compact_instructions a @ [out_text e]\<rparr>
        | USER \<Rightarrow> a\<lparr>system_messages := system_messages a @ [out_text e]\<rparr>
        | WORKTREE_PATH \<Rightarrow> if worktree_path a = [] then a\<lparr>worktree_path := out_text e\<rparr> else a
        | IGNORE \<Rightarrow> a)
      else a)"

definition matches_or_plain :: "hook_call \<Rightarrow> hook_execution \<Rightarrow> bool" where
  "matches_or_plain c e \<longleftrightarrow> (case json_result c e of Some obj \<Rightarrow> event_matches c obj | None \<Rightarrow> True)"

definition exit_blocks :: "hook_call \<Rightarrow> hook_execution \<Rightarrow> bool" where
  "exit_blocks c e \<longleftrightarrow> matches_or_plain c e \<and> exit_code e = 2 \<and> exit_two_blocks (policy c)
     \<and> \<not> ignore_blocking (policy c) \<and> execution_blocking_allowed c e"

definition note_exit :: "hook_call \<Rightarrow> hook_execution \<Rightarrow> reduction_acc \<Rightarrow> reduction_acc" where
  "note_exit c e a =
     (if exit_blocks c e then
       (let feedback = or_else (err_text e) (or_else (out_text e) (u ''Hook blocked event'')) in
        add_feedback feedback
          (a\<lparr>blocked := True, block_message := feedback, permission := (u ''deny'', feedback)\<rparr>))
      else if exit_code e \<noteq> 0 then
        note_error c (or_else (err_text e) (or_else (out_text e)
          (u ''Hook exited with status '' @ int_text (exit_code e)))) a
      else a)"

definition reduce_one :: "hook_call \<Rightarrow> reduction_acc \<Rightarrow> hook_execution \<Rightarrow> reduction_acc" where
  "reduce_one c a e =
     (let a1 = summarize c e a in
      if backgrounded e then a1
      else if execution_failed e then
        note_error c (or_else (err_text e) (or_else (out_text e) (u ''Hook execution failed''))) a1
      else note_exit c e (note_plain c e
             (case json_result c e of Some obj \<Rightarrow> note_json c e obj a1 | None \<Rightarrow> a1)))"

section \<open>The result\<close>

record hook_reduction =
  r_blocked :: bool
  r_failed :: bool
  r_message :: ustr
  r_feedback :: ustr
  r_stdout :: ustr
  r_errors :: "ustr list"
  r_permission_decision :: ustr
  r_permission_decision_reason :: ustr
  r_additional_context :: ustr
  r_custom_instructions :: ustr
  r_updated_input :: json
  r_updated_mcp_tool_output :: json
  r_retry :: bool
  r_prevent_continuation :: bool
  r_stop_reason :: ustr
  r_system_message :: ustr
  r_initial_user_message :: ustr
  r_watch_paths :: "ustr list"
  r_worktree_path :: ustr
  r_elicitation_action :: ustr
  r_elicitation_content :: json
  r_run_summaries :: "run_summary list"

definition gate_continuation :: "hook_call \<Rightarrow> reduction_acc \<Rightarrow> reduction_acc" where
  "gate_continuation c a =
     (if prevent_continuation a \<and> \<not> event_is c [''stop''] \<and> \<not> ignore_blocking (policy c)
      then a\<lparr>blocked := True,
             block_message := or_else (stop_reason a) (or_else (block_message a) (u ''Hook prevented continuation''))\<rparr>
      else a)"

definition gate_blocking :: "hook_call \<Rightarrow> bool \<Rightarrow> reduction_acc \<Rightarrow> reduction_acc" where
  "gate_blocking c blocking_allowed a =
     (if \<not> blocking_allowed \<or> ignore_blocking (policy c)
      then a\<lparr>blocked := False, prevent_continuation := False, stop_reason := [],
             permission := (if fst (permission a) = u ''deny'' then ([], []) else permission a)\<rparr>
      else a)"

definition gate_worktree :: "hook_call \<Rightarrow> reduction_acc \<Rightarrow> reduction_acc" where
  "gate_worktree c a =
     (if event_is c [''worktree_create''] \<and> worktree_path a = []
      then a\<lparr>failed := True,
             block_message := (if block_message a = []
               then (case errors a of [] \<Rightarrow> u ''WorktreeCreate hook produced no path'' | e # _ \<Rightarrow> e)
               else block_message a)\<rparr>
      else a)"

definition first_occurrences :: "'a list \<Rightarrow> 'a list" where
  "first_occurrences xs = rev (remdups (rev xs))"

definition result_of :: "reduction_acc \<Rightarrow> hook_reduction" where
  "result_of a = \<lparr>r_blocked = blocked a, r_failed = failed a, r_message = block_message a,
     r_feedback = join [10] (feedback_parts a), r_stdout = join [10] (outputs a), r_errors = errors a,
     r_permission_decision = (if blocked a then u ''deny'' else fst (permission a)),
     r_permission_decision_reason = snd (permission a),
     r_additional_context = join [10, 10] (context_parts a),
     r_custom_instructions = join [10, 10] (compact_instructions a),
     r_updated_input = updated_input a, r_updated_mcp_tool_output = updated_mcp_tool_output a,
     r_retry = retry a, r_prevent_continuation = prevent_continuation a, r_stop_reason = stop_reason a,
     r_system_message = join [10] (system_messages a), r_initial_user_message = initial_user_message a,
     r_watch_paths = first_occurrences (watch_paths a), r_worktree_path = worktree_path a,
     r_elicitation_action = elicitation_action a, r_elicitation_content = elicitation_content a,
     r_run_summaries = summaries a\<rparr>"

definition new_call :: "python \<Rightarrow> ustr \<Rightarrow> ustr \<Rightarrow> hook_call" where
  "new_call p event expected = \<lparr>py = p, event_key = event, expected_event_name = expected, policy = event_policy event\<rparr>"

definition reduce_hook_executions ::
    "python \<Rightarrow> ustr \<Rightarrow> hook_execution list \<Rightarrow> ustr \<Rightarrow> bool \<Rightarrow> hook_reduction" where
  "reduce_hook_executions p event executions expected blocking_allowed =
     (let c = new_call p event expected in
      if fire_and_forget (policy c) then result_of empty_acc
      else result_of (gate_worktree c (gate_blocking c blocking_allowed (gate_continuation c
             (foldl (reduce_one c) empty_acc executions)))))"

definition execution_succeeded_for_once :: "python \<Rightarrow> ustr \<Rightarrow> hook_execution \<Rightarrow> ustr \<Rightarrow> bool" where
  "execution_succeeded_for_once p event e expected =
     (if backgrounded e then False
      else if exit_code e \<noteq> 0 then False
      else (case parse_json_object p (stdout e) of
              None \<Rightarrow> True
            | Some payload \<Rightarrow>
                if text_of p payload ''event'' \<noteq> [] \<and> text_of p payload ''event'' \<noteq> expected then False
                else if event = u ''worktree_create'' then ustrip (text_of p payload ''worktree_path'') \<noteq> []
                else True))"

end
