(* ===== verification/HooksProps.thy ===== *)
theory HooksProps
  imports Hooks
begin

text \<open>
  What the reduction of hook executions guarantees: which executions block, that their order does not
  matter for it, which decision wins, and when nothing can block.
\<close>

named_theorems hook_simps

section \<open>Which fields a part touches\<close>

definition live :: "hook_execution \<Rightarrow> bool" where
  "live e \<longleftrightarrow> \<not> backgrounded e \<and> \<not> execution_failed e"

lemma untouched [hook_simps]:
  "blocked (summarize c e a) = blocked a" "permission (summarize c e a) = permission a"
  "prevent_continuation (summarize c e a) = prevent_continuation a"
  "blocked (note_error c m a) = blocked a" "permission (note_error c m a) = permission a"
  "prevent_continuation (note_error c m a) = prevent_continuation a"
  "blocked (note_event c obj a) = blocked a" "permission (note_event c obj a) = permission a"
  "prevent_continuation (note_event c obj a) = prevent_continuation a"
  "blocked (note_system_message c obj a) = blocked a" "permission (note_system_message c obj a) = permission a"
  "prevent_continuation (note_system_message c obj a) = prevent_continuation a"
  "blocked (add_feedback f a) = blocked a" "permission (add_feedback f a) = permission a"
  "prevent_continuation (add_feedback f a) = prevent_continuation a"
  "blocked (note_session_start c obj a) = blocked a" "permission (note_session_start c obj a) = permission a"
  "prevent_continuation (note_session_start c obj a) = prevent_continuation a"
  "blocked (note_watch_paths c obj a) = blocked a" "permission (note_watch_paths c obj a) = permission a"
  "prevent_continuation (note_watch_paths c obj a) = prevent_continuation a"
  "blocked (note_tool_output c obj a) = blocked a" "permission (note_tool_output c obj a) = permission a"
  "prevent_continuation (note_tool_output c obj a) = prevent_continuation a"
  "blocked (note_retry c obj a) = blocked a" "permission (note_retry c obj a) = permission a"
  "prevent_continuation (note_retry c obj a) = prevent_continuation a"
  "blocked (note_worktree c obj a) = blocked a" "permission (note_worktree c obj a) = permission a"
  "prevent_continuation (note_worktree c obj a) = prevent_continuation a"
  by (simp_all add: summarize_def note_error_def note_event_def note_system_message_def add_feedback_def
      note_session_start_def note_watch_paths_def note_tool_output_def note_retry_def note_worktree_def)

lemma untouched_context [hook_simps]:
  "blocked (note_context c e obj a) = blocked a" "permission (note_context c e obj a) = permission a"
  "prevent_continuation (note_context c e obj a) = prevent_continuation a"
  by (simp_all add: note_context_def split: option.splits json.splits)

lemma untouched_plain [hook_simps]:
  "blocked (note_plain c e a) = blocked a" "permission (note_plain c e a) = permission a"
  "prevent_continuation (note_plain c e a) = prevent_continuation a"
  by (simp_all add: note_plain_def split: successful_output.splits)

lemma untouched_feedback [hook_simps]:
  "blocked (note_feedback c e obj a) = blocked a" "permission (note_feedback c e obj a) = permission a"
  "prevent_continuation (note_feedback c e obj a) = prevent_continuation a"
  by (simp_all add: note_feedback_def Let_def hook_simps)

text \<open>A JSON result that stops the conversation, that denies, and that declines an elicitation.\<close>

definition json_stops :: "hook_call \<Rightarrow> hook_execution \<Rightarrow> json_object \<Rightarrow> bool" where
  "json_stops c e obj \<longleftrightarrow> event_matches c obj \<and> is_const obj ''continue'' False
     \<and> \<not> ignore_blocking (policy c) \<and> execution_blocking_allowed c e"

definition json_denies :: "hook_call \<Rightarrow> hook_execution \<Rightarrow> json_object \<Rightarrow> bool" where
  "json_denies c e obj \<longleftrightarrow> event_matches c obj
     \<and> (lower_of (py c) obj ''decision'' = u ''block'' \<or> lower_of (py c) obj ''permission_decision'' = u ''deny'')
     \<and> json_can_block (policy c) \<and> \<not> ignore_blocking (policy c) \<and> execution_blocking_allowed c e"

definition json_declines :: "hook_call \<Rightarrow> hook_execution \<Rightarrow> json_object \<Rightarrow> bool" where
  "json_declines c e obj \<longleftrightarrow> event_matches c obj \<and> event_is c [''elicitation'', ''elicitation_result'']
     \<and> lower_of (py c) obj ''action'' = u ''decline'' \<and> json_can_block (policy c)
     \<and> execution_blocking_allowed c e"

declare u_inject [hook_simps] u_empty [hook_simps]

lemma prevent_continue [hook_simps]:
  "prevent_continuation (note_continue c e obj a) \<longleftrightarrow> prevent_continuation a \<or> json_stops c e obj"
  "blocked (note_continue c e obj a) = blocked a" "permission (note_continue c e obj a) = permission a"
  by (auto simp: note_continue_def json_stops_def)

lemma decide_deny:
  "fst (decide c e obj) = u ''deny'' \<longleftrightarrow> event_matches c obj
     \<and> (block_asked c e obj \<or> lower_of (py c) obj ''permission_decision'' = u ''deny'')"
  by (auto simp: decide_def permission_fields_def normalize_permission_def common_decision_def block_asked_def
      Let_def hook_simps split: if_splits)

lemma decision_effect [hook_simps]:
  "blocked (note_decision c e obj a) \<longleftrightarrow> blocked a \<or> json_denies c e obj"
  "permission (note_decision c e obj a) = merge_permission (fst (decide c e obj), fst (snd (decide c e obj))) (permission a)"
  "prevent_continuation (note_decision c e obj a) = prevent_continuation a"
proof -
  have "fst (decide c e obj) = u ''deny'' \<and> json_can_block (policy c) \<and> \<not> ignore_blocking (policy c)
      \<and> execution_blocking_allowed c e \<longleftrightarrow> json_denies c e obj"
    by (auto simp: decide_deny json_denies_def block_asked_def common_decision_def)
  then show "blocked (note_decision c e obj a) \<longleftrightarrow> blocked a \<or> json_denies c e obj"
    by (auto simp: note_decision_def Let_def split: prod.splits)
qed (simp_all add: note_decision_def Let_def split: prod.splits)

lemma elicitation_effect:
  "event_matches c obj \<Longrightarrow> blocked (note_elicitation c e obj a) \<longleftrightarrow> blocked a \<or> json_declines c e obj"
  "permission (note_elicitation c e obj a) = permission a"
  "prevent_continuation (note_elicitation c e obj a) = prevent_continuation a"
  by (auto simp: note_elicitation_def json_declines_def Let_def hook_simps)

lemma lifecycle_effect [hook_simps]:
  "blocked (note_lifecycle c e obj a) \<longleftrightarrow> blocked a \<or> json_declines c e obj"
  "permission (note_lifecycle c e obj a) = permission a"
  "prevent_continuation (note_lifecycle c e obj a) = prevent_continuation a"
  by (auto simp: note_lifecycle_def hook_simps elicitation_effect json_declines_def)

section \<open>One execution\<close>

definition blocks :: "hook_call \<Rightarrow> hook_execution \<Rightarrow> bool" where
  "blocks c e \<longleftrightarrow> live e \<and> (exit_blocks c e
     \<or> (\<exists>obj. json_result c e = Some obj \<and> (json_denies c e obj \<or> json_declines c e obj)))"

definition stops :: "hook_call \<Rightarrow> hook_execution \<Rightarrow> bool" where
  "stops c e \<longleftrightarrow> live e \<and> (\<exists>obj. json_result c e = Some obj \<and> json_stops c e obj)"

text \<open>The decision an execution contributes, with its reason.\<close>

definition exit_feedback :: "hook_execution \<Rightarrow> ustr" where
  "exit_feedback e = or_else (err_text e) (or_else (out_text e) (u ''Hook blocked event''))"

definition proposal :: "hook_call \<Rightarrow> hook_execution \<Rightarrow> ustr \<times> ustr" where
  "proposal c e =
     (if \<not> live e then ([], [])
      else if exit_blocks c e then (u ''deny'', exit_feedback e)
      else (case json_result c e of
              Some obj \<Rightarrow> (fst (decide c e obj), fst (snd (decide c e obj))) | None \<Rightarrow> ([], [])))"

lemma json_effect [hook_simps]:
  "blocked (note_json c e obj a) \<longleftrightarrow> blocked a \<or> json_denies c e obj \<or> json_declines c e obj"
  "permission (note_json c e obj a) = merge_permission (fst (decide c e obj), fst (snd (decide c e obj))) (permission a)"
  "prevent_continuation (note_json c e obj a) \<longleftrightarrow> prevent_continuation a \<or> json_stops c e obj"
  by (auto simp: note_json_def hook_simps)

lemma exit_effect [hook_simps]:
  "blocked (note_exit c e a) \<longleftrightarrow> blocked a \<or> exit_blocks c e"
  "permission (note_exit c e a) = (if exit_blocks c e then (u ''deny'', exit_feedback e) else permission a)"
  "prevent_continuation (note_exit c e a) = prevent_continuation a"
  by (auto simp: note_exit_def Let_def hook_simps exit_feedback_def)

lemma one_blocked: "blocked (reduce_one c a e) \<longleftrightarrow> blocked a \<or> blocks c e"
  by (auto simp: reduce_one_def Let_def hook_simps blocks_def live_def split: option.splits)

lemma one_prevents: "prevent_continuation (reduce_one c a e) \<longleftrightarrow> prevent_continuation a \<or> stops c e"
  by (auto simp: reduce_one_def Let_def hook_simps stops_def live_def split: option.splits)

lemma rank_simps [hook_simps]: "decision_rank [] = 0" "decision_rank (u ''deny'') = 3" "decision_rank d \<le> 3"
  by (auto simp: decision_rank_def hook_simps)

lemma rank_merge: "decision_rank (fst (merge_permission v acc)) = max (decision_rank (fst v)) (decision_rank (fst acc))"
  by (auto simp: merge_permission_def hook_simps)

interpretation decisions: verdict_join merge_permission "\<lambda>v. decision_rank (fst v)"
  by unfold_locales (rule rank_merge)

lemma merge_deny: "merge_permission (u ''deny'', r) acc = (u ''deny'', r)"
  by (simp add: merge_permission_def hook_simps)

lemma merge_none: "merge_permission ([], r) acc = acc"
  by (simp add: merge_permission_def)

lemma one_permission: "permission (reduce_one c a e) = merge_permission (proposal c e) (permission a)"
  by (auto simp: reduce_one_def Let_def hook_simps proposal_def live_def merge_deny merge_none split: option.splits)

section \<open>All executions\<close>

lemma all_blocked: "blocked (foldl (reduce_one c) a es) \<longleftrightarrow> blocked a \<or> (\<exists>e \<in> set es. blocks c e)"
  by (induction es arbitrary: a) (auto simp: one_blocked)

lemma all_prevents:
  "prevent_continuation (foldl (reduce_one c) a es) \<longleftrightarrow> prevent_continuation a \<or> (\<exists>e \<in> set es. stops c e)"
  by (induction es arbitrary: a) (auto simp: one_prevents)

lemma all_permission:
  "permission (foldl (reduce_one c) a es)
   = foldl (\<lambda>acc v. merge_permission v acc) (permission a) (map (proposal c) es)"
  by (induction es arbitrary: a) (simp_all add: one_permission)

text \<open>The strictest proposal wins, and the winner is one of the proposals.\<close>

lemma merged_member:
  "foldl (\<lambda>acc v. merge_permission v acc) acc vs = acc
   \<or> foldl (\<lambda>acc v. merge_permission v acc) acc vs \<in> set vs"
proof (induction vs arbitrary: acc)
  case (Cons v vs)
  from Cons [of "merge_permission v acc"] show ?case by (auto simp: merge_permission_def split: if_splits)
qed simp

lemma gates [hook_simps]:
  "blocked (gate_worktree c a) = blocked a" "permission (gate_worktree c a) = permission a"
  "blocked (gate_blocking c ok a) \<longleftrightarrow> blocked a \<and> ok \<and> \<not> ignore_blocking (policy c)"
  "permission (gate_blocking c ok a) =
     (if (\<not> ok \<or> ignore_blocking (policy c)) \<and> fst (permission a) = u ''deny'' then ([], []) else permission a)"
  "blocked (gate_continuation c a) \<longleftrightarrow> blocked a
     \<or> (prevent_continuation a \<and> \<not> event_is c [''stop''] \<and> \<not> ignore_blocking (policy c))"
  "permission (gate_continuation c a) = permission a"
  by (auto simp: gate_worktree_def gate_blocking_def gate_continuation_def)

lemma empty_fields [hook_simps]:
  "\<not> blocked empty_acc" "\<not> prevent_continuation empty_acc" "permission empty_acc = ([], [])"
  by (simp_all add: empty_acc_def)

lemma call_fields [hook_simps]:
  "policy (new_call p event expected) = event_policy event" "event_key (new_call p event expected) = event"
  by (simp_all add: new_call_def)

text \<open>
  Claim C27. An event is blocked exactly when its policy lets it be and some hook that ran blocks it:
  an exit with status 2 where the policy honours it, a JSON block or deny decision, a declined
  elicitation, or \<open>continue: false\<close> on any event but \<open>stop\<close>. The order of the hooks, their other
  outputs and the crashed or backgrounded ones make no difference.
\<close>

theorem hook_block_exact:
  "r_blocked (reduce_hook_executions p event es expected blocking_allowed) \<longleftrightarrow>
     \<not> fire_and_forget (event_policy event) \<and> blocking_allowed \<and> \<not> ignore_blocking (event_policy event)
     \<and> (\<exists>e \<in> set es. blocks (new_call p event expected) e
          \<or> (stops (new_call p event expected) e \<and> event \<noteq> u ''stop''))"
  by (auto simp: reduce_hook_executions_def Let_def result_of_def hook_simps all_blocked all_prevents event_is_def)

text \<open>
  On an event that can be blocked the strictest decision wins: a block is a denial, and
  otherwise the permission of the result is at least as strict (deny over ask over allow) as every
  decision a hook proposes and is one of them, or empty when none proposes any.
\<close>

theorem strictest_decision_wins:
  assumes "\<not> fire_and_forget (event_policy event)" "\<not> ignore_blocking (event_policy event)"
    and r_def: "r = reduce_hook_executions p event es expected True"
    and c_def: "c = new_call p event expected"
  shows "(r_blocked r \<longrightarrow> r_permission_decision r = u ''deny'')
     \<and> (\<forall>e \<in> set es. decision_rank (fst (proposal c e)) \<le> decision_rank (r_permission_decision r))
     \<and> (r_blocked r \<or> r_permission_decision r = [] \<or> (\<exists>e \<in> set es. r_permission_decision r = fst (proposal c e)))"
proof -
  let ?vs = "map (proposal c) es"
  let ?m = "foldl (\<lambda>acc v. merge_permission v acc) ([], []) ?vs"
  have d: "r_permission_decision r = (if r_blocked r then u ''deny'' else fst ?m)"
    using assms(1,2)
    by (auto simp: r_def c_def reduce_hook_executions_def Let_def result_of_def hook_simps all_permission
        all_blocked all_prevents)
  have "decision_rank (fst v) \<le> decision_rank (fst ?m)" if "v \<in> set ?vs" for v
    using decisions.fold_ge_mem [OF that] by simp
  then have "\<forall>e \<in> set es. decision_rank (fst (proposal c e)) \<le> decision_rank (r_permission_decision r)"
    by (auto simp: d hook_simps)
  moreover have "r_blocked r \<or> r_permission_decision r = [] \<or> (\<exists>e \<in> set es. r_permission_decision r = fst (proposal c e))"
    using merged_member [of "([], [])" ?vs] by (auto simp: d)
  ultimately show ?thesis by (auto simp: d)
qed

definition sample_python :: python where
  "sample_python = \<lparr>loads = (\<lambda>s.
       if s = u ''{1}'' then Some (JObj [(u ''permission_decision'', JStr (u '' Ask''))])
       else if s = u ''{2}'' then Some (JObj [(u ''decision'', JStr (u ''approve''))]) else None),
     str_of = (\<lambda>j. []), repr_of = (\<lambda>s. s)\<rparr>"

definition sample_execution :: "string \<Rightarrow> int \<Rightarrow> hook_execution" where
  "sample_execution out code = \<lparr>entry = \<lparr>entry_id = [], source = u ''user'', source_path = [], display_order = 0,
     status_message = [], context_limit = None\<rparr>, stdout = u out, stderr = [], exit_code = code,
     configured_order = 0, completion_order = 0, duration_ms = 0, execution_failed = False, backgrounded = False\<rparr>"

lemma strictest_decision_wins_witness:
  "decision_rank (u ''ask'') \<le> decision_rank (r_permission_decision
     (reduce_hook_executions sample_python (u ''pre_tool_use'')
        [sample_execution ''{1}'' 0, sample_execution ''{2}'' 1] [] True))"
proof -
  have "\<not> fire_and_forget (event_policy (u ''pre_tool_use''))" "\<not> ignore_blocking (event_policy (u ''pre_tool_use''))"
    by code_simp+
  from strictest_decision_wins [OF this refl refl, of sample_python "[sample_execution ''{1}'' 0, sample_execution ''{2}'' 1]" "[]"]
  have "decision_rank (fst (proposal (new_call sample_python (u ''pre_tool_use'') []) (sample_execution ''{1}'' 0)))
      \<le> decision_rank (r_permission_decision (reduce_hook_executions sample_python (u ''pre_tool_use'')
        [sample_execution ''{1}'' 0, sample_execution ''{2}'' 1] [] True))"
    by simp
  moreover have "fst (proposal (new_call sample_python (u ''pre_tool_use'') []) (sample_execution ''{1}'' 0)) = u ''ask''"
    by code_simp
  ultimately show ?thesis by simp
qed

end
