(* ===== verification/Scheduler.thy ===== *)
theory Scheduler
  imports Cron "HOL-Library.Product_Lexorder" "HOL-Library.List_Lexorder"
begin

text \<open>
  The scheduled-task runner: class \<open>TaskScheduler\<close> of \<open>backend/tasks/scheduler.py\<close>.

  Task and run objects are shared between the dictionaries and the workers; a run object outlives its
  place in \<open>_runs\<close>, so runs live in a heap and \<open>_runs\<close> is the list of the ids it holds. A
  worker is an asyncio task; its steps between two suspension points are the operations \<open>start_worker\<close>,
  \<open>end_worker\<close> and \<open>finalize_worker\<close>, and the scheduler's own methods run without suspension except where
  they are split in two (\<open>stop\<close>, \<open>destroy_for_conversation\<close>). Instants are seconds; a stored
  timestamp that is missing or does not parse is \<open>None\<close>. The disk is one state file per workspace root (the one
  of the empty root is \<open>SCHEDULE_FILE\<close>), each written atomically, and the registry of the roots. \<open>_save\<close>
  writes them one after another; the argument \<open>fault\<close> of an operation says after how many writes it raises
  \<open>OSError\<close>, if it does. Workspace roots are normalised when a task or run is created, so normalising them
  again in \<open>_save\<close> and \<open>_load\<close> is left out.
\<close>

section \<open>State\<close>

definition MAX_SCHEDULED_JOBS :: nat where "MAX_SCHEDULED_JOBS = 50"
definition SCHEDULED_TASK_MAX_AGE_SECONDS :: int where "SCHEDULED_TASK_MAX_AGE_SECONDS = 7 * 24 * 60 * 60"

record sched_task =
  name :: ustr
  prompt :: ustr
  schedule :: ustr
  permission_mode :: ustr
  timezone :: ustr
  isolation :: ustr
  recurring :: bool
  auto_expire :: bool
  deleted_at :: "int option"
  workspace_root :: ustr
  conversation_id :: ustr
  enabled :: bool
  created_at :: "int option"
  last_run_at :: "int option"
  next_run_at :: "int option"
  last_run_id :: "ustr option"
  last_run_status :: "ustr option"
  last_error :: "ustr option"

record sched_run =
  task_id :: ustr
  scheduled_at :: int
  started_at :: "int option"
  finished_at :: "int option"
  status :: ustr
  run_conversation :: ustr
  run_root :: ustr
  result_summary :: ustr
  error :: ustr
  cleanup_pending :: bool
  cleanup_reason :: ustr
  cleanup_requested_at :: "int option"
  cleanup_completed_at :: "int option"

definition PENDING :: ustr where "PENDING = u ''pending''"
definition RUNNING :: ustr where "RUNNING = u ''running''"
definition COMPLETED :: ustr where "COMPLETED = u ''completed''"
definition PARTIAL :: ustr where "PARTIAL = u ''partial''"
definition FAILED :: ustr where "FAILED = u ''failed''"
definition CANCELLED :: ustr where "CANCELLED = u ''cancelled''"

text \<open>
  \<open>Gated\<close>: the start gate is closed; \<open>Revoked\<close>: cancelled at its gate and taken out of \<open>_run_tasks\<close> because its
  claim could not be saved, so that it will end without entering \<open>_fire_one\<close>; \<open>Ready\<close>: not yet entered
  \<open>_fire_one\<close>; \<open>Executing\<close>: in the callback.
\<close>

datatype outcome = Returned | Raised ustr | Stopped
datatype phase = Gated | Revoked | Ready | Executing | Finished outcome

record worker =
  w_run :: ustr
  w_task :: ustr
  w_root :: ustr
  w_phase :: phase
  w_cancel :: bool

text \<open>What a state file holds.\<close>

type_synonym state_file = "(ustr \<times> sched_task) list \<times> (ustr \<times> sched_run) list"

record scheduler =
  tasks :: "(ustr \<times> sched_task) list"
  run_heap :: "(ustr \<times> sched_run) list"
  runs :: "ustr list"
  workers :: "(nat \<times> worker) list"
  run_tasks :: "(ustr \<times> nat) list"
  unusable :: "ustr list"
  is_running :: bool
  next_wid :: nat
  saved_roots :: "ustr list"
  files :: "(ustr \<times> state_file) list"
  registry :: "ustr list"

datatype sched_error =
  SaveFailed | TooManyJobs | BadTimezone | DeletedTask | ZoneFailed zone_error | MissingRun | StillRunning

text \<open>
  The zone database, the resolution of a workspace path, whether a callback is configured, and the text
  of the exception of a failed save.
\<close>

record sched_env =
  clocks :: clock_env
  resolve_root :: "ustr \<Rightarrow> ustr"
  has_runner :: bool
  save_error_text :: ustr

text \<open>A worker that is not done; a revoked one, which no dictionary refers to, is not counted.\<close>

definition live :: "worker \<Rightarrow> bool" where
  "live w \<longleftrightarrow> (case w_phase w of Finished _ \<Rightarrow> False | Revoked \<Rightarrow> False | _ \<Rightarrow> True)"

definition upd :: "'k \<Rightarrow> ('v \<Rightarrow> 'v) \<Rightarrow> ('k \<times> 'v) list \<Rightarrow> ('k \<times> 'v) list" where
  "upd k f d = map (\<lambda>(k', v). (k', if k' = k then f v else v)) d"

definition set_task :: "ustr \<Rightarrow> (sched_task \<Rightarrow> sched_task) \<Rightarrow> scheduler \<Rightarrow> scheduler" where
  "set_task k f s = s\<lparr>tasks := upd k f (tasks s)\<rparr>"

definition set_run :: "ustr \<Rightarrow> (sched_run \<Rightarrow> sched_run) \<Rightarrow> scheduler \<Rightarrow> scheduler" where
  "set_run k f s = s\<lparr>run_heap := upd k f (run_heap s)\<rparr>"

definition set_worker :: "nat \<Rightarrow> (worker \<Rightarrow> worker) \<Rightarrow> scheduler \<Rightarrow> scheduler" where
  "set_worker k f s = s\<lparr>workers := upd k f (workers s)\<rparr>"

definition get_run :: "scheduler \<Rightarrow> ustr \<Rightarrow> sched_run option" where
  "get_run s r = (if r \<in> set (runs s) then map_of (run_heap s) r else None)"

text \<open>\<open>_normalize_workspace_root\<close>.\<close>

definition normalize_workspace_root :: "sched_env \<Rightarrow> ustr \<Rightarrow> ustr" where
  "normalize_workspace_root env value = (let t = ustrip value in if t = [] then [] else resolve_root env t)"

definition workspace_matches :: "sched_env \<Rightarrow> ustr \<Rightarrow> ustr option \<Rightarrow> bool" where
  "workspace_matches env stored requested =
     (case requested of None \<Rightarrow> True
      | Some r \<Rightarrow> normalize_workspace_root env stored = normalize_workspace_root env r)"

section \<open>Saving and loading\<close>

text \<open>The history limit keeps the newest 500 runs and every run that still has an owner.\<close>

definition run_key :: "ustr \<times> sched_run \<Rightarrow> int \<times> ustr" where
  "run_key p = (case started_at (snd p) of Some t \<Rightarrow> t | None \<Rightarrow> scheduled_at (snd p), fst p)"

definition owned :: "sched_run \<Rightarrow> bool" where
  "owned r \<longleftrightarrow> status r = PENDING \<or> status r = RUNNING \<or> cleanup_pending r"

definition listed_runs :: "scheduler \<Rightarrow> (ustr \<times> sched_run) list" where
  "listed_runs s = filter (\<lambda>(k, r). k \<in> set (runs s)) (run_heap s)"

definition history :: "scheduler \<Rightarrow> (ustr \<times> sched_run) list" where
  "history s =
     (let ordered = rev (sort_key run_key (listed_runs s)) in
      map snd (filter (\<lambda>(i, (k, r)). i < 500 \<or> owned r) (zip [0..<length ordered] ordered)))"

text \<open>
  A save writes the file of the unbound tasks, then the file of every root that has tasks or runs or had some at the last
  save, in the order of the roots, then the registry; only then it counts. The files written before a failure stay.
\<close>

type_synonym disk_fault = "nat option"

definition roots_of :: "(ustr \<times> sched_task) list \<Rightarrow> (ustr \<times> sched_run) list \<Rightarrow> ustr list" where
  "roots_of ts rs = sort (remdups (filter (\<lambda>p. p \<noteq> []) (map (\<lambda>(k, t). workspace_root t) ts @ map (\<lambda>(r, x). run_root x) rs)))"

definition save_targets :: "scheduler \<Rightarrow> ustr list" where
  "save_targets s = [] # sort (remdups (roots_of (tasks s) (history s) @ saved_roots s))"

definition file_for :: "scheduler \<Rightarrow> ustr \<Rightarrow> state_file" where
  "file_for s root =
     (filter (\<lambda>(k, t). workspace_root t = root) (tasks s), filter (\<lambda>(r, x). run_root x = root) (history s))"

definition write_files :: "ustr list \<Rightarrow> scheduler \<Rightarrow> scheduler" where
  "write_files targets s = s\<lparr>files := foldl (\<lambda>fs root. AList.update root (file_for s root) fs) (files s) targets\<rparr>"

definition save :: "disk_fault \<Rightarrow> scheduler \<Rightarrow> sched_error option \<times> scheduler" where
  "save fault s =
     (case fault of
        Some n \<Rightarrow> (Some SaveFailed, write_files (take n (save_targets s)) s)
      | None \<Rightarrow> (None, (write_files (save_targets s) s)\<lparr>registry := roots_of (tasks s) (history s),
                   saved_roots := roots_of (tasks s) (history s), runs := map fst (history s)\<rparr>))"

text \<open>
  What a new process reads: the file of the unbound tasks and those of the registered roots, of which it takes the
  entries that belong to the root. An id met again replaces the entry.
\<close>

definition file_at :: "(ustr \<times> state_file) list \<Rightarrow> ustr \<Rightarrow> state_file" where
  "file_at fs root = (case map_of fs root of None \<Rightarrow> ([], []) | Some f \<Rightarrow> f)"

definition dict_of :: "(ustr \<times> 'v) list \<Rightarrow> (ustr \<times> 'v) list" where
  "dict_of es = foldl (\<lambda>d (k, v). AList.update k v d) [] es"

definition visible_tasks_on :: "(ustr \<times> state_file) list \<Rightarrow> ustr list \<Rightarrow> (ustr \<times> sched_task) list" where
  "visible_tasks_on fs reg =
     dict_of (concat (map (\<lambda>root. filter (\<lambda>(k, t). root = [] \<or> workspace_root t = root) (fst (file_at fs root))) ([] # reg)))"

definition visible_runs_on :: "(ustr \<times> state_file) list \<Rightarrow> ustr list \<Rightarrow> (ustr \<times> sched_run) list" where
  "visible_runs_on fs reg =
     dict_of (concat (map (\<lambda>root. filter (\<lambda>(r, x). root = [] \<or> run_root x = root) (snd (file_at fs root))) ([] # reg)))"

abbreviation disk_tasks :: "scheduler \<Rightarrow> (ustr \<times> sched_task) list" where
  "disk_tasks s \<equiv> visible_tasks_on (files s) (registry s)"

abbreviation disk_runs :: "scheduler \<Rightarrow> (ustr \<times> sched_run) list" where
  "disk_runs s \<equiv> visible_runs_on (files s) (registry s)"

text \<open>\<open>None\<close> is no next run; \<open>next_run_after\<close> answers in minutes.\<close>

definition next_run :: "sched_env \<Rightarrow> ustr \<Rightarrow> int \<Rightarrow> ustr \<Rightarrow> zone_error + int option" where
  "next_run env expr at tz = map_sum id (map_option (\<lambda>m. m * 60)) (next_run_after (clocks env) expr at tz 366)"

definition stored_next_run :: "sched_env \<Rightarrow> sched_task \<Rightarrow> zone_error + int option" where
  "stored_next_run env t =
     (if deleted_at t \<noteq> None then Inr None
      else case next_run_at t of
        Some n \<Rightarrow> Inr (Some n)
      | None \<Rightarrow>
          (case (case last_run_at t of Some a \<Rightarrow> Some a | None \<Rightarrow> created_at t) of
             None \<Rightarrow> Inr None
           | Some anchor \<Rightarrow> next_run env (schedule t) anchor (timezone t)))"

definition missed_schedule_points :: "sched_env \<Rightarrow> sched_task \<Rightarrow> int \<Rightarrow> zone_error + int list" where
  "missed_schedule_points env t now =
     map_sum id (\<lambda>due. case due of None \<Rightarrow> [] | Some d \<Rightarrow> if d \<le> now then [d] else []) (stored_next_run env t)"

text \<open>Loading one task: a stored schedule that can no longer be computed is unusable (the flag).\<close>

definition load_task :: "sched_env \<Rightarrow> sched_task \<Rightarrow> sched_task \<times> bool" where
  "load_task env t =
     (if deleted_at t \<noteq> None then (t\<lparr>next_run_at := None\<rparr>, False)
      else if enabled t then
       (case schedule_timezone (clocks env) (timezone t) of
          Inl _ \<Rightarrow> (t\<lparr>next_run_at := None\<rparr>, True)
        | Inr _ \<Rightarrow>
            if parse_cron_expression (schedule t) = None then (t\<lparr>next_run_at := None\<rparr>, True)
            else (case stored_next_run env t of
                    Inl _ \<Rightarrow> (t\<lparr>next_run_at := None\<rparr>, True)
                  | Inr n \<Rightarrow> (t\<lparr>next_run_at := n\<rparr>, False)))
      else (t\<lparr>next_run_at := None\<rparr>, False))"

text \<open>A new process: everything but the disk is gone.\<close>

definition load :: "sched_env \<Rightarrow> scheduler \<Rightarrow> scheduler" where
  "load env s =
     (let loaded = map (\<lambda>(k, t). (k, load_task env t)) (disk_tasks s);
          kept = filter (\<lambda>(k, r). task_id r \<noteq> []) (disk_runs s) in
      \<lparr>tasks = map (\<lambda>(k, p). (k, fst p)) loaded, run_heap = kept, runs = map fst kept, workers = [],
       run_tasks = [], unusable = map fst (filter (\<lambda>(k, p). snd p) loaded), is_running = False,
       next_wid = next_wid s, saved_roots = roots_of (map (\<lambda>(k, p). (k, fst p)) loaded) kept,
       files = files s, registry = registry s\<rparr>)"

definition empty_scheduler :: scheduler where
  "empty_scheduler = \<lparr>tasks = [], run_heap = [], runs = [], workers = [], run_tasks = [], unusable = [],
     is_running = False, next_wid = 0, saved_roots = [], files = [], registry = []\<rparr>"

section \<open>Tasks\<close>

definition expired :: "int \<Rightarrow> sched_task \<Rightarrow> bool" where
  "expired now t \<longleftrightarrow> deleted_at t = None \<and> recurring t \<and> auto_expire t
     \<and> (case created_at t of None \<Rightarrow> False | Some c \<Rightarrow> SCHEDULED_TASK_MAX_AGE_SECONDS < now - c)"

definition sweep_expired :: "int \<Rightarrow> disk_fault \<Rightarrow> scheduler \<Rightarrow> sched_error option \<times> scheduler" where
  "sweep_expired now fault s =
     (let s1 = s\<lparr>tasks := map (\<lambda>(k, t). (k, if expired now t then t\<lparr>deleted_at := Some now, next_run_at := None\<rparr> else t))
                 (tasks s)\<rparr> in
      if \<exists>p \<in> set (tasks s). expired now (snd p) then save fault s1 else (None, s))"

definition visible_tasks :: "scheduler \<Rightarrow> (ustr \<times> sched_task) list" where
  "visible_tasks s = filter (\<lambda>(k, t). deleted_at t = None) (tasks s)"

text \<open>
  \<open>list_tasks\<close> sweeps first; its rows are the visible tasks, and the tasks whose next run cannot be
  computed become unusable.
\<close>

definition list_tasks ::
    "sched_env \<Rightarrow> int \<Rightarrow> disk_fault \<Rightarrow> ustr option \<Rightarrow> scheduler \<Rightarrow> (sched_error + (ustr \<times> sched_task) list) \<times> scheduler" where
  "list_tasks env now fault root s =
     (case sweep_expired now fault s of
        (Some e, s1) \<Rightarrow> (Inl e, s1)
      | (None, s1) \<Rightarrow>
          (let rows = filter (\<lambda>(k, t). case root of None \<Rightarrow> True
                 | Some r \<Rightarrow> workspace_root t = normalize_workspace_root env r) (visible_tasks s1);
               broken = map fst (filter (\<lambda>(k, t). enabled t \<and> (case stored_next_run env t of Inl _ \<Rightarrow> True | Inr _ \<Rightarrow> False)) rows) in
           (Inr rows, s1\<lparr>unusable := unusable s1 @ filter (\<lambda>k. k \<notin> set (unusable s1)) broken\<rparr>)))"

record new_task =
  nt_name :: ustr
  nt_prompt :: ustr
  nt_schedule :: ustr
  nt_mode :: ustr
  nt_root :: ustr
  nt_conversation :: ustr
  nt_timezone :: ustr
  nt_isolation :: ustr
  nt_recurring :: bool
  nt_auto_expire :: bool

text \<open>\<open>k\<close> is the fresh id; the two faults are those of the saves of the sweep and of the task.\<close>

definition add_task ::
    "sched_env \<Rightarrow> int \<Rightarrow> disk_fault \<Rightarrow> disk_fault \<Rightarrow> ustr \<Rightarrow> new_task \<Rightarrow> scheduler \<Rightarrow> (sched_error + ustr) \<times> scheduler" where
  "add_task env now fault1 fault2 k n s =
     (case list_tasks env now fault1 None s of
        (Inl e, s1) \<Rightarrow> (Inl e, s1)
      | (Inr rows, s1) \<Rightarrow>
          (let tz = ustrip (nt_timezone n) in
           if MAX_SCHEDULED_JOBS \<le> length rows then (Inl TooManyJobs, s1)
           else if tz \<noteq> [] \<and> \<not> is_valid_timezone (clocks env) tz then (Inl BadTimezone, s1)
           else (case next_run env (nt_schedule n) now tz of
              Inl e \<Rightarrow> (Inl (ZoneFailed e), s1)
            | Inr due \<Rightarrow>
               (let t = \<lparr>name = nt_name n, prompt = nt_prompt n, schedule = nt_schedule n,
                         permission_mode = nt_mode n, timezone = tz,
                         isolation = (if nt_isolation n = u ''workspace'' then u ''workspace'' else u ''worktree''),
                         recurring = nt_recurring n, auto_expire = nt_auto_expire n, deleted_at = None,
                         workspace_root = normalize_workspace_root env (nt_root n),
                         conversation_id = nt_conversation n, enabled = True, created_at = Some now,
                         last_run_at = None, next_run_at = due, last_run_id = None,
                         last_run_status = None, last_error = None\<rparr> in
                case save fault2 (s1\<lparr>tasks := AList.update k t (tasks s1)\<rparr>) of
                  (Some e, s2) \<Rightarrow> (Inl e, s2)
                | (None, s2) \<Rightarrow> (Inr k, s2)))))"

definition remove_task ::
    "sched_env \<Rightarrow> disk_fault \<Rightarrow> ustr \<Rightarrow> ustr option \<Rightarrow> scheduler \<Rightarrow> (sched_error + bool) \<times> scheduler" where
  "remove_task env fault k root s =
     (case map_of (tasks s) k of
        None \<Rightarrow> (Inr False, s)
      | Some t \<Rightarrow>
          if \<not> workspace_matches env (workspace_root t) root then (Inr False, s)
          else (case save fault (s\<lparr>tasks := AList.delete k (tasks s)\<rparr>) of
                  (Some e, s1) \<Rightarrow> (Inl e, s1) | (None, s1) \<Rightarrow> (Inr True, s1)))"

definition toggle_task ::
    "sched_env \<Rightarrow> int \<Rightarrow> disk_fault \<Rightarrow> ustr \<Rightarrow> bool \<Rightarrow> ustr option \<Rightarrow> scheduler \<Rightarrow> (sched_error + bool) \<times> scheduler" where
  "toggle_task env now fault k on root s =
     (case map_of (tasks s) k of
        None \<Rightarrow> (Inr False, s)
      | Some t \<Rightarrow>
          if deleted_at t \<noteq> None \<or> \<not> workspace_matches env (workspace_root t) root then (Inr False, s)
          else if on \<and> timezone t \<noteq> [] \<and> \<not> is_valid_timezone (clocks env) (timezone t) then (Inl BadTimezone, s)
          else
           (let s1 = set_task k (\<lambda>t. t\<lparr>enabled := on\<rparr>) (s\<lparr>unusable := filter (\<lambda>x. x \<noteq> k) (unusable s)\<rparr>) in
            case (if on then next_run env (schedule t) now (timezone t) else Inr None) of
              Inl e \<Rightarrow> (Inl (ZoneFailed e), s1)
            | Inr due \<Rightarrow>
                (case save fault (set_task k (\<lambda>t. t\<lparr>next_run_at := due\<rparr>) s1) of
                   (Some e, s2) \<Rightarrow> (Inl e, s2) | (None, s2) \<Rightarrow> (Inr True, s2))))"

section \<open>Workers\<close>

text \<open>\<open>_active_run_for_task\<close>: a listed run of the task whose worker is not done.\<close>

definition active_run_for_task :: "scheduler \<Rightarrow> ustr \<Rightarrow> ustr option" where
  "active_run_for_task s k =
     map_option fst (find (\<lambda>(r, wid).
        (case (get_run s r, map_of (workers s) wid) of
           (Some run, Some w) \<Rightarrow> task_id run = k \<and> live w
         | _ \<Rightarrow> False)) (run_tasks s))"

text \<open>\<open>_start_worker\<close>: the new worker replaces any earlier entry of the run.\<close>

definition spawn :: "phase \<Rightarrow> ustr \<Rightarrow> sched_task \<Rightarrow> ustr \<Rightarrow> scheduler \<Rightarrow> scheduler" where
  "spawn ph k t r s =
     s\<lparr>workers := (next_wid s, \<lparr>w_run = r, w_task = k, w_root = workspace_root t, w_phase = ph, w_cancel = False\<rparr>)
          # workers s,
       run_tasks := AList.update r (next_wid s) (run_tasks s), next_wid := next_wid s + 1\<rparr>"

definition new_run :: "ustr \<Rightarrow> sched_task \<Rightarrow> int \<Rightarrow> ustr \<Rightarrow> sched_run" where
  "new_run k t due conversation =
     \<lparr>task_id = k, scheduled_at = due, started_at = None, finished_at = None, status = PENDING,
      run_conversation = (if conversation \<noteq> [] then conversation else conversation_id t),
      run_root = workspace_root t, result_summary = [], error = [], cleanup_pending = False,
      cleanup_reason = [], cleanup_requested_at = None, cleanup_completed_at = None\<rparr>"

definition claim_task :: "int \<Rightarrow> int option option \<Rightarrow> ustr \<Rightarrow> sched_task \<Rightarrow> sched_task" where
  "claim_task now next r t =
     (let t1 = t\<lparr>last_run_at := Some now, last_run_id := Some r, last_run_status := Some PENDING, last_error := None\<rparr> in
      if \<not> recurring t then t1\<lparr>next_run_at := None, deleted_at := Some now\<rparr>
      else (case next of None \<Rightarrow> t1 | Some n \<Rightarrow> t1\<lparr>next_run_at := n\<rparr>))"

text \<open>
  A claim that could not be saved: the six saved fields of the task go back, the run and its worker leave the
  dictionaries and the worker is cancelled at its gate. The run object, which only that worker still
  refers to, is dropped.
\<close>

definition restore_task :: "sched_task \<Rightarrow> sched_task \<Rightarrow> sched_task" where
  "restore_task previous t =
     t\<lparr>last_run_at := last_run_at previous, next_run_at := next_run_at previous, deleted_at := deleted_at previous,
       last_run_id := last_run_id previous, last_run_status := last_run_status previous,
       last_error := last_error previous\<rparr>"

definition unclaim :: "ustr \<Rightarrow> sched_task \<Rightarrow> ustr \<Rightarrow> nat \<Rightarrow> scheduler \<Rightarrow> scheduler" where
  "unclaim k previous r wid s =
     (set_task k (restore_task previous) s)
       \<lparr>runs := filter (\<lambda>x. x \<noteq> r) (runs s), run_tasks := AList.delete r (run_tasks s),
        workers := upd wid (\<lambda>w. w\<lparr>w_phase := Revoked, w_cancel := True\<rparr>) (workers s), run_heap := AList.delete r (run_heap s)\<rparr>"

text \<open>
  \<open>_schedule_fire\<close> on the task \<open>t\<close> listed under \<open>k\<close>, with the fresh run id \<open>r\<close>. When the save fails
  the claim is undone; when the zone of the schedule is unknown the exception leaves the gated worker
  behind.
\<close>

definition schedule_fire ::
    "sched_env \<Rightarrow> int \<Rightarrow> disk_fault \<Rightarrow> ustr \<Rightarrow> ustr \<Rightarrow> sched_task \<Rightarrow> int \<Rightarrow> bool \<Rightarrow> ustr \<Rightarrow> bool \<Rightarrow> scheduler
      \<Rightarrow> (sched_error + ustr) \<times> scheduler" where
  "schedule_fire env now fault r k t due consume conversation allow_deleted s =
     (if deleted_at t \<noteq> None \<and> \<not> allow_deleted then (Inl DeletedTask, s)
      else
       (let s1 = (spawn Gated k t r s)\<lparr>run_heap := AList.update r (new_run k t due conversation) (run_heap s),
                    runs := r # filter (\<lambda>x. x \<noteq> r) (runs s)\<rparr> in
        case (if recurring t \<and> consume then map_sum id Some (next_run env (schedule t) now (timezone t)) else Inr None) of
          Inl e \<Rightarrow> (Inl (ZoneFailed e), set_task k (\<lambda>t. t\<lparr>last_run_at := Some now\<rparr>) s1)
        | Inr next \<Rightarrow>
           (case save fault (set_task k (claim_task now next r) s1) of
              (Some e, s2) \<Rightarrow> (Inl e, unclaim k t r (next_wid s) s2)
            | (None, s2) \<Rightarrow> (Inr r, set_worker (next_wid s) (\<lambda>w. w\<lparr>w_phase := Ready\<rparr>) s2))))"

definition run_now ::
    "sched_env \<Rightarrow> int \<Rightarrow> disk_fault \<Rightarrow> ustr \<Rightarrow> ustr \<Rightarrow> ustr option \<Rightarrow> scheduler \<Rightarrow> (sched_error + ustr option) \<times> scheduler" where
  "run_now env now fault r k root s =
     (case map_of (tasks s) k of
        None \<Rightarrow> (Inr None, s)
      | Some t \<Rightarrow>
          if deleted_at t \<noteq> None \<or> \<not> workspace_matches env (workspace_root t) root then (Inr None, s)
          else (case active_run_for_task s k of
                  Some a \<Rightarrow> (Inr (Some a), s)
                | None \<Rightarrow> (case schedule_fire env now fault r k t now False [] False s of
                             (res, s1) \<Rightarrow> (map_sum id Some res, s1))))"

definition retry_run ::
    "sched_env \<Rightarrow> int \<Rightarrow> disk_fault \<Rightarrow> ustr \<Rightarrow> ustr \<Rightarrow> ustr option \<Rightarrow> scheduler \<Rightarrow> (sched_error + ustr option) \<times> scheduler" where
  "retry_run env now fault r prev root s =
     (case get_run s prev of
        None \<Rightarrow> (Inr None, s)
      | Some p \<Rightarrow>
          if \<not> workspace_matches env (run_root p) root then (Inr None, s)
          else (case map_of (tasks s) (task_id p) of
             None \<Rightarrow> (Inr None, s)
           | Some t \<Rightarrow>
               if deleted_at t \<noteq> None \<and> recurring t then (Inr None, s)
               else (case active_run_for_task s (task_id p) of
                  Some a \<Rightarrow> (Inr (Some a), s)
                | None \<Rightarrow> (case schedule_fire env now fault r (task_id p) t now False (run_conversation p) (\<not> recurring t) s of
                             (res, s1) \<Rightarrow> (map_sum id Some res, s1)))))"

section \<open>The tick\<close>

definition tick_one ::
    "sched_env \<Rightarrow> int \<Rightarrow> (ustr \<Rightarrow> disk_fault) \<Rightarrow> (ustr \<Rightarrow> ustr) \<Rightarrow> ustr \<Rightarrow> scheduler \<Rightarrow> sched_error option \<times> scheduler" where
  "tick_one env now fault fresh k s =
     (case map_of (tasks s) k of
        None \<Rightarrow> (None, s)
      | Some t \<Rightarrow>
          if deleted_at t \<noteq> None \<or> \<not> enabled t \<or> active_run_for_task s k \<noteq> None \<or> k \<in> set (unusable s) then (None, s)
          else (case missed_schedule_points env t now of
             Inl _ \<Rightarrow> (None, s\<lparr>unusable := unusable s @ [k]\<rparr>)
           | Inr points \<Rightarrow>
               if points = [] then (None, s)
               else (case schedule_fire env now (fault k) (fresh k) k t (last points) True [] False s of
                       (Inl SaveFailed, s1) \<Rightarrow> (None, s1)
                     | (Inl e, s1) \<Rightarrow> (Some e, s1)
                     | (Inr _, s1) \<Rightarrow> (None, s1))))"

fun tick_all ::
    "sched_env \<Rightarrow> int \<Rightarrow> (ustr \<Rightarrow> disk_fault) \<Rightarrow> (ustr \<Rightarrow> ustr) \<Rightarrow> ustr list \<Rightarrow> scheduler \<Rightarrow> sched_error option \<times> scheduler" where
  "tick_all env now fault fresh [] s = (None, s)"
| "tick_all env now fault fresh (k # ks) s =
     (case tick_one env now fault fresh k s of
        (Some e, s1) \<Rightarrow> (Some e, s1)
      | (None, s1) \<Rightarrow> tick_all env now fault fresh ks s1)"

definition tick ::
    "sched_env \<Rightarrow> int \<Rightarrow> disk_fault \<Rightarrow> (ustr \<Rightarrow> disk_fault) \<Rightarrow> (ustr \<Rightarrow> ustr) \<Rightarrow> scheduler \<Rightarrow> sched_error option \<times> scheduler" where
  "tick env now sweep_fault fault fresh s =
     (case sweep_expired now sweep_fault s of
        (Some e, s1) \<Rightarrow> (Some e, s1)
      | (None, s1) \<Rightarrow> tick_all env now fault fresh (map fst (tasks s1)) s1)"

section \<open>Runs\<close>

definition bind_run_conversation :: "disk_fault \<Rightarrow> ustr \<Rightarrow> ustr \<Rightarrow> scheduler \<Rightarrow> sched_error option \<times> scheduler" where
  "bind_run_conversation fault r conversation s =
     (if get_run s r = None then (Some MissingRun, s)
      else save fault (set_run r (\<lambda>x. x\<lparr>run_conversation := conversation\<rparr>) s))"

definition mark_cancelled :: "int \<Rightarrow> ustr \<Rightarrow> sched_run \<Rightarrow> sched_run" where
  "mark_cancelled now reason x =
     x\<lparr>status := CANCELLED, finished_at := Some now, cleanup_pending := True, cleanup_reason := reason,
       cleanup_requested_at := Some now, cleanup_completed_at := None\<rparr>"

definition cancel_run ::
    "sched_env \<Rightarrow> int \<Rightarrow> disk_fault \<Rightarrow> ustr \<Rightarrow> ustr option \<Rightarrow> scheduler \<Rightarrow> (sched_error + bool) \<times> scheduler" where
  "cancel_run env now fault r root s =
     (case (map_of (run_tasks s) r, get_run s r) of
        (Some wid, Some run) \<Rightarrow>
          (case map_of (workers s) wid of
             None \<Rightarrow> (Inr False, s)
           | Some w \<Rightarrow>
               if \<not> live w \<or> \<not> workspace_matches env (run_root run) root then (Inr False, s)
               else (case save fault (set_run r (mark_cancelled now (u ''cancel_requested''))
                               (set_worker wid (\<lambda>w. w\<lparr>w_cancel := True\<rparr>) s)) of
                       (Some e, s1) \<Rightarrow> (Inl e, s1) | (None, s1) \<Rightarrow> (Inr True, s1)))
      | _ \<Rightarrow> (Inr False, s))"

text \<open>
  \<open>destroy_for_conversation\<close> up to its wait: the tasks and runs of the conversation as they are now,
  and their live workers, cancelled. After the wait (of five seconds) it goes on with these.
\<close>

record destruction =
  d_tasks :: "ustr list"
  d_runs :: "ustr list"
  d_workers :: "nat list"

definition live_worker :: "scheduler \<Rightarrow> nat \<Rightarrow> bool" where
  "live_worker s wid \<longleftrightarrow> (case map_of (workers s) wid of Some w \<Rightarrow> live w | None \<Rightarrow> False)"

definition cancel_workers :: "nat list \<Rightarrow> scheduler \<Rightarrow> scheduler" where
  "cancel_workers wids s =
     s\<lparr>workers := map (\<lambda>(i, w). (i, if i \<in> set wids then w\<lparr>w_cancel := True\<rparr> else w)) (workers s)\<rparr>"

definition destroy_begin :: "ustr \<Rightarrow> scheduler \<Rightarrow> destruction option \<times> scheduler" where
  "destroy_begin conversation s =
     (let owner = ustrip conversation in
      if owner = [] then (None, s)
      else
       (let ts = map fst (filter (\<lambda>(k, t). ustrip (conversation_id t) = owner) (tasks s));
            rs = map fst (filter (\<lambda>(r, x). task_id x \<in> set ts \<or> ustrip (run_conversation x) = owner) (listed_runs s));
            ws = map snd (filter (\<lambda>(r, wid). r \<in> set rs \<and> live_worker s wid) (run_tasks s)) in
        (Some \<lparr>d_tasks = ts, d_runs = rs, d_workers = ws\<rparr>, cancel_workers ws s)))"

definition destroy_finish :: "disk_fault \<Rightarrow> destruction \<Rightarrow> scheduler \<Rightarrow> (sched_error + nat) \<times> scheduler" where
  "destroy_finish fault d s =
     (if \<exists>wid \<in> set (d_workers d). live_worker s wid then (Inl StillRunning, s)
      else
       (let s1 = s\<lparr>run_tasks := filter (\<lambda>(r, wid). r \<notin> set (d_runs d)) (run_tasks s),
                   runs := filter (\<lambda>r. r \<notin> set (d_runs d)) (runs s),
                   tasks := filter (\<lambda>(k, t). k \<notin> set (d_tasks d)) (tasks s)\<rparr>;
            n = length (d_tasks d) + length (d_runs d) in
        if d_tasks d = [] \<and> d_runs d = [] then (Inr n, s1)
        else (case save fault s1 of (Some e, s2) \<Rightarrow> (Inl e, s2) | (None, s2) \<Rightarrow> (Inr n, s2))))"

section \<open>Starting and stopping\<close>

definition fail_run :: "int \<Rightarrow> ustr \<Rightarrow> sched_run \<Rightarrow> sched_run" where
  "fail_run now msg x = x\<lparr>status := FAILED, finished_at := Some now, error := msg\<rparr>"

record reconciling =
  rc_state :: scheduler
  rc_pending :: "(ustr \<times> ustr) list"  \<comment> \<open>task id and run id\<close>
  rc_changed :: bool

definition reconcile_one :: "int \<Rightarrow> ustr \<Rightarrow> reconciling \<Rightarrow> reconciling" where
  "reconcile_one now r c =
     (let s = rc_state c in
      case map_of (run_heap s) r of
        None \<Rightarrow> c
      | Some run \<Rightarrow>
         (let k = task_id run;
              c1 = (if status run = RUNNING then
                      c\<lparr>rc_state := set_run r (fail_run now (u ''interrupted by scheduler restart'')) s, rc_changed := True\<rparr>
                    else if status run = PENDING then
                      (if map_of (tasks s) k = None then
                         c\<lparr>rc_state := set_run r (fail_run now (u ''scheduled task definition is missing'')) s, rc_changed := True\<rparr>
                       else if k \<in> set (map fst (rc_pending c)) then
                         c\<lparr>rc_state := set_run r (fail_run now
                              (u ''duplicate pending run suppressed during scheduler restart'')) s, rc_changed := True\<rparr>
                       else c\<lparr>rc_pending := rc_pending c @ [(k, r)]\<rparr>)
                    else c) in
          case (map_of (run_heap (rc_state c1)) r, map_of (tasks (rc_state c1)) k) of
            (Some run1, Some t) \<Rightarrow>
              if status run1 = FAILED \<and> last_run_id t = Some r
              then c1\<lparr>rc_state := set_task k (\<lambda>t. t\<lparr>last_run_status := Some FAILED, last_error := Some (error run1)\<rparr>)
                     (rc_state c1)\<rparr>
              else c1
          | _ \<Rightarrow> c1))"

definition reconcile_orphaned_runs :: "int \<Rightarrow> scheduler \<Rightarrow> reconciling" where
  "reconcile_orphaned_runs now s =
     foldl (\<lambda>c r. reconcile_one now r c) \<lparr>rc_state = s, rc_pending = [], rc_changed = False\<rparr>
       (map fst (sort_key (\<lambda>(r, x). (scheduled_at x, r)) (listed_runs s)))"

definition replay :: "scheduler \<Rightarrow> ustr \<times> ustr \<Rightarrow> scheduler" where
  "replay s p = (case map_of (tasks s) (fst p) of None \<Rightarrow> s | Some t \<Rightarrow> spawn Ready (fst p) t (snd p) s)"

definition start :: "int \<Rightarrow> disk_fault \<Rightarrow> scheduler \<Rightarrow> sched_error option \<times> scheduler" where
  "start now fault s =
     (if is_running s then (None, s)
      else
       (let c = reconcile_orphaned_runs now s in
        case (if rc_changed c then save fault (rc_state c) else (None, rc_state c)) of
          (Some e, s1) \<Rightarrow> (Some e, s1)
        | (None, s1) \<Rightarrow> (None, (foldl replay s1 (rc_pending c))\<lparr>is_running := True\<rparr>)))"

text \<open>\<open>stop\<close> up to its wait for the cancelled workers, and after it.\<close>

definition stop_begin :: "scheduler \<Rightarrow> nat list \<times> scheduler" where
  "stop_begin s =
     (let ws = filter (live_worker s) (map snd (run_tasks s)) in
      (ws, cancel_workers ws (s\<lparr>is_running := False\<rparr>)))"

definition shut_down :: "int \<Rightarrow> sched_run \<Rightarrow> sched_run" where
  "shut_down now x =
     x\<lparr>status := CANCELLED, error := u ''cancelled during scheduler shutdown'', finished_at := Some now,
       cleanup_pending := True, cleanup_reason := u ''scheduler_shutdown_pending'',
       cleanup_requested_at := (case cleanup_requested_at x of Some t \<Rightarrow> Some t | None \<Rightarrow> Some now),
       cleanup_completed_at := None\<rparr>"

definition stop_finish :: "int \<Rightarrow> disk_fault \<Rightarrow> nat list \<Rightarrow> scheduler \<Rightarrow> sched_error option \<times> scheduler" where
  "stop_finish now fault ws s =
     (let still = filter (live_worker s) ws;
          stuck = filter (\<lambda>r. r \<in> set (runs s)) (map fst (filter (\<lambda>(r, wid). wid \<in> set still) (run_tasks s)));
          prune = (\<lambda>s. s\<lparr>run_tasks := filter (\<lambda>(r, wid). live_worker s wid) (run_tasks s)\<rparr>) in
      if still = [] then (None, prune s)
      else (case save fault (s\<lparr>run_heap := map (\<lambda>(r, x). (r, if r \<in> set stuck then shut_down now x else x)) (run_heap s)\<rparr>) of
              (Some e, s1) \<Rightarrow> (Some e, s1) | (None, s1) \<Rightarrow> (None, prune s1)))"

section \<open>Steps of a worker\<close>

text \<open>
  The first step: a worker cancelled before it ran never enters \<open>_fire_one\<close>. Otherwise the run is marked
  as running and saved, and the callback is entered. A worker whose gate is closed does not move.
\<close>

definition start_worker :: "sched_env \<Rightarrow> int \<Rightarrow> disk_fault \<Rightarrow> nat \<Rightarrow> scheduler \<Rightarrow> scheduler" where
  "start_worker env now fault wid s =
     (case map_of (workers s) wid of
        None \<Rightarrow> s
      | Some w \<Rightarrow>
          if w_phase w \<noteq> Ready \<and> \<not> ((w_phase w = Gated \<or> w_phase w = Revoked) \<and> w_cancel w) then s
          else if w_cancel w then set_worker wid (\<lambda>w. w\<lparr>w_phase := Finished Stopped\<rparr>) s
          else
           (let s1 = set_task (w_task w) (\<lambda>t. t\<lparr>last_run_status := Some RUNNING\<rparr>)
                      (set_run (w_run w) (\<lambda>x. x\<lparr>status := RUNNING, started_at := Some now\<rparr>) s);
                failed = (\<lambda>msg s. set_worker wid (\<lambda>w. w\<lparr>w_phase := Finished Returned\<rparr>)
                      (set_run (w_run w) (\<lambda>x. x\<lparr>status := FAILED, error := msg\<rparr>) s)) in
            case save fault s1 of
              (Some _, s2) \<Rightarrow> failed (take 4000 (save_error_text env)) s2
            | (None, s2) \<Rightarrow>
                if \<not> has_runner env then failed (u ''Scheduled task runner is not configured'') s2
                else set_worker wid (\<lambda>w. w\<lparr>w_phase := Executing\<rparr>) s2))"

text \<open>How the callback ends: a result, an exception, a cancellation, or an exception that is no \<open>Exception\<close>.\<close>

record cb_result =
  cb_status :: ustr
  cb_conversation :: ustr
  cb_root :: ustr
  cb_summary :: ustr
  cb_error :: ustr

datatype callback_end = Gives cb_result | Fails ustr | Cancels | Escapes ustr

definition final_status :: "ustr \<Rightarrow> ustr \<Rightarrow> ustr" where
  "final_status st err =
     (let given = (if st = [] then COMPLETED else st) in
      if given \<in> set [COMPLETED, PARTIAL, FAILED, CANCELLED] then given
      else if err = [] then COMPLETED else FAILED)"

definition record_result :: "sched_env \<Rightarrow> ustr \<Rightarrow> cb_result \<Rightarrow> sched_run \<Rightarrow> sched_run" where
  "record_result env root res x =
     (let reported = normalize_workspace_root env (cb_root res); err = take 4000 (cb_error res) in
      x\<lparr>status := final_status (cb_status res) err,
        run_conversation := (if cb_conversation res \<noteq> [] then cb_conversation res else run_conversation x),
        run_root := (if reported \<noteq> [] \<and> reported = root then reported else run_root x),
        result_summary := take 8000 (cb_summary res), error := err\<rparr>)"

definition end_worker :: "sched_env \<Rightarrow> nat \<Rightarrow> callback_end \<Rightarrow> scheduler \<Rightarrow> scheduler" where
  "end_worker env wid e s =
     (case map_of (workers s) wid of
        None \<Rightarrow> s
      | Some w \<Rightarrow>
          if w_phase w \<noteq> Executing then s
          else
           (let done = (\<lambda>o'. set_worker wid (\<lambda>w. w\<lparr>w_phase := Finished o'\<rparr>)) in
            case e of
              Gives res \<Rightarrow> done Returned (set_run (w_run w) (record_result env (w_root w) res) s)
            | Fails msg \<Rightarrow> done Returned (set_run (w_run w) (\<lambda>x. x\<lparr>status := FAILED, error := take 4000 msg\<rparr>) s)
            | Cancels \<Rightarrow> done Stopped (set_run (w_run w) (\<lambda>x. x\<lparr>status := CANCELLED, error := CANCELLED\<rparr>) s)
            | Escapes msg \<Rightarrow> done (Raised msg) s))"

text \<open>\<open>_finalize_worker\<close>, the callback of a worker that is done; its \<open>OSError\<close> is swallowed.\<close>

definition settle :: "int \<Rightarrow> outcome \<Rightarrow> sched_run \<Rightarrow> sched_run" where
  "settle now o' x =
     (let x1 = (if o' = Stopped \<or> cleanup_requested_at x \<noteq> None
                then x\<lparr>status := CANCELLED, error := (if error x = [] then CANCELLED else error x)\<rparr>
                else (case o' of Raised msg \<Rightarrow> x\<lparr>status := FAILED, error := take 4000 msg\<rparr> | _ \<Rightarrow> x));
          x2 = x1\<lparr>finished_at := Some now\<rparr> in
      if cleanup_requested_at x2 \<noteq> None then x2\<lparr>cleanup_pending := False, cleanup_completed_at := Some now\<rparr> else x2)"

definition finalize_worker :: "int \<Rightarrow> disk_fault \<Rightarrow> nat \<Rightarrow> scheduler \<Rightarrow> scheduler" where
  "finalize_worker now fault wid s =
     (case map_of (workers s) wid of
        None \<Rightarrow> s
      | Some w \<Rightarrow>
         (case w_phase w of
            Finished o' \<Rightarrow>
              (let gone = s\<lparr>workers := AList.delete wid (workers s)\<rparr> in
               if map_of (run_tasks s) (w_run w) \<noteq> Some wid then gone
               else
                (let s1 = set_run (w_run w) (settle now o') gone in
                 case map_of (run_heap s1) (w_run w) of
                   None \<Rightarrow> s1
                 | Some x \<Rightarrow>
                    snd (save fault ((set_task (w_task w)
                      (\<lambda>t. t\<lparr>last_run_id := Some (w_run w), last_run_status := Some (status x),
                             last_error := (if error x = [] then None else Some (error x))\<rparr>) s1)
                      \<lparr>run_tasks := AList.delete (w_run w) (run_tasks s)\<rparr>))))
          | _ \<Rightarrow> s))"

end
