(* ===== verification/SchedulerProps.thy ===== *)
theory SchedulerProps
  imports Scheduler
begin

text \<open>
  The scheduler as a transition system: every interleaving of its operations, the steps of its workers,
  failing saves and process restarts. Here are what a save leaves and a new process reads, the invariant of the reachable
  states (at most one live worker per task, no work without a durable claim, one-shot tasks claimed once, one root
  for a task and its runs in memory and in every file), and that claims keep it.
\<close>

named_theorems sched_simps

section \<open>Dictionaries\<close>

lemma upd_get [sched_simps]: "map_of (upd k f d) k' = (if k' = k then map_option f (map_of d k') else map_of d k')"
  by (induction d) (auto simp: upd_def)

lemma keyed_get [sched_simps]: "map_of (map (\<lambda>(k, v). (k, g k v)) d) k' = map_option (g k') (map_of d k')"
  by (induction d) auto

lemma keyed_keys [sched_simps]: "map fst (map (\<lambda>(k, v). (k, g k v)) d) = map fst d"
  by (induction d) auto

lemma upd_keys [sched_simps]: "map fst (upd k f d) = map fst d"
  by (induction d) (auto simp: upd_def)

lemma upd_in: "(k', v') \<in> set (upd k f d) \<longleftrightarrow> (\<exists>v. (k', v) \<in> set d \<and> v' = (if k' = k then f v else v))"
  by (induction d) (auto simp: upd_def)

lemma set_task_simps [sched_simps]:
  "tasks (set_task k f s) = upd k f (tasks s)" "run_heap (set_task k f s) = run_heap s"
  "runs (set_task k f s) = runs s" "workers (set_task k f s) = workers s" "run_tasks (set_task k f s) = run_tasks s"
  "files (set_task k f s) = files s" "registry (set_task k f s) = registry s"
  "next_wid (set_task k f s) = next_wid s"
  by (simp_all add: set_task_def)

lemma set_run_simps [sched_simps]:
  "tasks (set_run k f s) = tasks s" "run_heap (set_run k f s) = upd k f (run_heap s)"
  "runs (set_run k f s) = runs s" "workers (set_run k f s) = workers s" "run_tasks (set_run k f s) = run_tasks s"
  "files (set_run k f s) = files s" "registry (set_run k f s) = registry s"
  "next_wid (set_run k f s) = next_wid s"
  by (simp_all add: set_run_def)

lemma set_worker_simps [sched_simps]:
  "tasks (set_worker k f s) = tasks s" "run_heap (set_worker k f s) = run_heap s"
  "runs (set_worker k f s) = runs s" "workers (set_worker k f s) = upd k f (workers s)"
  "run_tasks (set_worker k f s) = run_tasks s" "files (set_worker k f s) = files s"
  "registry (set_worker k f s) = registry s" "next_wid (set_worker k f s) = next_wid s"
  by (simp_all add: set_worker_def)

lemma in_update: "(k', v') \<in> set (AList.update k v d) \<Longrightarrow> k' = k \<and> v' = v \<or> (k', v') \<in> set d"
  by (induction d) (auto split: if_splits)

section \<open>Saving\<close>

lemma history_set: "set (history s) \<subseteq> set (listed_runs s)"
proof -
  have "set (history s) \<subseteq> snd ` set (zip [0..<length (rev (sort_key run_key (listed_runs s)))] (rev (sort_key run_key (listed_runs s))))"
    by (auto simp: history_def Let_def)
  also have "\<dots> \<subseteq> set (rev (sort_key run_key (listed_runs s)))"
    by (auto dest: set_zip_rightD)
  finally show ?thesis by simp
qed

lemma owned_in_history:
  assumes "(r, x) \<in> set (listed_runs s)" "owned x"
  shows "(r, x) \<in> set (history s)"
proof -
  let ?o = "rev (sort_key run_key (listed_runs s))"
  from assms(1) have "(r, x) \<in> set ?o" by simp
  then obtain i where "i < length ?o" "?o ! i = (r, x)" by (meson in_set_conv_nth)
  then have "zip [0..<length ?o] ?o ! i = (i, (r, x))" "i < length (zip [0..<length ?o] ?o)"
    by simp_all
  then have "(i, (r, x)) \<in> set (zip [0..<length ?o] ?o)"
    by (metis nth_mem)
  with assms(2) show ?thesis by (force simp: history_def Let_def)
qed

lemma history_in_heap: "set (history s) \<subseteq> set (run_heap s)"
  using history_set [of s] by (auto simp: listed_runs_def)

lemma save_simps [sched_simps]:
  "tasks (snd (save fault s)) = tasks s" "run_heap (snd (save fault s)) = run_heap s"
  "workers (snd (save fault s)) = workers s" "run_tasks (snd (save fault s)) = run_tasks s"
  "next_wid (snd (save fault s)) = next_wid s"
  by (simp_all add: save_def write_files_def split: option.split)

lemma save_runs: "runs (snd (save fault s)) = (if fault = None then map fst (history s) else runs s)"
  by (simp add: save_def write_files_def split: option.split)

lemma save_result: "fst (save fault s) = (if fault = None then None else Some SaveFailed)"
  by (simp add: save_def split: option.split)

lemma written_get:
  "map_of (foldl (\<lambda>fs root. AList.update root (g root) fs) fs targets) root = (if root \<in> set targets then Some (g root) else map_of fs root)"
  by (induction targets arbitrary: fs) (auto simp: dict_simps)

lemma written_set: "set (foldl (\<lambda>fs root. AList.update root (g root) fs) fs targets) \<subseteq> set fs \<union> (\<lambda>root. (root, g root)) ` set targets"
proof (induction targets arbitrary: fs)
  case (Cons root targets)
  have "set (AList.update root (g root) fs) \<subseteq> insert (root, g root) (set fs)" by (induction fs) auto
  with Cons [of "AList.update root (g root) fs"] show ?case by auto
qed simp

text \<open>The file that a save leaves for a root.\<close>

lemma save_files:
  obtains "map_of (files (snd (save fault s))) root = Some (file_for s root)"
  | "map_of (files (snd (save fault s))) root = map_of (files s) root" "fault \<noteq> None \<or> root \<notin> set (save_targets s)"
proof (cases fault)
  case None
  then show thesis using that by (cases "root \<in> set (save_targets s)") (simp_all add: save_def write_files_def written_get)
next
  case (Some n)
  then show thesis using that by (cases "root \<in> set (take n (save_targets s))") (simp_all add: save_def write_files_def written_get)
qed

lemma save_files_set: "set (files (snd (save fault s))) \<subseteq> set (files s) \<union> range (\<lambda>root. (root, file_for s root))"
proof -
  have w: "set (foldl (\<lambda>fs root. AList.update root (file_for s root) fs) (files s) targets)
      \<subseteq> set (files s) \<union> range (\<lambda>root. (root, file_for s root))" for targets
    using written_set [of "file_for s" "files s" targets] by (rule subset_trans) blast
  show ?thesis by (cases fault) (simp_all add: save_def write_files_def w)
qed

lemma save_registry: "registry (snd (save fault s)) = (if fault = None then roots_of (tasks s) (history s) else registry s)"
  by (simp add: save_def write_files_def split: option.split)

lemma roots_of_set: "set (roots_of ts rs) = ((\<lambda>(k, t). workspace_root t) ` set ts \<union> (\<lambda>(r, x). run_root x) ` set rs) - {[]}"
  by (auto simp: roots_of_def)

section \<open>What a new process reads\<close>

lemma dict_of_facts:
  "dict_ok (dict_of es)" "fst ` set (dict_of es) = fst ` set es" "set (dict_of es) \<subseteq> set es"
proof -
  have "dict_ok d \<longrightarrow> dict_ok (foldl (\<lambda>d (k, v). AList.update k v d) d es)" for d
    by (induction es arbitrary: d) (auto simp: dict_ok_update)
  then show "dict_ok (dict_of es)" by (simp add: dict_of_def)
  have "fst ` set (foldl (\<lambda>d (k, v). AList.update k v d) d es) = fst ` set d \<union> fst ` set es" for d
  proof (induction es arbitrary: d)
    case (Cons e es)
    then show ?case by (cases e) (simp add: dom_update)
  qed simp
  then show "fst ` set (dict_of es) = fst ` set es" by (simp add: dict_of_def)
  have up: "set (AList.update k v d) \<subseteq> insert (k, v) (set d)" for k v and d :: "(ustr \<times> 'a) list" by (induction d) auto
  have "set (foldl (\<lambda>d (k, v). AList.update k v d) d es) \<subseteq> set d \<union> set es" for d
  proof (induction es arbitrary: d)
    case (Cons e es)
    obtain k v where e: "e = (k, v)" by (cases e)
    show ?case using Cons [of "AList.update k v d"] up [of k v d] by (auto simp: e)
  qed simp
  from this [of "[]"] show "set (dict_of es) \<subseteq> set es" by (simp add: dict_of_def)
qed

lemma visible_task:
  assumes "(k, t) \<in> set (visible_tasks_on fs reg)"
  obtains root f where "root \<in> insert [] (set reg)" "map_of fs root = Some f" "(k, t) \<in> set (fst f)"
proof -
  from subsetD [OF dict_of_facts(3) assms [unfolded visible_tasks_on_def]]
  obtain root where r: "root \<in> insert [] (set reg)" "(k, t) \<in> set (fst (file_at fs root))" by auto
  then obtain f where "map_of fs root = Some f" by (cases "map_of fs root") (simp_all add: file_at_def)
  with r that show thesis by (simp add: file_at_def)
qed

lemma visible_run:
  assumes "(r, x) \<in> set (visible_runs_on fs reg)"
  obtains root f where "root \<in> insert [] (set reg)" "map_of fs root = Some f" "(r, x) \<in> set (snd f)"
proof -
  from subsetD [OF dict_of_facts(3) assms [unfolded visible_runs_on_def]]
  obtain root where r: "root \<in> insert [] (set reg)" "(r, x) \<in> set (snd (file_at fs root))" by auto
  then obtain f where "map_of fs root = Some f" by (cases "map_of fs root") (simp_all add: file_at_def)
  with r that show thesis by (simp add: file_at_def)
qed

lemma visible_run_ids:
  "r \<in> fst ` set (visible_runs_on fs reg) \<longleftrightarrow>
     (\<exists>root \<in> insert [] (set reg). \<exists>x. (r, x) \<in> set (snd (file_at fs root)) \<and> (root = [] \<or> run_root x = root))"
  by (force simp: visible_runs_on_def dict_of_facts(2))

section \<open>The invariant\<close>

text \<open>
  A live worker is the registered worker of its run; the run is listed, belongs to the worker's task and
  still has an owner; past its gate, the run is on disk.
\<close>

definition worker_ok :: "scheduler \<Rightarrow> nat \<Rightarrow> worker \<Rightarrow> bool" where
  "worker_ok s wid w \<longleftrightarrow> map_of (run_tasks s) (w_run w) = Some wid \<and> w_run w \<in> set (runs s)
     \<and> (\<exists>x. map_of (run_heap s) (w_run w) = Some x \<and> task_id x = w_task w \<and> owned x)
     \<and> (w_phase w \<noteq> Gated \<longrightarrow> w_run w \<in> fst ` set (disk_runs s))"

definition workers_ok :: "scheduler \<Rightarrow> bool" where
  "workers_ok s \<longleftrightarrow>
     (\<forall>wid w. map_of (workers s) wid = Some w \<and> live w \<longrightarrow> worker_ok s wid w)
     \<and> (\<forall>i v j w. map_of (workers s) i = Some v \<and> map_of (workers s) j = Some w
          \<and> live v \<and> live w \<and> w_task v = w_task w \<longrightarrow> i = j)"

text \<open>Keys are unique and worker numbers are used once.\<close>

definition dicts_ok :: "scheduler \<Rightarrow> bool" where
  "dicts_ok s \<longleftrightarrow> dict_ok (tasks s) \<and> dict_ok (run_heap s)
     \<and> (\<forall>i \<in> fst ` set (workers s). i < next_wid s)"

text \<open>A one-shot task that was ever claimed is deleted, in memory and in every file.\<close>

definition spent_ok :: "(ustr \<times> sched_task) list \<Rightarrow> (ustr \<times> sched_run) list \<Rightarrow> bool" where
  "spent_ok ts rs \<longleftrightarrow> (\<forall>(k, t) \<in> set ts. \<not> recurring t \<and> (\<exists>(r, x) \<in> set rs. task_id x = k) \<longrightarrow> deleted_at t \<noteq> None)"

text \<open>The file of a root holds what belongs to the root.\<close>

definition files_ok :: "scheduler \<Rightarrow> bool" where
  "files_ok s \<longleftrightarrow> (\<forall>root f. map_of (files s) root = Some f \<longrightarrow>
     (\<forall>(k, t) \<in> set (fst f). workspace_root t = root) \<and> (\<forall>(r, x) \<in> set (snd f). run_root x = root) \<and> spent_ok (fst f) (snd f))"

text \<open>
  A task and its runs have one workspace root, in memory, in the workers and in every file, so that they are always
  written together.
\<close>

definition all_tasks :: "scheduler \<Rightarrow> (ustr \<times> sched_task) set" where
  "all_tasks s = set (tasks s) \<union> (\<Union>(root, f) \<in> set (files s). set (fst f))"

definition all_runs :: "scheduler \<Rightarrow> (ustr \<times> sched_run) set" where
  "all_runs s = set (run_heap s) \<union> (\<Union>(root, f) \<in> set (files s). set (snd f))"

datatype rooted = TaskOf ustr | RunOf ustr

definition task_roots :: "(ustr \<times> sched_task) set \<Rightarrow> (rooted \<times> ustr) set" where
  "task_roots ts = (\<lambda>(k, t). (TaskOf k, workspace_root t)) ` ts"

definition run_roots :: "(ustr \<times> sched_run) set \<Rightarrow> (rooted \<times> ustr) set" where
  "run_roots rs = (\<lambda>(r, x). (TaskOf (task_id x), run_root x)) ` rs \<union> (\<lambda>(r, x). (RunOf r, run_root x)) ` rs"

definition worker_roots :: "(nat \<times> worker) set \<Rightarrow> (rooted \<times> ustr) set" where
  "worker_roots ws = (\<lambda>(i, w). (TaskOf (w_task w), w_root w)) ` ws \<union> (\<lambda>(i, w). (RunOf (w_run w), w_root w)) ` ws"

definition roots :: "scheduler \<Rightarrow> (rooted \<times> ustr) set" where
  "roots s = task_roots (all_tasks s) \<union> run_roots (all_runs s) \<union> worker_roots (set (workers s))"

definition one_root :: "scheduler \<Rightarrow> bool" where
  "one_root s \<longleftrightarrow> single_valued (roots s)"

text \<open>Ids that are new.\<close>

definition fresh_run :: "scheduler \<Rightarrow> ustr \<Rightarrow> bool" where
  "fresh_run s r \<longleftrightarrow> r \<notin> fst ` set (run_heap s) \<and> RunOf r \<notin> Domain (roots s)"

definition fresh_task :: "scheduler \<Rightarrow> ustr \<Rightarrow> bool" where
  "fresh_task s k \<longleftrightarrow> TaskOf k \<notin> Domain (roots s)"

text \<open>A destruction under way: its live workers are the ones it waits for, and its runs are no new ones.\<close>

definition destruction_ok :: "scheduler \<Rightarrow> destruction \<Rightarrow> bool" where
  "destruction_ok s d \<longleftrightarrow> set (d_runs d) \<subseteq> fst ` set (run_heap s)
     \<and> (\<forall>wid w. map_of (workers s) wid = Some w \<and> live w \<and> w_run w \<in> set (d_runs d) \<longrightarrow> wid \<in> set (d_workers d))"

definition sched_inv :: "scheduler \<Rightarrow> bool" where
  "sched_inv s \<longleftrightarrow> workers_ok s \<and> dicts_ok s \<and> spent_ok (tasks s) (run_heap s) \<and> files_ok s \<and> one_root s"

section \<open>Workers and their runs\<close>

definition runs_live :: "scheduler \<Rightarrow> ustr \<Rightarrow> bool" where
  "runs_live s r \<longleftrightarrow> (\<exists>wid w. map_of (workers s) wid = Some w \<and> live w \<and> w_run w = r)"

text \<open>The part of the state the workers depend on.\<close>

definition same_core :: "scheduler \<Rightarrow> scheduler \<Rightarrow> bool" where
  "same_core s s' \<longleftrightarrow> workers s' = workers s \<and> run_tasks s' = run_tasks s \<and> runs s' = runs s
     \<and> run_heap s' = run_heap s \<and> files s' = files s \<and> registry s' = registry s"

lemma workers_ok_same: "same_core s s' \<Longrightarrow> workers_ok s' = workers_ok s"
  by (simp add: same_core_def workers_ok_def worker_ok_def)

lemma same_core_tasks [sched_simps]: "same_core s (set_task k f s)" "same_core s (s\<lparr>tasks := ts\<rparr>)" "same_core s (s\<lparr>unusable := us\<rparr>)"
  by (simp_all add: same_core_def sched_simps)

lemma workers_okD: "workers_ok s \<Longrightarrow> map_of (workers s) wid = Some w \<Longrightarrow> live w \<Longrightarrow> worker_ok s wid w"
  by (auto simp: workers_ok_def)

lemma live_run_in_heap: "workers_ok s \<Longrightarrow> runs_live s r \<Longrightarrow> r \<in> fst ` set (run_heap s)"
proof -
  assume "workers_ok s" "runs_live s r"
  then obtain wid w where "worker_ok s wid w" "w_run w = r" by (auto simp: runs_live_def dest: workers_okD)
  then obtain x where "map_of (run_heap s) r = Some x" by (auto simp: worker_ok_def)
  then show ?thesis by (metis fst_conv image_eqI map_of_SomeD)
qed

lemma live_unique_run:
  "workers_ok s \<Longrightarrow> map_of (workers s) i = Some v \<Longrightarrow> live v \<Longrightarrow>
   map_of (workers s) j = Some w \<Longrightarrow> live w \<Longrightarrow> w_run v = w_run w \<Longrightarrow> i = j"
  using workers_okD [of s i v] workers_okD [of s j w] by (auto simp: worker_ok_def)

text \<open>Fewer live workers, on the same runs, which keep their task and owner.\<close>

lemma workers_ok_step:
  assumes "workers_ok s"
    and "\<And>wid w'. map_of (workers s') wid = Some w' \<Longrightarrow> live w' \<Longrightarrow>
      \<exists>w. map_of (workers s) wid = Some w \<and> live w \<and> w_run w' = w_run w \<and> w_task w' = w_task w
        \<and> (w_phase w' \<noteq> Gated \<longrightarrow> w_phase w \<noteq> Gated \<or> w_run w \<in> fst ` set (disk_runs s'))"
    and "\<And>wid w. map_of (workers s') wid = Some w \<Longrightarrow> live w \<Longrightarrow> map_of (run_tasks s) (w_run w) = Some wid \<Longrightarrow>
      map_of (run_tasks s') (w_run w) = Some wid"
    and "\<And>r. runs_live s' r \<Longrightarrow> r \<in> set (runs s) \<Longrightarrow> r \<in> set (runs s')"
    and "\<And>r x. runs_live s' r \<Longrightarrow> map_of (run_heap s) r = Some x \<Longrightarrow> owned x \<Longrightarrow>
      \<exists>x'. map_of (run_heap s') r = Some x' \<and> task_id x' = task_id x \<and> owned x'"
    and "\<And>r. runs_live s' r \<Longrightarrow> r \<in> fst ` set (disk_runs s) \<Longrightarrow> r \<in> fst ` set (disk_runs s')"
  shows "workers_ok s'"
  unfolding workers_ok_def
proof (intro conjI allI impI)
  fix wid w'
  assume w': "map_of (workers s') wid = Some w' \<and> live w'"
  then obtain w where w: "map_of (workers s) wid = Some w" "live w" "w_run w' = w_run w" "w_task w' = w_task w"
    "w_phase w' \<noteq> Gated \<longrightarrow> w_phase w \<noteq> Gated \<or> w_run w \<in> fst ` set (disk_runs s')"
    using assms(2) by blast
  have r: "runs_live s' (w_run w)" using w' w(3) by (auto simp: runs_live_def)
  from workers_okD [OF assms(1) w(1,2)] have wok: "worker_ok s wid w" .
  then obtain x where "map_of (run_heap s) (w_run w) = Some x" "task_id x = w_task w" "owned x"
    by (auto simp: worker_ok_def)
  with assms(5) [OF r] have "\<exists>x'. map_of (run_heap s') (w_run w) = Some x' \<and> task_id x' = w_task w \<and> owned x'"
    by metis
  moreover have "map_of (run_tasks s') (w_run w) = Some wid"
    using assms(3) [of wid w'] w' w(3) wok by (simp add: worker_ok_def)
  ultimately show "worker_ok s' wid w'"
    using assms(4,6) [OF r] wok w(3,4,5) by (auto simp: worker_ok_def)
next
  fix i v' j w'
  assume h: "map_of (workers s') i = Some v' \<and> map_of (workers s') j = Some w' \<and> live v' \<and> live w' \<and> w_task v' = w_task w'"
  obtain v where "map_of (workers s) i = Some v" "live v" "w_task v' = w_task v" using assms(2) h by metis
  moreover obtain w where "map_of (workers s) j = Some w" "live w" "w_task w' = w_task w" using assms(2) h by metis
  ultimately show "i = j" using assms(1) h by (auto simp: workers_ok_def)
qed

lemma listed_run: "map_of (run_heap s) r = Some x \<Longrightarrow> r \<in> set (runs s) \<Longrightarrow> (r, x) \<in> set (listed_runs s)"
  by (auto simp: listed_runs_def dest: map_of_SomeD)

lemma files_okD:
  assumes "files_ok s" "map_of (files s) root = Some f"
  shows "(k, t) \<in> set (fst f) \<Longrightarrow> workspace_root t = root" "(r, x) \<in> set (snd f) \<Longrightarrow> run_root x = root" "spent_ok (fst f) (snd f)"
  using assms unfolding files_ok_def by blast+

text \<open>A live run that is on disk stays there, and is there after a save that succeeds.\<close>

lemma one_rootD: "one_root s \<Longrightarrow> (k, p) \<in> roots s \<Longrightarrow> (k, q) \<in> roots s \<Longrightarrow> p = q"
  unfolding one_root_def by (rule single_valuedD)

lemma roots_intro [intro]:
  "(k, t) \<in> set (tasks s) \<Longrightarrow> (TaskOf k, workspace_root t) \<in> roots s"
  "(r, x) \<in> set (run_heap s) \<Longrightarrow> (TaskOf (task_id x), run_root x) \<in> roots s"
  "(r, x) \<in> set (run_heap s) \<Longrightarrow> (RunOf r, run_root x) \<in> roots s"
  "(i, w) \<in> set (workers s) \<Longrightarrow> (TaskOf (w_task w), w_root w) \<in> roots s"
  "(i, w) \<in> set (workers s) \<Longrightarrow> (RunOf (w_run w), w_root w) \<in> roots s"
  "(root, f) \<in> set (files s) \<Longrightarrow> (k, t) \<in> set (fst f) \<Longrightarrow> (TaskOf k, workspace_root t) \<in> roots s"
  "(root, f) \<in> set (files s) \<Longrightarrow> (r, x) \<in> set (snd f) \<Longrightarrow> (TaskOf (task_id x), run_root x) \<in> roots s"
  "(root, f) \<in> set (files s) \<Longrightarrow> (r, x) \<in> set (snd f) \<Longrightarrow> (RunOf r, run_root x) \<in> roots s"
  unfolding roots_def task_roots_def run_roots_def worker_roots_def all_tasks_def all_runs_def by force+

lemma live_in_history:
  assumes "workers_ok s" "runs_live s r"
  obtains x where "(r, x) \<in> set (history s)"
proof -
  obtain wid w where "worker_ok s wid w" "w_run w = r" using assms by (auto simp: runs_live_def dest: workers_okD)
  then obtain x where "map_of (run_heap s) r = Some x" "owned x" "r \<in> set (runs s)" by (auto simp: worker_ok_def)
  then have "(r, x) \<in> set (history s)" by (intro owned_in_history listed_run)
  then show thesis by (rule that)
qed

lemma file_at_get: "map_of fs root = Some f \<Longrightarrow> file_at fs root = f"
  by (simp add: file_at_def)

lemma save_shows:
  assumes x: "(r, x) \<in> set (history s)"
  shows "r \<in> fst ` set (disk_runs (snd (save None s)))"
proof -
  let ?root = "run_root x" and ?fs = "files (snd (save None s))"
  have target: "?root \<in> set (save_targets s)" and listed: "?root \<in> insert [] (set (roots_of (tasks s) (history s)))"
    using x by (force simp: save_targets_def roots_of_set)+
  have "map_of ?fs ?root = Some (file_for s ?root)"
    by (rule save_files [of None s ?root]) (use target in auto)
  moreover have "(r, x) \<in> set (snd (file_for s ?root))" using x by (simp add: file_for_def)
  ultimately have "\<exists>y. (r, y) \<in> set (snd (file_at ?fs ?root)) \<and> (?root = [] \<or> run_root y = ?root)"
    by (auto simp: file_at_get)
  then show ?thesis using listed unfolding visible_run_ids save_registry if_P [OF refl] by (rule rev_bexI [rotated])
qed

lemma save_keeps:
  assumes "files_ok s" "one_root s" "(r, y) \<in> set (history s)" "r \<in> fst ` set (disk_runs s)"
  shows "r \<in> fst ` set (disk_runs (snd (save fault s)))"
proof (cases fault)
  case None
  then show ?thesis using save_shows [OF assms(3)] by simp
next
  case (Some n)
  let ?fs = "files (snd (save fault s))"
  obtain root x where x: "root \<in> insert [] (set (registry s))" "(r, x) \<in> set (snd (file_at (files s) root))" "root = [] \<or> run_root x = root"
    using assms(4) unfolding visible_run_ids by blast
  then obtain f where f: "map_of (files s) root = Some f" "(r, x) \<in> set (snd f)"
    by (auto simp: file_at_def split: option.splits)
  then have root: "run_root x = root" using files_okD [OF assms(1)] by blast
  have "\<exists>y. (r, y) \<in> set (snd (file_at ?fs root)) \<and> run_root y = root"
  proof (rule save_files [of fault s root])
    assume written: "map_of ?fs root = Some (file_for s root)"
    have "(r, y) \<in> set (run_heap s)" using assms(3) history_in_heap by blast
    moreover have "(RunOf r, root) \<in> roots s" using f root by (auto dest: map_of_SomeD)
    ultimately have "run_root y = root" using one_rootD [OF assms(2), of "RunOf r"] by blast
    then show ?thesis using written assms(3) by (auto simp: file_at_get file_for_def)
  next
    assume "map_of ?fs root = map_of (files s) root"
    with f root show ?thesis by (auto simp: file_at_get)
  qed
  with x(1) Some show ?thesis unfolding visible_run_ids by (auto simp: save_registry)
qed

lemma save_keeps_live:
  "workers_ok s \<Longrightarrow> files_ok s \<Longrightarrow> one_root s \<Longrightarrow> runs_live s r \<Longrightarrow> r \<in> fst ` set (disk_runs s)
   \<Longrightarrow> r \<in> fst ` set (disk_runs (snd (save fault s)))"
  by (rule live_in_history [of s r]) (assumption+, rule save_keeps)

lemma save_workers_ok:
  assumes "workers_ok s" "files_ok s" "one_root s"
  shows "workers_ok (snd (save fault s))"
proof (rule workers_ok_step [OF assms(1)])
  have l: "runs_live (snd (save fault s)) r = runs_live s r" for r by (simp add: runs_live_def sched_simps)
  show "r \<in> set (runs (snd (save fault s)))" if "runs_live (snd (save fault s)) r" "r \<in> set (runs s)" for r
  proof -
    have "runs_live s r" using that(1) l by simp
    then obtain x where "(r, x) \<in> set (history s)" by (rule live_in_history [OF assms(1)])
    then show ?thesis using that(2) by (force simp: save_runs)
  qed
  show "r \<in> fst ` set (disk_runs (snd (save fault s)))" if "runs_live (snd (save fault s)) r" "r \<in> fst ` set (disk_runs s)" for r
    using save_keeps_live [OF assms] that l by blast
qed (auto simp: sched_simps)

lemma set_run_workers_ok:
  assumes "workers_ok s" "\<And>x. task_id (f x) = task_id x" "runs_live s r \<Longrightarrow> (\<And>x. owned x \<Longrightarrow> owned (f x))"
  shows "workers_ok (set_run r f s)"
proof (rule workers_ok_step [OF assms(1)])
  fix q x
  assume "runs_live (set_run r f s) q" "map_of (run_heap s) q = Some x" "owned x"
  moreover from this(1) have "runs_live s q" by (simp add: runs_live_def sched_simps)
  ultimately show "\<exists>x'. map_of (run_heap (set_run r f s)) q = Some x' \<and> task_id x' = task_id x \<and> owned x'"
    using assms(2,3) by (auto simp: sched_simps)
qed (auto simp: sched_simps)

text \<open>A worker changes without coming back to life or passing its gate.\<close>

lemma set_worker_workers_ok:
  assumes "workers_ok s"
    and "\<And>w. map_of (workers s) wid = Some w \<Longrightarrow> live (f w) \<Longrightarrow> live w \<and> w_run (f w) = w_run w \<and> w_task (f w) = w_task w
      \<and> (w_phase (f w) \<noteq> Gated \<longrightarrow> w_phase w \<noteq> Gated \<or> w_run w \<in> fst ` set (disk_runs s))"
  shows "workers_ok (set_worker wid f s)"
  by (rule workers_ok_step [OF assms(1)]) (use assms(2) in \<open>auto simp: sched_simps split: if_splits\<close>)

lemma cancel_workers_simps [sched_simps]:
  "tasks (cancel_workers ws s) = tasks s" "run_heap (cancel_workers ws s) = run_heap s"
  "runs (cancel_workers ws s) = runs s" "run_tasks (cancel_workers ws s) = run_tasks s"
  "files (cancel_workers ws s) = files s" "registry (cancel_workers ws s) = registry s"
  "next_wid (cancel_workers ws s) = next_wid s"
  "fst ` set (workers (cancel_workers ws s)) = fst ` set (workers s)"
  by (auto simp: cancel_workers_def image_iff split: prod.splits) force+

lemma cancelled_worker:
  assumes "map_of (workers (cancel_workers ws s)) i = Some w'"
  obtains w where "map_of (workers s) i = Some w" "live w' = live w" "w_run w' = w_run w"
    "w_task w' = w_task w" "w_phase w' = w_phase w"
  using assms by (auto simp: cancel_workers_def keyed_get live_def)

lemma cancel_workers_ok:
  assumes "workers_ok s"
  shows "workers_ok (cancel_workers ws s)"
proof (rule workers_ok_step [OF assms])
  fix wid w'
  assume "map_of (workers (cancel_workers ws s)) wid = Some w'" "live w'"
  then show "\<exists>w. map_of (workers s) wid = Some w \<and> live w \<and> w_run w' = w_run w \<and> w_task w' = w_task w
      \<and> (w_phase w' \<noteq> Gated \<longrightarrow> w_phase w \<noteq> Gated \<or> w_run w \<in> fst ` set (disk_runs (cancel_workers ws s)))"
    by (elim cancelled_worker) auto
qed (simp_all add: sched_simps)

text \<open>Runs that no live worker has can leave the dictionaries.\<close>

lemma drop_runs_ok:
  assumes "workers_ok s" "workers s' = workers s" "run_heap s' = run_heap s" "disk_runs s' = disk_runs s"
    and "\<And>r. runs_live s r \<Longrightarrow> r \<in> set (runs s) \<Longrightarrow> r \<in> set (runs s')"
    and "\<And>r i. runs_live s r \<Longrightarrow> map_of (run_tasks s) r = Some i \<Longrightarrow> map_of (run_tasks s') r = Some i"
  shows "workers_ok s'"
proof (rule workers_ok_step [OF assms(1)])
  have l: "runs_live s' r = runs_live s r" for r by (simp add: runs_live_def assms(2))
  show "r \<in> set (runs s) \<Longrightarrow> r \<in> set (runs s')" if "runs_live s' r" for r
    using assms(5) that l by blast
  fix wid w assume "map_of (workers s') wid = Some w" "live w" "map_of (run_tasks s) (w_run w) = Some wid"
  moreover from this have "runs_live s (w_run w)" by (auto simp: runs_live_def assms(2))
  ultimately show "map_of (run_tasks s') (w_run w) = Some wid" using assms(6) by blast
qed (auto simp: assms(2,3,4))

section \<open>Claims\<close>

lemma active_none:
  assumes "workers_ok s" "active_run_for_task s k = None" "map_of (workers s) wid = Some w" "live w"
  shows "w_task w \<noteq> k"
proof
  assume "w_task w = k"
  moreover have "worker_ok s wid w" by (rule workers_okD [OF assms(1,3,4)])
  ultimately obtain x where x: "map_of (run_tasks s) (w_run w) = Some wid" "get_run s (w_run w) = Some x" "task_id x = k"
    by (auto simp: worker_ok_def get_run_def)
  then have "(w_run w, wid) \<in> set (run_tasks s)" by (simp add: map_of_SomeD)
  with assms(2) x assms(3,4) show False
    by (fastforce simp: active_run_for_task_def find_None_iff)
qed

text \<open>The state inside \<open>_schedule_fire\<close> before the task is touched: one more gated worker, on a fresh run.\<close>

definition claimed :: "ustr \<Rightarrow> ustr \<Rightarrow> sched_task \<Rightarrow> int \<Rightarrow> ustr \<Rightarrow> scheduler \<Rightarrow> scheduler" where
  "claimed r k t due conversation s =
     (spawn Gated k t r s)\<lparr>run_heap := AList.update r (new_run k t due conversation) (run_heap s),
        runs := r # filter (\<lambda>x. x \<noteq> r) (runs s)\<rparr>"

lemma claimed_simps [sched_simps]:
  "tasks (claimed r k t due c s) = tasks s"
  "run_heap (claimed r k t due c s) = AList.update r (new_run k t due c) (run_heap s)"
  "runs (claimed r k t due c s) = r # filter (\<lambda>x. x \<noteq> r) (runs s)"
  "workers (claimed r k t due c s) = (next_wid s, \<lparr>w_run = r, w_task = k, w_root = workspace_root t,
     w_phase = Gated, w_cancel = False\<rparr>) # workers s"
  "run_tasks (claimed r k t due c s) = AList.update r (next_wid s) (run_tasks s)"
  "files (claimed r k t due c s) = files s" "registry (claimed r k t due c s) = registry s"
  "next_wid (claimed r k t due c s) = next_wid s + 1"
  by (simp_all add: claimed_def spawn_def)

lemma new_run_simps [sched_simps]: "task_id (new_run k t due c) = k" "owned (new_run k t due c)"
  by (simp_all add: new_run_def owned_def)

lemma claimed_workers_ok:
  assumes "workers_ok s" "active_run_for_task s k = None" "r \<notin> fst ` set (run_heap s)"
    and "\<forall>i \<in> fst ` set (workers s). i < next_wid s"
  shows "workers_ok (claimed r k t due c s)"
proof -
  have old: "i \<noteq> next_wid s \<and> map_of (workers s) i = Some w"
    if "map_of (workers (claimed r k t due c s)) i = Some w" "i \<noteq> next_wid s" for i w
    using that by (simp add: sched_simps)
  have run: "w_run w \<noteq> r" if w: "map_of (workers s) i = Some w" "live w" for i w
    using live_run_in_heap [OF assms(1), of "w_run w"] w assms(3) by (auto simp: runs_live_def)
  have "worker_ok (claimed r k t due c s) i w"
    if w: "map_of (workers (claimed r k t due c s)) i = Some w" "live w" for i w
  proof (cases "i = next_wid s")
    case True
    then show ?thesis using w by (auto simp: worker_ok_def sched_simps dict_simps)
  next
    case False
    with w have "map_of (workers s) i = Some w" by (simp add: sched_simps)
    then show ?thesis
      using workers_okD [OF assms(1)] run w(2) by (fastforce simp: worker_ok_def sched_simps dict_simps)
  qed
  moreover have "i = j"
    if h: "map_of (workers (claimed r k t due c s)) i = Some v" "map_of (workers (claimed r k t due c s)) j = Some w"
      "live v" "live w" "w_task v = w_task w" for i j v w
  proof -
    have new: "w_task w = k" if "map_of (workers (claimed r k t due c s)) (next_wid s) = Some w" for w
      using that by (simp add: sched_simps) (metis worker.select_convs(2))
    have other: "w_task w \<noteq> k" if "map_of (workers (claimed r k t due c s)) i = Some w" "live w" "i \<noteq> next_wid s" for i w
      using active_none [OF assms(1,2)] old [OF that(1,3)] that(2) by blast
    show ?thesis
    proof (cases "i = next_wid s \<or> j = next_wid s")
      case True
      then show ?thesis using h new other by metis
    next
      case False
      then have "map_of (workers s) i = Some v" "map_of (workers s) j = Some w" using old h(1,2) by blast+
      then show ?thesis using assms(1) h(3,4,5) by (auto simp: workers_ok_def)
    qed
  qed
  ultimately show ?thesis unfolding workers_ok_def by blast
qed

lemma opened_workers_ok:
  assumes "workers_ok s" "\<And>w. map_of (workers s) wid = Some w \<Longrightarrow> live w \<and> w_run w \<in> fst ` set (disk_runs s)"
  shows "workers_ok (set_worker wid (\<lambda>w. w\<lparr>w_phase := Ready\<rparr>) s)"
  by (rule set_worker_workers_ok [OF assms(1)]) (use assms(2) in auto)

text \<open>What \<open>_schedule_fire\<close> can do.\<close>

definition claim_next :: "sched_env \<Rightarrow> int \<Rightarrow> sched_task \<Rightarrow> bool \<Rightarrow> zone_error + int option option" where
  "claim_next env now t consume =
     (if recurring t \<and> consume then map_sum id Some (next_run env (schedule t) now (timezone t)) else Inr None)"

lemma restore_claim [sched_simps]: "restore_task t (claim_task now n r t) = t"
  by (simp add: restore_task_def claim_task_def Let_def split: option.splits)

lemma upd_same:
  assumes "dict_ok d" "map_of d k = Some v" "f v = v"
  shows "upd k f d = d"
  unfolding upd_def
proof (rule map_idI)
  fix p assume "p \<in> set d"
  then have "fst p = k \<Longrightarrow> snd p = v" using assms(1,2) by (metis map_of_is_SomeI option.inject prod.collapse)
  then show "(case p of (k', v) \<Rightarrow> (k', if k' = k then f v else v)) = p" using assms(3) by (cases p) auto
qed

lemma upd_upd: "upd k f (upd k g d) = upd k (\<lambda>v. f (g v)) d"
  by (auto simp: upd_def)

lemma delete_update: "AList.delete k (AList.update k v d) = AList.delete k d"
  by (induction d) (auto simp: AList.delete_eq)

lemma delete_update_new: "k \<notin> fst ` set d \<Longrightarrow> AList.delete k (AList.update k v d) = d"
  by (simp add: delete_update AList.delete_id)

text \<open>
  Undoing a claim leaves no trace in memory but a worker that was revoked at its gate; on disk, the files that were
  written before the failure.
\<close>

definition revoked :: "ustr \<Rightarrow> ustr \<Rightarrow> sched_task \<Rightarrow> worker" where
  "revoked r k t = \<lparr>w_run = r, w_task = k, w_root = workspace_root t, w_phase = Revoked, w_cancel = True\<rparr>"

lemma revoked_simps [sched_simps]:
  "\<not> live (revoked r k t)" "w_run (revoked r k t) = r" "w_task (revoked r k t) = k" "w_root (revoked r k t) = workspace_root t"
  by (simp_all add: revoked_def live_def)

definition rolled_back_to :: "ustr \<Rightarrow> ustr \<Rightarrow> sched_task \<Rightarrow> scheduler \<Rightarrow> (ustr \<times> state_file) list \<Rightarrow> scheduler" where
  "rolled_back_to r k t s fs =
     s\<lparr>next_wid := next_wid s + 1, runs := filter (\<lambda>x. x \<noteq> r) (runs s), run_tasks := AList.delete r (run_tasks s),
       workers := (next_wid s, revoked r k t) # workers s, files := fs\<rparr>"

lemma unclaim_claimed:
  assumes "dict_ok (tasks s)" "map_of (tasks s) k = Some t" "r \<notin> fst ` set (run_heap s)"
    and "\<forall>i \<in> fst ` set (workers s). i < next_wid s"
  shows "unclaim k t r (next_wid s) ((set_task k (claim_task now n r) (claimed r k t due c s))\<lparr>files := fs\<rparr>) = rolled_back_to r k t s fs"
proof -
  have "upd (next_wid s) (\<lambda>w. w\<lparr>w_phase := Revoked, w_cancel := True\<rparr>) (workers s) = workers s"
    unfolding upd_def by (rule map_idI) (use assms(4) in force)
  moreover have "upd i f ((i, w) # d) = (i, f w) # upd i f d" for i f w and d :: "(nat \<times> worker) list" by (simp add: upd_def)
  moreover have "AList.delete r (AList.update r x (run_heap s)) = run_heap s" for x
    using delete_update_new [OF assms(3)] .
  moreover have "AList.delete r (AList.update r i (run_tasks s)) = AList.delete r (run_tasks s)" for i
    by (rule delete_update)
  moreover have "upd k (\<lambda>v. restore_task t (claim_task now n r v)) (tasks s) = tasks s"
    by (rule upd_same [OF assms(1,2)]) (rule restore_claim)
  ultimately show ?thesis
    by (simp add: unclaim_def set_task_def claimed_def spawn_def upd_upd rolled_back_to_def revoked_def)
qed

lemma save_fails: "save (Some m) s = (Some SaveFailed, s\<lparr>files := files (snd (save (Some m) s))\<rparr>)"
  by (simp add: save_def write_files_def)

lemma schedule_fire_cases:
  fixes t :: sched_task
  assumes "sched_inv s" "map_of (tasks s) k = Some t" "r \<notin> fst ` set (run_heap s)"
  obtains
    (refused) "schedule_fire env now fault r k t due consume c allow s = (Inl DeletedTask, s)"
      "deleted_at t \<noteq> None" "\<not> allow"
  | (broken) e where "claim_next env now t consume = Inl e" "recurring t"
      "schedule_fire env now fault r k t due consume c allow s =
        (Inl (ZoneFailed e), set_task k (\<lambda>t. t\<lparr>last_run_at := Some now\<rparr>) (claimed r k t due c s))"
  | (rolled_back) n where "fault \<noteq> None" "claim_next env now t consume = Inr n"
      "schedule_fire env now fault r k t due consume c allow s =
        (Inl SaveFailed, rolled_back_to r k t s (files (snd (save fault (set_task k (claim_task now n r) (claimed r k t due c s))))))"
  | (fired) n where "fault = None" "claim_next env now t consume = Inr n"
      "schedule_fire env now fault r k t due consume c allow s =
        (Inr r, set_worker (next_wid s) (\<lambda>w. w\<lparr>w_phase := Ready\<rparr>)
           (snd (save None (set_task k (claim_task now n r) (claimed r k t due c s)))))"
proof -
  have sf: "schedule_fire env now fault r k t due consume c allow s =
      (if deleted_at t \<noteq> None \<and> \<not> allow then (Inl DeletedTask, s)
       else case claim_next env now t consume of
          Inl e \<Rightarrow> (Inl (ZoneFailed e), set_task k (\<lambda>t. t\<lparr>last_run_at := Some now\<rparr>) (claimed r k t due c s))
        | Inr n \<Rightarrow>
           (case save fault (set_task k (claim_task now n r) (claimed r k t due c s)) of
              (Some e, s2) \<Rightarrow> (Inl e, unclaim k t r (next_wid s) s2)
            | (None, s2) \<Rightarrow> (Inr r, set_worker (next_wid s) (\<lambda>w. w\<lparr>w_phase := Ready\<rparr>) s2)))"
    unfolding schedule_fire_def claim_next_def claimed_def Let_def by (rule refl)
  have undo: "unclaim k t r (next_wid s) ((set_task k (claim_task now n r) (claimed r k t due c s))\<lparr>files := fs\<rparr>) =
      rolled_back_to r k t s fs" for n fs
    by (rule unclaim_claimed) (use assms in \<open>simp_all add: sched_inv_def dicts_ok_def\<close>)
  consider "deleted_at t \<noteq> None \<and> \<not> allow" | e where "\<not> (deleted_at t \<noteq> None \<and> \<not> allow)" "claim_next env now t consume = Inl e"
    | n where "\<not> (deleted_at t \<noteq> None \<and> \<not> allow)" "claim_next env now t consume = Inr n"
    by (cases "claim_next env now t consume"; blast)
  then show thesis
  proof cases
    case 1
    then show thesis using refused sf by simp
  next
    case 2
    moreover from 2(2) have "recurring t" by (auto simp: claim_next_def split: if_splits)
    ultimately show thesis using broken sf by simp
  next
    case 3
    show thesis
    proof (cases fault)
      case None
      with 3 sf show thesis by (intro fired [of n]) (simp_all add: save_def)
    next
      case (Some m)
      let ?s1 = "set_task k (claim_task now n r) (claimed r k t due c s)"
      obtain fs where fs: "save fault ?s1 = (Some SaveFailed, ?s1\<lparr>files := fs\<rparr>)" "fs = files (snd (save fault ?s1))"
        using save_fails [of m ?s1] Some by blast
      have "schedule_fire env now fault r k t due consume c allow s = (Inl SaveFailed, rolled_back_to r k t s fs)"
        unfolding sf if_not_P [OF 3(1)] 3(2) sum.case fs(1) prod.case option.case undo ..
      with 3 Some show thesis unfolding fs(2) by (intro rolled_back [of n]) simp_all
    qed
  qed
qed

section \<open>The other parts of the invariant\<close>

lemma distinct_zip_filter:
  "distinct (map f ys) \<Longrightarrow> distinct (map f (map snd (filter P (zip xs ys))))"
proof (induction ys arbitrary: xs)
  case (Cons y ys)
  then show ?case
    by (cases xs) (auto dest!: set_zip_rightD)
qed simp

lemma dict_ok_history: "dict_ok (run_heap s) \<Longrightarrow> dict_ok (history s)"
proof -
  assume "dict_ok (run_heap s)"
  then have "dict_ok (listed_runs s)" by (simp add: listed_runs_def distinct_map_filter)
  then have "distinct (map fst (rev (sort_key run_key (listed_runs s))))"
    by (simp add: distinct_map inj_on_def)
  then show ?thesis unfolding history_def Let_def by (rule distinct_zip_filter)
qed

lemma spent_ok_iff:
  "spent_ok ts rs \<longleftrightarrow> (\<forall>k t r x. (k, t) \<in> set ts \<longrightarrow> \<not> recurring t \<longrightarrow> (r, x) \<in> set rs \<longrightarrow>
     task_id x = k \<longrightarrow> deleted_at t \<noteq> None)"
  unfolding spent_ok_def by fast

lemma spent_ok_mono:
  assumes "spent_ok ts rs"
    and t: "\<And>k t'. (k, t') \<in> set ts' \<Longrightarrow> \<not> recurring t' \<Longrightarrow>
      \<exists>t. (k, t) \<in> set ts \<and> \<not> recurring t \<and> (deleted_at t \<noteq> None \<longrightarrow> deleted_at t' \<noteq> None)"
    and r: "\<And>r x'. (r, x') \<in> set rs' \<Longrightarrow> \<exists>q x. (q, x) \<in> set rs \<and> task_id x = task_id x'"
  shows "spent_ok ts' rs'"
  unfolding spent_ok_iff
proof (intro allI impI)
  fix k t' q' x'
  assume h: "(k, t') \<in> set ts'" "\<not> recurring t'" "(q', x') \<in> set rs'" "task_id x' = k"
  obtain t where "(k, t) \<in> set ts" "\<not> recurring t" "deleted_at t \<noteq> None \<longrightarrow> deleted_at t' \<noteq> None"
    using t [OF h(1,2)] by blast
  moreover obtain q x where "(q, x) \<in> set rs" "task_id x = k" using r [OF h(3)] h(4) by blast
  ultimately show "deleted_at t' \<noteq> None" using assms(1) by (simp add: spent_ok_iff)
qed

lemma spent_ok_subset: "spent_ok ts rs \<Longrightarrow> set ts' \<subseteq> set ts \<Longrightarrow> set rs' \<subseteq> set rs \<Longrightarrow> spent_ok ts' rs'"
  by (rule spent_ok_mono) blast+

lemma spent_filter: "spent_ok ts rs \<Longrightarrow> set rs' \<subseteq> set rs \<Longrightarrow> spent_ok (filter P ts) (filter Q rs')"
  by (rule spent_ok_subset [of ts rs]) auto

lemma save_files_ok:
  assumes "files_ok s" "spent_ok (tasks s) (run_heap s)"
  shows "files_ok (snd (save fault s))"
  unfolding files_ok_def
proof (intro allI impI)
  fix root f assume f: "map_of (files (snd (save fault s))) root = Some f"
  show "(\<forall>(k, t) \<in> set (fst f). workspace_root t = root) \<and> (\<forall>(r, x) \<in> set (snd f). run_root x = root) \<and> spent_ok (fst f) (snd f)"
  proof (rule save_files [of fault s root])
    assume "map_of (files (snd (save fault s))) root = Some (file_for s root)"
    with f have "f = file_for s root" by simp
    moreover have "spent_ok (fst (file_for s root)) (snd (file_for s root))"
      unfolding file_for_def fst_conv snd_conv by (rule spent_filter [OF assms(2) history_in_heap])
    ultimately show ?thesis by (auto simp: file_for_def)
  next
    assume "map_of (files (snd (save fault s))) root = map_of (files s) root"
    with f have "map_of (files s) root = Some f" by simp
    from files_okD [OF assms(1) this] show ?thesis by blast
  qed
qed

text \<open>The task of a run, both visible to a new process, stands in the same file.\<close>

lemma spent_visible:
  assumes "files_ok s" "one_root s"
  shows "spent_ok (disk_tasks s) (disk_runs s)"
  unfolding spent_ok_iff
proof (intro allI impI)
  fix k t r x assume h: "(k, t) \<in> set (disk_tasks s)" "\<not> recurring t" "(r, x) \<in> set (disk_runs s)" "task_id x = k"
  obtain p f where f: "map_of (files s) p = Some f" "(k, t) \<in> set (fst f)" using h(1) by (rule visible_task)
  obtain q g where g: "map_of (files s) q = Some g" "(r, x) \<in> set (snd g)" using h(3) by (rule visible_run)
  have "workspace_root t = p" "run_root x = q" using files_okD [OF assms(1)] f g by blast+
  moreover have "(TaskOf k, workspace_root t) \<in> roots s" "(TaskOf k, run_root x) \<in> roots s"
    using f g h(4) by (auto dest!: map_of_SomeD)
  ultimately have "f = g" using one_rootD [OF assms(2)] f(1) g(1) by (metis option.inject)
  then show "deleted_at t \<noteq> None" using files_okD(3) [OF assms(1) f(1)] f(2) g(2) h(2,4) unfolding spent_ok_iff by blast
qed

text \<open>What bounds the roots of a state.\<close>

lemma roots_mono:
  assumes "set (tasks s') \<subseteq> set (tasks s)" "set (run_heap s') \<subseteq> set (run_heap s)" "set (workers s') \<subseteq> set (workers s)"
    "set (files s') \<subseteq> set (files s)"
  shows "roots s' \<subseteq> roots s"
  using assms unfolding roots_def task_roots_def run_roots_def worker_roots_def all_tasks_def all_runs_def by fast

lemma roots_cases [consumes 1, case_names a_task a_run its_id a_worker its_run in_file run_in_file id_in_file]:
  assumes "(a, root) \<in> roots s"
  obtains k t where "a = TaskOf k" "root = workspace_root t" "(k, t) \<in> set (tasks s)"
    | r x where "a = TaskOf (task_id x)" "root = run_root x" "(r, x) \<in> set (run_heap s)"
    | r x where "a = RunOf r" "root = run_root x" "(r, x) \<in> set (run_heap s)"
    | i w where "a = TaskOf (w_task w)" "root = w_root w" "(i, w) \<in> set (workers s)"
    | i w where "a = RunOf (w_run w)" "root = w_root w" "(i, w) \<in> set (workers s)"
    | p f k t where "a = TaskOf k" "root = workspace_root t" "(p, f) \<in> set (files s)" "(k, t) \<in> set (fst f)"
    | p f r x where "a = TaskOf (task_id x)" "root = run_root x" "(p, f) \<in> set (files s)" "(r, x) \<in> set (snd f)"
    | p f r x where "a = RunOf r" "root = run_root x" "(p, f) \<in> set (files s)" "(r, x) \<in> set (snd f)"
  using assms unfolding roots_def task_roots_def run_roots_def worker_roots_def all_tasks_def all_runs_def
  by (elim UnE imageE UN_E) (auto split: prod.splits)

lemma roots_subI:
  assumes "\<And>k t. (k, t) \<in> set (tasks s') \<Longrightarrow> (TaskOf k, workspace_root t) \<in> A"
    and "\<And>r x. (r, x) \<in> set (run_heap s') \<Longrightarrow> (TaskOf (task_id x), run_root x) \<in> A \<and> (RunOf r, run_root x) \<in> A"
    and "\<And>i w. (i, w) \<in> set (workers s') \<Longrightarrow> (TaskOf (w_task w), w_root w) \<in> A \<and> (RunOf (w_run w), w_root w) \<in> A"
    and "\<And>root f k t. (root, f) \<in> set (files s') \<Longrightarrow> (k, t) \<in> set (fst f) \<Longrightarrow> (TaskOf k, workspace_root t) \<in> A"
    and "\<And>root f r x. (root, f) \<in> set (files s') \<Longrightarrow> (r, x) \<in> set (snd f) \<Longrightarrow>
      (TaskOf (task_id x), run_root x) \<in> A \<and> (RunOf r, run_root x) \<in> A"
  shows "roots s' \<subseteq> A"
proof (rule subrelI)
  fix a root assume "(a, root) \<in> roots s'"
  then show "(a, root) \<in> A" by (cases rule: roots_cases) (use assms in blast)+
qed

lemma save_roots: "roots (snd (save fault s)) \<subseteq> roots s"
proof (rule roots_subI)
  have f: "(p, f) \<in> set (files (snd (save fault s))) \<Longrightarrow> (p, f) \<in> set (files s) \<or> f = file_for s p" for p f
    using save_files_set [of fault s] by blast
  show "(TaskOf k, workspace_root t) \<in> roots s" if "(p, f) \<in> set (files (snd (save fault s)))" "(k, t) \<in> set (fst f)" for p f k t
    using f [OF that(1)] that(2) by (auto simp: file_for_def)
  show "(TaskOf (task_id x), run_root x) \<in> roots s \<and> (RunOf r, run_root x) \<in> roots s"
    if "(p, f) \<in> set (files (snd (save fault s)))" "(r, x) \<in> set (snd f)" for p f r x
  proof -
    have "(p, f) \<in> set (files s) \<or> (r, x) \<in> set (run_heap s)"
      using f [OF that(1)] that(2) history_in_heap [of s] by (auto simp: file_for_def)
    then show ?thesis using that(2) by blast
  qed
qed (auto simp: sched_simps)

lemma one_root_sub: "one_root s \<Longrightarrow> roots s' \<subseteq> roots s \<Longrightarrow> one_root s'"
  unfolding one_root_def by (rule single_valued_subset)

lemma one_root_shrinks:
  "one_root s \<Longrightarrow> set (tasks s') \<subseteq> set (tasks s) \<Longrightarrow> set (run_heap s') \<subseteq> set (run_heap s) \<Longrightarrow> set (workers s') \<subseteq> set (workers s)
   \<Longrightarrow> set (files s') \<subseteq> set (files s) \<Longrightarrow> one_root s'"
  by (rule one_root_sub [OF _ roots_mono])

lemma save_inv: "sched_inv s \<Longrightarrow> sched_inv (snd (save fault s))"
  using save_workers_ok save_files_ok one_root_sub [OF _ save_roots]
  by (simp add: sched_inv_def dicts_ok_def sched_simps)

text \<open>How workers and runs come about: a live worker was live before on the same run, or its run is new.\<close>

definition evolves :: "scheduler \<Rightarrow> scheduler \<Rightarrow> bool" where
  "evolves s s' \<longleftrightarrow> fst ` set (run_heap s) \<subseteq> fst ` set (run_heap s')
     \<and> (\<forall>wid w'. map_of (workers s') wid = Some w' \<and> live w' \<longrightarrow>
          (\<exists>w. map_of (workers s) wid = Some w \<and> live w \<and> w_run w = w_run w') \<or> w_run w' \<notin> fst ` set (run_heap s))"

lemma evolves_refl: "evolves s s"
  by (auto simp: evolves_def)

lemma evolves_same: "workers s' = workers s \<Longrightarrow> run_heap s' = run_heap s \<Longrightarrow> evolves s s'"
  by (auto simp: evolves_def)

lemma evolvesD:
  "evolves s s' \<Longrightarrow> map_of (workers s') wid = Some w' \<Longrightarrow> live w' \<Longrightarrow>
   (\<exists>w. map_of (workers s) wid = Some w \<and> live w \<and> w_run w = w_run w') \<or> w_run w' \<notin> fst ` set (run_heap s)"
  by (simp add: evolves_def)

lemma evolves_heap: "evolves s s' \<Longrightarrow> fst ` set (run_heap s) \<subseteq> fst ` set (run_heap s')"
  by (simp add: evolves_def)

lemma evolves_trans:
  assumes "evolves a b" "evolves b c"
  shows "evolves a c"
  unfolding evolves_def
proof (intro conjI allI impI)
  show "fst ` set (run_heap a) \<subseteq> fst ` set (run_heap c)"
    by (rule subset_trans [OF evolves_heap [OF assms(1)] evolves_heap [OF assms(2)]])
  fix wid w' assume w': "map_of (workers c) wid = Some w' \<and> live w'"
  then consider w where "map_of (workers b) wid = Some w" "live w" "w_run w = w_run w'"
    | "w_run w' \<notin> fst ` set (run_heap b)"
    using evolvesD [OF assms(2)] by blast
  then show "(\<exists>w. map_of (workers a) wid = Some w \<and> live w \<and> w_run w = w_run w') \<or> w_run w' \<notin> fst ` set (run_heap a)"
  proof cases
    case 1
    then show ?thesis using evolvesD [OF assms(1) 1(1,2)] by simp
  next
    case 2
    then show ?thesis using subsetD [OF evolves_heap [OF assms(1)]] by blast
  qed
qed

lemma evolves_save: "evolves s (snd (save fault s))"
  by (rule evolves_same) (simp_all add: sched_simps)

lemma evolves_destruction:
  assumes "evolves s s'" "destruction_ok s d"
  shows "destruction_ok s' d"
  unfolding destruction_ok_def
proof (intro conjI allI impI)
  show "set (d_runs d) \<subseteq> fst ` set (run_heap s')"
    using assms(2) evolves_heap [OF assms(1)] by (metis destruction_ok_def subset_trans)
  fix wid w' assume w': "map_of (workers s') wid = Some w' \<and> live w' \<and> w_run w' \<in> set (d_runs d)"
  moreover from this have "w_run w' \<in> fst ` set (run_heap s)" using assms(2) by (auto simp: destruction_ok_def)
  ultimately obtain w where "map_of (workers s) wid = Some w" "live w" "w_run w = w_run w'"
    using evolvesD [OF assms(1)] by blast
  then show "wid \<in> set (d_workers d)" using assms(2) w' by (simp add: destruction_ok_def)
qed

lemma evolves_claimed: "r \<notin> fst ` set (run_heap s) \<Longrightarrow> evolves s (claimed r k t due c s)"
  unfolding evolves_def claimed_simps dom_update
  by (auto simp: worker.defs split: if_splits)

text \<open>An operation that keeps the invariant and evolves.\<close>

definition good_step :: "scheduler \<Rightarrow> scheduler \<Rightarrow> bool" where
  "good_step s s' \<longleftrightarrow> sched_inv s' \<and> evolves s s'"

lemma good_step_save: "good_step s s' \<Longrightarrow> good_step s (snd (save fault s'))"
  unfolding good_step_def using save_inv evolves_save evolves_trans by blast

lemma good_step_trans: "good_step a b \<Longrightarrow> good_step b c \<Longrightarrow> good_step a c"
  unfolding good_step_def using evolves_trans by blast

lemma good_step_refl: "sched_inv s \<Longrightarrow> good_step s s"
  by (simp add: good_step_def evolves_refl)

section \<open>Every operation is a good step\<close>

lemma files_ok_same: "files s' = files s \<Longrightarrow> files_ok s \<Longrightarrow> files_ok s'"
  by (simp add: files_ok_def)

lemma same_core_roots:
  "same_core s s' \<Longrightarrow> (\<And>k t. (k, t) \<in> set (tasks s') \<Longrightarrow> (TaskOf k, workspace_root t) \<in> A) \<Longrightarrow> roots s \<subseteq> A \<Longrightarrow> roots s' \<subseteq> A"
  by (rule roots_subI) (auto simp: same_core_def)

lemma same_workers_good:
  assumes "sched_inv s" "same_core s s'" "next_wid s' = next_wid s"
    and "dict_ok (tasks s')" "spent_ok (tasks s') (run_heap s)" "one_root s'"
  shows "good_step s s'"
  using assms workers_ok_same [OF assms(2)] files_ok_same [of s' s]
  by (simp add: good_step_def sched_inv_def dicts_ok_def same_core_def evolves_same)

lemma retask_roots:
  assumes "\<And>t. workspace_root (f t) = workspace_root t"
  shows "roots (set_task k f s) \<subseteq> roots s"
  by (rule same_core_roots [OF same_core_tasks(1)]) (auto simp: sched_simps upd_in assms)

lemma retask_good:
  assumes "sched_inv s" "\<And>t. recurring (f t) = recurring t" "\<And>t. deleted_at t \<noteq> None \<Longrightarrow> deleted_at (f t) \<noteq> None"
    "\<And>t. workspace_root (f t) = workspace_root t"
  shows "good_step s (set_task k f s)"
proof (rule same_workers_good [OF assms(1)])
  have "spent_ok (tasks s) (run_heap s)" using assms(1) by (simp add: sched_inv_def)
  then show "spent_ok (tasks (set_task k f s)) (run_heap s)"
    by (rule spent_ok_mono) (use assms(2,3) in \<open>auto simp: sched_simps upd_in split: if_splits\<close>)
  show "dict_ok (tasks (set_task k f s))"
    using assms(1) by (simp add: sched_inv_def dicts_ok_def sched_simps)
  show "one_root (set_task k f s)"
    using assms(1) by (intro one_root_sub [OF _ retask_roots [OF assms(4)]]) (simp add: sched_inv_def)
qed (simp_all add: sched_simps)

lemma rerun_root_good:
  assumes "sched_inv s" "\<And>x. task_id (f x) = task_id x" "runs_live s r \<Longrightarrow> (\<And>x. owned x \<Longrightarrow> owned (f x))"
    "\<And>x. (r, x) \<in> set (run_heap s) \<Longrightarrow> (TaskOf (task_id x), run_root (f x)) \<in> roots s \<and> (RunOf r, run_root (f x)) \<in> roots s"
  shows "good_step s (set_run r f s)"
proof -
  have "workers_ok (set_run r f s)"
    using assms by (intro set_run_workers_ok) (auto simp: sched_inv_def)
  moreover have "spent_ok (tasks s) (upd r f (run_heap s))"
  proof (rule spent_ok_mono)
    show "spent_ok (tasks s) (run_heap s)" using assms(1) by (simp add: sched_inv_def)
    fix q x' assume "(q, x') \<in> set (upd r f (run_heap s))"
    then obtain x where "(q, x) \<in> set (run_heap s)" "task_id x' = task_id x" using assms(2) by (auto simp: upd_in)
    then show "\<exists>q x. (q, x) \<in> set (run_heap s) \<and> task_id x = task_id x'" by metis
  qed blast
  moreover have "evolves s (set_run r f s)"
    using upd_keys [of r f "run_heap s"] by (auto simp: evolves_def sched_simps simp flip: set_map)
  moreover have "roots (set_run r f s) \<subseteq> roots s"
    by (rule roots_subI) (use assms(2,4) in \<open>auto simp: sched_simps upd_in split: if_splits\<close>)
  ultimately show ?thesis
    using assms(1) files_ok_same [of "set_run r f s" s] one_root_sub [of s "set_run r f s"]
    by (simp add: good_step_def sched_inv_def dicts_ok_def sched_simps)
qed

lemma rerun_good:
  assumes "sched_inv s" "\<And>x. task_id (f x) = task_id x" "runs_live s r \<Longrightarrow> (\<And>x. owned x \<Longrightarrow> owned (f x))"
    "\<And>x. run_root (f x) = run_root x"
  shows "good_step s (set_run r f s)"
  by (rule rerun_root_good [OF assms(1,2,3)]) (auto simp: assms(4))

lemma reworker_good:
  assumes "sched_inv s" "workers_ok (set_worker wid f s)"
    "\<And>w. map_of (workers s) wid = Some w \<Longrightarrow> live (f w) \<Longrightarrow> live w"
    "\<And>w. w_run (f w) = w_run w \<and> w_task (f w) = w_task w \<and> w_root (f w) = w_root w"
  shows "good_step s (set_worker wid f s)"
proof -
  have "evolves s (set_worker wid f s)"
    using assms(3,4) by (auto simp: evolves_def sched_simps split: if_splits)
  moreover have "fst ` set (upd wid f (workers s)) = fst ` set (workers s)"
    using upd_keys [of wid f "workers s"] by (metis set_map)
  moreover have "roots (set_worker wid f s) \<subseteq> roots s"
    by (rule roots_subI) (use assms(4) in \<open>auto simp: sched_simps upd_in split: if_splits\<close>)
  ultimately show ?thesis
    using assms(1,2) files_ok_same [of "set_worker wid f s" s] one_root_sub [of s "set_worker wid f s"]
    by (simp add: good_step_def sched_inv_def dicts_ok_def sched_simps)
qed

lemma swept_roots:
  "roots (s\<lparr>tasks := map (\<lambda>(k, t). (k, if expired now t then t\<lparr>deleted_at := Some now, next_run_at := None\<rparr> else t)) (tasks s)\<rparr>) \<subseteq> roots s"
  by (rule same_core_roots [OF same_core_tasks(2)]) (auto split: if_splits)

lemma sweep_roots: "roots (snd (sweep_expired now fault s)) \<subseteq> roots s"
  using subset_trans [OF save_roots swept_roots] by (simp add: sweep_expired_def Let_def)

lemma sweep_good: "sched_inv s \<Longrightarrow> good_step s (snd (sweep_expired now fault s))"
proof -
  assume s: "sched_inv s"
  let ?s1 = "s\<lparr>tasks := map (\<lambda>(k, t). (k, if expired now t then t\<lparr>deleted_at := Some now, next_run_at := None\<rparr> else t)) (tasks s)\<rparr>"
  have "good_step s ?s1"
  proof (rule same_workers_good [OF s])
    have "spent_ok (tasks s) (run_heap s)" using s by (simp add: sched_inv_def)
    then show "spent_ok (tasks ?s1) (run_heap s)"
      by (rule spent_ok_mono) (auto split: if_splits simp: expired_def)
    show "dict_ok (tasks ?s1)" using s by (simp add: sched_inv_def dicts_ok_def keyed_keys del: map_map)
    show "one_root ?s1"
      using s by (intro one_root_sub [OF _ swept_roots]) (simp add: sched_inv_def)
  qed (simp_all add: sched_simps)
  then show ?thesis
    using good_step_refl [OF s] by (auto simp: sweep_expired_def Let_def intro: good_step_save)
qed

lemma unusable_roots: "roots (s\<lparr>unusable := us\<rparr>) = roots s"
  by (simp add: roots_def all_tasks_def all_runs_def)

lemma unusable_good: "sched_inv s \<Longrightarrow> good_step s (s\<lparr>unusable := us\<rparr>)"
  by (intro same_workers_good) (auto simp: sched_simps sched_inv_def dicts_ok_def one_root_def unusable_roots)

lemma list_roots: "roots (snd (list_tasks env now fault root s)) \<subseteq> roots s"
  using sweep_roots [of now fault s]
  by (cases "sweep_expired now fault s") (auto simp: list_tasks_def Let_def unusable_roots split: option.splits)

lemma list_good: "sched_inv s \<Longrightarrow> good_step s (snd (list_tasks env now fault root s))"
proof -
  assume s: "sched_inv s"
  obtain e s1 where w: "sweep_expired now fault s = (e, s1)" by (cases "sweep_expired now fault s")
  with sweep_good [OF s, of now fault] have g: "good_step s s1" by simp
  have "good_step s1 (s1\<lparr>unusable := us\<rparr>)" for us
    using g by (intro unusable_good) (simp add: good_step_def)
  then show ?thesis
    using g good_step_trans by (auto simp: list_tasks_def w Let_def split: option.splits)
qed

lemma claim_task_simps [sched_simps]:
  "recurring (claim_task now n r t) = recurring t" "workspace_root (claim_task now n r t) = workspace_root t"
  "\<not> recurring t \<Longrightarrow> deleted_at (claim_task now n r t) = Some now"
  by (auto simp: claim_task_def Let_def split: option.splits)

lemma claimed_roots:
  assumes "map_of (tasks s) k = Some t"
  shows "roots (claimed r k t due c s) \<subseteq> insert (RunOf r, workspace_root t) (roots s)"
proof -
  let ?A = "insert (RunOf r, workspace_root t) (roots s)"
  have t: "(TaskOf k, workspace_root t) \<in> roots s" using assms by (auto dest: map_of_SomeD)
  have "(TaskOf (task_id x), run_root x) \<in> ?A \<and> (RunOf q, run_root x) \<in> ?A"
    if "(q, x) \<in> set (run_heap (claimed r k t due c s))" for q x
  proof -
    have "q = r \<and> x = new_run k t due c \<or> (q, x) \<in> set (run_heap s)"
      using in_update [OF that [unfolded claimed_simps]] .
    then show ?thesis using t by (auto simp: new_run_def)
  qed
  then show ?thesis
    by (intro roots_subI) (use t in \<open>auto simp: claimed_simps\<close>)
qed

lemma fresh_insert:
  assumes "one_root s" "fresh_run s r" "roots s' \<subseteq> insert (RunOf r, p) (roots s)"
  shows "one_root s'"
proof -
  have "single_valued (insert (RunOf r, p) (roots s))"
    using assms(1,2) by (auto simp: one_root_def fresh_run_def single_valued_def)
  then show ?thesis unfolding one_root_def using assms(3) by (rule single_valued_subset [rotated])
qed

lemma claim_roots:
  assumes "map_of (tasks s) k = Some t" "\<And>t. workspace_root (f t) = workspace_root t"
  shows "roots (set_task k f (claimed r k t due c s)) \<subseteq> insert (RunOf r, workspace_root t) (roots s)"
  by (rule subset_trans [OF retask_roots [OF assms(2)] claimed_roots [OF assms(1)]])

lemma claim_good:
  assumes "sched_inv s" "active_run_for_task s k = None" "fresh_run s r" "map_of (tasks s) k = Some t"
    and f: "\<And>t. recurring (f t) = recurring t" "\<And>t. (k, t) \<in> set (tasks s) \<Longrightarrow> \<not> recurring t \<Longrightarrow> deleted_at (f t) \<noteq> None"
      "\<And>t. workspace_root (f t) = workspace_root t"
  shows "good_step s (set_task k f (claimed r k t due c s))"
proof -
  let ?c = "claimed r k t due c s"
  have r: "r \<notin> fst ` set (run_heap s)" using assms(3) by (simp add: fresh_run_def)
  have w: "workers_ok ?c"
    using assms r by (intro claimed_workers_ok) (auto simp: sched_inv_def dicts_ok_def)
  have h: "(q, x) \<in> set (run_heap ?c) \<Longrightarrow> x = new_run k t due c \<or> (q, x) \<in> set (run_heap s)" for q x
  proof -
    assume "(q, x) \<in> set (run_heap ?c)"
    moreover have "dict_ok (run_heap s)" using assms(1) by (simp add: sched_inv_def dicts_ok_def)
    ultimately have "map_of (AList.update r (new_run k t due c) (run_heap s)) q = Some x"
      by (simp add: sched_simps dict_ok_update map_of_is_SomeI)
    then show ?thesis by (auto simp: dict_simps dest: map_of_SomeD split: if_splits)
  qed
  have "spent_ok (upd k f (tasks s)) (run_heap ?c)"
    unfolding spent_ok_iff
  proof (intro allI impI)
    fix k' t' q x
    assume i: "(k', t') \<in> set (upd k f (tasks s))" "\<not> recurring t'" "(q, x) \<in> set (run_heap ?c)" "task_id x = k'"
    from i(1) obtain t0 where t0: "(k', t0) \<in> set (tasks s)" "t' = (if k' = k then f t0 else t0)" by (auto simp: upd_in)
    show "deleted_at t' \<noteq> None"
    proof (cases "k' = k")
      case True
      then show ?thesis using f t0 i(2) by simp
    next
      case False
      then have "(q, x) \<in> set (run_heap s)" using h [OF i(3)] i(4) by (auto simp: sched_simps)
      with False t0 i(2,4) assms(1) show ?thesis by (simp add: sched_inv_def spent_ok_iff)
    qed
  qed
  moreover have "dicts_ok (set_task k f ?c)"
    using assms(1) by (auto simp: sched_inv_def dicts_ok_def sched_simps dict_ok_update)
  moreover have "evolves s (set_task k f ?c)"
    using evolves_claimed [OF r, of k t due c] by (rule evolves_trans) (simp add: evolves_same sched_simps)
  moreover have "one_root (set_task k f ?c)"
  proof -
    show ?thesis
      by (rule fresh_insert [OF _ assms(3) claim_roots [OF assms(4) f(3)]]) (use assms(1) in \<open>simp add: sched_inv_def\<close>)
  qed
  ultimately show ?thesis
    using assms(1) w workers_ok_same [OF same_core_tasks(1), of k f ?c] files_ok_same [of "set_task k f ?c" s]
    by (simp add: good_step_def sched_inv_def sched_simps)
qed

lemma rolled_back_roots:
  assumes "map_of (tasks s) k = Some t" "\<And>t. workspace_root (f t) = workspace_root t"
  shows "roots (rolled_back_to r k t s (files (snd (save fault (set_task k f (claimed r k t due c s))))))
    \<subseteq> insert (RunOf r, workspace_root t) (roots s)"
proof -
  let ?s2 = "snd (save fault (set_task k f (claimed r k t due c s)))"
  have "roots ?s2 \<subseteq> insert (RunOf r, workspace_root t) (roots s)"
    by (rule subset_trans [OF save_roots claim_roots [OF assms]])
  moreover have "(TaskOf k, workspace_root t) \<in> roots s" using assms(1) by (auto dest: map_of_SomeD)
  ultimately show ?thesis
    by (intro roots_subI) (auto simp: rolled_back_to_def sched_simps)
qed

lemma rolled_back_good:
  assumes "sched_inv s" "good_step s (set_task k f (claimed r k t due c s))" "fresh_run s r" "fault \<noteq> None"
    and "map_of (tasks s) k = Some t" "\<And>t. workspace_root (f t) = workspace_root t"
  shows "good_step s (rolled_back_to r k t s (files (snd (save fault (set_task k f (claimed r k t due c s))))))"
proof -
  let ?s1 = "set_task k f (claimed r k t due c s)"
  let ?s2 = "snd (save fault ?s1)"
  let ?s' = "rolled_back_to r k t s (files ?s2)"
  have s: "workers_ok s" "files_ok s" "one_root s" using assms(1) by (simp_all add: sched_inv_def)
  have s1: "workers_ok ?s1" "files_ok ?s1" "one_root ?s1" using assms(2) by (simp_all add: good_step_def sched_inv_def)
  have old: "map_of (workers s) i = Some w" if "map_of (workers ?s') i = Some w" "live w" for i w
    using that by (auto simp: rolled_back_to_def sched_simps split: if_splits)
  then have live: "runs_live s q" if "runs_live ?s' q" for q
    using that unfolding runs_live_def by blast
  have ne: "q \<noteq> r" if "runs_live ?s' q" for q
    using live_run_in_heap [OF s(1) live [OF that]] assms(3) by (auto simp: fresh_run_def)
  have "workers_ok ?s'"
  proof (rule workers_ok_step [OF s(1)])
    show "\<exists>w. map_of (workers s) i = Some w \<and> live w \<and> w_run w' = w_run w \<and> w_task w' = w_task w
        \<and> (w_phase w' \<noteq> Gated \<longrightarrow> w_phase w \<noteq> Gated \<or> w_run w \<in> fst ` set (disk_runs ?s'))"
      if "map_of (workers ?s') i = Some w'" "live w'" for i w'
      using old [OF that] that(2) by blast
    show "map_of (run_tasks ?s') (w_run w) = Some i"
      if "map_of (workers ?s') i = Some w" "live w" "map_of (run_tasks s) (w_run w) = Some i" for i w
    proof -
      have "w_run w \<noteq> r" by (rule ne) (use that(1,2) in \<open>auto simp: runs_live_def\<close>)
      with that(3) show ?thesis by (simp add: rolled_back_to_def dict_simps)
    qed
    show "q \<in> set (runs ?s')" if "runs_live ?s' q" "q \<in> set (runs s)" for q
    proof -
      have "q \<noteq> r" by (rule ne [OF that(1)])
      with that(2) show ?thesis by (simp add: rolled_back_to_def)
    qed
    show "q \<in> fst ` set (disk_runs ?s')" if q: "runs_live ?s' q" "q \<in> fst ` set (disk_runs s)" for q
    proof -
      obtain i w where w: "map_of (workers s) i = Some w" "live w" "w_run w = q" using live [OF q(1)] by (auto simp: runs_live_def)
      then have "i \<in> fst ` set (workers s)" by (force dest: map_of_SomeD)
      then have "i \<noteq> next_wid s" using assms(1) by (auto simp: sched_inv_def dicts_ok_def)
      with w have "map_of (workers ?s1) i = Some w" by (simp add: sched_simps)
      with w have "runs_live ?s1 q" by (auto simp: runs_live_def)
      then have "q \<in> fst ` set (disk_runs ?s2)" using save_keeps_live [OF s1] q(2) by (simp add: sched_simps)
      then show ?thesis using assms(4) by (simp add: rolled_back_to_def save_registry sched_simps)
    qed
  qed (auto simp: rolled_back_to_def)
  moreover have "files_ok ?s2"
    using save_inv [of ?s1 fault] assms(2) by (simp add: good_step_def sched_inv_def)
  then have "files_ok ?s'" by (rule files_ok_same [rotated]) (simp add: rolled_back_to_def)
  moreover have "one_root ?s'"
    by (rule fresh_insert [OF s(3) assms(3) rolled_back_roots [OF assms(5,6)]])
  moreover have "evolves s ?s'"
    using old unfolding evolves_def by (auto simp: rolled_back_to_def)
  ultimately show ?thesis
    using assms(1) by (auto simp: good_step_def sched_inv_def dicts_ok_def rolled_back_to_def)
qed

lemma schedule_fire_good:
  assumes "sched_inv s" "map_of (tasks s) k = Some t" "active_run_for_task s k = None" "fresh_run s r"
  shows "good_step s (snd (schedule_fire env now fault r k t due consume c allow s))"
proof -
  have r: "r \<notin> fst ` set (run_heap s)" using assms(4) by (simp add: fresh_run_def)
  have only: "(k, t') \<in> set (tasks s) \<Longrightarrow> t' = t" for t'
    using assms(1,2) by (metis dicts_ok_def map_of_is_SomeI option.inject sched_inv_def)
  have claim: "good_step s (set_task k (claim_task now n r) (claimed r k t due c s))" for n
    by (intro claim_good [OF assms(1,3,4,2)]) (auto simp: sched_simps)
  show ?thesis
  proof (rule schedule_fire_cases [OF assms(1,2) r, of env now fault due consume c allow], goal_cases refused broken rolled_back fired)
    case refused
    then show ?thesis by (simp add: good_step_refl assms(1))
  next
    case (broken e)
    have "good_step s (set_task k (\<lambda>t. t\<lparr>last_run_at := Some now\<rparr>) (claimed r k t due c s))"
      by (rule claim_good [OF assms(1,3,4,2)]) (use broken(2) only in auto)
    then show ?thesis using broken(3) by simp
  next
    case (rolled_back n)
    then show ?thesis using rolled_back_good [OF assms(1) claim assms(4) _ assms(2)] by (simp add: sched_simps)
  next
    case (fired n)
    let ?s1 = "set_task k (claim_task now n r) (claimed r k t due c s)"
    have g: "good_step s (snd (save None ?s1))" by (rule good_step_save [OF claim])
    have s1: "workers_ok ?s1" using claim by (simp add: good_step_def sched_inv_def)
    have "runs_live ?s1 r"
      unfolding runs_live_def by (intro exI [of _ "next_wid s"]) (simp add: sched_simps live_def)
    then have d: "r \<in> fst ` set (disk_runs (snd (save None ?s1)))" using live_in_history [OF s1] save_shows by blast
    have new: "live w \<and> w_run w = r" if "map_of (workers (snd (save None ?s1))) (next_wid s) = Some w" for w
      using that by (auto simp: sched_simps live_def)
    have "workers_ok (set_worker (next_wid s) (\<lambda>w. w\<lparr>w_phase := Ready\<rparr>) (snd (save None ?s1)))"
      by (rule opened_workers_ok) (use g d new in \<open>auto simp: good_step_def sched_inv_def\<close>)
    then have "good_step (snd (save None ?s1)) (set_worker (next_wid s) (\<lambda>w. w\<lparr>w_phase := Ready\<rparr>) (snd (save None ?s1)))"
      using g new by (intro reworker_good) (auto simp: good_step_def)
    with g show ?thesis using fired(3) good_step_trans by simp
  qed
qed

lemma run_now_good:
  assumes "sched_inv s" "fresh_run s r"
  shows "good_step s (snd (run_now env now fault r k root s))"
  using schedule_fire_good [OF assms(1) _ _ assms(2)] good_step_refl [OF assms(1)]
  by (auto simp: run_now_def split: option.splits prod.splits) (metis snd_conv)

lemma retry_run_good:
  assumes "sched_inv s" "fresh_run s r"
  shows "good_step s (snd (retry_run env now fault r prev root s))"
proof -
  have sf: "schedule_fire env now fault r k t due consume c allow s = (e, s1) \<Longrightarrow> map_of (tasks s) k = Some t \<Longrightarrow>
      active_run_for_task s k = None \<Longrightarrow> good_step s s1" for k t due consume c allow e s1
    using schedule_fire_good [OF assms(1) _ _ assms(2), of k t env now fault due consume c allow] by simp
  show ?thesis
    using good_step_refl [OF assms(1)] by (auto simp: retry_run_def sf split: option.splits prod.splits)
qed

lemma schedule_fire_ids:
  assumes "sched_inv s" "map_of (tasks s) k = Some t" "r \<notin> fst ` set (run_heap s)"
  shows "fst ` set (run_heap (snd (schedule_fire env now fault r k t due consume c allow s))) \<subseteq> insert r (fst ` set (run_heap s))"
    and "roots (snd (schedule_fire env now fault r k t due consume c allow s)) \<subseteq> insert (RunOf r, workspace_root t) (roots s)"
proof -
  show "fst ` set (run_heap (snd (schedule_fire env now fault r k t due consume c allow s))) \<subseteq> insert r (fst ` set (run_heap s))"
    by (rule schedule_fire_cases [OF assms(1,2,3), of env now fault due consume c allow])
      (simp_all add: sched_simps dom_update rolled_back_to_def subset_insertI)
  have claim: "roots (set_task k f (claimed r k t due c s)) \<subseteq> insert (RunOf r, workspace_root t) (roots s)"
    if "\<And>t. workspace_root (f t) = workspace_root t" for f
    by (rule claim_roots [OF assms(2) that])
  show "roots (snd (schedule_fire env now fault r k t due consume c allow s)) \<subseteq> insert (RunOf r, workspace_root t) (roots s)"
  proof (rule schedule_fire_cases [OF assms, of env now fault due consume c allow], goal_cases refused broken rolled_back fired)
    case (broken e)
    show ?case unfolding broken(3) snd_conv by (rule claim) simp
  next
    case (rolled_back n)
    show ?case unfolding rolled_back(3) snd_conv by (rule rolled_back_roots [OF assms(2)]) (simp add: sched_simps)
  next
    case (fired n)
    have "roots (set_worker i (\<lambda>w. w\<lparr>w_phase := Ready\<rparr>) s') \<subseteq> roots s'" for i s'
      by (rule roots_subI) (auto simp: sched_simps upd_in)
    then show ?case unfolding fired(3) snd_conv using save_roots claim
      by (metis (no_types, lifting) claim_task_simps(2) subset_trans)
  qed (simp add: subset_insertI)
qed

text \<open>A new run id stays new when another run has come in between.\<close>

lemma fresh_run_kept:
  assumes "fresh_run s q" "q \<noteq> r" "fst ` set (run_heap s') \<subseteq> insert r (fst ` set (run_heap s))" "roots s' \<subseteq> insert (RunOf r, p) (roots s)"
  shows "fresh_run s' q"
  using assms(1,2,3) Domain_mono [OF assms(4)] unfolding fresh_run_def Domain_insert by auto

lemma tick_one_cases:
  obtains
    (idle) us where "tick_one env now fault fresh k s = (None, s\<lparr>unusable := us\<rparr>)"
  | (fires) t due where "map_of (tasks s) k = Some t" "active_run_for_task s k = None" "deleted_at t = None" "enabled t"
      "snd (tick_one env now fault fresh k s) = snd (schedule_fire env now (fault k) (fresh k) k t due True [] False s)"
proof (cases "map_of (tasks s) k")
  case None
  then show thesis using idle [of "unusable s"] by (simp add: tick_one_def)
next
  case (Some t)
  consider "deleted_at t \<noteq> None \<or> \<not> enabled t \<or> active_run_for_task s k \<noteq> None \<or> k \<in> set (unusable s)"
    | e where "missed_schedule_points env t now = Inl e"
      "\<not> (deleted_at t \<noteq> None \<or> \<not> enabled t \<or> active_run_for_task s k \<noteq> None \<or> k \<in> set (unusable s))"
    | "missed_schedule_points env t now = Inr []"
      "\<not> (deleted_at t \<noteq> None \<or> \<not> enabled t \<or> active_run_for_task s k \<noteq> None \<or> k \<in> set (unusable s))"
    | ps where "missed_schedule_points env t now = Inr ps" "ps \<noteq> []"
      "\<not> (deleted_at t \<noteq> None \<or> \<not> enabled t \<or> active_run_for_task s k \<noteq> None \<or> k \<in> set (unusable s))"
    by (cases "missed_schedule_points env t now") blast+
  then show thesis
  proof cases
    case 1
    with Some have "tick_one env now fault fresh k s = (None, s\<lparr>unusable := unusable s\<rparr>)" by (auto simp: tick_one_def)
    then show thesis by (rule idle)
  next
    case 2
    with Some show thesis using idle by (simp add: tick_one_def)
  next
    case 3
    with Some have "tick_one env now fault fresh k s = (None, s\<lparr>unusable := unusable s\<rparr>)" by (simp add: tick_one_def)
    then show thesis by (rule idle)
  next
    case 4
    have "snd (tick_one env now fault fresh k s) = snd (schedule_fire env now (fault k) (fresh k) k t (last ps) True [] False s)"
      using Some 4 by (auto simp: tick_one_def split: prod.splits sum.splits sched_error.splits)
    with Some 4 fires show thesis by blast
  qed
qed

lemma tick_one_good:
  assumes "sched_inv s" "fresh_run s (fresh k)"
  shows "good_step s (snd (tick_one env now fault fresh k s))"
    and "fst ` set (run_heap (snd (tick_one env now fault fresh k s))) \<subseteq> insert (fresh k) (fst ` set (run_heap s))"
    and "\<exists>p. roots (snd (tick_one env now fault fresh k s)) \<subseteq> insert (RunOf (fresh k), p) (roots s)"
proof -
  have r: "fresh k \<notin> fst ` set (run_heap s)" using assms(2) by (simp add: fresh_run_def)
  show "good_step s (snd (tick_one env now fault fresh k s))"
    by (rule tick_one_cases [of env now fault fresh k s])
      (use schedule_fire_good [OF assms(1) _ _ assms(2)] unusable_good [OF assms(1)] in auto)
  show "fst ` set (run_heap (snd (tick_one env now fault fresh k s))) \<subseteq> insert (fresh k) (fst ` set (run_heap s))"
    by (rule tick_one_cases [of env now fault fresh k s]) (use schedule_fire_ids(1) [OF assms(1) _ r] in auto)
  show "\<exists>p. roots (snd (tick_one env now fault fresh k s)) \<subseteq> insert (RunOf (fresh k), p) (roots s)"
  proof (rule tick_one_cases [of env now fault fresh k s], goal_cases idle fires)
    case (idle us)
    then show ?thesis by (auto simp: unusable_roots)
  next
    case (fires t due)
    show ?thesis unfolding fires(5) by (intro exI) (rule schedule_fire_ids(2) [OF assms(1) fires(1) r])
  qed
qed

lemma tick_all_good:
  "sched_inv s \<Longrightarrow> distinct ks \<Longrightarrow> inj_on fresh (set ks) \<Longrightarrow> \<forall>k \<in> set ks. fresh_run s (fresh k) \<Longrightarrow>
   good_step s (snd (tick_all env now fault fresh ks s))"
proof (induction ks arbitrary: s)
  case Nil
  then show ?case by (simp add: good_step_refl)
next
  case (Cons k ks)
  obtain e s1 where e: "tick_one env now fault fresh k s = (e, s1)" by (cases "tick_one env now fault fresh k s")
  have fk: "fresh_run s (fresh k)" using Cons.prems(4) by simp
  note t = tick_one_good [of s fresh k env now fault, OF Cons.prems(1) fk]
  have g: "good_step s s1" and h: "fst ` set (run_heap s1) \<subseteq> insert (fresh k) (fst ` set (run_heap s))"
    using t(1,2) e by simp_all
  obtain p where p: "roots s1 \<subseteq> insert (RunOf (fresh k), p) (roots s)" using t(3) e by auto
  have "\<forall>k' \<in> set ks. fresh_run s1 (fresh k')"
  proof
    fix k' assume k': "k' \<in> set ks"
    then have "k' \<noteq> k" using Cons.prems(2) by auto
    then have "fresh k' \<noteq> fresh k" using inj_onD [OF Cons.prems(3), of k' k] k' by auto
    moreover have "fresh_run s (fresh k')" using k' Cons.prems(4) by simp
    ultimately show "fresh_run s1 (fresh k')" using fresh_run_kept [OF _ _ h p] by blast
  qed
  then have "good_step s1 (snd (tick_all env now fault fresh ks s1))"
    using Cons.IH [of s1] g Cons.prems by (simp add: good_step_def)
  with g have "good_step s (snd (tick_all env now fault fresh ks s1))" by (rule good_step_trans)
  with g show ?case by (cases e) (simp_all add: e)
qed

lemma sweep_heap: "run_heap (snd (sweep_expired now fault s)) = run_heap s"
  by (simp add: sweep_expired_def Let_def sched_simps)

lemma tick_good:
  assumes "sched_inv s" "inj fresh" "\<forall>k. fresh_run s (fresh k)"
  shows "good_step s (snd (tick env now sweep_fault fault fresh s))"
proof -
  obtain e s1 where e: "sweep_expired now sweep_fault s = (e, s1)" by (cases "sweep_expired now sweep_fault s")
  have g: "good_step s s1" using sweep_good [OF assms(1), of now sweep_fault] e by simp
  have "run_heap s1 = run_heap s" "roots s1 \<subseteq> roots s"
    using sweep_heap [of now sweep_fault s] sweep_roots [of now sweep_fault s] e by simp_all
  then have "\<forall>k. fresh_run s1 (fresh k)" using assms(3) unfolding fresh_run_def by (metis Domain_mono subsetD)
  then have "good_step s1 (snd (tick_all env now fault fresh (map fst (tasks s1)) s1))"
    using assms(2) g by (intro tick_all_good) (auto simp: good_step_def sched_inv_def dicts_ok_def inj_on_def)
  with g show ?thesis by (cases e) (auto simp: tick_def e intro: good_step_trans)
qed

end
