(* ===== verification/SchedulerSteps.thy ===== *)
theory SchedulerSteps
  imports SchedulerProps
begin

text \<open>
  The rest of the scheduler's operations keep the invariant; the step relation over every interleaving of
  them with worker steps, failing saves and process restarts; the properties of its reachable states.
\<close>

section \<open>Task operations\<close>

lemma good_inv: "good_step s s' \<Longrightarrow> sched_inv s'"
  by (simp add: good_step_def)

lemma save_good: "good_step s s' \<Longrightarrow> save fault s' = (e, s2) \<Longrightarrow> good_step s s2"
  using good_step_save [of s s' fault] by simp

lemma retasked_good:
  assumes "sched_inv s" "dict_ok ts" "spent_ok ts (run_heap s)" "one_root (s\<lparr>tasks := ts\<rparr>)"
  shows "good_step s (s\<lparr>tasks := ts\<rparr>)"
  by (rule same_workers_good [OF assms(1)]) (use assms in \<open>auto simp: sched_simps\<close>)

lemma list_heap: "run_heap (snd (list_tasks env now fault root s)) = run_heap s"
  using sweep_heap [of now fault s]
  by (auto simp: list_tasks_def Let_def split: option.splits prod.splits)

lemma add_task_good:
  assumes "sched_inv s" "fresh_task s k"
  shows "good_step s (snd (add_task env now fault1 fault2 k n s))"
proof -
  obtain e s1 where l: "list_tasks env now fault1 None s = (e, s1)" by (cases "list_tasks env now fault1 None s")
  have g: "good_step s s1" "run_heap s1 = run_heap s" "roots s1 \<subseteq> roots s"
    using list_good [OF assms(1), of env now fault1 None] list_heap [of env now fault1 None s]
      list_roots [of env now fault1 None s] l by simp_all
  have k: "TaskOf k \<notin> Domain (roots s1)" using assms(2) g(3) unfolding fresh_task_def by (metis Domain_mono subsetD)
  have g2: "good_step s1 (s1\<lparr>tasks := AList.update k t (tasks s1)\<rparr>)" for t
  proof (rule retasked_good [OF good_inv [OF g(1)]])
    show "dict_ok (AList.update k t (tasks s1))"
      using good_inv [OF g(1)] by (simp add: sched_inv_def dicts_ok_def dict_ok_update)
    have "spent_ok (tasks s1) (run_heap s1)" using good_inv [OF g(1)] by (simp add: sched_inv_def)
    then show "spent_ok (AList.update k t (tasks s1)) (run_heap s1)"
      using k unfolding spent_ok_iff by (blast dest!: in_update)
    have "one_root s1" using good_inv [OF g(1)] by (simp add: sched_inv_def)
    then have sv: "single_valued (insert (TaskOf k, workspace_root t) (roots s1))"
      using k by (auto simp: one_root_def single_valued_def)
    have "roots (s1\<lparr>tasks := AList.update k t (tasks s1)\<rparr>) \<subseteq> insert (TaskOf k, workspace_root t) (roots s1)"
      by (rule same_core_roots [OF same_core_tasks(2)]) (auto dest!: in_update)
    then show "one_root (s1\<lparr>tasks := AList.update k t (tasks s1)\<rparr>)"
      unfolding one_root_def using sv by (rule single_valued_subset)
  qed
  show ?thesis
    using g(1) save_good [OF good_step_trans [OF g(1) g2]]
    by (auto simp: add_task_def l Let_def split: sum.splits option.splits prod.splits)
qed

lemma remove_task_good:
  assumes "sched_inv s"
  shows "good_step s (snd (remove_task env fault k root s))"
proof -
  have g: "good_step s (s\<lparr>tasks := AList.delete k (tasks s)\<rparr>)"
  proof (rule retasked_good [OF assms])
    show "dict_ok (AList.delete k (tasks s))"
      using assms by (simp add: sched_inv_def dicts_ok_def dict_ok_delete)
    show "spent_ok (AList.delete k (tasks s)) (run_heap s)"
      by (rule spent_ok_subset [of "tasks s" "run_heap s"])
        (use assms in \<open>auto simp: sched_inv_def AList.delete_eq\<close>)
    show "one_root (s\<lparr>tasks := AList.delete k (tasks s)\<rparr>)"
      by (rule one_root_shrinks [of s]) (use assms in \<open>auto simp: sched_inv_def AList.delete_eq\<close>)
  qed
  show ?thesis
    using good_step_refl [OF assms] save_good [OF g]
    by (auto simp: remove_task_def split: option.splits prod.splits)
qed

lemma toggle_task_cases:
  fixes s :: scheduler and k :: ustr and on :: bool
  defines "s1 \<equiv> set_task k (\<lambda>t. t\<lparr>enabled := on\<rparr>) (s\<lparr>unusable := filter (\<lambda>x. x \<noteq> k) (unusable s)\<rparr>)"
  obtains (same) "snd (toggle_task env now fault k on root s) = s"
  | (failed) "snd (toggle_task env now fault k on root s) = s1"
  | (saved) due where "snd (toggle_task env now fault k on root s) = snd (save fault (set_task k (\<lambda>t. t\<lparr>next_run_at := due\<rparr>) s1))"
proof (cases "map_of (tasks s) k")
  case None
  then show thesis using same by (simp add: toggle_task_def)
next
  case (Some t)
  let ?gone = "deleted_at t \<noteq> None \<or> \<not> workspace_matches env (workspace_root t) root"
  let ?zone = "on \<and> timezone t \<noteq> [] \<and> \<not> is_valid_timezone (clocks env) (timezone t)"
  consider "?gone" | "\<not> ?gone" "?zone" | "\<not> ?gone" "\<not> ?zone" by blast
  then show thesis
  proof cases
    case 1
    then have "snd (toggle_task env now fault k on root s) = s"
      unfolding toggle_task_def Some option.case by (simp only: if_True snd_conv)
    then show thesis by (rule same)
  next
    case 2
    then have "snd (toggle_task env now fault k on root s) = s"
      unfolding toggle_task_def Some option.case by (simp only: if_True if_False snd_conv simp_thms)
    then show thesis by (rule same)
  next
    case 3
    then have t: "toggle_task env now fault k on root s =
        (case (if on then next_run env (schedule t) now (timezone t) else Inr None) of
           Inl e \<Rightarrow> (Inl (ZoneFailed e), s1)
         | Inr due \<Rightarrow> (case save fault (set_task k (\<lambda>t. t\<lparr>next_run_at := due\<rparr>) s1) of
              (Some e, s2) \<Rightarrow> (Inl e, s2) | (None, s2) \<Rightarrow> (Inr True, s2)))"
      unfolding toggle_task_def Some option.case s1_def Let_def by (simp only: if_False)
    show thesis
    proof (cases "if on then next_run env (schedule t) now (timezone t) else Inr None")
      case (Inl e)
      with t show thesis by (intro failed) (simp only: sum.case snd_conv)
    next
      case (Inr due)
      let ?s2 = "set_task k (\<lambda>t. t\<lparr>next_run_at := due\<rparr>) s1"
      from Inr t have "snd (toggle_task env now fault k on root s) = snd (save fault ?s2)"
        by (cases "save fault ?s2"; cases "fst (save fault ?s2)") simp_all
      then show thesis by (rule saved)
    qed
  qed
qed

lemma toggle_task_good:
  assumes "sched_inv s"
  shows "good_step s (snd (toggle_task env now fault k on root s))"
proof -
  let ?s1 = "set_task k (\<lambda>t. t\<lparr>enabled := on\<rparr>) (s\<lparr>unusable := filter (\<lambda>x. x \<noteq> k) (unusable s)\<rparr>)"
  have g1: "good_step s ?s1"
    using unusable_good [OF assms, of "filter (\<lambda>x. x \<noteq> k) (unusable s)"]
    by (rule good_step_trans) (rule retask_good, simp_all add: good_inv [OF unusable_good [OF assms]])
  have g2: "good_step s (set_task k (\<lambda>t. t\<lparr>next_run_at := due\<rparr>) ?s1)" for due
    using g1 by (rule good_step_trans) (rule retask_good, simp_all add: good_inv [OF g1])
  show ?thesis
  proof (rule toggle_task_cases [of env now fault k on root s], goal_cases same failed saved)
    case (saved due)
    show ?thesis unfolding saved by (rule good_step_save [OF g2])
  qed (use good_step_refl [OF assms] g1 in simp_all)
qed

lemma bind_good:
  assumes "sched_inv s"
  shows "good_step s (snd (bind_run_conversation fault r c s))"
proof -
  have "good_step s (set_run r (\<lambda>x. x\<lparr>run_conversation := c\<rparr>) s)"
    by (rule rerun_good [OF assms]) (simp_all add: owned_def)
  then show ?thesis
    using good_step_refl [OF assms] good_step_save by (simp add: bind_run_conversation_def)
qed

section \<open>Cancelling and destroying\<close>

lemma cancel_roots: "roots (cancel_workers ws s) \<subseteq> roots s"
proof -
  have "w_task w' = w_task w \<and> w_run w' = w_run w \<and> w_root w' = w_root w"
    if "w' = (if i \<in> set ws then w\<lparr>w_cancel := True\<rparr> else w)" for i w w'
    using that by simp
  then show ?thesis by (intro roots_subI) (auto simp: cancel_workers_def)
qed

lemma cancel_workers_good: "sched_inv s \<Longrightarrow> good_step s (cancel_workers ws s)"
  using cancel_workers_ok [of s ws] files_ok_same [of "cancel_workers ws s" s] one_root_sub [OF _ cancel_roots]
  by (auto simp: good_step_def sched_inv_def dicts_ok_def sched_simps evolves_def elim!: cancelled_worker)

lemma reflag_good:
  assumes "sched_inv s"
  shows "good_step s (set_worker wid (\<lambda>w. w\<lparr>w_cancel := True\<rparr>) s)"
  by (rule reworker_good [OF assms], rule set_worker_workers_ok)
    (use assms in \<open>auto simp: sched_inv_def live_def\<close>)

lemma cancel_run_good:
  assumes "sched_inv s"
  shows "good_step s (snd (cancel_run env now fault r root s))"
proof -
  let ?f = "\<lambda>wid. set_worker wid (\<lambda>w. w\<lparr>w_cancel := True\<rparr>) s"
  have "good_step s (set_run r (mark_cancelled now (u ''cancel_requested'')) (?f wid))" for wid
    using reflag_good [OF assms, of wid]
    by (rule good_step_trans) (rule rerun_good,
      simp_all add: good_inv [OF reflag_good [OF assms]] mark_cancelled_def owned_def)
  then show ?thesis
    using good_step_refl [OF assms] save_good [of s _ fault]
    by (auto simp: cancel_run_def split: option.splits prod.splits)
qed

lemma live_cancelled [sched_simps]: "live_worker (cancel_workers ws s) wid = live_worker s wid"
  by (auto simp: live_worker_def cancel_workers_def keyed_get live_def split: option.splits)

lemma destroy_begin_good:
  assumes "sched_inv s" "destroy_begin c s = (d, s')"
  shows "good_step s s'" and "d = Some d' \<Longrightarrow> destruction_ok s' d'"
proof -
  show "good_step s s'"
    using assms good_step_refl cancel_workers_good
    by (auto simp: destroy_begin_def Let_def split: if_splits)
  assume "d = Some d'"
  with assms(2) obtain rs ws where
    s': "s' = cancel_workers ws s" and d': "d_runs d' = rs" "d_workers d' = ws"
    and rs: "set rs \<subseteq> fst ` set (run_heap s)"
    and ws: "ws = map snd (filter (\<lambda>(r, wid). r \<in> set rs \<and> live_worker s wid) (run_tasks s))"
    by (fastforce simp: destroy_begin_def Let_def listed_runs_def split: if_splits)
  have "wid \<in> set ws" if w': "map_of (workers s') wid = Some w'" "live w'" "w_run w' \<in> set rs" for wid w'
  proof -
    obtain w where w: "map_of (workers s) wid = Some w" "live w" "w_run w = w_run w'"
      using w'(1,2) unfolding s' by (elim cancelled_worker) auto
    with assms(1) have "map_of (run_tasks s) (w_run w') = Some wid"
      using workers_okD [of s wid w] by (auto simp: sched_inv_def worker_ok_def)
    then have "(w_run w', wid) \<in> set (run_tasks s)" by (rule map_of_SomeD)
    moreover have "live_worker s wid" using w by (simp add: live_worker_def)
    ultimately show ?thesis using w'(3) unfolding ws by force
  qed
  then show "destruction_ok s' d'"
    using rs by (simp add: destruction_ok_def d' s' sched_simps)
qed

lemma filtered_get: "map_of d k = Some v \<Longrightarrow> P (k, v) \<Longrightarrow> map_of (filter P d) k = Some v"
  by (induction d) (auto split: if_splits)

text \<open>Runs without a live worker, and any tasks, leave the dictionaries.\<close>

lemma dropped_good:
  assumes "sched_inv s" "\<And>r. runs_live s r \<Longrightarrow> P r" "\<And>r wid. P r \<Longrightarrow> live_worker s wid \<Longrightarrow> Q (r, wid)"
  shows "good_step s (s\<lparr>run_tasks := filter Q (run_tasks s), runs := filter P (runs s),
    tasks := filter R (tasks s)\<rparr>)"
proof -
  let ?s' = "s\<lparr>run_tasks := filter Q (run_tasks s), runs := filter P (runs s), tasks := filter R (tasks s)\<rparr>"
  have "workers_ok ?s'"
  proof (rule workers_ok_step [of s])
    fix wid w assume w: "map_of (workers ?s') wid = Some w" "live w" "map_of (run_tasks s) (w_run w) = Some wid"
    then have "runs_live s (w_run w)" "live_worker s wid" by (auto simp: runs_live_def live_worker_def)
    with w(3) show "map_of (run_tasks ?s') (w_run w) = Some wid" using assms(2,3) by (simp add: filtered_get)
  next
    fix r assume "runs_live ?s' r" "r \<in> set (runs s)"
    then show "r \<in> set (runs ?s')" using assms(2) by (simp add: runs_live_def)
  qed (use assms(1) in \<open>auto simp: sched_inv_def\<close>)
  moreover have "dict_ok (filter R (tasks s))"
    using assms(1) by (simp add: sched_inv_def dicts_ok_def distinct_map_filter)
  moreover have "spent_ok (filter R (tasks s)) (run_heap s)"
    by (rule spent_ok_subset [of "tasks s" "run_heap s"]) (use assms(1) in \<open>auto simp: sched_inv_def\<close>)
  moreover have "one_root ?s'"
    by (rule one_root_shrinks [of s]) (use assms(1) in \<open>auto simp: sched_inv_def\<close>)
  ultimately show ?thesis
    using assms(1) files_ok_same [of ?s' s] by (simp add: good_step_def sched_inv_def dicts_ok_def evolves_same)
qed

lemma destroy_finish_good:
  assumes "sched_inv s" "destruction_ok s d"
  shows "good_step s (snd (destroy_finish fault d s))"
proof (cases "\<exists>wid \<in> set (d_workers d). live_worker s wid")
  case True
  then show ?thesis by (simp add: destroy_finish_def good_step_refl assms(1))
next
  case False
  let ?s1 = "s\<lparr>run_tasks := filter (\<lambda>(r, wid). r \<notin> set (d_runs d)) (run_tasks s),
    runs := filter (\<lambda>r. r \<notin> set (d_runs d)) (runs s), tasks := filter (\<lambda>(k, t). k \<notin> set (d_tasks d)) (tasks s)\<rparr>"
  have "r \<notin> set (d_runs d)" if "runs_live s r" for r
    using that False assms(2) by (fastforce simp: runs_live_def destruction_ok_def live_worker_def)
  then have g: "good_step s ?s1" by (intro dropped_good [OF assms(1)]) auto
  show ?thesis
    using False g save_good [OF g] by (auto simp: destroy_finish_def Let_def split: option.splits prod.splits)
qed

section \<open>Stopping\<close>

lemma stop_begin_good:
  assumes "sched_inv s"
  shows "good_step s (snd (stop_begin s))"
proof -
  have "good_step s (s\<lparr>is_running := False\<rparr>)"
    by (rule same_workers_good [OF assms])
      (use assms in \<open>auto simp: same_core_def sched_inv_def dicts_ok_def one_root_def roots_def all_tasks_def all_runs_def\<close>)
  then show ?thesis
    by (auto simp: stop_begin_def Let_def intro: good_step_trans cancel_workers_good good_inv)
qed

lemma reruns_good:
  assumes "sched_inv s" "\<And>r x. task_id (f r x) = task_id x" "\<And>r x. owned x \<Longrightarrow> owned (f r x)"
    "\<And>r x. run_root (f r x) = run_root x"
  shows "good_step s (s\<lparr>run_heap := map (\<lambda>(r, x). (r, f r x)) (run_heap s)\<rparr>)"
proof -
  let ?s' = "s\<lparr>run_heap := map (\<lambda>(r, x). (r, f r x)) (run_heap s)\<rparr>"
  have w: "workers_ok ?s'"
    by (rule workers_ok_step [of s])
      (use assms in \<open>auto simp: sched_inv_def keyed_get\<close>)
  have d: "dict_ok (run_heap ?s')"
    using assms(1) by (simp add: sched_inv_def dicts_ok_def keyed_keys del: map_map)
  have sp: "spent_ok (tasks s) (run_heap ?s')"
  proof (rule spent_ok_mono)
    show "spent_ok (tasks s) (run_heap s)" using assms(1) by (simp add: sched_inv_def)
    show "\<exists>q x. (q, x) \<in> set (run_heap s) \<and> task_id x = task_id x'" if "(r, x') \<in> set (run_heap ?s')" for r x'
      using that assms(2) by auto metis
  qed blast
  have "roots ?s' \<subseteq> roots s" by (rule roots_subI) (use assms(2,4) in auto)
  moreover have "evolves s ?s'" by (force simp: evolves_def)
  ultimately show ?thesis
    using assms(1) w d sp files_ok_same [of ?s' s] one_root_sub [of s ?s'] by (simp add: good_step_def sched_inv_def dicts_ok_def)
qed

lemma shut_down_simps [sched_simps]:
  "task_id (shut_down now x) = task_id x" "owned (shut_down now x)" "run_root (shut_down now x) = run_root x"
  by (simp_all add: shut_down_def owned_def)

lemma stop_finish_good:
  assumes "sched_inv s"
  shows "good_step s (snd (stop_finish now fault ws s))"
proof -
  have prune: "good_step s1 (s1\<lparr>run_tasks := filter (\<lambda>(r, wid). live_worker s1 wid) (run_tasks s1)\<rparr>)"
    if "sched_inv s1" for s1
    using dropped_good [OF that, of "\<lambda>_. True" "\<lambda>(r, wid). live_worker s1 wid" "\<lambda>_. True"] by simp
  define stuck where "stuck = filter (\<lambda>r. r \<in> set (runs s))
    (map fst (filter (\<lambda>(r, wid). wid \<in> set (filter (live_worker s) ws)) (run_tasks s)))"
  let ?s1 = "s\<lparr>run_heap := map (\<lambda>(r, x). (r, if r \<in> set stuck then shut_down now x else x)) (run_heap s)\<rparr>"
  obtain e s2 where sv: "save fault ?s1 = (e, s2)" by (cases "save fault ?s1")
  have "good_step s ?s1" by (rule reruns_good [OF assms]) (auto simp: sched_simps)
  from save_good [OF this sv] have g: "good_step s s2" .
  show ?thesis
  proof (cases "filter (live_worker s) ws = []")
    case True
    then show ?thesis using prune [OF assms] by (simp add: stop_finish_def)
  next
    case False
    then have "stop_finish now fault ws s = (case save fault ?s1 of (Some e, s1) \<Rightarrow> (Some e, s1)
        | (None, s1) \<Rightarrow> (None, s1\<lparr>run_tasks := filter (\<lambda>(r, wid). live_worker s1 wid) (run_tasks s1)\<rparr>))"
      unfolding stop_finish_def Let_def stuck_def by (simp only: if_False)
    then show ?thesis
      using g good_step_trans [OF g prune [OF good_inv [OF g]]] by (cases e) (simp_all add: sv)
  qed
qed

section \<open>Worker steps\<close>

lemma worker_run_commute: "set_worker wid f (set_run r g s) = set_run r g (set_worker wid f s)"
  by (simp add: set_worker_def set_run_def)

lemma finish_good:
  assumes "sched_inv s"
  shows "good_step s (set_worker wid (\<lambda>w. w\<lparr>w_phase := Finished o'\<rparr>) s)"
  by (rule reworker_good [OF assms], rule set_worker_workers_ok)
    (use assms in \<open>auto simp: sched_inv_def live_def\<close>)

text \<open>The run of a worker that has just finished is free to change.\<close>

lemma finish_run_good:
  assumes "sched_inv s" "map_of (workers s) wid = Some w" "live w" "\<And>x. task_id (f x) = task_id x"
    "\<And>x. run_root (f x) = run_root x \<or> run_root (f x) = w_root w"
  shows "good_step s (set_worker wid (\<lambda>w. w\<lparr>w_phase := Finished o'\<rparr>) (set_run (w_run w) f s))"
proof -
  let ?s1 = "set_worker wid (\<lambda>w. w\<lparr>w_phase := Finished o'\<rparr>) s"
  have g: "good_step s ?s1" by (rule finish_good [OF assms(1)])
  have "\<not> runs_live ?s1 (w_run w)"
  proof
    assume "runs_live ?s1 (w_run w)"
    then obtain j v where v: "map_of (workers ?s1) j = Some v" "live v" "w_run v = w_run w"
      by (auto simp: runs_live_def)
    then have "j \<noteq> wid" by (auto simp: sched_simps live_def)
    with v have "map_of (workers s) j = Some v" by (simp add: sched_simps)
    then have "j = wid"
      using live_unique_run [of s j v wid w] v assms(1,2,3) by (simp add: sched_inv_def)
    with \<open>j \<noteq> wid\<close> show False by simp
  qed
  moreover have "(TaskOf (task_id x), run_root (f x)) \<in> roots ?s1 \<and> (RunOf (w_run w), run_root (f x)) \<in> roots ?s1"
    if x: "(w_run w, x) \<in> set (run_heap ?s1)" for x
  proof -
    have "worker_ok s wid w" using assms(1-3) by (auto simp: sched_inv_def dest: workers_okD)
    then have "task_id x = w_task w"
      using assms(1) x by (auto simp: worker_ok_def sched_inv_def dicts_ok_def sched_simps dest: map_of_is_SomeI)
    moreover have "(wid, w\<lparr>w_phase := Finished o'\<rparr>) \<in> set (workers ?s1)"
      using map_of_SomeD [OF assms(2)] by (auto simp: sched_simps upd_in)
    then have "(TaskOf (w_task w), w_root w) \<in> roots ?s1 \<and> (RunOf (w_run w), w_root w) \<in> roots ?s1"
      using roots_intro(4,5) [of wid "w\<lparr>w_phase := Finished o'\<rparr>" ?s1] by simp
    ultimately show ?thesis using assms(5) [of x] roots_intro(2,3) [OF x] by auto
  qed
  ultimately have "good_step ?s1 (set_run (w_run w) f ?s1)"
    using assms(4) good_inv [OF g] by (intro rerun_root_good) auto
  with g show ?thesis unfolding worker_run_commute by (rule good_step_trans)
qed

lemma begin_good:
  assumes "sched_inv s" "\<And>w. map_of (workers s) wid = Some w \<Longrightarrow> w_phase w = Ready"
  shows "good_step s (set_worker wid (\<lambda>w. w\<lparr>w_phase := Executing\<rparr>) s)"
  by (rule reworker_good [OF assms(1)], rule set_worker_workers_ok)
    (use assms in \<open>auto simp: sched_inv_def live_def\<close>)

lemma start_worker_good:
  assumes "sched_inv s"
  shows "good_step s (start_worker env now fault wid s)"
proof (cases "map_of (workers s) wid")
  case None
  then show ?thesis by (simp add: start_worker_def good_step_refl assms)
next
  case (Some w)
  let ?s0 = "set_run (w_run w) (\<lambda>x. x\<lparr>status := RUNNING, started_at := Some now\<rparr>) s"
  let ?s1 = "set_task (w_task w) (\<lambda>t. t\<lparr>last_run_status := Some RUNNING\<rparr>) ?s0"
  have g0: "good_step s ?s0" by (rule rerun_good [OF assms]) (simp_all add: owned_def)
  have g1: "good_step s ?s1" using g0 by (rule good_step_trans) (rule retask_good, simp_all add: good_inv [OF g0])
  obtain e s2 where sv: "save fault ?s1 = (e, s2)" by (cases "save fault ?s1")
  from save_good [OF g1 sv] have g2: "good_step s s2" .
  have w2: "workers s2 = workers s" using save_simps(3) [of fault ?s1] sv by (simp add: sched_simps)
  have fail: "good_step s (set_worker wid (\<lambda>w. w\<lparr>w_phase := Finished Returned\<rparr>)
      (set_run (w_run w) (\<lambda>x. x\<lparr>status := FAILED, error := msg\<rparr>) s2))" if "w_phase w = Ready" for msg
    using g2 by (rule good_step_trans)
      (rule finish_run_good, use good_inv [OF g2] w2 Some that in \<open>auto simp: live_def\<close>)
  have run: "good_step s (set_worker wid (\<lambda>w. w\<lparr>w_phase := Executing\<rparr>) s2)" if "w_phase w = Ready"
    using g2 by (rule good_step_trans) (rule begin_good, use good_inv [OF g2] w2 Some that in auto)
  show ?thesis
  proof (cases "w_phase w = Ready \<and> \<not> w_cancel w")
    case True
    then show ?thesis
      using fail run by (cases e) (auto simp: start_worker_def Some Let_def sv)
  next
    case False
    then show ?thesis
      using finish_good [OF assms] good_step_refl [OF assms] by (auto simp: start_worker_def Some)
  qed
qed

lemma end_worker_good:
  assumes "sched_inv s"
  shows "good_step s (end_worker env wid e s)"
proof (cases "map_of (workers s) wid")
  case None
  then show ?thesis by (simp add: end_worker_def good_step_refl assms)
next
  case (Some w)
  have "good_step s (set_worker wid (\<lambda>w. w\<lparr>w_phase := Finished o'\<rparr>) (set_run (w_run w) f s))"
    if "w_phase w = Executing" "\<And>x. task_id (f x) = task_id x" "\<And>x. run_root (f x) = run_root x \<or> run_root (f x) = w_root w" for o' f
    by (rule finish_run_good [OF assms Some _ that(2,3)]) (simp add: live_def that(1))
  then show ?thesis
    using good_step_refl [OF assms] finish_good [OF assms]
    by (cases e) (simp_all add: end_worker_def Some record_result_def Let_def)
qed

lemma settle_simps [sched_simps]: "task_id (settle now o' x) = task_id x" "run_root (settle now o' x) = run_root x"
  by (simp_all add: settle_def Let_def split: outcome.splits)

text \<open>A finished worker, its registration and the state of its run go together.\<close>

lemma reap_good:
  assumes "sched_inv s" "map_of (workers s) wid = Some w" "\<not> live w"
  shows "good_step s (s\<lparr>workers := AList.delete wid (workers s)\<rparr>)"
proof -
  have get: "map_of (AList.delete wid (workers s)) j = Some v \<longleftrightarrow> j \<noteq> wid \<and> map_of (workers s) j = Some v" for j v
    by (simp add: dict_simps)
  have "workers_ok (s\<lparr>workers := AList.delete wid (workers s)\<rparr>)"
    by (rule workers_ok_step [of s]) (use assms in \<open>auto simp: sched_inv_def get\<close>)
  moreover have "evolves s (s\<lparr>workers := AList.delete wid (workers s)\<rparr>)"
    by (auto simp: evolves_def get)
  moreover have "\<forall>i \<in> fst ` set (AList.delete wid (workers s)). i < next_wid s"
    using assms(1) by (auto simp: sched_inv_def dicts_ok_def AList.delete_eq)
  moreover have "one_root (s\<lparr>workers := AList.delete wid (workers s)\<rparr>)"
    by (rule one_root_shrinks [of s]) (use assms(1) in \<open>auto simp: sched_inv_def AList.delete_eq\<close>)
  ultimately show ?thesis
    using assms(1) files_ok_same [of "s\<lparr>workers := AList.delete wid (workers s)\<rparr>" s]
    by (simp add: good_step_def sched_inv_def dicts_ok_def)
qed

lemma unregister_good:
  assumes "sched_inv s" "\<not> runs_live s r"
  shows "good_step s (s\<lparr>run_tasks := AList.delete r (run_tasks s)\<rparr>)"
proof -
  have "workers_ok (s\<lparr>run_tasks := AList.delete r (run_tasks s)\<rparr>)"
    by (rule drop_runs_ok [of s]) (use assms in \<open>auto simp: sched_inv_def dict_simps\<close>)
  moreover have "one_root (s\<lparr>run_tasks := AList.delete r (run_tasks s)\<rparr>)"
    by (rule one_root_shrinks [of s]) (use assms(1) in \<open>auto simp: sched_inv_def\<close>)
  ultimately show ?thesis
    using assms(1) files_ok_same [of "s\<lparr>run_tasks := AList.delete r (run_tasks s)\<rparr>" s]
    by (simp add: good_step_def sched_inv_def dicts_ok_def evolves_same)
qed

lemma finalize_worker_good:
  assumes "sched_inv s"
  shows "good_step s (finalize_worker now fault wid s)"
proof (cases "\<exists>w o'. map_of (workers s) wid = Some w \<and> w_phase w = Finished o'")
  case False
  then show ?thesis
    using good_step_refl [OF assms] by (auto simp: finalize_worker_def split: option.splits phase.splits)
next
  case True
  then obtain w o' where w: "map_of (workers s) wid = Some w" "w_phase w = Finished o'" by blast
  let ?gone = "s\<lparr>workers := AList.delete wid (workers s)\<rparr>"
  let ?s1 = "set_run (w_run w) (settle now o') ?gone"
  have g: "good_step s ?gone" using w by (intro reap_good [OF assms]) (auto simp: live_def)
  show ?thesis
  proof (cases "map_of (run_tasks s) (w_run w) = Some wid")
    case False
    then show ?thesis using g by (simp add: finalize_worker_def w)
  next
    case True
    have idle: "\<not> runs_live ?gone (w_run w)"
    proof
      assume "runs_live ?gone (w_run w)"
      then obtain j v where v: "map_of (workers s) j = Some v" "live v" "w_run v = w_run w" "j \<noteq> wid"
        by (auto simp: runs_live_def dict_simps split: if_splits)
      with workers_okD [of s j v] assms True show False by (simp add: sched_inv_def worker_ok_def)
    qed
    have g1: "good_step s ?s1"
      using g by (rule good_step_trans) (rule rerun_good, use good_inv [OF g] idle in \<open>simp_all add: sched_simps\<close>)
    have g2: "good_step s (set_task (w_task w) f ?s1)"
      if "\<And>t. recurring (f t) = recurring t" "\<And>t. deleted_at (f t) = deleted_at t" "\<And>t. workspace_root (f t) = workspace_root t" for f
      using g1 by (rule good_step_trans) (rule retask_good, use good_inv [OF g1] that in simp_all)
    have g3: "good_step s ((set_task (w_task w) f ?s1)\<lparr>run_tasks := AList.delete (w_run w) (run_tasks s)\<rparr>)"
      if f: "\<And>t. recurring (f t) = recurring t" "\<And>t. deleted_at (f t) = deleted_at t" "\<And>t. workspace_root (f t) = workspace_root t" for f
    proof -
      let ?s2 = "set_task (w_task w) f ?s1"
      have "good_step ?s2 (?s2\<lparr>run_tasks := AList.delete (w_run w) (run_tasks ?s2)\<rparr>)"
        by (rule unregister_good) (use good_inv [OF g2 [OF f]] idle in \<open>simp_all add: runs_live_def sched_simps\<close>)
      moreover have "run_tasks ?s2 = run_tasks s" by (simp add: sched_simps)
      ultimately have "good_step ?s2 (?s2\<lparr>run_tasks := AList.delete (w_run w) (run_tasks s)\<rparr>)" by (simp only:)
      from good_step_trans [OF g2 [OF f] this] show ?thesis .
    qed
    show ?thesis
    proof (cases "map_of (run_heap ?s1) (w_run w)")
      case None
      with True g1 show ?thesis by (simp add: finalize_worker_def w)
    next
      case (Some x)
      let ?f = "\<lambda>t. t\<lparr>last_run_id := Some (w_run w), last_run_status := Some (status x),
        last_error := (if error x = [] then None else Some (error x))\<rparr>"
      from True Some have "finalize_worker now fault wid s =
          snd (save fault ((set_task (w_task w) ?f ?s1)\<lparr>run_tasks := AList.delete (w_run w) (run_tasks s)\<rparr>))"
        by (simp add: finalize_worker_def w Let_def)
      then show ?thesis using good_step_save [OF g3, of ?f] by simp
    qed
  qed
qed

section \<open>A new process\<close>

lemma load_task_simps [sched_simps]:
  "recurring (fst (load_task env t)) = recurring t" "deleted_at (fst (load_task env t)) = deleted_at t"
  "workspace_root (fst (load_task env t)) = workspace_root t"
  by (auto simp: load_task_def split: sum.splits)

lemma load_simps [sched_simps]:
  "tasks (load env s) = map (\<lambda>(k, t). (k, fst (load_task env t))) (disk_tasks s)"
  "run_heap (load env s) = filter (\<lambda>(k, r). task_id r \<noteq> []) (disk_runs s)"
  "runs (load env s) = map fst (run_heap (load env s))"
  "workers (load env s) = []" "run_tasks (load env s) = []" "files (load env s) = files s"
  "registry (load env s) = registry s" "is_running (load env s) = False"
  by (simp_all add: load_def Let_def case_prod_beta)

lemma load_roots: "roots (load env s) \<subseteq> roots s"
proof (rule roots_subI)
  show "(TaskOf k, workspace_root t) \<in> roots s" if k: "(k, t) \<in> set (tasks (load env s))" for k t
  proof -
    obtain t0 where "(k, t0) \<in> set (disk_tasks s)" "workspace_root t = workspace_root t0"
      using k by (auto simp: sched_simps)
    then show ?thesis by (elim visible_task) (auto dest!: map_of_SomeD)
  qed
  show "(TaskOf (task_id x), run_root x) \<in> roots s \<and> (RunOf r, run_root x) \<in> roots s" if r: "(r, x) \<in> set (run_heap (load env s))" for r x
  proof -
    have "(r, x) \<in> set (disk_runs s)" using r by (simp add: sched_simps)
    then show ?thesis by (elim visible_run) (auto dest!: map_of_SomeD)
  qed
qed (auto simp: sched_simps)

lemma load_inv:
  assumes "sched_inv s"
  shows "sched_inv (load env s)"
proof -
  have d: "dict_ok (disk_tasks s)" "dict_ok (disk_runs s)"
    unfolding visible_tasks_on_def visible_runs_on_def by (rule dict_of_facts)+
  have "spent_ok (tasks (load env s)) (run_heap (load env s))"
  proof (rule spent_ok_mono)
    show "spent_ok (disk_tasks s) (disk_runs s)" using assms by (simp add: sched_inv_def spent_visible)
  qed (auto simp: sched_simps)
  moreover have "dict_ok (run_heap (load env s))"
    using d(2) by (simp add: sched_simps distinct_map_filter)
  moreover have "dict_ok (tasks (load env s))"
    using d(1) by (simp add: sched_simps keyed_keys del: map_map)
  moreover have "one_root (load env s)" using assms by (intro one_root_sub [OF _ load_roots]) (simp add: sched_inv_def)
  ultimately show ?thesis
    using assms files_ok_same [of "load env s" s] by (simp add: sched_inv_def dicts_ok_def workers_ok_def sched_simps)
qed

text \<open>A run waiting to be replayed.\<close>

definition pending_ok :: "scheduler \<Rightarrow> ustr \<times> ustr \<Rightarrow> bool" where
  "pending_ok s p \<longleftrightarrow> snd p \<in> set (runs s) \<and> snd p \<in> fst ` set (disk_runs s)
     \<and> (\<exists>x. map_of (run_heap s) (snd p) = Some x \<and> task_id x = fst p \<and> status x = PENDING)"

definition rec_ok :: "ustr list \<Rightarrow> reconciling \<Rightarrow> bool" where
  "rec_ok rs c \<longleftrightarrow> sched_inv (rc_state c) \<and> workers (rc_state c) = [] \<and> distinct (map fst (rc_pending c))
     \<and> (\<forall>p \<in> set (rc_pending c). pending_ok (rc_state c) p \<and> snd p \<notin> set rs)
     \<and> (\<forall>r \<in> set rs. r \<in> set (runs (rc_state c)) \<and> r \<in> fst ` set (disk_runs (rc_state c)))"

lemma statuses_differ [sched_simps]: "PENDING \<noteq> RUNNING" "PENDING \<noteq> FAILED" "RUNNING \<noteq> PENDING" "FAILED \<noteq> PENDING"
  by (simp_all add: PENDING_def RUNNING_def FAILED_def u_def)

text \<open>What the reconciliation of one run does to the state.\<close>

definition only_run :: "ustr \<Rightarrow> scheduler \<Rightarrow> scheduler \<Rightarrow> bool" where
  "only_run r s s' \<longleftrightarrow> workers s' = workers s \<and> runs s' = runs s \<and> files s' = files s \<and> registry s' = registry s
     \<and> map fst (tasks s') = map fst (tasks s)
     \<and> (\<forall>q. q \<noteq> r \<longrightarrow> map_of (run_heap s') q = map_of (run_heap s) q)"

lemma idle_rerun_good:
  "sched_inv s \<Longrightarrow> workers s = [] \<Longrightarrow> (\<And>x. task_id (f x) = task_id x) \<Longrightarrow> (\<And>x. run_root (f x) = run_root x) \<Longrightarrow> good_step s (set_run r f s)"
  by (rule rerun_good) (auto simp: runs_live_def)

lemma only_run_simps [sched_simps]: "only_run r s s" "only_run r s (set_run r f s)"
  by (simp_all add: only_run_def sched_simps)

lemma only_run_retask: "only_run r s s' \<Longrightarrow> only_run r s (set_task k f s')"
  by (simp add: only_run_def sched_simps)

lemma reconcile_one_cases:
  assumes "sched_inv (rc_state c)" "workers (rc_state c) = []"
  obtains
    (settled) s' where "good_step (rc_state c) s'" "only_run r (rc_state c) s'"
      "rc_state (reconcile_one now r c) = s'" "rc_pending (reconcile_one now r c) = rc_pending c"
      "\<And>x. map_of (run_heap (rc_state c)) r = Some x \<Longrightarrow> status x = PENDING \<Longrightarrow>
         task_id x \<in> set (map fst (rc_pending c)) \<or> map_of (tasks (rc_state c)) (task_id x) = None"
  | (queued) x t where "map_of (run_heap (rc_state c)) r = Some x" "status x = PENDING"
      "map_of (tasks (rc_state c)) (task_id x) = Some t" "task_id x \<notin> set (map fst (rc_pending c))"
      "reconcile_one now r c = c\<lparr>rc_pending := rc_pending c @ [(task_id x, r)]\<rparr>"
proof (cases "map_of (run_heap (rc_state c)) r")
  case None
  show thesis
    by (rule settled [of "rc_state c"])
      (use None in \<open>auto simp: reconcile_one_def Let_def good_step_refl assms sched_simps\<close>)
next
  case (Some x)
  let ?s = "rc_state c" and ?k = "task_id x"
  let ?fails = "\<lambda>msg. set_run r (fail_run now msg) ?s"
  have ft: "task_id (fail_run now msg y) = task_id y \<and> run_root (fail_run now msg y) = run_root y" for msg y
    by (simp add: fail_run_def)
  have f: "good_step ?s (?fails msg)" for msg by (rule idle_rerun_good [OF assms]) (simp_all add: ft)
  have kept: "rc_state (reconcile_one now r c) = set_task ?k (\<lambda>t. t\<lparr>last_run_status := Some FAILED, last_error := Some e\<rparr>) s1
      \<or> rc_state (reconcile_one now r c) = s1 \<Longrightarrow> good_step ?s s1 \<Longrightarrow> only_run r ?s s1 \<Longrightarrow>
      good_step ?s (rc_state (reconcile_one now r c)) \<and> only_run r ?s (rc_state (reconcile_one now r c))" for s1 e
    by (elim disjE) (auto simp: only_run_retask intro!: good_step_trans [of ?s s1] retask_good dest: good_inv)
  consider (running) "status x = RUNNING" | (missing) "status x = PENDING" "map_of (tasks ?s) ?k = None"
    | (dup) t where "status x = PENDING" "map_of (tasks ?s) ?k = Some t" "?k \<in> set (map fst (rc_pending c))"
    | (new) t where "status x = PENDING" "map_of (tasks ?s) ?k = Some t" "?k \<notin> set (map fst (rc_pending c))"
    | (other) "status x \<noteq> RUNNING" "status x \<noteq> PENDING"
    by (cases "map_of (tasks ?s) ?k") blast+
  then show thesis
  proof cases
    case running
    have "good_step ?s (rc_state (reconcile_one now r c)) \<and> only_run r ?s (rc_state (reconcile_one now r c))"
      by (rule kept [OF _ f [of "u ''interrupted by scheduler restart''"]])
        (use running in \<open>auto simp: reconcile_one_def Some Let_def sched_simps fail_run_def split: option.splits\<close>)
    then show thesis
      by (intro settled) (use running in \<open>auto simp: reconcile_one_def Some Let_def sched_simps split: option.splits\<close>)
  next
    case missing
    have "good_step ?s (rc_state (reconcile_one now r c)) \<and> only_run r ?s (rc_state (reconcile_one now r c))"
      by (rule kept [OF _ f [of "u ''scheduled task definition is missing''"]])
        (use missing in \<open>auto simp: reconcile_one_def Some Let_def sched_simps fail_run_def split: option.splits\<close>)
    then show thesis
      by (intro settled) (use missing in \<open>auto simp: reconcile_one_def Some Let_def sched_simps split: option.splits\<close>)
  next
    case dup
    have "good_step ?s (rc_state (reconcile_one now r c)) \<and> only_run r ?s (rc_state (reconcile_one now r c))"
      by (rule kept [OF _ f [of "u ''duplicate pending run suppressed during scheduler restart''"]])
        (use dup in \<open>auto simp: reconcile_one_def Some Let_def sched_simps fail_run_def split: option.splits\<close>)
    then show thesis
      by (intro settled) (use dup Some in \<open>auto simp: reconcile_one_def Let_def sched_simps split: option.splits\<close>)
  next
    case new
    then show thesis
      by (intro queued [of x t]) (auto simp: reconcile_one_def Some Let_def sched_simps)
  next
    case other
    have "good_step ?s (rc_state (reconcile_one now r c)) \<and> only_run r ?s (rc_state (reconcile_one now r c))"
      by (rule kept [OF _ good_step_refl [OF assms(1)]])
        (use other in \<open>auto simp: reconcile_one_def Some Let_def sched_simps split: option.splits\<close>)
    then show thesis
      by (intro settled) (use other Some in \<open>auto simp: reconcile_one_def Let_def sched_simps split: option.splits\<close>)
  qed
qed

text \<open>The tasks with a pending run among the processed runs are exactly accounted for.\<close>

definition covered :: "scheduler \<Rightarrow> ustr list \<Rightarrow> reconciling \<Rightarrow> bool" where
  "covered s0 rs c \<longleftrightarrow> map fst (tasks (rc_state c)) = map fst (tasks s0)
     \<and> (\<forall>r \<in> set rs. map_of (run_heap (rc_state c)) r = map_of (run_heap s0) r)
     \<and> (\<forall>r x. r \<notin> set rs \<longrightarrow> r \<in> set (runs s0) \<longrightarrow> map_of (run_heap s0) r = Some x \<longrightarrow> status x = PENDING
          \<longrightarrow> task_id x \<in> fst ` set (tasks s0) \<longrightarrow> task_id x \<in> set (map fst (rc_pending c)))"

lemma known_key: "k \<in> fst ` set d \<Longrightarrow> map_of d k \<noteq> None"
  by (simp add: map_of_eq_None_iff)

lemma reconcile_one_ok:
  assumes "rec_ok (r # rs) c" "r \<notin> set rs"
  shows "rec_ok rs (reconcile_one now r c)"
proof -
  have a: "sched_inv (rc_state c)" "workers (rc_state c) = []" using assms(1) by (simp_all add: rec_ok_def)
  show ?thesis
  proof (rule reconcile_one_cases [OF a, of r now], goal_cases settled queued)
    case (settled s')
    have "pending_ok s' p \<and> snd p \<notin> set rs" if "p \<in> set (rc_pending c)" for p
    proof -
      have "pending_ok (rc_state c) p" "snd p \<noteq> r" "snd p \<notin> set rs"
        using assms(1) that by (auto simp: rec_ok_def)
      then show ?thesis using settled(2) by (simp add: pending_ok_def only_run_def)
    qed
    then show ?thesis
      using settled assms(1) by (simp add: rec_ok_def only_run_def good_inv)
  next
    case (queued x t)
    then have "pending_ok (rc_state c) (task_id x, r)" using assms(1) by (simp add: rec_ok_def pending_ok_def)
    then show ?thesis
      using queued(4) assms unfolding queued(5) by (auto simp: rec_ok_def)
  qed
qed

lemma reconcile_one_covered:
  assumes "rec_ok (r # rs) c" "covered s0 (r # rs) c" "r \<notin> set rs"
  shows "covered s0 rs (reconcile_one now r c)"
proof -
  have a: "sched_inv (rc_state c)" "workers (rc_state c) = []" using assms(1) by (simp_all add: rec_ok_def)
  have r: "map_of (run_heap (rc_state c)) r = map_of (run_heap s0) r" using assms(2) by (simp add: covered_def)
  have same: "fst ` set (tasks (rc_state c)) = fst ` set (tasks s0)" using assms(2) unfolding covered_def by (metis set_map)
  show ?thesis
  proof (rule reconcile_one_cases [OF a, of r now], goal_cases settled queued)
    case (settled s')
    have "task_id x \<in> set (map fst (rc_pending c))"
      if "q \<notin> set rs" "q \<in> set (runs s0)" "map_of (run_heap s0) q = Some x" "status x = PENDING"
        "task_id x \<in> fst ` set (tasks s0)" for q x
    proof (cases "q = r")
      case True
      then show ?thesis using settled(5) r that known_key [of "task_id x" "tasks (rc_state c)"] same by auto
    next
      case False
      then show ?thesis using assms(2) that unfolding covered_def by (metis set_ConsD)
    qed
    moreover have "map_of (run_heap s') q = map_of (run_heap s0) q" if "q \<in> set rs" for q
      using that assms(2,3) settled(2) unfolding covered_def only_run_def by (metis list.set_intros(2))
    ultimately show ?thesis
      using settled(2) assms(2) unfolding covered_def settled(3,4) by (simp add: only_run_def)
  next
    case (queued x t)
    have "task_id y \<in> set (map fst (rc_pending c)) \<or> task_id y = task_id x"
      if "q \<notin> set rs" "q \<in> set (runs s0)" "map_of (run_heap s0) q = Some y" "status y = PENDING"
        "task_id y \<in> fst ` set (tasks s0)" for q y
    proof (cases "q = r")
      case True
      then show ?thesis using queued(1) r that by simp
    next
      case False
      then show ?thesis using assms(2) that unfolding covered_def by (metis set_ConsD)
    qed
    then show ?thesis using assms(2) unfolding covered_def queued(5) by simp blast
  qed
qed

lemma reconcile_all:
  assumes "rec_ok rs c" "covered s0 rs c" "distinct rs"
  shows "rec_ok [] (foldl (\<lambda>c r. reconcile_one now r c) c rs) \<and> covered s0 [] (foldl (\<lambda>c r. reconcile_one now r c) c rs)"
  using assms
proof (induction rs arbitrary: c)
  case (Cons r rs)
  then show ?case using reconcile_one_ok [of r rs c now] reconcile_one_covered [of r rs c s0 now] by simp
qed simp

text \<open>The replays: each starts one worker of a task that has none.\<close>

definition replay_ok :: "scheduler \<Rightarrow> (ustr \<times> ustr) list \<Rightarrow> bool" where
  "replay_ok s ps \<longleftrightarrow> sched_inv s \<and> distinct (map fst ps)
     \<and> (\<forall>p \<in> set ps. pending_ok s p \<and> (\<forall>wid w. map_of (workers s) wid = Some w \<longrightarrow> live w \<longrightarrow> w_task w \<noteq> fst p))"

lemma replay_workers_ok:
  assumes "replay_ok s ((k, r) # ps)"
  shows "workers_ok (spawn Ready k t r s)"
proof -
  let ?s = "spawn Ready k t r s"
  have s: "workers_ok s" "\<forall>i \<in> fst ` set (workers s). i < next_wid s"
    using assms by (auto simp: replay_ok_def sched_inv_def dicts_ok_def)
  obtain x where x: "map_of (run_heap s) r = Some x" "task_id x = k" "status x = PENDING" "r \<in> set (runs s)"
    "r \<in> fst ` set (disk_runs s)"
    using assms by (auto simp: replay_ok_def pending_ok_def)
  have none: "w_task w \<noteq> k" if "map_of (workers s) wid = Some w" "live w" for wid w
    using assms that by (auto simp: replay_ok_def)
  have old: "map_of (workers s) i = Some w" if "map_of (workers ?s) i = Some w" "i \<noteq> next_wid s" for i w
    using that by (simp add: spawn_def)
  have new: "w = \<lparr>w_run = r, w_task = k, w_root = workspace_root t, w_phase = Ready, w_cancel = False\<rparr>"
    if "map_of (workers ?s) (next_wid s) = Some w" for w
    using that by (simp add: spawn_def)
  have wok: "worker_ok ?s i w" if w: "map_of (workers ?s) i = Some w" "live w" for i w
  proof (cases "i = next_wid s")
    case True
    then show ?thesis using new w x by (auto simp: worker_ok_def spawn_def dict_simps owned_def)
  next
    case False
    have wok: "worker_ok s i w" "w_task w \<noteq> k"
      using workers_okD [OF s(1) old [OF w(1) False] w(2)] none [OF old [OF w(1) False] w(2)] by auto
    then have "w_run w \<noteq> r" using x by (auto simp: worker_ok_def)
    with wok show ?thesis by (simp add: worker_ok_def spawn_def dict_simps)
  qed
  have task: "w_task w \<noteq> k" if "map_of (workers ?s) i = Some w" "live w" "i \<noteq> next_wid s" for i w
    using none old that by blast
  have "i = j" if h: "map_of (workers ?s) i = Some v \<and> map_of (workers ?s) j = Some w \<and> live v \<and> live w
      \<and> w_task v = w_task w" for i j v w
  proof (cases "i = next_wid s \<or> j = next_wid s")
    case True
    then show ?thesis using h new task by (metis worker.select_convs(2))
  next
    case False
    then show ?thesis using h old s(1) unfolding workers_ok_def by blast
  qed
  with wok show ?thesis unfolding workers_ok_def by blast
qed

lemma replay_step:
  assumes "replay_ok s ((k, r) # ps)"
  shows "replay_ok (replay s (k, r)) ps"
proof (cases "map_of (tasks s) k")
  case None
  then show ?thesis using assms by (simp add: replay_def replay_ok_def)
next
  case (Some t)
  let ?s = "spawn Ready k t r s"
  have inv: "sched_inv s" using assms by (simp add: replay_ok_def)
  obtain x where x: "map_of (run_heap s) r = Some x" "task_id x = k" using assms by (auto simp: replay_ok_def pending_ok_def)
  have t: "(TaskOf k, workspace_root t) \<in> roots s" using Some by (auto dest: map_of_SomeD)
  have "(TaskOf k, run_root x) \<in> roots s" "(RunOf r, run_root x) \<in> roots s" using x by (auto dest!: map_of_SomeD)
  with t inv have "(RunOf r, workspace_root t) \<in> roots s" using one_rootD [of s "TaskOf k" "run_root x" "workspace_root t"] by (simp add: sched_inv_def)
  with t have "roots ?s \<subseteq> roots s" by (intro roots_subI) (auto simp: spawn_def)
  then have "sched_inv ?s"
    using inv replay_workers_ok [OF assms, of t] one_root_sub [of s ?s] files_ok_same [of ?s s]
    by (auto simp: sched_inv_def dicts_ok_def spawn_def)
  moreover have "pending_ok ?s p = pending_ok s p" for p by (simp add: pending_ok_def spawn_def)
  moreover have "w_task w \<noteq> fst p" if "p \<in> set ps" "map_of (workers ?s) wid = Some w" "live w" for p wid w
    using assms that by (force simp: replay_ok_def spawn_def split: if_splits)
  ultimately show ?thesis using assms Some by (simp add: replay_def replay_ok_def)
qed

lemma replay_all: "replay_ok s ps \<Longrightarrow> sched_inv (foldl replay s ps)"
proof (induction ps arbitrary: s)
  case (Cons p ps)
  then show ?case using replay_step [of s "fst p" "snd p" ps] by simp
qed (simp add: replay_ok_def)

lemma replay_keeps:
  "map_of (workers s) wid = Some w \<Longrightarrow> wid < next_wid s \<Longrightarrow>
   map_of (workers (foldl replay s ps)) wid = Some w"
proof (induction ps arbitrary: s)
  case (Cons p ps)
  then show ?case by (simp add: replay_def spawn_def split: option.splits)
qed simp

lemma replay_starts:
  assumes "k \<in> set (map fst ps)" "k \<in> fst ` set (tasks s)"
  shows "\<exists>wid w. map_of (workers (foldl replay s ps)) wid = Some w \<and> w_task w = k \<and> w_phase w = Ready"
  using assms
proof (induction ps arbitrary: s)
  case (Cons p ps)
  show ?case
  proof (cases "fst p = k")
    case True
    obtain t where t: "map_of (tasks s) k = Some t" using known_key [OF Cons.prems(2)] by blast
    have "map_of (workers (replay s p)) (next_wid s) =
        Some \<lparr>w_run = snd p, w_task = k, w_root = workspace_root t, w_phase = Ready, w_cancel = False\<rparr>"
      and "next_wid s < next_wid (replay s p)"
      using True t by (simp_all add: replay_def spawn_def)
    from replay_keeps [OF this, of ps] show ?thesis
      unfolding foldl.simps by (intro exI conjI) (assumption, simp_all)
  next
    case False
    have "tasks (replay s p) = tasks s" by (simp add: replay_def spawn_def split: option.splits)
    with Cons False show ?thesis by simp
  qed
qed simp

text \<open>The start of a scheduler that has just been loaded.\<close>

lemma pending_owned:
  assumes "sched_inv s" "pending_ok s p"
  shows "pending_ok (snd (save fault s)) p"
proof -
  obtain x where x: "map_of (run_heap s) (snd p) = Some x" "status x = PENDING" "snd p \<in> set (runs s)" "snd p \<in> fst ` set (disk_runs s)"
    using assms(2) by (auto simp: pending_ok_def)
  then have h: "(snd p, x) \<in> set (history s)" by (intro owned_in_history listed_run) (simp_all add: owned_def)
  then have "snd p \<in> fst ` set (disk_runs (snd (save fault s)))"
    using assms(1) x(4) by (intro save_keeps) (simp_all add: sched_inv_def)
  moreover have "snd p \<in> set (runs (snd (save fault s)))" using h x(3) by (force simp: save_runs)
  ultimately show ?thesis using assms(2) by (simp add: pending_ok_def sched_simps)
qed

lemma reconcile_loaded:
  assumes "sched_inv s" "workers s = []" "set (runs s) \<subseteq> fst ` set (disk_runs s)"
  shows "rec_ok [] (reconcile_orphaned_runs now s) \<and> covered s [] (reconcile_orphaned_runs now s)"
proof -
  let ?rs = "map fst (sort_key (\<lambda>(r, x). (scheduled_at x, r)) (listed_runs s))"
  have d: "dict_ok (listed_runs s)"
    using assms(1) by (simp add: sched_inv_def dicts_ok_def listed_runs_def distinct_map_filter)
  have "distinct ?rs" using d by (simp add: distinct_map inj_on_def)
  moreover have "rec_ok ?rs \<lparr>rc_state = s, rc_pending = [], rc_changed = False\<rparr>"
    using assms by (auto simp: rec_ok_def listed_runs_def)
  moreover have "covered s ?rs \<lparr>rc_state = s, rc_pending = [], rc_changed = False\<rparr>"
    by (auto simp: covered_def dest!: listed_run intro: rev_image_eqI)
  ultimately show ?thesis unfolding reconcile_orphaned_runs_def by (rule reconcile_all [rotated 2])
qed

lemma start_loaded:
  assumes "sched_inv s" "workers s = []" "set (runs s) \<subseteq> fst ` set (disk_runs s)"
  shows "sched_inv (snd (start now fault s))"
    and "is_running s = False \<Longrightarrow> fst (start now fault s) = None \<Longrightarrow> r \<in> set (runs s) \<Longrightarrow>
      map_of (run_heap s) r = Some x \<Longrightarrow> status x = PENDING \<Longrightarrow> task_id x \<in> fst ` set (tasks s) \<Longrightarrow>
      \<exists>wid w. map_of (workers (snd (start now fault s))) wid = Some w \<and> w_task w = task_id x \<and> w_phase w = Ready"
proof -
  let ?c = "reconcile_orphaned_runs now s"
  have rec: "rec_ok [] ?c" and cov: "covered s [] ?c" using reconcile_loaded [OF assms] by blast+
  obtain e s1 where sv: "(if rc_changed ?c then save fault (rc_state ?c) else (None, rc_state ?c)) = (e, s1)"
    by (cases "if rc_changed ?c then save fault (rc_state ?c) else (None, rc_state ?c)")
  then have s1: "s1 = rc_state ?c \<or> s1 = snd (save fault (rc_state ?c))" by (metis snd_conv)
  have inv1: "sched_inv s1" using s1 rec save_inv by (auto simp: rec_ok_def)
  have w1: "workers s1 = []" "tasks s1 = tasks (rc_state ?c)" using s1 rec by (auto simp: rec_ok_def sched_simps)
  have "pending_ok s1 p" if "p \<in> set (rc_pending ?c)" for p
  proof -
    have "pending_ok (rc_state ?c) p" "sched_inv (rc_state ?c)" using rec that by (simp_all add: rec_ok_def)
    with s1 pending_owned [of "rc_state ?c" p fault] show ?thesis by blast
  qed
  then have rep: "replay_ok s1 (rc_pending ?c)" using inv1 w1 rec by (simp add: replay_ok_def rec_ok_def)
  have st: "snd (start now fault s) = s \<or> snd (start now fault s) = s1
      \<or> snd (start now fault s) = (foldl replay s1 (rc_pending ?c))\<lparr>is_running := True\<rparr>"
    using sv by (cases e) (auto simp: start_def Let_def)
  have run: "sched_inv (s'\<lparr>is_running := True\<rparr>) = sched_inv s'" for s'
    by (simp add: sched_inv_def dicts_ok_def workers_ok_def worker_ok_def files_ok_def one_root_def roots_def all_tasks_def all_runs_def)
  show "sched_inv (snd (start now fault s))"
    using st assms(1) inv1 replay_all [OF rep] run by metis
  assume h: "is_running s = False" "fst (start now fault s) = None" "r \<in> set (runs s)"
    "map_of (run_heap s) r = Some x" "status x = PENDING" "task_id x \<in> fst ` set (tasks s)"
  from h(2) have "e = None" using sv h(1) by (cases e) (auto simp: start_def Let_def)
  with sv h(1) have st': "snd (start now fault s) = (foldl replay s1 (rc_pending ?c))\<lparr>is_running := True\<rparr>"
    by (simp add: start_def Let_def)
  have "task_id x \<in> set (map fst (rc_pending ?c))"
    using cov h(3-6) by (simp add: covered_def)
  moreover have "task_id x \<in> fst ` set (tasks s1)"
    using cov h(6) w1(2) unfolding covered_def by (metis set_map)
  ultimately have "\<exists>wid w. map_of (workers (foldl replay s1 (rc_pending ?c))) wid = Some w \<and> w_task w = task_id x \<and> w_phase w = Ready"
    by (rule replay_starts)
  then show "\<exists>wid w. map_of (workers (snd (start now fault s))) wid = Some w \<and> w_task w = task_id x \<and> w_phase w = Ready"
    unfolding st' by simp
qed

section \<open>Every interleaving\<close>

text \<open>
  One step of the process: a call of an operation, one step of a worker, the rest of a destruction or
  stop, or the end of the process followed by a new one, which loads the disk and starts. Ids of
  tasks and runs are new when they are drawn; every save may fail.
\<close>

inductive sched_step :: "sched_env \<Rightarrow> scheduler \<times> destruction list \<Rightarrow> scheduler \<times> destruction list \<Rightarrow> bool"
  for env where
  lists: "sched_step env (s, ds) (snd (list_tasks env now fault root s), ds)"
| adds: "fresh_task s k \<Longrightarrow> sched_step env (s, ds) (snd (add_task env now fault1 fault2 k n s), ds)"
| removes: "sched_step env (s, ds) (snd (remove_task env fault k root s), ds)"
| toggles: "sched_step env (s, ds) (snd (toggle_task env now fault k on root s), ds)"
| fires: "fresh_run s r \<Longrightarrow> sched_step env (s, ds) (snd (run_now env now fault r k root s), ds)"
| retries: "fresh_run s r \<Longrightarrow> sched_step env (s, ds) (snd (retry_run env now fault r prev root s), ds)"
| ticks: "inj fresh \<Longrightarrow> \<forall>k. fresh_run s (fresh k) \<Longrightarrow>
    sched_step env (s, ds) (snd (tick env now sweep_fault faults fresh s), ds)"
| binds: "sched_step env (s, ds) (snd (bind_run_conversation fault r c s), ds)"
| cancels: "sched_step env (s, ds) (snd (cancel_run env now fault r root s), ds)"
| destroys: "destroy_begin c s = (Some d, s') \<Longrightarrow> sched_step env (s, ds) (s', d # ds)"
| destroyed: "d \<in> set ds \<Longrightarrow> sched_step env (s, ds) (snd (destroy_finish fault d s), remove1 d ds)"
| stops: "sched_step env (s, ds) (snd (stop_begin s), ds)"
| stopped: "sched_step env (s, ds) (snd (stop_finish now fault ws s), ds)"
| works: "sched_step env (s, ds) (start_worker env now fault wid s, ds)"
| ends: "sched_step env (s, ds) (end_worker env wid e s, ds)"
| finalizes: "sched_step env (s, ds) (finalize_worker now fault wid s, ds)"
| boots: "sched_step env (s, ds) (snd (start now fault (load env s)), [])"

inductive_cases sched_stepE: "sched_step env a b"

definition reachable :: "sched_env \<Rightarrow> scheduler \<Rightarrow> bool" where
  "reachable env s \<longleftrightarrow> (\<exists>ds. (sched_step env)\<^sup>*\<^sup>* (empty_scheduler, []) (s, ds))"

definition system_ok :: "scheduler \<times> destruction list \<Rightarrow> bool" where
  "system_ok p \<longleftrightarrow> sched_inv (fst p) \<and> (\<forall>d \<in> set (snd p). destruction_ok (fst p) d)"

lemma good_system: "system_ok (s, ds) \<Longrightarrow> good_step s s' \<Longrightarrow> set ds' \<subseteq> set ds \<Longrightarrow> system_ok (s', ds')"
  unfolding system_ok_def good_step_def fst_conv snd_conv using evolves_destruction by blast

lemma good_call: "system_ok (s, ds) \<Longrightarrow> (sched_inv s \<Longrightarrow> good_step s s') \<Longrightarrow> system_ok (s', ds)"
  using good_system [of s ds s' ds] by (simp add: system_ok_def)

lemma loaded_on_disk: "set (runs (load env s)) \<subseteq> fst ` set (disk_runs (load env s))"
  by (auto simp: sched_simps)

lemma sched_step_ok: "sched_step env a b \<Longrightarrow> system_ok a \<Longrightarrow> system_ok b"
proof (induction rule: sched_step.induct)
  case (destroys c s d s' ds)
  then have i: "sched_inv s" by (simp add: system_ok_def)
  from destroy_begin_good [OF i destroys(1)] have "good_step s s'" "destruction_ok s' d" by simp_all
  then show ?case using good_system [OF destroys(2)] by (auto simp: system_ok_def)
next
  case (destroyed d ds s fault)
  then have "good_step s (snd (destroy_finish fault d s))" by (intro destroy_finish_good) (auto simp: system_ok_def)
  with destroyed(2) show ?case by (rule good_system) (rule set_remove1_subset)
next
  case (boots s ds now fault)
  then have "sched_inv (load env s)" by (simp add: system_ok_def load_inv)
  then have "sched_inv (snd (start now fault (load env s)))"
    by (rule start_loaded(1)) (simp add: sched_simps, rule loaded_on_disk)
  then show ?case by (simp add: system_ok_def)
qed (auto elim!: good_call intro: list_good add_task_good remove_task_good toggle_task_good run_now_good
    retry_run_good tick_good bind_good cancel_run_good stop_begin_good stop_finish_good start_worker_good
    end_worker_good finalize_worker_good)

lemma empty_ok: "system_ok (empty_scheduler, [])"
  by (simp add: system_ok_def sched_inv_def workers_ok_def dicts_ok_def spent_ok_def files_ok_def one_root_def roots_def
      task_roots_def run_roots_def worker_roots_def all_tasks_def all_runs_def empty_scheduler_def)

lemma reachable_inv: "reachable env s \<Longrightarrow> sched_inv s"
proof -
  assume "reachable env s"
  then obtain ds where "(sched_step env)\<^sup>*\<^sup>* (empty_scheduler, []) (s, ds)" by (auto simp: reachable_def)
  then have "system_ok (s, ds)"
    by (induction rule: rtranclp_induct) (auto intro: sched_step_ok empty_ok)
  then show ?thesis by (simp add: system_ok_def)
qed

end
