(* ===== verification/SchedulerSafety.thy ===== *)
theory SchedulerSafety
  imports SchedulerSteps
begin

text \<open>
  What the scheduler promises in every reachable state: no task runs twice at once, no work without a
  claim on disk, a one-shot task fires once, a failed claim is undone in memory and leaves on disk only the
  files that were written before the failure, a due task is claimed, a claim survives the death of the process;
  and three places where it promises less.
\<close>

section \<open>A small history\<close>

text \<open>A one-shot task and a run of it, in a process whose workspace paths resolve to themselves.\<close>

definition env_demo :: sched_env where
  "env_demo = \<lparr>clocks = env_ex, resolve_root = id, has_runner = True, save_error_text = []\<rparr>"

definition task_demo :: new_task where
  "task_demo = \<lparr>nt_name = u ''n'', nt_prompt = u ''p'', nt_schedule = [], nt_mode = u ''confirm'', nt_root = [],
     nt_conversation = u ''c'', nt_timezone = [], nt_isolation = [], nt_recurring = False, nt_auto_expire = False\<rparr>"

definition added_demo :: scheduler where
  "added_demo = snd (add_task env_demo 0 None None (u ''k'') task_demo empty_scheduler)"

definition fired_demo :: scheduler where
  "fired_demo = snd (run_now env_demo 60 None (u ''r'') (u ''k'') None added_demo)"

definition begun_demo :: scheduler where
  "begun_demo = start_worker env_demo 60 None 0 fired_demo"

lemma empty_roots: "roots empty_scheduler = {}"
  by (simp add: roots_def task_roots_def run_roots_def worker_roots_def all_tasks_def all_runs_def empty_scheduler_def)

lemma added_demo_reachable: "(sched_step env_demo)\<^sup>*\<^sup>* (empty_scheduler, []) (added_demo, [])"
  unfolding added_demo_def
  by (rule r_into_rtranclp, rule sched_step.adds) (simp_all add: fresh_task_def empty_roots)

lemma fresh_demo: "fresh_run added_demo r"
proof -
  have h: "run_heap added_demo = []" "workers added_demo = []" "files added_demo = [([], tasks added_demo, [])]"
    by code_simp+
  have "RunOf r \<notin> Domain (roots added_demo)"
    by (auto elim!: roots_cases simp: h)
  with h show ?thesis by (simp add: fresh_run_def)
qed

lemma fired_demo_steps: "(sched_step env_demo)\<^sup>*\<^sup>* (empty_scheduler, []) (fired_demo, [])"
proof -
  have "sched_step env_demo (added_demo, []) (fired_demo, [])"
    unfolding fired_demo_def by (rule sched_step.fires [OF fresh_demo])
  with added_demo_reachable show ?thesis by (rule rtranclp.rtrancl_into_rtrancl)
qed

lemma begun_demo_steps: "(sched_step env_demo)\<^sup>*\<^sup>* (empty_scheduler, []) (begun_demo, [])"
  using fired_demo_steps unfolding begun_demo_def by (rule rtranclp.rtrancl_into_rtrancl) (rule sched_step.works)

lemma reachable_demo: "reachable env_demo added_demo" "reachable env_demo fired_demo" "reachable env_demo begun_demo"
  using added_demo_reachable fired_demo_steps begun_demo_steps unfolding reachable_def by blast+

section \<open>Safety\<close>

text \<open>
  Claim C8. No task runs twice at once: in every reachable state two live workers of the same task are
  the same worker, whatever ticks, manual runs, retries, cancellations, destructions, stops, restarts
  and failing saves came before.
\<close>

theorem one_live_worker_per_task:
  assumes "reachable env s"
    and "map_of (workers s) i = Some v" "live v" "map_of (workers s) j = Some w" "live w"
    and "w_task v = w_task w"
  shows "i = j"
  using reachable_inv [OF assms(1)] assms(2-) by (auto simp: sched_inv_def workers_ok_def)

definition worker_demo :: worker where
  "worker_demo = \<lparr>w_run = u ''r'', w_task = u ''k'', w_root = [], w_phase = Executing, w_cancel = False\<rparr>"

lemma begun_worker: "map_of (workers begun_demo) 0 = Some worker_demo" "live worker_demo"
  by code_simp+

theorem one_live_worker_per_task_witness:
  "live worker_demo \<and> map_of (workers begun_demo) 0 = Some worker_demo
   \<and> (\<exists>j. map_of (workers begun_demo) j = Some worker_demo \<and> 0 = j)"
  using one_live_worker_per_task [OF reachable_demo(3) begun_worker begun_worker refl] begun_worker by blast

text \<open>
  The claim is about processes that start once, after loading: \<open>start\<close> replays every pending run without looking at
  \<open>_run_tasks\<close>. When a run was started by hand before, as here, the same run gets a second live worker.
\<close>

lemma late_start_doubles_a_run:
  "map (\<lambda>(i, w). (w_run w, live w)) (workers (snd (start 90 None fired_demo))) = [(u ''r'', True), (u ''r'', True)]"
  by code_simp

text \<open>
  Claim C9. No work without a durable claim: a live worker that is past its gate works on a run that
  is on disk, that the scheduler still lists as a run of the worker's task, and that its worker is
  registered for.
\<close>

theorem work_is_durably_claimed:
  assumes "reachable env s" "map_of (workers s) wid = Some w" "live w" "w_phase w \<noteq> Gated"
  shows "w_run w \<in> fst ` set (disk_runs s) \<and> map_of (run_tasks s) (w_run w) = Some wid
    \<and> (\<exists>x. get_run s (w_run w) = Some x \<and> task_id x = w_task w)"
proof -
  have "worker_ok s wid w" using reachable_inv [OF assms(1)] assms(2,3) by (auto simp: sched_inv_def dest: workers_okD)
  then show ?thesis using assms(4) by (auto simp: worker_ok_def get_run_def)
qed

theorem work_is_durably_claimed_witness: "u ''r'' \<in> fst ` set (disk_runs begun_demo)"
  using work_is_durably_claimed [OF reachable_demo(3) begun_worker] by (simp add: worker_demo_def)

text \<open>
  A one-shot task fires once: when any run of it was ever claimed, in this process or in one
  before it, neither a tick nor a manual run starts another; both leave the state as it is.
\<close>

theorem one_shot_fires_once:
  assumes "reachable env s" "map_of (tasks s) k = Some t" "\<not> recurring t"
    and "(r, x) \<in> set (run_heap s)" "task_id x = k"
  shows "tick_one env now faults fresh k s = (None, s) \<and> run_now env now fault r' k root s = (Inr None, s)"
proof -
  have "deleted_at t \<noteq> None"
    using reachable_inv [OF assms(1)] assms(2-) by (auto simp: sched_inv_def spent_ok_iff dest!: map_of_SomeD)
  then show ?thesis using assms(2) by (simp add: tick_one_def run_now_def)
qed

theorem one_shot_fires_once_witness:
  "run_now env_demo 120 None (u ''q'') (u ''k'') None begun_demo = (Inr None, begun_demo)"
proof -
  have "map_of (tasks begun_demo) (u ''k'') \<noteq> None"
    and nr: "map_option recurring (map_of (tasks begun_demo) (u ''k'')) = Some False"
    and "map task_id (map snd (run_heap begun_demo)) = [u ''k'']" by code_simp+
  then obtain t r x where "map_of (tasks begun_demo) (u ''k'') = Some t" "\<not> recurring t"
    "(r, x) \<in> set (run_heap begun_demo)" "task_id x = u ''k''"
    by (cases "run_heap begun_demo") auto
  from one_shot_fires_once [OF reachable_demo(3) this] show ?thesis by blast
qed

section \<open>Failing saves\<close>




text \<open>
  The comment in \<open>_schedule_fire\<close> says that before the commit succeeds the durable schedule cursor is unconsumed.
  A save writes several files, though: here the file of the task is written and the registry is not. The caller
  gets the error, the task is as before in memory, but on disk the one-shot task is consumed and its run pending, and
  when the process ends now the next one starts a worker for the run whose caller was told that it failed.
\<close>

lemma failed_claim_may_be_on_disk:
  "case run_now env_demo 60 (Some 1) (u ''r'') (u ''k'') None added_demo of
     (res, s) \<Rightarrow> res = Inl SaveFailed \<and> tasks s = tasks added_demo \<and> runs s = []
       \<and> map (\<lambda>(k, t). deleted_at t) (disk_tasks s) = [Some 60]
       \<and> map (\<lambda>(r, x). (r, status x)) (disk_runs s) = [(u ''r'', PENDING)]
       \<and> map (\<lambda>(i, w). (w_run w, w_phase w)) (workers (snd (start 90 None (load env_demo s)))) = [(u ''r'', Ready)]"
  by code_simp

text \<open>
  Adding a task is not undone in the same way: when the save fails the caller gets the error,
  but the task stays in the list and will fire.
\<close>

theorem failed_add_keeps_the_task:
  assumes "add_task env now None (Some m) k n s = (Inl SaveFailed, s')"
  shows "\<exists>t. map_of (tasks s') k = Some t \<and> enabled t \<and> deleted_at t = None \<and> prompt t = nt_prompt n"
proof -
  have fault: "sweep_expired now None s = (None, snd (sweep_expired now None s))"
    by (simp add: sweep_expired_def save_def Let_def)
  obtain rows s1 where l: "list_tasks env now None None s = (Inr rows, s1)"
    using list_tasks_def [of env now None None s] fault by (auto simp: Let_def split: prod.splits option.splits)
  show ?thesis
    using assms by (auto simp: add_task_def l Let_def save_def write_files_def dict_simps split: if_splits sum.splits)
qed

theorem failed_add_keeps_the_task_witness:
  "map_option prompt (map_of (tasks (snd (add_task env_demo 0 None (Some 0) (u ''k'') task_demo empty_scheduler))) (u ''k'')) = Some (u ''p'')"
proof -
  have "fst (add_task env_demo 0 None (Some 0) (u ''k'') task_demo empty_scheduler) = Inl SaveFailed" by code_simp
  then have "add_task env_demo 0 None (Some 0) (u ''k'') task_demo empty_scheduler =
    (Inl SaveFailed, snd (add_task env_demo 0 None (Some 0) (u ''k'') task_demo empty_scheduler))" by (metis prod.collapse)
  from failed_add_keeps_the_task [OF this] show ?thesis by (auto simp: task_demo_def)
qed

section \<open>Progress\<close>

text \<open>
  A due task is claimed: an enabled task with no active run and a usable schedule whose next
  run has come has, after its turn in a tick with a working disk, a worker ready to run it, on a run
  that is on disk.
\<close>

theorem due_task_is_claimed:
  assumes "reachable env s" "map_of (tasks s) k = Some t" "deleted_at t = None" "enabled t"
    and "active_run_for_task s k = None" "k \<notin> set (unusable s)"
    and "stored_next_run env t = Inr (Some due)" "due \<le> now" "next_run env (schedule t) now (timezone t) = Inr n"
    and "faults k = None" "fresh_run s (fresh k)"
  shows "case tick_one env now faults fresh k s of
    (e, s') \<Rightarrow> e = None \<and> fresh k \<in> fst ` set (disk_runs s')
      \<and> map_of (workers s') (next_wid s) = Some \<lparr>w_run = fresh k, w_task = k, w_root = workspace_root t,
           w_phase = Ready, w_cancel = False\<rparr>"
proof -
  let ?f = "schedule_fire env now (faults k) (fresh k) k t due True [] False s"
  have inv: "sched_inv s" by (rule reachable_inv [OF assms(1)])
  have points: "missed_schedule_points env t now = Inr [due]" using assms(7,8) by (simp add: missed_schedule_points_def)
  have w: "workers_ok (snd ?f)"
    using schedule_fire_good [OF inv assms(2,5,11)] by (simp add: good_step_def sched_inv_def)
  have r: "fresh k \<notin> fst ` set (run_heap s)" using assms(11) by (simp add: fresh_run_def)
  have "fst ?f = Inr (fresh k) \<and> map_of (workers (snd ?f)) (next_wid s) = Some \<lparr>w_run = fresh k, w_task = k,
      w_root = workspace_root t, w_phase = Ready, w_cancel = False\<rparr>"
  proof (rule schedule_fire_cases [OF inv assms(2) r, of env now "faults k" due True "[]" False], goal_cases refused broken rolled_back fired)
    case refused
    with assms(3) show ?case by simp
  next
    case (broken e)
    with assms(9) show ?case by (simp add: claim_next_def)
  next
    case (rolled_back n)
    with assms(10) show ?case by simp
  next
    case (fired m)
    show ?case unfolding fired(3) by (simp add: sched_simps)
  qed
  moreover from this w have "fresh k \<in> fst ` set (disk_runs (snd ?f))"
    by (auto simp: live_def worker_ok_def dest!: workers_okD)
  moreover have "tick_one env now faults fresh k s = (case ?f of (Inl SaveFailed, s1) \<Rightarrow> (None, s1)
      | (Inl e, s1) \<Rightarrow> (Some e, s1) | (Inr _, s1) \<Rightarrow> (None, s1))"
    using assms(2-6) points by (simp add: tick_one_def)
  ultimately show ?thesis by (cases ?f) auto
qed

definition minutely_demo :: scheduler where
  "minutely_demo = snd (add_task env_demo 0 None None (u ''k'') (task_demo\<lparr>nt_schedule := u ''* * * * *'', nt_recurring := True\<rparr>) empty_scheduler)"

lemma minutely_reachable: "reachable env_demo minutely_demo"
  unfolding reachable_def minutely_demo_def
  by (intro exI, rule r_into_rtranclp, rule sched_step.adds) (simp_all add: fresh_task_def empty_roots)

theorem due_task_is_claimed_witness:
  "fst (tick_one env_demo 300 (\<lambda>k. None) (\<lambda>k. u ''r'') (u ''k'') minutely_demo) = None
   \<and> map_option w_run (map_of (workers (snd (tick_one env_demo 300 (\<lambda>k. None) (\<lambda>k. u ''r'') (u ''k'') minutely_demo))) (next_wid minutely_demo)) = Some (u ''r'')"
proof -
  have a: "map_option (\<lambda>t. (deleted_at t, enabled t, stored_next_run env_demo t, next_run env_demo (schedule t) 300 (timezone t)))
      (map_of (tasks minutely_demo) (u ''k'')) = Some (None, True, Inr (Some 60), Inr (Some 360))"
    and b: "active_run_for_task minutely_demo (u ''k'') = None" "unusable minutely_demo = []"
    and h: "run_heap minutely_demo = []" "workers minutely_demo = []" "files minutely_demo = [([], tasks minutely_demo, [])]"
    by code_simp+
  have f: "fresh_run minutely_demo r" for r
    unfolding fresh_run_def by (auto elim!: roots_cases simp: h)
  from a obtain t where t: "map_of (tasks minutely_demo) (u ''k'') = Some t" "deleted_at t = None" "enabled t"
    "stored_next_run env_demo t = Inr (Some 60)" "next_run env_demo (schedule t) 300 (timezone t) = Inr (Some 360)" by auto
  from due_task_is_claimed [OF minutely_reachable t(1,2,3) b(1) _ t(4) _ t(5), of "\<lambda>k. None" "\<lambda>k. u ''r''"] b f
  show ?thesis by (auto split: prod.splits)
qed

text \<open>
  A claim survives the end of the process: when a new process has loaded the disk and started,
  every task that has a pending run on disk has a worker ready to run it.
\<close>

theorem claims_survive_a_crash:
  assumes "reachable env s" "(r, x) \<in> set (disk_runs s)" "status x = PENDING" "task_id x \<noteq> []"
    and "task_id x \<in> fst ` set (disk_tasks s)" "fst (start now fault (load env s)) = None"
  shows "\<exists>wid w. map_of (workers (snd (start now fault (load env s)))) wid = Some w \<and> w_task w = task_id x \<and> w_phase w = Ready"
proof (rule start_loaded(2) [where r = r])
  have inv: "sched_inv (load env s)" by (rule load_inv [OF reachable_inv [OF assms(1)]])
  then show "sched_inv (load env s)" .
  have "(r, x) \<in> set (run_heap (load env s))" using assms(2,4) by (simp add: sched_simps)
  moreover have "dict_ok (run_heap (load env s))" using inv by (simp add: sched_inv_def dicts_ok_def)
  moreover have "runs (load env s) = map fst (run_heap (load env s))" by (simp add: load_def Let_def)
  ultimately show "map_of (run_heap (load env s)) r = Some x" "r \<in> set (runs (load env s))"
    by (simp_all add: map_of_is_SomeI rev_image_eqI)
  show "task_id x \<in> fst ` set (tasks (load env s))" using assms(5) by (force simp: sched_simps)
qed (use assms loaded_on_disk in \<open>simp_all add: sched_simps\<close>)

theorem claims_survive_a_crash_witness:
  "\<exists>wid w. map_of (workers (snd (start 500 None (load env_demo fired_demo)))) wid = Some w \<and> w_task w = u ''k'' \<and> w_phase w = Ready"
proof -
  have a: "map (\<lambda>(r, x). (status x, task_id x)) (disk_runs fired_demo) = [(PENDING, u ''k'')]"
    and b: "map fst (disk_tasks fired_demo) = [u ''k'']"
    and c: "fst (start 500 None (load env_demo fired_demo)) = None" by code_simp+
  from a obtain r x where x: "(r, x) \<in> set (disk_runs fired_demo)" "status x = PENDING" "task_id x = u ''k''"
    by (cases "disk_runs fired_demo") auto
  have "task_id x \<in> fst ` set (disk_tasks fired_demo)" using b x(3) by (metis list.set_intros(1) set_map)
  moreover have "task_id x \<noteq> []" using x(3) by (simp add: u_def)
  ultimately show ?thesis using claims_survive_a_crash [OF reachable_demo(2) x(1,2) _ _ c] x(3) by simp
qed

section \<open>A destruction that misses a run\<close>

text \<open>A recurring task of conversation c runs; the destruction begins; its run ends; another is started.\<close>

definition again_demo :: new_task where
  "again_demo = task_demo\<lparr>nt_recurring := True\<rparr>"

definition busy_demo :: scheduler where
  "busy_demo = start_worker env_demo 60 None 0 (snd (run_now env_demo 60 None (u ''r'') (u ''k'') None
     (snd (add_task env_demo 0 None None (u ''k'') again_demo empty_scheduler))))"

definition waiting_demo :: scheduler where
  "waiting_demo = snd (run_now env_demo 70 None (u ''q'') (u ''k'') None
     (finalize_worker 65 None 0 (end_worker env_demo 0 Cancels (snd (destroy_begin (u ''c'') busy_demo)))))"

text \<open>
  \<open>destroy_for_conversation\<close> collects the runs before it waits for their workers; the task stays
  in the list during the wait. A run started in the meantime is not waited for: here the task of a deleted
  conversation is gone while a worker of it, for that conversation, is about to run.
\<close>

theorem destruction_misses_a_new_run:
  "case destroy_begin (u ''c'') busy_demo of
     (Some d, _) \<Rightarrow>
       (case destroy_finish None d waiting_demo of
          (Inr n, s) \<Rightarrow> tasks s = []
             \<and> map_of (workers s) 1 = Some \<lparr>w_run = u ''q'', w_task = u ''k'', w_root = [], w_phase = Ready, w_cancel = False\<rparr>
             \<and> map_option run_conversation (get_run s (u ''q'')) = Some (u ''c'')
        | _ \<Rightarrow> False)
   | _ \<Rightarrow> False"
  by code_simp

end
