(* ===== verification/PluginId.thy ===== *)
theory PluginId
  imports Prelude
begin

text \<open>
  Plugin identities and version ranges: \<open>backend/plugins/identity.py\<close>. The classes \<open>Version\<close> and
  \<open>SpecifierSet\<close> of the package \<open>packaging\<close> are the record \<open>version_lib\<close>. Digits of scripts
  other than ASCII are not recognised as digits.
\<close>

section \<open>Text helpers\<close>

fun usplit_acc :: "ustr \<Rightarrow> ustr \<Rightarrow> ustr list" where
  "usplit_acc acc [] = (if acc = [] then [] else [rev acc])"
| "usplit_acc acc (c # s) =
     (if uspace c then (if acc = [] then usplit_acc [] s else rev acc # usplit_acc [] s) else usplit_acc (c # acc) s)"

text \<open>\<open>str.split()\<close>.\<close>

definition usplit :: "ustr \<Rightarrow> ustr list" where
  "usplit s = usplit_acc [] s"

text \<open>\<open>s.find(c, start)\<close>.\<close>

definition find_from :: "int \<Rightarrow> nat \<Rightarrow> ustr \<Rightarrow> nat option" where
  "find_from c start s = map_option fst (find (\<lambda>p. start \<le> fst p \<and> snd p = c) (zip [0..<length s] s))"

text \<open>\<open>str.split("||")\<close>.\<close>

fun split_bars_acc :: "ustr \<Rightarrow> ustr \<Rightarrow> ustr list" where
  "split_bars_acc acc [] = [rev acc]"
| "split_bars_acc acc [c] = [rev (c # acc)]"
| "split_bars_acc acc (c # d # s) =
     (if c = 124 \<and> d = 124 then rev acc # split_bars_acc [] s else split_bars_acc (c # acc) (d # s))"

definition split_bars :: "ustr \<Rightarrow> ustr list" where
  "split_bars s = split_bars_acc [] s"

text \<open>\<open>str.casefold\<close>, exact up to U+00FF.\<close>

definition casefold :: "ustr \<Rightarrow> ustr" where
  "casefold s = concat (map (\<lambda>c. if c = 223 then [115, 115] else if c = 181 then [956] else [ulower_code c]) s)"

section \<open>Identities\<close>

record plugin_identifier =
  name :: ustr
  marketplace :: ustr
  constraint :: ustr

definition identifier_id :: "plugin_identifier \<Rightarrow> ustr" where
  "identifier_id p = name p @ u ''@'' @ marketplace p"

definition parse_plugin_id :: "ustr \<Rightarrow> ustr \<Rightarrow> plugin_identifier" where
  "parse_plugin_id value market =
     (let raw = ustrip value;
          fallback = (let m = ustrip (if market = [] then u ''local'' else market) in if m = [] then u ''local'' else m) in
      if raw = [] then \<lparr>name = [], marketplace = fallback, constraint = []\<rparr>
      else
       (let parts = split_on 64 raw;
            split = (if hd raw = 64 then
                       (case (find_from 47 0 raw, find_from 64 1 raw) of
                          (Some slash, Some separator) \<Rightarrow>
                            if 1 < slash \<and> slash < separator
                            then Some (take separator raw, split_on 64 (drop (separator + 1) raw))
                            else None
                        | _ \<Rightarrow> None)
                     else Some (hd parts, tl parts)) in
        case split of
          None \<Rightarrow> \<lparr>name = raw, marketplace = fallback, constraint = []\<rparr>
        | Some (n, rest) \<Rightarrow>
            (case rest of
               [] \<Rightarrow> \<lparr>name = ustrip n, marketplace = fallback, constraint = []\<rparr>
             | m # cs \<Rightarrow>
                 \<lparr>name = ustrip n, marketplace = (if ustrip m = [] then fallback else ustrip m),
                  constraint = join [64] (filter (\<lambda>c. c \<noteq> []) (map ustrip cs))\<rparr>)))"

definition id_char :: "int \<Rightarrow> bool" where
  "id_char c \<longleftrightarrow> ualpha_ascii c \<or> digit_code c \<or> c = 46 \<or> c = 95 \<or> c = 45"

definition id_word :: "ustr \<Rightarrow> bool" where
  "id_word s \<longleftrightarrow> s \<noteq> [] \<and> (ualpha_ascii (hd s) \<or> digit_code (hd s)) \<and> list_all id_char s"

definition is_valid_identifier :: "ustr \<Rightarrow> ustr \<Rightarrow> bool" where
  "is_valid_identifier nm market =
     (let n = ustrip nm; m = ustrip market in
      n \<noteq> [] \<and> m \<noteq> [] \<and> n \<noteq> u ''.'' \<and> n \<noteq> u ''..'' \<and> m \<noteq> u ''.'' \<and> m \<noteq> u ''..''
      \<and> \<not> occurs_in (u ''..'') n \<and> \<not> occurs_in (u ''..'') m \<and> 47 \<notin> set m \<and> 92 \<notin> set m
      \<and> id_word n \<and> id_word m)"

definition plugin_id :: "ustr \<Rightarrow> ustr \<Rightarrow> ustr" where
  "plugin_id value market =
     (let p = parse_plugin_id value market in
      if is_valid_identifier (name p) (marketplace p) then identifier_id p else [])"

definition has_explicit_marketplace :: "ustr \<Rightarrow> bool" where
  "has_explicit_marketplace value =
     (let raw = ustrip value in
      if raw = [] then False
      else if hd raw = 64 then
        (case find_from 47 0 raw of
           None \<Rightarrow> False
         | Some slash \<Rightarrow> 1 < slash \<and> (case find_from 64 slash raw of Some i \<Rightarrow> slash < i | None \<Rightarrow> False))
      else 64 \<in> set raw)"

section \<open>Versions\<close>

record version_parts =
  major :: int
  minor :: int
  micro :: int
  release_length :: nat
  canonical :: ustr

text \<open>\<open>Version(text)\<close> (its parts), \<open>SpecifierSet(text)\<close> (whether it parses), \<open>in\<close>, and the order.\<close>

record version_lib =
  parsed_version :: "ustr \<Rightarrow> version_parts option"
  spec_parses :: "ustr \<Rightarrow> bool"
  spec_contains :: "ustr \<Rightarrow> ustr \<Rightarrow> bool"
  version_less :: "ustr \<Rightarrow> ustr \<Rightarrow> bool"

definition coerce_version :: "ustr \<Rightarrow> ustr" where
  "coerce_version value =
     (let v = ustrip value in case v of c # s \<Rightarrow> if c = 118 \<or> c = 86 then s else v | [] \<Rightarrow> [])"

definition digits :: "ustr \<Rightarrow> bool" where
  "digits s \<longleftrightarrow> s \<noteq> [] \<and> list_all digit_code s"

definition drop_v :: "ustr \<Rightarrow> ustr" where
  "drop_v s = (case s of c # r \<Rightarrow> if c = 118 \<or> c = 86 then r else s | [] \<Rightarrow> [])"

text \<open>The pattern \<open>[vV]?\d+(?:\.[xX*]){1,2}\<close>.\<close>

definition wildcard_version :: "ustr \<Rightarrow> bool" where
  "wildcard_version t =
     (case split_on 46 (drop_v t) of
        d # ws \<Rightarrow> digits d \<and> (length ws = 1 \<or> length ws = 2) \<and> list_all (\<lambda>w. w \<in> {u ''x'', u ''X'', u ''*''}) ws
      | [] \<Rightarrow> False)"

fun wildcard_match :: "ustr list \<Rightarrow> ustr list \<Rightarrow> bool" where
  "wildcard_match [] actual = True"
| "wildcard_match (piece # ps) actual =
     (if ulower piece = u ''x'' \<or> ulower piece = u ''*'' then True
      else (case actual of [] \<Rightarrow> False | a # as \<Rightarrow> a = piece \<and> wildcard_match ps as))"

text \<open>The digits between the dots of \<open>[vV]?(\d+)(?:\.(\d+))?(?:\.(\d+))?\<close>.\<close>

definition dotted_digits :: "ustr \<Rightarrow> ustr list option" where
  "dotted_digits t =
     (let ps = split_on 46 (drop_v t) in
      if length ps \<le> 3 \<and> list_all digits ps then Some ps else None)"

definition int_of_digits :: "ustr \<Rightarrow> int" where
  "int_of_digits s = foldl (\<lambda>a c. a * 10 + (c - 48)) 0 s"

text \<open>The pattern \<open>[vV]?\d+(?:\.\d+){2}(?:[-+].*)?\<close>.\<close>

definition suffixed_version :: "ustr \<Rightarrow> bool" where
  "suffixed_version t =
     (let s = drop_v t; a = takeWhile digit_code s; r1 = dropWhile digit_code s in
      a \<noteq> [] \<and> r1 \<noteq> [] \<and> hd r1 = 46 \<and>
      (let b = takeWhile digit_code (tl r1); r2 = dropWhile digit_code (tl r1) in
       b \<noteq> [] \<and> r2 \<noteq> [] \<and> hd r2 = 46 \<and>
       (let c = takeWhile digit_code (tl r2); r3 = dropWhile digit_code (tl r2) in
        c \<noteq> [] \<and> (r3 = [] \<or> ((hd r3 = 45 \<or> hd r3 = 43) \<and> 10 \<notin> set r3)))))"

definition caret_spec :: "version_lib \<Rightarrow> ustr \<Rightarrow> ustr" where
  "caret_spec lib t =
     (case parsed_version lib (coerce_version (tl t)) of
        None \<Rightarrow> t
      | Some v \<Rightarrow>
          u ''>='' @ canonical v @ u '','' @
          (if 0 < major v \<or> release_length v = 1 then u ''<'' @ int_text (major v + 1) @ u ''.0.0''
           else if 0 < minor v \<or> release_length v = 2 then u ''<0.'' @ int_text (minor v + 1) @ u ''.0''
           else u ''<0.0.'' @ int_text (micro v + 1)))"

definition tilde_spec :: "version_lib \<Rightarrow> ustr \<Rightarrow> ustr" where
  "tilde_spec lib t =
     (case parsed_version lib (coerce_version (tl t)) of
        None \<Rightarrow> t
      | Some v \<Rightarrow>
          u ''>='' @ canonical v @ u '','' @
          (if release_length v = 1 then u ''<'' @ int_text (major v + 1) @ u ''.0.0''
           else u ''<'' @ int_text (major v) @ u ''.'' @ int_text (minor v + 1) @ u ''.0''))"

text \<open>The branches after the blanks are joined by commas.\<close>

definition coerce_plain :: "version_lib \<Rightarrow> ustr \<Rightarrow> ustr" where
  "coerce_plain lib text0 =
     (let operator = (\<lambda>t. t \<noteq> [] \<and> hd t \<in> set (u ''><=!''));
          t = (if 32 \<in> set text0 \<and> list_all operator (usplit text0) then join (u '','') (usplit text0) else text0) in
      if t \<noteq> [] \<and> hd t = 94 then caret_spec lib t
      else if t \<noteq> [] \<and> hd t = 126 then tilde_spec lib t
      else (case dotted_digits t of
              Some [a] \<Rightarrow> u ''>='' @ a @ u ''.0.0,<'' @ int_text (int_of_digits a + 1) @ u ''.0.0''
            | Some [a, b] \<Rightarrow> u ''>='' @ a @ u ''.'' @ b @ u ''.0,<'' @ a @ u ''.'' @ int_text (int_of_digits b + 1) @ u ''.0''
            | Some [a, b, c] \<Rightarrow> u ''=='' @ a @ u ''.'' @ b @ u ''.'' @ c
            | _ \<Rightarrow> if suffixed_version t then u ''=='' @ coerce_version t else t))"

definition coerce_specifier :: "version_lib \<Rightarrow> ustr \<Rightarrow> ustr" where
  "coerce_specifier lib value =
     (let text0 = ustrip value in
      case usplit text0 of
        [a, dash, b] \<Rightarrow>
          if dash = u ''-'' \<and> dotted_digits a \<noteq> None \<and> dotted_digits b \<noteq> None
          then u ''>='' @ coerce_version a @ u '',<='' @ coerce_version b
          else coerce_plain lib text0
      | _ \<Rightarrow> coerce_plain lib text0)"

definition simple_constraint_match :: "ustr \<Rightarrow> ustr \<Rightarrow> bool" where
  "simple_constraint_match version t \<longleftrightarrow>
     t \<noteq> [] \<and> hd t = 61 \<and> \<not> startswith t (u ''=='')
     \<and> coerce_version version = coerce_version (dropWhile (\<lambda>c. c = 61) t)"

text \<open>One clause, blanks stripped and without the bars of an alternative.\<close>

definition clause_satisfied :: "version_lib \<Rightarrow> ustr \<Rightarrow> ustr \<Rightarrow> bool" where
  "clause_satisfied lib version t =
     (if t = [] \<or> t = u ''*'' \<or> t = u ''x'' \<or> t = u ''X'' then True
      else if wildcard_version t
      then wildcard_match (split_on 46 (coerce_version t)) (split_on 46 (coerce_version version))
      else if simple_constraint_match version t then True
      else (let spec = coerce_specifier lib t in
            parsed_version lib (coerce_version version) \<noteq> None \<and> spec_parses lib spec
            \<and> spec_contains lib (coerce_version version) spec))"

definition constraint_satisfied :: "version_lib \<Rightarrow> ustr \<Rightarrow> ustr \<Rightarrow> bool" where
  "constraint_satisfied lib version raw =
     (let t = ustrip raw in
      if occurs_in (u ''||'') t then list_ex (\<lambda>c. clause_satisfied lib version (ustrip c)) (split_bars t)
      else clause_satisfied lib version t)"

text \<open>
  A list of constraints; a constraint given as one text is the list of it, the empty text the empty list.
\<close>

definition version_satisfies :: "version_lib \<Rightarrow> ustr \<Rightarrow> ustr list \<Rightarrow> bool" where
  "version_satisfies lib version constraints =
     (let v = ustrip version in
      if v = [] then constraints = [] else list_all (constraint_satisfied lib v) constraints)"

definition clause_valid :: "version_lib \<Rightarrow> ustr \<Rightarrow> bool" where
  "clause_valid lib t =
     (if t = [] then False
      else if t = u ''*'' \<or> t = u ''x'' \<or> t = u ''X'' then True
      else wildcard_version t \<or> spec_parses lib (coerce_specifier lib t))"

definition version_constraint_is_valid :: "version_lib \<Rightarrow> ustr \<Rightarrow> bool" where
  "version_constraint_is_valid lib value =
     (let t = ustrip value in
      if occurs_in (u ''||'') t then list_all (\<lambda>c. clause_valid lib (ustrip c)) (split_bars t) else clause_valid lib t)"

datatype id_error = BadSeparators | BadCharacters | Malformed | BadConstraint

fun count_code :: "int \<Rightarrow> ustr \<Rightarrow> nat" where
  "count_code c [] = 0"
| "count_code c (x # s) = (if x = c then 1 else 0) + count_code c s"

definition parse_plugin_id_strict :: "version_lib \<Rightarrow> ustr \<Rightarrow> ustr \<Rightarrow> id_error + plugin_identifier" where
  "parse_plugin_id_strict lib value market =
     (let raw = ustrip value; p = parse_plugin_id raw market in
      if raw = [] \<or> list_ex uspace raw \<or> 47 \<in> set raw \<or> 92 \<in> set raw then Inl BadSeparators
      else if \<not> is_valid_identifier (name p) (marketplace p) then Inl BadCharacters
      else if 2 < count_code 64 raw \<or> last raw = 64 \<or> occurs_in (u ''@@'') raw then Inl Malformed
      else if constraint p \<noteq> [] \<and> \<not> version_constraint_is_valid lib (constraint p) then Inl BadConstraint
      else Inr p)"

end
