(* ===== verification/PluginDeps.thy ===== *)
theory PluginDeps
  imports PluginId "HOL-Library.List_Lexorder"
begin

text \<open>
  The plugin dependency graph: \<open>backend/plugins/dependencies.py\<close>. A catalog entry is a manifest (its
  version, its dependencies, and the candidates of its lists \<open>versions\<close>, \<open>candidates\<close>, \<open>plugins\<close>) or a plain list
  of candidates; a dependency list given as one text is the list of it. The lookup callback and the
  version library are arguments. The walk recurses as deep as the graph: it has fuel, and \<open>None\<close> is
  running out of it.
\<close>

section \<open>References\<close>

record dependency_reference =
  ref_identity :: ustr
  ref_constraint :: ustr

definition parse_dependency_reference :: "ustr \<Rightarrow> ustr \<Rightarrow> dependency_reference" where
  "parse_dependency_reference raw declaring_id =
     (let t = ustrip raw; p = parse_plugin_id t (u ''local''); c = ustrip (constraint p) in
      if t = [] then \<lparr>ref_identity = [], ref_constraint = []\<rparr>
      else if has_explicit_marketplace t then \<lparr>ref_identity = identifier_id p, ref_constraint = c\<rparr>
      else
       (let d = parse_plugin_id declaring_id (u ''local'') in
        if marketplace d \<noteq> [] \<and> casefold (marketplace d) \<noteq> u ''inline''
        then \<lparr>ref_identity = plugin_id t (marketplace d), ref_constraint = c\<rparr>
        else \<lparr>ref_identity = t, ref_constraint = c\<rparr>))"

section \<open>Catalog entries\<close>

datatype catalog_entry =
    Manifest ustr "ustr list" "catalog_entry list"
  | Listing "catalog_entry list"

fun catalog_version :: "catalog_entry \<Rightarrow> ustr" where
  "catalog_version (Manifest v ds cs) = ustrip v"
| "catalog_version (Listing cs) = []"

fun catalog_dependencies :: "catalog_entry \<Rightarrow> ustr list" where
  "catalog_dependencies (Manifest v ds cs) = ds"
| "catalog_dependencies (Listing cs) = []"

fun candidates_of :: "catalog_entry \<Rightarrow> catalog_entry list" where
  "candidates_of (Manifest v ds cs) = (if cs = [] then [Manifest v ds cs] else cs)"
| "candidates_of (Listing cs) = cs"

text \<open>\<open>max(xs, key=...)\<close>: the first of the greatest.\<close>

definition first_max :: "('a \<Rightarrow> 'a \<Rightarrow> bool) \<Rightarrow> 'a list \<Rightarrow> 'a" where
  "first_max lt xs = foldl (\<lambda>best x. if lt best x then x else best) (hd xs) (tl xs)"

definition version_text :: "catalog_entry \<Rightarrow> ustr" where
  "version_text e = dropWhile (\<lambda>c. c = 118 \<or> c = 86) (catalog_version e)"

definition select_dependency_entry :: "version_lib \<Rightarrow> catalog_entry \<Rightarrow> ustr \<Rightarrow> catalog_entry option" where
  "select_dependency_entry lib entry c =
     (if c = [] then Some entry
      else
       (let matching = filter (\<lambda>x. version_satisfies lib (catalog_version x) [c]) (candidates_of entry) in
        if matching = [] then None
        else if list_all (\<lambda>x. parsed_version lib (version_text x) \<noteq> None) matching
        then Some (first_max (\<lambda>a b. version_less lib (version_text a) (version_text b)) matching)
        else Some (first_max (\<lambda>a b. catalog_version a < catalog_version b) matching)))"

section \<open>The dependency closure\<close>

datatype dep_error =
    InvalidRoot
  | CrossMarketplace ustr ustr
  | Cycle ustr ustr "ustr list"
  | NotFound ustr ustr
  | VersionMismatch ustr ustr ustr

record walk_state =
  visited :: "ustr list"
  closure :: "ustr list"

record resolver =
  r_lib :: version_lib
  r_lookup :: "ustr \<Rightarrow> catalog_entry option"
  r_root :: ustr
  r_enabled :: "ustr list"
  r_allowed :: "ustr list"

definition canonical_id :: "ustr \<Rightarrow> ustr" where
  "canonical_id v = (let c = plugin_id v (u ''local'') in if c = [] then v else c)"

definition market_of :: "ustr \<Rightarrow> ustr" where
  "market_of v = casefold (marketplace (parse_plugin_id v (u ''local'')))"

text \<open>A dependency that is enabled already and asks for no version is not walked.\<close>

definition skipped :: "resolver \<Rightarrow> ustr \<Rightarrow> ustr \<Rightarrow> bool" where
  "skipped r current c \<longleftrightarrow> current \<noteq> r_root r \<and> casefold current \<in> set (r_enabled r) \<and> c = []"

text \<open>The loop over the dependencies of one entry, which stops at the first error.\<close>

fun walk_list :: "('a \<Rightarrow> 's \<Rightarrow> ('e + 's) option) \<Rightarrow> 'a list \<Rightarrow> 's \<Rightarrow> ('e + 's) option" where
  "walk_list f [] st = Some (Inr st)"
| "walk_list f (d # ds) st =
     (case f d st of
        None \<Rightarrow> None
      | Some (Inl e) \<Rightarrow> Some (Inl e)
      | Some (Inr st1) \<Rightarrow> walk_list f ds st1)"

text \<open>The references of an entry that name something.\<close>

definition references :: "catalog_entry \<Rightarrow> ustr \<Rightarrow> dependency_reference list" where
  "references e declaring =
     filter (\<lambda>d. ref_identity d \<noteq> []) (map (\<lambda>raw. parse_dependency_reference raw declaring) (catalog_dependencies e))"

text \<open>The stack is the path from the root, the current plugin last.\<close>

primrec walk ::
    "nat \<Rightarrow> resolver \<Rightarrow> ustr list \<Rightarrow> ustr \<Rightarrow> ustr \<Rightarrow> ustr \<Rightarrow> walk_state \<Rightarrow> (dep_error + walk_state) option" where
  "walk 0 r stack value required_by c st = None"
| "walk (Suc n) r stack value required_by c st =
     (let current = canonical_id value in
      if skipped r current c then Some (Inr st)
      else if market_of current \<noteq> market_of (r_root r) \<and> market_of current \<notin> set (r_allowed r)
      then Some (Inl (CrossMarketplace current required_by))
      else if current \<in> set stack then Some (Inl (Cycle current required_by (stack @ [current])))
      else if current \<in> set (visited st) then Some (Inr st)
      else
       (case r_lookup r current of
          None \<Rightarrow> Some (Inl (NotFound current required_by))
        | Some entry \<Rightarrow>
            (case select_dependency_entry (r_lib r) entry c of
               None \<Rightarrow> Some (Inl (VersionMismatch current required_by c))
             | Some e \<Rightarrow>
                 (case walk_list (\<lambda>d. walk n r (stack @ [current]) (ref_identity d) current (ref_constraint d))
                         (references e current) (st\<lparr>visited := current # visited st\<rparr>) of
                    None \<Rightarrow> None
                  | Some (Inl err) \<Rightarrow> Some (Inl err)
                  | Some (Inr st1) \<Rightarrow> Some (Inr (st1\<lparr>closure := closure st1 @ [current]\<rparr>))))))"

definition resolver_for ::
    "version_lib \<Rightarrow> (ustr \<Rightarrow> catalog_entry option) \<Rightarrow> ustr list \<Rightarrow> ustr list \<Rightarrow> ustr \<Rightarrow> resolver" where
  "resolver_for lib look already_enabled allowed root =
     \<lparr>r_lib = lib, r_lookup = look, r_root = root,
      r_enabled = map (\<lambda>i. casefold (plugin_id i (u ''local'')))
        (filter (\<lambda>i. plugin_id i (u ''local'') \<noteq> []) already_enabled),
      r_allowed = map (\<lambda>a. casefold (ustrip a)) allowed\<rparr>"

definition root_of :: "ustr \<Rightarrow> ustr" where
  "root_of root_id =
     (let i = ref_identity (parse_dependency_reference root_id root_id) in
      if i = [] then plugin_id root_id (u ''local'') else i)"

definition resolve_dependency_closure ::
    "nat \<Rightarrow> version_lib \<Rightarrow> (ustr \<Rightarrow> catalog_entry option) \<Rightarrow> ustr list \<Rightarrow> ustr list \<Rightarrow> ustr
      \<Rightarrow> (dep_error + ustr list) option" where
  "resolve_dependency_closure fuel lib look already_enabled allowed root_id =
     (let root = root_of root_id in
      if root = [] then Some (Inl InvalidRoot)
      else map_option (map_sum id closure)
             (walk fuel (resolver_for lib look already_enabled allowed root) [] root root []
                \<lparr>visited = [], closure = []\<rparr>))"

section \<open>Demotion\<close>

record plugin_item =
  pi_id :: ustr
  pi_name :: ustr
  pi_market :: ustr
  pi_enabled :: bool
  pi_version :: ustr
  pi_constraints :: "ustr list"
  pi_dependencies :: "ustr list"

text \<open>
  The identity under which an item is entered strips its id before it falls back on the name; the one
  used when the item is checked does not.
\<close>

definition entered_identity :: "plugin_item \<Rightarrow> ustr" where
  "entered_identity i =
     plugin_id (if ustrip (pi_id i) \<noteq> [] then ustrip (pi_id i) else ustrip (pi_name i)) (pi_market i)"

definition checked_identity :: "plugin_item \<Rightarrow> ustr" where
  "checked_identity i = plugin_id (if pi_id i \<noteq> [] then pi_id i else pi_name i) (pi_market i)"

definition entered :: "plugin_item list \<Rightarrow> plugin_item list" where
  "entered ps = filter (\<lambda>i. entered_identity i \<noteq> []) ps"

definition entered_key :: "plugin_item \<Rightarrow> ustr" where
  "entered_key i = casefold (entered_identity i)"

definition checked_key :: "plugin_item \<Rightarrow> ustr" where
  "checked_key i = casefold (checked_identity i)"

definition initially_enabled :: "plugin_item list \<Rightarrow> ustr list" where
  "initially_enabled ps = remdups (map entered_key (filter pi_enabled (entered ps)))"

definition keys_by_name :: "plugin_item list \<Rightarrow> ustr \<Rightarrow> ustr list" where
  "keys_by_name ps nm =
     map entered_key
       (filter (\<lambda>i. casefold (name (parse_plugin_id (entered_identity i) (u ''local''))) = nm) (entered ps))"

definition candidate_keys :: "plugin_item list \<Rightarrow> ustr \<Rightarrow> ustr \<Rightarrow> ustr list" where
  "candidate_keys ps identity raw =
     (if \<not> has_explicit_marketplace raw \<and> market_of identity = u ''inline''
      then keys_by_name ps (casefold (ustrip raw))
      else [casefold (ref_identity (parse_dependency_reference raw identity))])"

definition dependency_satisfied :: "version_lib \<Rightarrow> plugin_item list \<Rightarrow> ustr list \<Rightarrow> ustr \<Rightarrow> ustr \<Rightarrow> bool" where
  "dependency_satisfied lib ps enabled identity raw =
     (let c = ref_constraint (parse_dependency_reference raw identity) in
      list_ex (\<lambda>k. k \<in> set enabled
          \<and> (c = [] \<or> list_ex (\<lambda>i. entered_key i = k \<and> version_satisfies lib (ustrip (pi_version i)) [c]) (entered ps)))
        (candidate_keys ps identity raw))"

datatype demotion = ManagedVersion ustr | Unsatisfied ustr ustr | RangeUnsatisfied ustr ustr

text \<open>Why an item cannot stay enabled, as the body of the loop finds it.\<close>

definition demotion_reason :: "version_lib \<Rightarrow> plugin_item list \<Rightarrow> ustr list \<Rightarrow> plugin_item \<Rightarrow> demotion option" where
  "demotion_reason lib ps enabled i =
     (let identity = checked_identity i in
      if pi_constraints i \<noteq> [] \<and> \<not> version_satisfies lib (pi_version i) (pi_constraints i)
      then Some (ManagedVersion identity)
      else map_option (\<lambda>raw.
             (let d = parse_dependency_reference raw identity in
              if ref_constraint d = [] then Unsatisfied (ref_identity d) identity
              else RangeUnsatisfied (ref_identity d) identity))
           (find (\<lambda>raw. \<not> dependency_satisfied lib ps enabled identity raw) (pi_dependencies i)))"

record demoting =
  dm_enabled :: "ustr list"
  dm_errors :: "demotion list"
  dm_changed :: bool

definition demote_item :: "version_lib \<Rightarrow> plugin_item list \<Rightarrow> demoting \<Rightarrow> plugin_item \<Rightarrow> demoting" where
  "demote_item lib ps d i =
     (if checked_key i \<notin> set (dm_enabled d) then d
      else (case demotion_reason lib ps (dm_enabled d) i of
              None \<Rightarrow> d
            | Some e \<Rightarrow> \<lparr>dm_enabled = removeAll (checked_key i) (dm_enabled d), dm_errors = dm_errors d @ [e],
                         dm_changed = True\<rparr>))"

definition demote_round :: "version_lib \<Rightarrow> plugin_item list \<Rightarrow> demoting \<Rightarrow> demoting" where
  "demote_round lib ps d = foldl (demote_item lib ps) (d\<lparr>dm_changed := False\<rparr>) ps"

lemma demote_item_shrinks:
  "length (dm_enabled (demote_item lib ps d i)) \<le> length (dm_enabled d)
   \<and> (dm_changed (demote_item lib ps d i) \<longrightarrow> dm_changed d
        \<or> length (dm_enabled (demote_item lib ps d i)) < length (dm_enabled d))"
  by (auto simp: demote_item_def length_removeAll_less split: option.splits intro: length_removeAll_less_eq)

lemma demote_items_shrink:
  "length (dm_enabled (foldl (demote_item lib ps) d js)) \<le> length (dm_enabled d)
   \<and> (dm_changed (foldl (demote_item lib ps) d js) \<longrightarrow> dm_changed d
        \<or> length (dm_enabled (foldl (demote_item lib ps) d js)) < length (dm_enabled d))"
proof (induction js arbitrary: d)
  case (Cons i js)
  show ?case
    unfolding foldl.simps using demote_item_shrinks [of lib ps d i] Cons [of "demote_item lib ps d i"] by arith
qed simp

function demote_loop :: "version_lib \<Rightarrow> plugin_item list \<Rightarrow> demoting \<Rightarrow> demoting" where
  "demote_loop lib ps d =
     (let d1 = demote_round lib ps d in if dm_changed d1 then demote_loop lib ps d1 else d1)"
  by pat_completeness auto

termination
proof (relation "measure (\<lambda>(lib, ps, d). length (dm_enabled d))")
  show "wf (measure (\<lambda>(lib, ps, d). length (dm_enabled d)))" by simp
  fix lib ps d d1
  assume "d1 = demote_round lib ps d" "dm_changed d1"
  then show "((lib, ps, d1), lib, ps, d) \<in> measure (\<lambda>(lib, ps, d). length (dm_enabled d))"
    using demote_items_shrink [of lib ps "d\<lparr>dm_changed := False\<rparr>" ps] by (simp add: demote_round_def)
qed

declare demote_loop.simps [simp del]

definition demote :: "version_lib \<Rightarrow> plugin_item list \<Rightarrow> demoting" where
  "demote lib ps = demote_loop lib ps \<lparr>dm_enabled = initially_enabled ps, dm_errors = [], dm_changed = True\<rparr>"

text \<open>The identities that were entered last under a key, of the keys that lost their place.\<close>

definition verify_and_demote :: "version_lib \<Rightarrow> plugin_item list \<Rightarrow> ustr set \<times> demotion list" where
  "verify_and_demote lib ps =
     (let d = demote lib ps;
          ids = foldl (\<lambda>m i. AList.update (entered_key i) (entered_identity i) m) [] (entered ps) in
      (set (map snd (filter (\<lambda>(k, v). k \<notin> set (dm_enabled d)
          \<and> list_ex (\<lambda>i. checked_key i = k \<and> pi_enabled i) ps) ids)), dm_errors d))"

text \<open>The enabled plugins that depend on one.\<close>

definition find_reverse_dependents :: "ustr \<Rightarrow> plugin_item list \<Rightarrow> ustr list" where
  "find_reverse_dependents identity ps =
     (let target = plugin_id identity (u ''local'');
          target_name = casefold (name (parse_plugin_id target (u ''local'')));
          depends = (\<lambda>i. list_ex (\<lambda>raw.
             (let dep = ref_identity (parse_dependency_reference raw (checked_identity i)) in
              casefold dep = casefold target
              \<or> \<not> has_explicit_marketplace raw \<and> casefold (name (parse_plugin_id dep (u ''local''))) = target_name))
             (pi_dependencies i)) in
      sort_key casefold (remdups (map (\<lambda>i. if pi_name i \<noteq> [] then pi_name i else checked_identity i)
        (filter (\<lambda>i. pi_enabled i \<and> checked_key i \<noteq> casefold target \<and> depends i) ps))))"

end
