(* ===== verification/PluginProps.thy ===== *)
theory PluginProps
  imports PluginDeps
begin

text \<open>
  Demotion finds the greatest set of enabled plugins that supports itself; the dependency walk ends,
  its closure lists every plugin after what it depends on, and a reported cycle is one.
\<close>

section \<open>Demotion is the greatest self-supporting set\<close>

text \<open>A set of keys in which every plugin keeps its place.\<close>

definition self_supporting :: "version_lib \<Rightarrow> plugin_item list \<Rightarrow> ustr list \<Rightarrow> bool" where
  "self_supporting lib ps F \<longleftrightarrow> (\<forall>i \<in> set ps. checked_key i \<in> set F \<longrightarrow> demotion_reason lib ps F i = None)"

lemma dependency_satisfied_mono:
  "dependency_satisfied lib ps F identity raw \<Longrightarrow> set F \<subseteq> set G \<Longrightarrow> dependency_satisfied lib ps G identity raw"
  by (auto simp: dependency_satisfied_def Let_def list_ex_iff)

lemma demotion_reason_mono:
  "demotion_reason lib ps F i = None \<Longrightarrow> set F \<subseteq> set G \<Longrightarrow> demotion_reason lib ps G i = None"
  by (auto simp: demotion_reason_def Let_def find_None_iff dest: dependency_satisfied_mono split: if_splits)

lemma demote_item_keeps:
  assumes "self_supporting lib ps F" "set F \<subseteq> set (dm_enabled d)" "i \<in> set ps"
  shows "set F \<subseteq> set (dm_enabled (demote_item lib ps d i))"
proof (cases "checked_key i \<in> set F")
  case True
  with assms(1,3) have "demotion_reason lib ps F i = None" by (simp add: self_supporting_def)
  then have "demotion_reason lib ps (dm_enabled d) i = None" using assms(2) by (rule demotion_reason_mono)
  with assms(2) show ?thesis by (simp add: demote_item_def)
next
  case False
  with assms(2) show ?thesis by (auto simp: demote_item_def split: option.splits)
qed

lemma demote_items_keep:
  "self_supporting lib ps F \<Longrightarrow> set F \<subseteq> set (dm_enabled d) \<Longrightarrow> set js \<subseteq> set ps \<Longrightarrow>
   set F \<subseteq> set (dm_enabled (foldl (demote_item lib ps) d js))"
proof (induction js arbitrary: d)
  case (Cons j js)
  from Cons.prems(3) have j: "j \<in> set ps" "set js \<subseteq> set ps" by simp_all
  show ?case
    unfolding foldl.simps by (rule Cons.IH [OF Cons.prems(1) demote_item_keeps [OF Cons.prems(1,2) j(1)] j(2)])
qed simp

lemma demote_items_shrink_set: "set (dm_enabled (foldl (demote_item lib ps) d js)) \<subseteq> set (dm_enabled d)"
proof (induction js arbitrary: d)
  case (Cons j js)
  have "set (dm_enabled (demote_item lib ps d j)) \<subseteq> set (dm_enabled d)"
    by (auto simp: demote_item_def split: option.splits)
  with Cons [of "demote_item lib ps d j"] show ?case by simp
qed simp

lemma changed_stays: "dm_changed d \<Longrightarrow> dm_changed (foldl (demote_item lib ps) d js)"
proof (induction js arbitrary: d)
  case (Cons j js)
  then have "dm_changed (demote_item lib ps d j)" by (simp add: demote_item_def split: option.splits)
  with Cons.IH show ?case by simp
qed simp

lemma unchanged_round:
  "\<not> dm_changed (foldl (demote_item lib ps) d js) \<Longrightarrow>
   foldl (demote_item lib ps) d js = d
   \<and> (\<forall>i \<in> set js. checked_key i \<in> set (dm_enabled d) \<longrightarrow> demotion_reason lib ps (dm_enabled d) i = None)"
proof (induction js arbitrary: d)
  case (Cons j js)
  from Cons.prems have "\<not> dm_changed (demote_item lib ps d j)" using changed_stays by auto
  then have "demote_item lib ps d j = d"
    and "checked_key j \<in> set (dm_enabled d) \<Longrightarrow> demotion_reason lib ps (dm_enabled d) j = None"
    by (auto simp: demote_item_def split: option.splits if_splits)
  with Cons show ?case by simp
qed simp

lemma demote_loop_result:
  "self_supporting lib ps (dm_enabled (demote_loop lib ps d))
   \<and> set (dm_enabled (demote_loop lib ps d)) \<subseteq> set (dm_enabled d)
   \<and> (\<forall>F. self_supporting lib ps F \<longrightarrow> set F \<subseteq> set (dm_enabled d) \<longrightarrow> set F \<subseteq> set (dm_enabled (demote_loop lib ps d)))"
proof (induction lib ps d rule: demote_loop.induct)
  case (1 lib ps d)
  let ?d1 = "demote_round lib ps d"
  have sub: "set (dm_enabled ?d1) \<subseteq> set (dm_enabled d)"
    using demote_items_shrink_set [of lib ps "d\<lparr>dm_changed := False\<rparr>" ps] by (simp add: demote_round_def)
  have keep: "set F \<subseteq> set (dm_enabled ?d1)" if "self_supporting lib ps F" "set F \<subseteq> set (dm_enabled d)" for F
    using demote_items_keep [OF that(1), of "d\<lparr>dm_changed := False\<rparr>" ps] that(2) by (simp add: demote_round_def)
  show ?case
  proof (cases "dm_changed ?d1")
    case True
    then have "demote_loop lib ps d = demote_loop lib ps ?d1"
      by (subst demote_loop.simps) (simp add: Let_def)
    with 1 [OF refl True] sub keep show ?thesis by auto
  next
    case False
    then have d1: "demote_loop lib ps d = ?d1" by (subst demote_loop.simps) (simp add: Let_def)
    from unchanged_round [of lib ps "d\<lparr>dm_changed := False\<rparr>" ps] False
    have "self_supporting lib ps (dm_enabled ?d1)" by (simp add: demote_round_def self_supporting_def)
    with d1 sub keep show ?thesis by simp
  qed
qed

text \<open>
  Claim C30. The fixed-point demotion leaves exactly the greatest set of enabled plugins in which
  each has its managed version and, for each dependency, an enabled plugin of a fitting version: the
  union of all sets of enabled plugins that support themselves, which supports itself.
\<close>

theorem demotion_is_greatest_fixed_point:
  "set (dm_enabled (demote lib ps)) = \<Union> {set F | F. set F \<subseteq> set (initially_enabled ps) \<and> self_supporting lib ps F}
   \<and> self_supporting lib ps (dm_enabled (demote lib ps))"
proof -
  let ?d = "\<lparr>dm_enabled = initially_enabled ps, dm_errors = [], dm_changed = True\<rparr>"
  note r = demote_loop_result [of lib ps ?d, folded demote_def]
  have "set (dm_enabled (demote lib ps)) \<subseteq> set (initially_enabled ps)" using r by simp
  moreover have "self_supporting lib ps (dm_enabled (demote lib ps))" using r by blast
  moreover have "set F \<subseteq> set (dm_enabled (demote lib ps))"
    if "set F \<subseteq> set (initially_enabled ps)" "self_supporting lib ps F" for F
    using r that by simp
  ultimately show ?thesis by blast
qed

section \<open>The walk\<close>

text \<open>An edge of the graph: a reference of an entry the lookup gives for a plugin, under some range.\<close>

definition dep_edge :: "resolver \<Rightarrow> ustr \<Rightarrow> ustr \<Rightarrow> bool" where
  "dep_edge r a b \<longleftrightarrow> (\<exists>entry c e d. r_lookup r a = Some entry \<and> select_dependency_entry (r_lib r) entry c = Some e
     \<and> d \<in> set (references e a) \<and> b = canonical_id (ref_identity d))"

text \<open>A plugin is settled by the plugins before it when each of its references is one of them or is skipped.\<close>

definition settled :: "resolver \<Rightarrow> ustr list \<Rightarrow> ustr \<Rightarrow> bool" where
  "settled r xs a \<longleftrightarrow> (\<exists>entry c e. r_lookup r a = Some entry \<and> select_dependency_entry (r_lib r) entry c = Some e
     \<and> (\<forall>d \<in> set (references e a). canonical_id (ref_identity d) \<in> set xs
          \<or> skipped r (canonical_id (ref_identity d)) (ref_constraint d)))"

definition install_order :: "resolver \<Rightarrow> ustr list \<Rightarrow> bool" where
  "install_order r xs \<longleftrightarrow> distinct xs \<and> (\<forall>i < length xs. settled r (take i xs) (xs ! i))"

definition walk_ok :: "resolver \<Rightarrow> ustr list \<Rightarrow> walk_state \<Rightarrow> bool" where
  "walk_ok r stack st \<longleftrightarrow> set (visited st) = set (closure st) \<union> set stack \<and> distinct (closure st @ stack)
     \<and> install_order r (closure st)"

lemma install_order_snoc: "install_order r xs \<Longrightarrow> a \<notin> set xs \<Longrightarrow> settled r xs a \<Longrightarrow> install_order r (xs @ [a])"
  by (auto simp: install_order_def nth_append less_Suc_eq)

text \<open>How a successful walk of a new plugin goes.\<close>

lemma walk_cases:
  assumes "walk (Suc n) r stack v q c st = Some res"
  defines "current \<equiv> canonical_id v"
  obtains
    (known) "res = Inr st" "skipped r current c \<or> current \<in> set (visited st)" "\<not> skipped r current c \<Longrightarrow> current \<notin> set stack"
  | (cycle) "res = Inl (Cycle current q (stack @ [current]))" "current \<in> set stack"
  | (refused) err where "res = Inl err" "\<And>x y z. err \<noteq> Cycle x y z"
  | (inside) entry e err where "r_lookup r current = Some entry" "select_dependency_entry (r_lib r) entry c = Some e"
      "current \<notin> set stack" "current \<notin> set (visited st)" "res = Inl err"
      "walk_list (\<lambda>d. walk n r (stack @ [current]) (ref_identity d) current (ref_constraint d)) (references e current)
         (st\<lparr>visited := current # visited st\<rparr>) = Some (Inl err)"
  | (walked) entry e st1 where "r_lookup r current = Some entry" "select_dependency_entry (r_lib r) entry c = Some e"
      "current \<notin> set stack" "current \<notin> set (visited st)" "res = Inr (st1\<lparr>closure := closure st1 @ [current]\<rparr>)"
      "walk_list (\<lambda>d. walk n r (stack @ [current]) (ref_identity d) current (ref_constraint d)) (references e current)
         (st\<lparr>visited := current # visited st\<rparr>) = Some (Inr st1)"
proof -
  have w: "walk (Suc n) r stack v q c st =
     (if skipped r current c then Some (Inr st)
      else if market_of current \<noteq> market_of (r_root r) \<and> market_of current \<notin> set (r_allowed r)
      then Some (Inl (CrossMarketplace current q))
      else if current \<in> set stack then Some (Inl (Cycle current q (stack @ [current])))
      else if current \<in> set (visited st) then Some (Inr st)
      else
       (case r_lookup r current of
          None \<Rightarrow> Some (Inl (NotFound current q))
        | Some entry \<Rightarrow>
            (case select_dependency_entry (r_lib r) entry c of
               None \<Rightarrow> Some (Inl (VersionMismatch current q c))
             | Some e \<Rightarrow>
                 (case walk_list (\<lambda>d. walk n r (stack @ [current]) (ref_identity d) current (ref_constraint d))
                         (references e current) (st\<lparr>visited := current # visited st\<rparr>) of
                    None \<Rightarrow> None
                  | Some (Inl err) \<Rightarrow> Some (Inl err)
                  | Some (Inr st1) \<Rightarrow> Some (Inr (st1\<lparr>closure := closure st1 @ [current]\<rparr>))))))"
    unfolding current_def by (simp add: Let_def)
  show thesis
    using assms(1) known cycle refused inside walked unfolding w
    by (simp split: if_splits option.splits sum.splits) force+
qed

text \<open>A loop whose body keeps an invariant and marks its element keeps both.\<close>

lemma walk_list_invariant:
  assumes "walk_list f ds st = Some (Inr st')" "P st"
    and "\<And>d st st'. d \<in> set ds \<Longrightarrow> f d st = Some (Inr st') \<Longrightarrow> P st \<Longrightarrow> P st' \<and> Q d st' \<and> le st st'"
    and "\<And>d a b. Q d a \<Longrightarrow> le a b \<Longrightarrow> Q d b" "\<And>a. le a a" "\<And>a b c. le a b \<Longrightarrow> le b c \<Longrightarrow> le a c"
  shows "P st' \<and> le st st' \<and> (\<forall>d \<in> set ds. Q d st')"
  using assms(1-3)
proof (induction ds arbitrary: st)
  case Nil
  then show ?case using assms(5) by simp
next
  case (Cons d ds)
  from Cons.prems(1) obtain st1 where st1: "f d st = Some (Inr st1)" "walk_list f ds st1 = Some (Inr st')"
    by (auto split: option.splits sum.splits)
  from Cons.prems(3) [OF _ st1(1) Cons.prems(2)] have d: "P st1" "Q d st1" "le st st1" by simp_all
  have "P st' \<and> le st1 st' \<and> (\<forall>d \<in> set ds. Q d st')"
    by (rule Cons.IH [OF st1(2) d(1)]) (rule Cons.prems(3), simp_all)
  with d assms(4,6) show ?case by auto
qed

lemma walk_list_error:
  assumes "walk_list f ds st = Some (Inl err)"
  obtains d st1 where "d \<in> set ds" "f d st1 = Some (Inl err)"
  using assms by (induction ds arbitrary: st) (auto split: option.splits sum.splits)

lemma walk_ok_inside:
  "walk_ok r stack st \<Longrightarrow> current \<notin> set stack \<Longrightarrow> current \<notin> set (visited st) \<Longrightarrow>
   walk_ok r (stack @ [current]) (st\<lparr>visited := current # visited st\<rparr>)"
  by (auto simp: walk_ok_def)

lemma walk_result:
  "walk n r stack v q c st = Some (Inr st') \<Longrightarrow> walk_ok r stack st \<Longrightarrow>
   walk_ok r stack st' \<and> set (closure st) \<subseteq> set (closure st')
   \<and> (canonical_id v \<in> set (closure st') \<or> skipped r (canonical_id v) c)"
proof (induction n arbitrary: stack v q c st st')
  case (Suc n)
  from Suc.prems(1) show ?case
  proof (cases rule: walk_cases)
    case known
    then show ?thesis using Suc.prems(2) by (auto simp: walk_ok_def)
  next
    case (walked entry e st1)
    let ?cur = "canonical_id v" and ?Q = "\<lambda>d st. canonical_id (ref_identity d) \<in> set (closure st)
      \<or> skipped r (canonical_id (ref_identity d)) (ref_constraint d)"
    have l: "walk_ok r (stack @ [?cur]) st1 \<and> set (closure (st\<lparr>visited := ?cur # visited st\<rparr>)) \<subseteq> set (closure st1)
        \<and> (\<forall>d \<in> set (references e ?cur). ?Q d st1)"
      by (rule walk_list_invariant [OF walked(6), where P = "walk_ok r (stack @ [?cur])" and Q = ?Q
            and le = "\<lambda>a b. set (closure a) \<subseteq> set (closure b)"])
        (use Suc.IH walk_ok_inside [OF Suc.prems(2) walked(3,4)] in blast)+
    then have "settled r (closure st1) ?cur" using walked(1,2) unfolding settled_def by blast
    moreover have "?cur \<notin> set (closure st1)" using l by (auto simp: walk_ok_def)
    ultimately have "install_order r (closure st1 @ [?cur])"
      using l by (intro install_order_snoc) (auto simp: walk_ok_def)
    with l walked(5) show ?thesis by (auto simp: walk_ok_def)
  qed simp_all
qed simp

text \<open>The walk lists only what can be reached from where it starts.\<close>

lemma walk_reaches:
  "walk n r stack v q c st = Some (Inr st') \<Longrightarrow>
   set (closure st') \<subseteq> set (closure st) \<union> {a. (dep_edge r)\<^sup>*\<^sup>* (canonical_id v) a}"
proof (induction n arbitrary: stack v q c st st')
  case (Suc n)
  from Suc.prems(1) show ?case
  proof (cases rule: walk_cases)
    case (walked entry e st1)
    let ?cur = "canonical_id v" and ?in = "\<lambda>s. set (closure s) \<subseteq> set (closure st) \<union> {a. (dep_edge r)\<^sup>*\<^sup>* (canonical_id v) a}"
    have "?in st1 \<and> True \<and> (\<forall>d \<in> set (references e ?cur). True)"
    proof (rule walk_list_invariant [OF walked(6), where Q = "\<lambda>d s. True" and le = "\<lambda>a b. True"])
      fix d s s' assume d: "d \<in> set (references e ?cur)" and s: "?in s"
        and w: "walk n r (stack @ [?cur]) (ref_identity d) ?cur (ref_constraint d) s = Some (Inr s')"
      have "dep_edge r ?cur (canonical_id (ref_identity d))" using walked(1,2) d unfolding dep_edge_def by blast
      then have "{a. (dep_edge r)\<^sup>*\<^sup>* (canonical_id (ref_identity d)) a} \<subseteq> {a. (dep_edge r)\<^sup>*\<^sup>* ?cur a}"
        by (auto intro: converse_rtranclp_into_rtranclp)
      with Suc.IH [OF w] s show "?in s' \<and> True \<and> True" by blast
    qed auto
    with walked(5) show ?thesis by auto
  qed auto
qed simp

lemma walk_cycle:
  "walk n r stack v q c st = Some (Inl (Cycle a b chain)) \<Longrightarrow> successively (dep_edge r) (stack @ [canonical_id v]) \<Longrightarrow>
   successively (dep_edge r) chain \<and> (\<exists>pre mid. chain = pre @ a # mid @ [a])"
proof (induction n arbitrary: stack v q c st)
  case (Suc n)
  from Suc.prems(1) show ?case
  proof (cases rule: walk_cases)
    case cycle
    then show ?thesis using Suc.prems(2) by (auto dest!: split_list)
  next
    case (refused err)
    then have "err = Cycle a b chain" by simp
    with refused(2) show ?thesis by blast
  next
    case (inside entry e err)
    from inside(6) obtain d st1 where d: "d \<in> set (references e (canonical_id v))"
      "walk n r (stack @ [canonical_id v]) (ref_identity d) (canonical_id v) (ref_constraint d) st1 = Some (Inl err)"
      by (rule walk_list_error)
    have "dep_edge r (canonical_id v) (canonical_id (ref_identity d))"
      using inside(1,2) d(1) unfolding dep_edge_def by blast
    then have "successively (dep_edge r) ((stack @ [canonical_id v]) @ [canonical_id (ref_identity d)])"
      using Suc.prems(2) by (simp add: successively_append_iff)
    moreover have "err = Cycle a b chain" using inside(5) by simp
    ultimately show ?thesis using Suc.IH d(2) by blast
  qed simp_all
qed simp

section \<open>Termination\<close>

lemma walk_list_ends:
  "(\<And>d st. d \<in> set ds \<Longrightarrow> f d st \<noteq> None) \<Longrightarrow> walk_list f ds st \<noteq> None"
  by (induction ds arbitrary: st) (auto split: option.splits sum.splits)

lemma walk_ends:
  assumes "finite U" "\<And>a b. a \<in> U \<Longrightarrow> dep_edge r a b \<Longrightarrow> b \<in> U"
  shows "set stack \<subseteq> U \<Longrightarrow> distinct stack \<Longrightarrow> canonical_id v \<in> U \<Longrightarrow> card U < n + length stack \<Longrightarrow>
    walk n r stack v q c st \<noteq> None"
proof (induction n arbitrary: stack v q c st)
  case 0
  have "length stack \<le> card U"
    using card_mono [OF assms(1) 0(1)] distinct_card [OF 0(2)] by simp
  with 0(4) show ?case by simp
next
  case (Suc n)
  let ?cur = "canonical_id v"
  have ends: "walk_list (\<lambda>d. walk n r (stack @ [?cur]) (ref_identity d) ?cur (ref_constraint d)) (references e ?cur) st1 \<noteq> None"
    if "r_lookup r ?cur = Some entry" "select_dependency_entry (r_lib r) entry c = Some e" "?cur \<notin> set stack" for entry e st1
  proof (rule walk_list_ends)
    fix d st2 assume "d \<in> set (references e ?cur)"
    then have "dep_edge r ?cur (canonical_id (ref_identity d))" using that(1,2) unfolding dep_edge_def by blast
    then have "canonical_id (ref_identity d) \<in> U" using assms(2) Suc.prems(3) by blast
    then show "walk n r (stack @ [?cur]) (ref_identity d) ?cur (ref_constraint d) st2 \<noteq> None"
      using Suc.prems that(3) by (intro Suc.IH) auto
  qed
  show ?case
  proof
    assume "walk (Suc n) r stack v q c st = None"
    then show False
      using ends by (auto simp: Let_def simp del: not_None_eq split: if_splits option.splits sum.splits)
  qed
qed

lemma walk_list_more:
  "(\<And>d st x. d \<in> set ds \<Longrightarrow> f d st = Some x \<Longrightarrow> g d st = Some x) \<Longrightarrow> walk_list f ds st = Some y \<Longrightarrow> walk_list g ds st = Some y"
  by (induction ds arbitrary: st) (auto split: option.splits sum.splits)

lemma walk_more_fuel: "walk n r stack v q c st = Some x \<Longrightarrow> walk (n + m) r stack v q c st = Some x"
proof (induction n arbitrary: stack v q c st x)
  case (Suc n)
  have more: "walk_list (\<lambda>d. walk (n + m) r s (ref_identity d) a (ref_constraint d)) ds t = Some y"
    if "walk_list (\<lambda>d. walk n r s (ref_identity d) a (ref_constraint d)) ds t = Some y" for s a ds t y
    by (rule walk_list_more [OF _ that]) (rule Suc.IH)
  from Suc.prems show ?case
    by (auto simp: Let_def dest!: more split: if_splits option.splits sum.splits)
qed simp

section \<open>Identities\<close>

lemma id_word_chars:
  "id_word s \<Longrightarrow> c \<in> set s \<Longrightarrow> c \<noteq> 64 \<and> c \<noteq> 47 \<and> \<not> uspace c"
  by (auto simp: id_word_def list_all_iff id_char_def ualpha_ascii_def digit_code_def uspace_def space_code_def)

lemma id_word_strip: "id_word s \<Longrightarrow> ustrip s = s"
  using id_word_chars [of s] by (auto simp: ustrip_def id_word_def intro!: strip_by_id)

lemma ustrip_simps: "ustrip [] = []" "ustrip (u ''local'') = u ''local''" "u ''local'' \<noteq> []"
  by code_simp+

text \<open>A name and a marketplace without separators and outer blanks are read back.\<close>

lemma parse_joined:
  assumes "n \<noteq> []" "64 \<notin> set n" "ustrip n = n" "m \<noteq> []" "64 \<notin> set m" "ustrip m = m"
  shows "parse_plugin_id (n @ u ''@'' @ m) x = \<lparr>name = n, marketplace = m, constraint = []\<rparr>"
proof -
  have at: "u ''@'' = [64]" by (simp add: u_def)
  have "hd n \<noteq> 64" using assms(1,2) hd_in_set by force
  have "\<not> uspace (hd n)" "\<not> uspace (last m)"
    using strip_by_ends [of uspace n, folded ustrip_def] strip_by_ends [of uspace m, folded ustrip_def] assms by auto
  then have "ustrip (n @ 64 # m) = n @ 64 # m"
    unfolding ustrip_def using assms(1,4) by (intro strip_by_id) auto
  moreover have "split_on 64 (n @ 64 # m) = [n, m]"
    using assms(2,5) by (simp add: split_on_append split_on_no_sep)
  ultimately show ?thesis
    using \<open>hd n \<noteq> 64\<close> assms by (simp add: parse_plugin_id_def Let_def at)
qed

lemma parse_identity:
  "id_word n \<Longrightarrow> id_word m \<Longrightarrow> parse_plugin_id (n @ u ''@'' @ m) x = \<lparr>name = n, marketplace = m, constraint = []\<rparr>"
  using id_word_chars [of n] id_word_chars [of m]
  by (intro parse_joined id_word_strip) (auto simp: id_word_def)

text \<open>
  Identities are canonical: the identity of a text, when it has one, is read back as the same
  name and marketplace without a version range, and is its own identity whatever the default marketplace.
\<close>

theorem identity_is_canonical:
  assumes "plugin_id v market \<noteq> []"
  shows "plugin_id (plugin_id v market) other = plugin_id v market
    \<and> constraint (parse_plugin_id (plugin_id v market) other) = []"
proof -
  let ?p = "parse_plugin_id v market"
  have strip: "ustrip (name ?p) = name ?p" "ustrip (marketplace ?p) = marketplace ?p"
    by (auto simp: parse_plugin_id_def Let_def ustrip_idem ustrip_simps split: option.splits list.splits)
  from assms have valid: "is_valid_identifier (name ?p) (marketplace ?p)" "plugin_id v market = identifier_id ?p"
    by (auto simp: plugin_id_def Let_def split: if_splits)
  then have "id_word (name ?p)" "id_word (marketplace ?p)" by (auto simp: is_valid_identifier_def Let_def strip)
  then have "parse_plugin_id (plugin_id v market) other = \<lparr>name = name ?p, marketplace = marketplace ?p, constraint = []\<rparr>"
    unfolding valid(2) identifier_id_def by (rule parse_identity)
  then show ?thesis
    using valid plugin_id_def [of "plugin_id v market" other] by (simp add: Let_def identifier_id_def)
qed

theorem identity_is_canonical_witness:
  "plugin_id (plugin_id (u '' tool @m@^1'') (u ''local'')) (u ''x'') = plugin_id (u '' tool @m@^1'') (u ''local'')
   \<and> plugin_id (u '' tool @m@^1'') (u ''local'') = u ''tool@m''"
proof -
  have i: "plugin_id (u '' tool @m@^1'') (u ''local'') = u ''tool@m''" by code_simp
  then have "plugin_id (u '' tool @m@^1'') (u ''local'') \<noteq> []" by (simp add: u_def)
  from identity_is_canonical [OF this, of "u ''x''"] i show ?thesis by simp
qed

text \<open>The root is its own canonical identity, also where its text is not a valid identity.\<close>

lemma ustrip_Cons:
  assumes "\<not> uspace c"
  shows "\<exists>t. ustrip (c # s) = c # t"
proof -
  have l: "lstrip_by uspace (c # s) = c # s" using assms by (simp add: lstrip_by_def)
  let ?r = "rstrip_by uspace (c # s)"
  obtain t where t: "c # s = ?r @ t" "\<forall>x \<in> set t. uspace x"
    using rstrip_by_prefix [of "c # s" uspace] by (elim exE conjE)
  have "?r \<noteq> []"
  proof
    assume "?r = []"
    with t(1) have "t = c # s" by (simp only: append_Nil)
    with t(2) assms show False by simp
  qed
  then obtain d r where r: "rstrip_by uspace (c # s) = d # r" by (cases "rstrip_by uspace (c # s)") blast+
  then have "d = c" using t(1) by (simp only: append_Cons list.inject)
  with r show ?thesis by (simp add: ustrip_def strip_by_def l)
qed

lemma plugin_id_scoped:
  assumes "ustrip v = 64 # s"
  shows "plugin_id v market = [] \<and> (\<exists>t. name (parse_plugin_id v market) = 64 # t)"
proof -
  have sp: "\<not> uspace 64" by (simp add: uspace_def space_code_def)
  have "\<exists>t. name (parse_plugin_id v market) = 64 # t"
    using assms ustrip_Cons [OF sp]
    by (auto simp: parse_plugin_id_def Let_def find_from_def find_Some_iff take_Cons'
        split: option.splits list.splits)
  then obtain t where t: "name (parse_plugin_id v market) = 64 # t" by blast
  then have "\<not> is_valid_identifier (name (parse_plugin_id v market)) m" for m
    using ustrip_Cons [OF sp, of t] by (auto simp: is_valid_identifier_def Let_def dest: id_word_chars)
  with t show ?thesis by (simp add: plugin_id_def Let_def)
qed

lemma parts_of_plain:
  assumes "ustrip v = c # s" "c \<noteq> 64"
  shows "plugin_id (identifier_id (parse_plugin_id v (u ''local''))) x \<in>
    {[], identifier_id (parse_plugin_id v (u ''local''))}"
proof -
  let ?p = "parse_plugin_id v (u ''local'')"
  have c: "\<not> uspace c" using strip_by_ends [of uspace v, folded ustrip_def] assms(1) by simp
  obtain a as where parts: "split_on 64 (c # s) = (c # a) # as"
    using assms(2) by (cases "split_on 64 s") auto
  have free: "64 \<notin> set (c # a)" "\<forall>b \<in> set as. 64 \<notin> set b"
    by (rule split_on_parts [of "c # a" 64 "c # s"], simp only: parts list.set_intros,
        intro ballI, rule split_on_parts [of _ 64 "c # s"], simp only: parts list.set_intros)
  have p: "name ?p = ustrip (c # a)"
    "marketplace ?p = (if as = [] \<or> ustrip (hd as) = [] then u ''local'' else ustrip (hd as))"
    using parts assms by (auto simp: parse_plugin_id_def Let_def ustrip_simps split: list.splits)
  have "name ?p \<noteq> [] \<and> 64 \<notin> set (name ?p) \<and> ustrip (name ?p) = name ?p"
    using p(1) ustrip_Cons [OF c, of a] free(1) set_ustrip [of "c # a"] by (metis list.distinct(1) subsetD ustrip_idem)
  moreover have "marketplace ?p \<noteq> [] \<and> 64 \<notin> set (marketplace ?p) \<and> ustrip (marketplace ?p) = marketplace ?p"
  proof (cases "as = [] \<or> ustrip (hd as) = []")
    case True
    then show ?thesis by (simp add: p ustrip_simps) (simp add: u_def)
  next
    case False
    then have "64 \<notin> set (hd as)" using free(2) by simp
    with False show ?thesis using set_ustrip [of "hd as"] by (auto simp: p ustrip_idem)
  qed
  ultimately have "parse_plugin_id (identifier_id ?p) x = \<lparr>name = name ?p, marketplace = marketplace ?p, constraint = []\<rparr>"
    unfolding identifier_id_def by (intro parse_joined) auto
  then show ?thesis by (simp add: plugin_id_def Let_def identifier_id_def)
qed

lemma identifier_scoped:
  assumes "ustrip v = 64 # s"
  shows "plugin_id (identifier_id (parse_plugin_id v (u ''local''))) x = []"
proof -
  obtain t where "name (parse_plugin_id v (u ''local'')) = 64 # t" using plugin_id_scoped [OF assms] by blast
  moreover have "\<not> uspace 64" by (simp add: uspace_def space_code_def)
  ultimately obtain r where "ustrip (identifier_id (parse_plugin_id v (u ''local''))) = 64 # r"
    using ustrip_Cons [of 64] by (auto simp: identifier_id_def)
  with plugin_id_scoped show ?thesis by blast
qed

text \<open>A text without a marketplace of its own has the default one, which is not the inline one.\<close>

lemma find_from_Some: "find_from c start s = Some i \<Longrightarrow> start \<le> i \<and> i < length s \<and> s ! i = c"
  by (auto simp: find_from_def find_Some_iff)

lemma find_from_None: "find_from c start s = None \<Longrightarrow> start \<le> i \<Longrightarrow> i < length s \<Longrightarrow> s ! i \<noteq> c"
  by (auto simp: find_from_def find_None_iff set_zip)

lemma bare_marketplace:
  assumes "\<not> has_explicit_marketplace v"
  shows "marketplace (parse_plugin_id v (u ''local'')) = u ''local''"
proof (cases "ustrip v = [] \<or> hd (ustrip v) \<noteq> 64")
  case True
  then have "ustrip v \<noteq> [] \<Longrightarrow> split_on 64 (ustrip v) = [ustrip v]"
    using assms by (auto simp: has_explicit_marketplace_def Let_def split_on_no_sep)
  with True show ?thesis by (auto simp: parse_plugin_id_def Let_def ustrip_simps)
next
  case False
  have "\<not> (1 < slash \<and> slash < sep)"
    if "find_from 47 0 (ustrip v) = Some slash" "find_from 64 1 (ustrip v) = Some sep" for slash sep
    using that assms False find_from_Some [OF that(1)] find_from_Some [OF that(2)]
      find_from_Some [of 64 slash "ustrip v"] find_from_None [of 64 slash "ustrip v" sep]
    by (auto simp: has_explicit_marketplace_def Let_def split: option.splits dest: le_neq_implies_less)
  with False show ?thesis
    by (auto simp: parse_plugin_id_def Let_def ustrip_simps split: option.splits)
qed

lemma canonical_root:
  assumes "root_of v \<noteq> []"
  shows "canonical_id (root_of v) = root_of v"
proof -
  let ?t = "ustrip v" and ?l = "u ''local''"
  have fixed: "canonical_id (plugin_id w m) = plugin_id w m" if "plugin_id w m \<noteq> []" for w m
    using identity_is_canonical [OF that] by (simp add: canonical_id_def)
  have explicit: "canonical_id (identifier_id (parse_plugin_id w ?l)) = identifier_id (parse_plugin_id w ?l)"
    if "ustrip w = c # s" for w c s
    using parts_of_plain [OF that, of ?l] identifier_scoped [of w s ?l] that by (cases "c = 64") (auto simp: canonical_id_def Let_def)
  consider (bare) w m where "root_of v = plugin_id w m" | (full) "?t \<noteq> []" "root_of v = identifier_id (parse_plugin_id ?t ?l)"
  proof (cases "?t = [] \<or> \<not> has_explicit_marketplace v")
    case True
    have "casefold ?l \<noteq> u ''inline''" "has_explicit_marketplace ?t = has_explicit_marketplace v"
      by (code_simp, simp add: has_explicit_marketplace_def Let_def ustrip_idem)
    with True bare_marketplace [of v] have "ref_identity (parse_dependency_reference v v) \<in> {[], plugin_id ?t ?l}"
      using ustrip_simps(3) by (auto simp: parse_dependency_reference_def Let_def)
    then have "root_of v = plugin_id v ?l \<or> root_of v = plugin_id ?t ?l" by (simp add: root_of_def Let_def) fastforce
    then show ?thesis using bare [of v ?l] bare [of ?t ?l] by blast
  next
    case False
    moreover have "has_explicit_marketplace ?t = has_explicit_marketplace v"
      by (simp add: has_explicit_marketplace_def Let_def ustrip_idem)
    ultimately have "ref_identity (parse_dependency_reference v v) = identifier_id (parse_plugin_id ?t ?l)"
      by (simp add: parse_dependency_reference_def Let_def)
    then show ?thesis using full False by (simp add: root_of_def Let_def) (simp add: identifier_id_def u_def)
  qed
  then show ?thesis
  proof cases
    case full
    then obtain c s where "ustrip ?t = c # s" by (metis neq_Nil_conv ustrip_idem)
    with full explicit show ?thesis by simp
  qed (use assms fixed in simp)
qed

section \<open>The closure\<close>

lemma start_ok: "walk_ok r [] \<lparr>visited = [], closure = []\<rparr>"
  by (simp add: walk_ok_def install_order_def)

lemma walk_root_last:
  assumes "walk n r [] v q c \<lparr>visited = [], closure = []\<rparr> = Some (Inr st)" "closure st \<noteq> []"
  shows "last (closure st) = canonical_id v"
proof (cases n)
  case (Suc m)
  from assms(1) [unfolded Suc] show ?thesis
    by (cases rule: walk_cases) (use assms(2) in auto)
qed (use assms(1) in simp)

lemma resolve_walk:
  assumes "resolve_dependency_closure fuel lib look en al root_id = Some res" "res \<noteq> Inl InvalidRoot"
  obtains res' where "walk fuel (resolver_for lib look en al (root_of root_id)) [] (root_of root_id) (root_of root_id) []
      \<lparr>visited = [], closure = []\<rparr> = Some res'" "res = map_sum id closure res'"
  using assms by (auto simp: resolve_dependency_closure_def Let_def split: if_splits)

text \<open>
  Claim C13. A closure is an installation order of what the root needs: the root is in it, and last; no plugin
  is listed twice; every plugin stands after all the plugins the manifest the walk chose for it refers to (but those
  enabled already that ask for no version); and only plugins that can be reached from the root are listed.
\<close>

theorem closure_is_install_order:
  assumes "resolve_dependency_closure fuel lib look en al root_id = Some (Inr xs)"
  shows "install_order (resolver_for lib look en al (root_of root_id)) xs
    \<and> xs \<noteq> [] \<and> last xs = root_of root_id
    \<and> (\<forall>a \<in> set xs. (dep_edge (resolver_for lib look en al (root_of root_id)))\<^sup>*\<^sup>* (root_of root_id) a)"
proof -
  let ?r = "resolver_for lib look en al (root_of root_id)"
  have root: "canonical_id (root_of root_id) = root_of root_id"
    using assms by (intro canonical_root) (auto simp: resolve_dependency_closure_def Let_def)
  obtain st where w: "walk fuel ?r [] (root_of root_id) (root_of root_id) []
      \<lparr>visited = [], closure = []\<rparr> = Some (Inr st)" "closure st = xs"
    using resolve_walk [OF assms] by (metis Inr_Inl_False map_sum_Inr)
  have "\<not> skipped ?r (root_of root_id) []" by (simp add: skipped_def resolver_for_def)
  with walk_result [OF w(1) start_ok] w(2) root have "install_order ?r xs" "root_of root_id \<in> set xs"
    by (auto simp: walk_ok_def)
  moreover have "xs \<noteq> []" using calculation(2) by auto
  ultimately show ?thesis using walk_root_last [OF w(1)] walk_reaches [OF w(1)] w(2) root by auto
qed

text \<open>
  A reported cycle is one: consecutive plugins of the chain refer to each other and the chain
  ends with a plugin it has met before.
\<close>

theorem reported_cycle_is_genuine:
  assumes "resolve_dependency_closure fuel lib look en al root_id = Some (Inl (Cycle a b chain))"
  shows "successively (dep_edge (resolver_for lib look en al (root_of root_id))) chain
    \<and> (\<exists>pre mid. chain = pre @ a # mid @ [a])"
proof -
  have "walk fuel (resolver_for lib look en al (root_of root_id)) [] (root_of root_id) (root_of root_id) []
      \<lparr>visited = [], closure = []\<rparr> = Some (Inl (Cycle a b chain))"
  proof (rule resolve_walk [OF assms])
    fix res' assume h: "walk fuel (resolver_for lib look en al (root_of root_id)) [] (root_of root_id) (root_of root_id) []
      \<lparr>visited = [], closure = []\<rparr> = Some res'" "Inl (Cycle a b chain) = map_sum id closure res'"
    then show ?thesis by (cases res') auto
  qed simp
  from walk_cycle [OF this] show ?thesis by simp
qed

text \<open>
  Claim C31. The resolution ends: when the plugins that can be reached from the root are among finitely
  many, one more unit of fuel than there are gives a result, and more fuel the same.
\<close>

theorem resolution_ends:
  assumes "finite U" "canonical_id (root_of root_id) \<in> U"
    and "\<And>a b. a \<in> U \<Longrightarrow> dep_edge (resolver_for lib look en al (root_of root_id)) a b \<Longrightarrow> b \<in> U"
  shows "\<exists>res. \<forall>m. resolve_dependency_closure (card U + 1 + m) lib look en al root_id = Some res"
proof -
  let ?w = "\<lambda>n. walk n (resolver_for lib look en al (root_of root_id)) [] (root_of root_id) (root_of root_id) []
      \<lparr>visited = [], closure = []\<rparr>"
  have "?w (card U + 1) \<noteq> None" by (rule walk_ends [OF assms(1,3)]) (use assms(2) in auto)
  then obtain x where "?w (card U + 1) = Some x" by blast
  then have "?w (card U + 1 + m) = Some x" for m by (rule walk_more_fuel)
  then show ?thesis unfolding resolve_dependency_closure_def Let_def by auto
qed

text \<open>A catalog of two plugins, the second a dependency of the first, and one of a cycle.\<close>

definition lib_demo :: version_lib where
  "lib_demo = \<lparr>parsed_version = (\<lambda>t. Some \<lparr>major = 1, minor = 0, micro = 0, release_length = 3, canonical = t\<rparr>),
     spec_parses = (\<lambda>t. True), spec_contains = (\<lambda>v t. t = u ''>=1.0.0,<2.0.0''), version_less = (\<lambda>a b. False)\<rparr>"

definition look_demo :: "ustr \<Rightarrow> catalog_entry option" where
  "look_demo k =
     (if k = u ''app@m'' then Some (Manifest (u ''1.0.0'') [u ''tool'', u ''base@m@1''] [])
      else if k = u ''tool@m'' then Some (Manifest (u ''1.0.0'') [u ''base''] [])
      else if k = u ''base@m'' then Some (Manifest (u ''1.0.0'') [] [])
      else if k = u ''loop@m'' then Some (Manifest (u ''1.0.0'') [u ''app'', u ''loop@m''] [])
      else None)"

lemma root_demo: "root_of (u ''app@m'') = u ''app@m''"
  by code_simp

theorem closure_is_install_order_witness:
  "install_order (resolver_for lib_demo look_demo [] [] (u ''app@m'')) [u ''base@m'', u ''tool@m'', u ''app@m'']
   \<and> (dep_edge (resolver_for lib_demo look_demo [] [] (u ''app@m'')))\<^sup>*\<^sup>* (u ''app@m'') (u ''base@m'')"
proof -
  have "resolve_dependency_closure 5 lib_demo look_demo [] [] (u ''app@m'')
    = Some (Inr [u ''base@m'', u ''tool@m'', u ''app@m''])" by code_simp
  from closure_is_install_order [OF this] show ?thesis unfolding root_demo by (simp only: list.set ball_simps)
qed

theorem reported_cycle_is_genuine_witness:
  "successively (dep_edge (resolver_for lib_demo look_demo [] [] (root_of (u ''loop@m'')))) [u ''loop@m'', u ''loop@m'']"
proof -
  have "resolve_dependency_closure 5 lib_demo look_demo [] [] (u ''loop@m'')
    = Some (Inl (Cycle (u ''loop@m'') (u ''loop@m'') [u ''loop@m'', u ''loop@m'']))" by code_simp
  from reported_cycle_is_genuine [OF this] show ?thesis by blast
qed

lemma select_single: "select_dependency_entry lib (Manifest v ds []) c = Some e \<Longrightarrow> e = Manifest v ds []"
  by (auto simp: select_dependency_entry_def Let_def first_max_def split: if_splits)

lemma edge_demo:
  assumes "a \<in> set [u ''app@m'', u ''tool@m'', u ''base@m'']" "dep_edge (resolver_for lib_demo look_demo [] [] root) a b"
  shows "b \<in> set [u ''app@m'', u ''tool@m'', u ''base@m'']"
proof -
  have look: "r_lookup (resolver_for lib_demo look_demo [] [] root) = look_demo" by (simp add: resolver_for_def)
  have refs: "list_all (\<lambda>a. case look_demo a of Some (Manifest v ds []) \<Rightarrow>
      list_all (\<lambda>d. canonical_id (ref_identity d) \<in> set [u ''app@m'', u ''tool@m'', u ''base@m'']) (references (Manifest v ds []) a)
    | _ \<Rightarrow> False) [u ''app@m'', u ''tool@m'', u ''base@m'']" by code_simp
  then have a: "case look_demo a of Some (Manifest v ds []) \<Rightarrow>
      list_all (\<lambda>d. canonical_id (ref_identity d) \<in> set [u ''app@m'', u ''tool@m'', u ''base@m'']) (references (Manifest v ds []) a)
    | _ \<Rightarrow> False"
    using assms(1) by (simp only: list_all_iff)
  from assms(2) obtain entry c e d where e: "look_demo a = Some entry" "select_dependency_entry lib_demo entry c = Some e"
    "d \<in> set (references e a)" "b = canonical_id (ref_identity d)"
    unfolding dep_edge_def look by (auto simp: resolver_for_def)
  with a obtain v ds where "entry = Manifest v ds []"
    by (auto split: catalog_entry.splits list.splits)
  then have "e = entry" using select_single e(2) by blast
  with \<open>entry = Manifest v ds []\<close> a e(1,3,4) show ?thesis by (simp add: list_all_iff del: set_simps)
qed

theorem resolution_ends_witness:
  "\<exists>res. resolve_dependency_closure (card (set [u ''app@m'', u ''tool@m'', u ''base@m'']) + 1 + 2) lib_demo look_demo [] [] (u ''app@m'') = Some res"
proof -
  have "canonical_id (root_of (u ''app@m'')) \<in> set [u ''app@m'', u ''tool@m'', u ''base@m'']" by code_simp
  moreover have "b \<in> set [u ''app@m'', u ''tool@m'', u ''base@m'']"
    if "a \<in> set [u ''app@m'', u ''tool@m'', u ''base@m'']"
      "dep_edge (resolver_for lib_demo look_demo [] [] (root_of (u ''app@m''))) a b" for a b
    using that by (rule edge_demo)
  ultimately show ?thesis using resolution_ends [OF finite_set] by blast
qed

text \<open>
  Only the first reference to a plugin is checked against the version it asks for: with the same
  manifests, the order of the root's dependencies decides whether base 1.0.0 is accepted for a plugin that asks
  for base 2.
\<close>

definition look_diamond :: "bool \<Rightarrow> ustr \<Rightarrow> catalog_entry option" where
  "look_diamond first k =
     (if k = u ''app@m'' then Some (Manifest (u ''1.0.0'') (if first then [u ''base'', u ''tool''] else [u ''tool'', u ''base'']) [])
      else if k = u ''tool@m'' then Some (Manifest (u ''1.0.0'') [u ''base@m@2''] [])
      else if k = u ''base@m'' then Some (Manifest (u ''1.0.0'') [] [])
      else None)"

lemma second_range_is_not_checked:
  "resolve_dependency_closure 5 lib_demo (look_diamond True) [] [] (u ''app@m'')
     = Some (Inr [u ''base@m'', u ''tool@m'', u ''app@m''])
   \<and> resolve_dependency_closure 5 lib_demo (look_diamond False) [] [] (u ''app@m'')
     = Some (Inl (VersionMismatch (u ''base@m'') (u ''tool@m'') (u ''2'')))"
  by code_simp

end
