(* ===== verification/Outbox.thy ===== *)
theory Outbox
  imports Prelude
begin

text \<open>
  The event outbox of a renderer session: class \<open>EventOutbox\<close> of \<open>backend/ws/event_outbox.py\<close>, with the file
  operations of \<open>WebSocketReplayEventStore\<close> (\<open>backend/ws/event_log.py\<close>) it uses.

  A frame keeps the fields the outbox looks at and an opaque body; a staged event is what redaction and
  truncation leave of an enveloped frame, which keeps \<open>seq\<close>, \<open>previous_replay_seq\<close> and the
  conversation. The writer task runs from one suspension point to the next: \<open>sleep(0)\<close> (\<open>Yielding\<close>) and the
  write in its thread (\<open>Writing\<close>). The deliverer suspends in \<open>send_json\<close> (\<open>Sending\<close>). The other
  operations of the outbox run in between.
\<close>

section \<open>State\<close>

record frame =
  f_type :: ustr
  f_conversation :: ustr
  f_workspace :: ustr
  f_visibility :: ustr
  f_reasoning :: ustr
  f_source :: ustr
  f_raw :: bool
  f_body :: ustr

text \<open>The previous sequence number is \<open>None\<close> when the field is missing, as in logs of older builds.\<close>

record staged =
  seq :: int
  prev :: "int option"
  conversation :: ustr
  body :: ustr

datatype job = Append "staged list" | Rewrite "staged list"

text \<open>Where the writer goes on: the outer loop, the inner loop, or the rewrite it flushed a batch for.\<close>

datatype continuation = Outer | Inner | ThenRewrite staged "staged list"

datatype writer = Idle | Yielding | Writing job "staged option" continuation

datatype deliverer = Resting | Sending nat frame int bool

record outbox =
  generation :: nat
  connected :: bool
  dropped :: bool
  last_seq :: int
  cursor :: int
  events :: "staged list"
  since_rewrite :: nat
  pending :: "(staged \<times> staged list option) list"
  failed :: "int list"
  writing :: writer
  queue :: "(nat \<times> frame \<times> int) list"
  delivering :: deliverer
  disk :: "staged list"
  sent :: "(nat \<times> int) list"  \<comment> \<open>what the transports took: connection generation and sequence number\<close>

text \<open>
  The limit of the retained window, the contract check of session payloads, the frames that need an
  owner or a workspace, and the types that are never staged.
\<close>

record outbox_env =
  replay_limit :: nat
  payload_valid :: "frame \<Rightarrow> bool"
  needs_owner :: "frame \<Rightarrow> bool"
  workspace_scoped :: "ustr \<Rightarrow> bool"
  non_replayable :: "ustr \<Rightarrow> bool"

definition MAX_SEQ :: int where "MAX_SEQ = 9007199254740991"
definition PERSISTENCE_BATCH_LIMIT :: nat where "PERSISTENCE_BATCH_LIMIT = 256"
definition DELIVERY_QUEUE_SIZE :: nat where "DELIVERY_QUEUE_SIZE = 256"

definition replay_seq_value :: "int \<Rightarrow> int option" where
  "replay_seq_value v = (if v \<le> 0 \<or> MAX_SEQ < v then None else Some v)"

text \<open>\<open>deque(xs, maxlen=n)\<close>.\<close>

definition keep_last :: "nat \<Rightarrow> 'a list \<Rightarrow> 'a list" where
  "keep_last n xs = drop (length xs - n) xs"

definition new_outbox :: "outbox_env \<Rightarrow> staged list \<Rightarrow> outbox" where
  "new_outbox env stored =
     (let loaded = (if replay_limit env = 0 then [] else keep_last (replay_limit env) stored);
          top = foldl max 0 (map seq loaded) in
      \<lparr>generation = 1, connected = True, dropped = False, last_seq = top, cursor = top, events = loaded,
       since_rewrite = length loaded, pending = [], failed = [], writing = Idle, queue = [], delivering = Resting,
       disk = stored, sent = []\<rparr>)"

section \<open>What is sent and what is staged\<close>

definition thinking :: "frame \<Rightarrow> bool" where
  "thinking f \<longleftrightarrow> ulower (ustrip (f_type f)) \<in> set [u ''thinking'', u ''thinking_delta'']"

definition hidden_visibility :: "frame \<Rightarrow> bool" where
  "hidden_visibility f \<longleftrightarrow>
     ulower (ustrip (f_visibility f)) \<in> set [u ''hidden'', u ''internal'', u ''redacted'', u ''debug'']"

definition is_hidden_provider_reasoning_event :: "frame \<Rightarrow> bool" where
  "is_hidden_provider_reasoning_event f \<longleftrightarrow> thinking f \<and> hidden_visibility f"

definition raw_reasoning_types :: "ustr list" where
  "raw_reasoning_types = map u [''reasoning_text'', ''reasoning_content'', ''raw_reasoning'', ''raw_provider_reasoning'',
     ''thinking'', ''thinking_delta'']"

definition is_raw_provider_reasoning_event :: "frame \<Rightarrow> bool" where
  "is_raw_provider_reasoning_event f =
     (if \<not> thinking f then False
      else if f_raw f \<or> hidden_visibility f then True
      else (let t = ulower (ustrip (f_reasoning f)) in
            if t = u ''reasoning_summary_text'' then False
            else if t \<in> set raw_reasoning_types then True
            else ulower (ustrip (f_source f)) \<in> set [u ''provider'', u ''reasoning'']))"

definition is_replayable :: "outbox_env \<Rightarrow> frame \<Rightarrow> bool" where
  "is_replayable env f \<longleftrightarrow> \<not> non_replayable env (ustrip (f_type f)) \<and> \<not> is_raw_provider_reasoning_event f
     \<and> ustrip (f_conversation f) \<noteq> []"

text \<open>The checks of \<open>send_payload\<close> before the lock.\<close>

definition admitted :: "outbox_env \<Rightarrow> frame \<Rightarrow> bool" where
  "admitted env f \<longleftrightarrow> payload_valid env f \<and> \<not> is_hidden_provider_reasoning_event f
     \<and> \<not> (needs_owner env f \<and> ustrip (f_conversation f) = [])
     \<and> \<not> (workspace_scoped env (ustrip (f_type f)) \<and> ustrip (f_workspace f) = [])"

text \<open>\<open>_stage\<close>, with the bookkeeping of \<open>send_payload\<close> around it.\<close>

definition stage :: "outbox_env \<Rightarrow> staged \<Rightarrow> outbox \<Rightarrow> outbox" where
  "stage env e s =
     (let window = keep_last (replay_limit env) (events s @ [e]);
          rewrite = replay_limit env \<le> since_rewrite s + 1 in
      s\<lparr>cursor := seq e, events := window, since_rewrite := (if rewrite then 0 else since_rewrite s + 1),
        pending := (if rewrite then [(e, Some window)] else pending s @ [(e, None)]),
        writing := (case writing s of Idle \<Rightarrow> Yielding | w \<Rightarrow> w)\<rparr>)"

text \<open>
  \<open>_can_send\<close>, where \<open>open_socket\<close> is the state of the socket itself, and the part of \<open>send_payload\<close> inside the
  lock: the event is staged first, then the frame is put into the queue, which holds \<open>DELIVERY_QUEUE_SIZE\<close> frames. An
  entry beyond these is the frame of a send that has staged its event and waits in \<open>queue.put\<close>, with the lock
  held; that such a send is cancelled is left out. \<open>gen\<close> is the connection the frame is meant for, \<open>busy\<close>
  whether a run is active. The answer is whether the frame was queued.
\<close>

definition can_send :: "bool \<Rightarrow> nat \<Rightarrow> outbox \<Rightarrow> bool" where
  "can_send open_socket gen s \<longleftrightarrow> gen = generation s \<and> connected s \<and> open_socket"

definition staged_event :: "outbox_env \<Rightarrow> bool \<Rightarrow> frame \<Rightarrow> outbox \<Rightarrow> staged option" where
  "staged_event env enveloped f s =
     (if admitted env f \<and> enveloped \<and> is_replayable env f
      then Some \<lparr>seq = last_seq s + 1, prev = Some (cursor s), conversation = ustrip (f_conversation f), body = f_body f\<rparr>
      else None)"

definition send_payload :: "outbox_env \<Rightarrow> bool \<Rightarrow> bool \<Rightarrow> nat \<Rightarrow> bool \<Rightarrow> frame \<Rightarrow> outbox \<Rightarrow> bool \<times> outbox" where
  "send_payload env open_socket busy gen enveloped f s =
     (if \<not> admitted env f then (False, s)
      else
       (let n = (if enveloped then last_seq s + 1 else last_seq s);
            s1 = s\<lparr>last_seq := n\<rparr>;
            s2 = (case staged_event env enveloped f s of None \<Rightarrow> s1 | Some e \<Rightarrow> stage env e s1) in
        if \<not> can_send open_socket gen s2 then (False, if busy then s2\<lparr>dropped := True\<rparr> else s2)
        else (True, s2\<lparr>queue := queue s2 @ [(gen, f, n)]\<rparr>)))"

section \<open>Delivery\<close>

text \<open>One turn of \<open>_deliver_pending\<close> up to \<open>send_json\<close>, and its end with or without an exception.\<close>

definition deliver_begin :: "bool \<Rightarrow> bool \<Rightarrow> outbox \<Rightarrow> outbox" where
  "deliver_begin open_socket busy s =
     (case (delivering s, queue s) of
        (Resting, (gen, f, n) # rest) \<Rightarrow>
          if can_send open_socket gen s
          then s\<lparr>queue := rest, delivering := Sending gen f n True, sent := sent s @ [(gen, n)]\<rparr>
          else s\<lparr>queue := rest, dropped := dropped s \<or> busy\<rparr>
      | _ \<Rightarrow> s)"

definition deliver_end :: "bool \<Rightarrow> bool \<Rightarrow> outbox \<Rightarrow> outbox" where
  "deliver_end raised busy s =
     (case delivering s of
        Resting \<Rightarrow> s
      | Sending gen f n _ \<Rightarrow>
          if \<not> raised then s\<lparr>delivering := Resting\<rparr>
          else s\<lparr>delivering := Resting, connected := (if gen = generation s then False else connected s),
                 dropped := dropped s \<or> busy\<rparr>)"

definition attach_websocket :: "outbox \<Rightarrow> outbox" where
  "attach_websocket s = s\<lparr>generation := generation s + 1, connected := True\<rparr>"

definition mark_disconnected :: "outbox \<Rightarrow> outbox" where
  "mark_disconnected s = s\<lparr>connected := False\<rparr>"

definition clear_disconnect_drop_marker :: "outbox \<Rightarrow> outbox" where
  "clear_disconnect_drop_marker s = s\<lparr>dropped := False\<rparr>"

section \<open>Persistence\<close>

text \<open>\<open>_persist_batch\<close> up to its write: after a failure the whole window is written instead of the batch.\<close>

definition begin_batch :: "staged list \<Rightarrow> staged list option \<Rightarrow> continuation \<Rightarrow> outbox \<Rightarrow> outbox" where
  "begin_batch payloads rewrite k s =
     (let trigger = (if payloads = [] then None else Some (hd payloads)) in
      case rewrite of
        Some w \<Rightarrow> s\<lparr>writing := Writing (Rewrite w) trigger k\<rparr>
      | None \<Rightarrow>
          if failed s \<noteq> [] then s\<lparr>pending := [], writing := Writing (Rewrite (events s)) trigger k\<rparr>
          else s\<lparr>writing := Writing (Append payloads) trigger k\<rparr>)"

text \<open>The end of a turn of the outer loop.\<close>

definition outer_loop :: "outbox \<Rightarrow> outbox" where
  "outer_loop s = s\<lparr>writing := (if pending s = [] then Idle else Yielding)\<rparr>"

text \<open>The inner loop of \<open>_persist_pending\<close> from a batch and what is pending.\<close>

fun collect :: "staged list \<Rightarrow> (staged \<times> staged list option) list \<Rightarrow> outbox \<Rightarrow> outbox" where
  "collect batch [] s =
     (if batch = [] then outer_loop (s\<lparr>pending := []\<rparr>) else begin_batch batch None Outer (s\<lparr>pending := []\<rparr>))"
| "collect batch ((p, rewrite) # rest) s =
     (if PERSISTENCE_BATCH_LIMIT \<le> length batch
      then begin_batch batch None Outer (s\<lparr>pending := (p, rewrite) # rest\<rparr>)
      else (case rewrite of
              None \<Rightarrow> collect (batch @ [p]) rest s
            | Some w \<Rightarrow>
                if batch \<noteq> [] then begin_batch batch None (ThenRewrite p w) (s\<lparr>pending := rest\<rparr>)
                else begin_batch [p] (Some w) Inner (s\<lparr>pending := rest\<rparr>)))"

definition writer_wakes :: "outbox \<Rightarrow> outbox" where
  "writer_wakes s = (if writing s = Yielding then collect [] (pending s) s else s)"

definition resume :: "continuation \<Rightarrow> outbox \<Rightarrow> outbox" where
  "resume k s =
     (case k of
        Outer \<Rightarrow> outer_loop s
      | Inner \<Rightarrow> collect [] (pending s) s
      | ThenRewrite p w \<Rightarrow> begin_batch [p] (Some w) Inner s)"

text \<open>Failures of events that have left the window are forgotten.\<close>

definition forget_old_failures :: "outbox \<Rightarrow> outbox" where
  "forget_old_failures s = s\<lparr>failed := filter (\<lambda>n. n \<in> set (map seq (events s))) (failed s)\<rparr>"

text \<open>The write succeeds; or it raises, an append after the first \<open>n\<close> events.\<close>

definition write_succeeds :: "outbox \<Rightarrow> outbox" where
  "write_succeeds s =
     (case writing s of
        Writing (Append es) t k \<Rightarrow>
          resume k (forget_old_failures (s\<lparr>disk := disk s @ es,
            failed := filter (\<lambda>n. n \<notin> set (List.map_filter (\<lambda>e. replay_seq_value (seq e)) es)) (failed s)\<rparr>))
      | Writing (Rewrite w) t k \<Rightarrow>
          resume k (forget_old_failures (s\<lparr>disk := w,
            failed := filter (\<lambda>n. n \<notin> set (List.map_filter (\<lambda>e. replay_seq_value (seq e)) w)) (failed s)\<rparr>))
      | _ \<Rightarrow> s)"

definition write_fails :: "nat \<Rightarrow> outbox \<Rightarrow> outbox" where
  "write_fails n s =
     (case writing s of
        Writing (Append es) t k \<Rightarrow>
          resume k (forget_old_failures (s\<lparr>disk := disk s @ take n es,
            failed := failed s @ List.map_filter (\<lambda>e. replay_seq_value (seq e)) es\<rparr>))
      | Writing (Rewrite w) t k \<Rightarrow>
          resume k (forget_old_failures (s\<lparr>
            failed := failed s @ (case t of None \<Rightarrow> [] | Some e \<Rightarrow>
              (case replay_seq_value (seq e) of None \<Rightarrow> [] | Some v \<Rightarrow> [v]))\<rparr>))
      | _ \<Rightarrow> s)"

datatype outbox_error = UnpersistedEvent int | LogDegraded

text \<open>
  \<open>delete_conversation_events\<close> once the writer is done. \<open>degraded\<close>: the log did not read back completely. The
  answer is how many records left the log.
\<close>

definition delete_conversation_events :: "bool \<Rightarrow> ustr \<Rightarrow> outbox \<Rightarrow> (outbox_error + nat) \<times> outbox" where
  "delete_conversation_events degraded conv s =
     (let owner = ustrip conv in
      if owner = [] then (Inr 0, s)
      else (case find (\<lambda>e. conversation e = owner \<and> seq e \<in> set (failed s)) (events s) of
              Some e \<Rightarrow> (Inl (UnpersistedEvent (seq e)), s)
            | None \<Rightarrow>
                if degraded then (Inl LogDegraded, s)
                else (Inr (length (filter (\<lambda>e. conversation e = owner) (disk s))),
                      s\<lparr>disk := filter (\<lambda>e. conversation e \<noteq> owner) (disk s),
                        events := filter (\<lambda>e. conversation e \<noteq> owner) (events s)\<rparr>)))"

section \<open>Replay\<close>

text \<open>The previous persisted number an event names.\<close>

definition previous_value :: "int \<Rightarrow> int option" where
  "previous_value p = (if p = 0 then Some 0 else replay_seq_value p)"

text \<open>
  The loop of \<open>replay_window_after\<close> over the events after the cursor; \<open>before\<close> is the event before the first
  of them, if any, and \<open>None\<close> is a gap.
\<close>

definition link_ok :: "bool \<Rightarrow> staged option \<Rightarrow> int \<Rightarrow> staged \<Rightarrow> bool" where
  "link_ok first before expected e =
     (case prev e of
        Some p \<Rightarrow>
          (case previous_value p of
             None \<Rightarrow> False
           | Some v \<Rightarrow> if first then v \<le> expected else v = expected)
      | None \<Rightarrow>
          if first then
            (case before of
               None \<Rightarrow> False
             | Some b \<Rightarrow> (case replay_seq_value (seq b) of None \<Rightarrow> False | Some v \<Rightarrow> v \<le> expected))
          else True)"

fun materialize :: "int list \<Rightarrow> bool \<Rightarrow> staged option \<Rightarrow> int \<Rightarrow> staged list \<Rightarrow> (staged list \<times> int) option" where
  "materialize bad first before expected [] = Some ([], expected)"
| "materialize bad first before expected (e # es) =
     (case replay_seq_value (seq e) of
        None \<Rightarrow> None
      | Some n \<Rightarrow>
          if n \<le> expected \<or> n \<in> set bad \<or> \<not> link_ok first before expected e then None
          else map_option (\<lambda>(ms, final). (e\<lparr>prev := Some expected\<rparr> # ms, final)) (materialize bad False None n es))"

definition replay_window_after :: "int \<Rightarrow> outbox \<Rightarrow> staged list \<times> bool" where
  "replay_window_after n s =
     (if n \<le> 0 then ([], False)
      else if cursor s < n then ([], True)
      else if n = cursor s then ([], False)
      else
       (let after = (\<lambda>e. case replay_seq_value (seq e) of None \<Rightarrow> False | Some v \<Rightarrow> n < v);
            early = takeWhile (\<lambda>e. \<not> after e) (events s); rest = dropWhile (\<lambda>e. \<not> after e) (events s) in
        if rest = [] then ([], True)
        else (case materialize (failed s) True (if early = [] then None else Some (last early)) n rest of
                None \<Rightarrow> ([], True)
              | Some (ms, final) \<Rightarrow> if final \<noteq> cursor s then ([], True) else (ms, False))))"

end
