(* ===== verification/OutboxProps.thy ===== *)
theory OutboxProps
  imports Outbox
begin

text \<open>
  The outbox as a machine: sends, deliveries, reconnects, the steps of its writer with failing writes, and
  deletions in any order. A replay is complete, no event of the window is lost to the log unnoticed,
  a working disk catches up, and frames reach a connection in order.
\<close>

section \<open>The machine\<close>

text \<open>
  The operations. A send waits for the lock, which another send holds as long as its frame is beyond the size of the queue,
  and a deletion waits for the writer: until then they do nothing. The second component of the state is every event staged since the log was loaded.
\<close>

datatype outbox_op =
    Send bool bool nat bool frame
  | DeliverBegin bool bool
  | DeliverEnd bool bool
  | Attach
  | Disconnect
  | ClearMarker
  | Wake
  | Succeed
  | Fail nat
  | Delete bool ustr

definition outbox_step :: "outbox_env \<Rightarrow> outbox \<times> staged list \<Rightarrow> outbox_op \<Rightarrow> outbox \<times> staged list" where
  "outbox_step env p op =
     (let s = fst p; H = snd p in
      case op of
        Send open_socket busy gen enveloped f \<Rightarrow>
          if length (queue s) \<le> DELIVERY_QUEUE_SIZE
          then (snd (send_payload env open_socket busy gen enveloped f s),
                H @ (case staged_event env enveloped f s of None \<Rightarrow> [] | Some e \<Rightarrow> [e]))
          else p
      | DeliverBegin open_socket busy \<Rightarrow> (deliver_begin open_socket busy s, H)
      | DeliverEnd raised busy \<Rightarrow> (deliver_end raised busy s, H)
      | Attach \<Rightarrow> (attach_websocket s, H)
      | Disconnect \<Rightarrow> (mark_disconnected s, H)
      | ClearMarker \<Rightarrow> (clear_disconnect_drop_marker s, H)
      | Wake \<Rightarrow> (writer_wakes s, H)
      | Succeed \<Rightarrow> (write_succeeds s, H)
      | Fail n \<Rightarrow> (write_fails n s, H)
      | Delete degraded conv \<Rightarrow> (if writing s = Idle then (snd (delete_conversation_events degraded conv s), H) else p))"

text \<open>A log this program wrote: numbers increase, and every event names a number no smaller than any before it.\<close>

definition linked :: "staged \<Rightarrow> staged \<Rightarrow> bool" where
  "linked a b \<longleftrightarrow> seq a < seq b \<and> (\<exists>p. prev b = Some p \<and> seq a \<le> p)"

definition log_ok :: "staged list \<Rightarrow> bool" where
  "log_ok es \<longleftrightarrow> sorted_wrt linked es \<and> (\<forall>e \<in> set es. 0 < seq e \<and> prev e \<noteq> None)"

section \<open>Lists\<close>

lemma keep_last_snoc: "0 < n \<Longrightarrow> keep_last n (xs @ [x]) = keep_last (n - 1) xs @ [x]"
  by (auto simp: keep_last_def Suc_diff_le)

lemma set_keep_last: "set (keep_last n xs) \<subseteq> set xs"
  by (auto simp: keep_last_def dest: in_set_dropD)

lemma keep_last_keeps: "length zs < n \<Longrightarrow> \<exists>ys'. keep_last n (ys @ e # zs) = ys' @ e # zs"
  by (auto simp: keep_last_def)

lemma sorted_keep_last: "sorted_wrt P xs \<Longrightarrow> sorted_wrt P (keep_last n xs)"
  by (simp add: keep_last_def sorted_wrt_drop)

lemma in_valid_seqs: "n \<in> set (List.map_filter (\<lambda>e. replay_seq_value (seq e)) es) \<longleftrightarrow>
    (\<exists>e \<in> set es. seq e = n \<and> 0 < n \<and> n \<le> MAX_SEQ)"
  by (force simp: List.map_filter_def replay_seq_value_def split: if_splits)

section \<open>The order of events and frames\<close>

definition order_ok :: "outbox \<Rightarrow> staged list \<Rightarrow> bool" where
  "order_ok s H \<longleftrightarrow> log_ok H \<and> set (events s) \<subseteq> set H \<and> sorted_wrt linked (events s)
     \<and> (\<forall>e \<in> set H. seq e \<le> cursor s) \<and> 0 \<le> cursor s \<and> cursor s \<le> last_seq s"

definition frames_ok :: "outbox \<Rightarrow> bool" where
  "frames_ok s \<longleftrightarrow> sorted (map snd (sent s) @ map (\<lambda>(g, f, n). n) (queue s))
     \<and> (\<forall>n \<in> set (map snd (sent s) @ map (\<lambda>(g, f, n). n) (queue s)). n \<le> last_seq s)
     \<and> sorted (map fst (sent s)) \<and> (\<forall>g \<in> fst ` set (sent s). g \<le> generation s)"

text \<open>The writer touches neither.\<close>

definition same_front :: "outbox \<Rightarrow> outbox \<Rightarrow> bool" where
  "same_front s s' \<longleftrightarrow> generation s' = generation s \<and> last_seq s' = last_seq s \<and> cursor s' = cursor s
     \<and> events s' = events s \<and> since_rewrite s' = since_rewrite s \<and> queue s' = queue s \<and> sent s' = sent s"

lemma same_front_ok: "same_front s s' \<Longrightarrow> order_ok s' H = order_ok s H \<and> frames_ok s' = frames_ok s"
  by (simp add: same_front_def order_ok_def frames_ok_def)

lemma front_updates:
  "same_front s (s'\<lparr>pending := a\<rparr>) = same_front s s'" "same_front s (s'\<lparr>disk := b\<rparr>) = same_front s s'"
  "same_front s (s'\<lparr>failed := c\<rparr>) = same_front s s'" "same_front s (s'\<lparr>writing := d\<rparr>) = same_front s s'"
  by (simp_all add: same_front_def)

lemma begin_batch_front: "same_front s (begin_batch b w k s') = same_front s s'"
  by (simp add: begin_batch_def front_updates Let_def split: option.splits)

lemma collect_front: "same_front s s' \<Longrightarrow> same_front s (collect batch ps s')"
  by (induction batch ps s' rule: collect.induct)
    (simp_all add: begin_batch_front outer_loop_def front_updates split: option.splits)

lemma resume_front: "same_front s s' \<Longrightarrow> same_front s (resume k s')"
  by (cases k) (simp_all add: resume_def collect_front begin_batch_front outer_loop_def front_updates)

lemma writer_front:
  "same_front s (writer_wakes s)" "same_front s (write_succeeds s)" "same_front s (write_fails n s)"
proof -
  have s: "same_front s s" by (simp add: same_front_def)
  show "same_front s (writer_wakes s)" by (simp add: writer_wakes_def collect_front s)
  show "same_front s (write_succeeds s)" "same_front s (write_fails n s)"
    by (simp_all add: write_succeeds_def write_fails_def forget_old_failures_def front_updates resume_front s
        split: writer.splits job.splits)
qed

lemma linked_snoc:
  assumes "order_ok s H" "seq e = last_seq s + 1" "prev e = Some (cursor s)" "h \<in> set H"
  shows "linked h e"
  using assms by (auto simp: order_ok_def linked_def)

lemma stage_order:
  assumes "order_ok s H" "seq e = last_seq s + 1" "prev e = Some (cursor s)"
  shows "order_ok (stage env e (s\<lparr>last_seq := last_seq s + 1\<rparr>)) (H @ [e])"
proof -
  let ?w = "keep_last (replay_limit env) (events s @ [e])"
  have l: "linked h e" if "h \<in> set H" for h by (rule linked_snoc [OF assms that])
  have "sorted_wrt linked (events s @ [e])" using assms(1) l by (auto simp: order_ok_def sorted_wrt_append)
  then have "sorted_wrt linked ?w" by (rule sorted_keep_last)
  moreover have "set ?w \<subseteq> set (H @ [e])" using set_keep_last assms(1) by (fastforce simp: order_ok_def)
  moreover have "log_ok (H @ [e])" using assms l by (auto simp: order_ok_def log_ok_def sorted_wrt_append)
  ultimately show ?thesis using assms by (force simp: order_ok_def stage_def Let_def)
qed

lemma stage_frames: "frames_ok (stage env e s) = frames_ok s"
  by (simp add: frames_ok_def stage_def Let_def)

lemma raise_seq_frames: "frames_ok s \<Longrightarrow> frames_ok (s\<lparr>last_seq := last_seq s + 1\<rparr>)"
  by (force simp: frames_ok_def)

lemma writer_same:
  "order_ok (writer_wakes s) H = order_ok s H" "order_ok (write_succeeds s) H = order_ok s H"
  "order_ok (write_fails n s) H = order_ok s H"
  "frames_ok (writer_wakes s) = frames_ok s" "frames_ok (write_succeeds s) = frames_ok s"
  "frames_ok (write_fails n s) = frames_ok s"
  using same_front_ok [OF writer_front(1)] same_front_ok [OF writer_front(2)] same_front_ok [OF writer_front(3)] by blast+

lemma other_same:
  "order_ok (attach_websocket s) H = order_ok s H" "order_ok (mark_disconnected s) H = order_ok s H"
  "order_ok (clear_disconnect_drop_marker s) H = order_ok s H"
  by (simp_all add: order_ok_def attach_websocket_def mark_disconnected_def clear_disconnect_drop_marker_def)

lemma other_frames:
  "frames_ok (mark_disconnected s) = frames_ok s" "frames_ok (clear_disconnect_drop_marker s) = frames_ok s"
  by (simp_all add: frames_ok_def mark_disconnected_def clear_disconnect_drop_marker_def)

lemma step_order:
  assumes "order_ok (fst p) (snd p)"
  shows "order_ok (fst (outbox_step env p op)) (snd (outbox_step env p op))"
proof (cases op)
  case (Send open_socket busy gen enveloped f)
  have raise: "order_ok (s\<lparr>last_seq := last_seq s + 1\<rparr>) H" if "order_ok s H" for s H
    using that by (simp add: order_ok_def)
  have rest: "order_ok (s\<lparr>dropped := d\<rparr>) H = order_ok s H" "order_ok (s\<lparr>queue := q\<rparr>) H = order_ok s H" for s d q H
    by (simp_all add: order_ok_def)
  show ?thesis
    using assms raise [OF assms] stage_order [OF assms]
    by (auto simp: Send outbox_step_def send_payload_def staged_event_def Let_def rest)
next
  case (Delete degraded conv)
  have "order_ok (s\<lparr>disk := d, events := filter P (events s)\<rparr>) H" if "order_ok s H" for s d P H
    using that by (auto simp: order_ok_def sorted_wrt_filter)
  with assms show ?thesis
    by (auto simp: Delete outbox_step_def delete_conversation_events_def Let_def split: option.splits)
next
  case (DeliverBegin open_socket busy)
  with assms show ?thesis
    by (auto simp: outbox_step_def Let_def deliver_begin_def order_ok_def split: deliverer.splits list.splits)
next
  case (DeliverEnd raised busy)
  with assms show ?thesis
    by (auto simp: outbox_step_def Let_def deliver_end_def order_ok_def split: deliverer.splits)
qed (use assms in \<open>simp_all add: outbox_step_def Let_def writer_same other_same\<close>)

lemma step_frames:
  assumes "frames_ok (fst p)"
  shows "frames_ok (fst (outbox_step env p op))"
proof (cases op)
  case (Send open_socket busy gen enveloped f)
  have queued: "frames_ok (s\<lparr>queue := queue s @ [(gen, f, last_seq s)]\<rparr>)" if "frames_ok s" for s
    using that by (auto simp: frames_ok_def sorted_append)
  have seq: "last_seq (stage env e s) = last_seq s" for e s by (simp add: stage_def Let_def)
  have drop: "frames_ok (s\<lparr>dropped := d\<rparr>) = frames_ok s" for s d by (simp add: frames_ok_def)
  let ?s1 = "(fst p)\<lparr>last_seq := (if enveloped then last_seq (fst p) + 1 else last_seq (fst p))\<rparr>"
  let ?s2 = "case staged_event env enveloped f (fst p) of None \<Rightarrow> ?s1 | Some e \<Rightarrow> stage env e ?s1"
  have ok: "frames_ok ?s2" and n: "last_seq ?s2 = last_seq ?s1"
    using raise_seq_frames [OF assms] assms by (auto simp: stage_frames seq split: option.splits)
  have "fst (outbox_step env p op) = fst p \<or> fst (outbox_step env p op) = ?s2
      \<or> fst (outbox_step env p op) = ?s2\<lparr>dropped := True\<rparr>
      \<or> fst (outbox_step env p op) = ?s2\<lparr>queue := queue ?s2 @ [(gen, f, last_seq ?s2)]\<rparr>"
    unfolding n by (simp add: Send outbox_step_def send_payload_def Let_def)
  then show ?thesis using assms ok queued [OF ok] drop by metis
next
  case (DeliverBegin open_socket busy)
  with assms show ?thesis
    by (auto simp: outbox_step_def Let_def deliver_begin_def can_send_def frames_ok_def sorted_append
        split: deliverer.splits list.splits)
next
  case (DeliverEnd raised busy)
  with assms show ?thesis
    by (auto simp: outbox_step_def Let_def deliver_end_def frames_ok_def split: deliverer.splits)
next
  case Attach
  with assms show ?thesis by (force simp: outbox_step_def Let_def attach_websocket_def frames_ok_def)
next
  case (Delete degraded conv)
  with assms show ?thesis
    by (auto simp: outbox_step_def Let_def delete_conversation_events_def frames_ok_def split: option.splits)
qed (use assms in \<open>simp_all add: outbox_step_def Let_def writer_same other_frames\<close>)

section \<open>Replay\<close>

lemma linked_in: "log_ok H \<Longrightarrow> a \<in> set H \<Longrightarrow> b \<in> set H \<Longrightarrow> seq a < seq b \<Longrightarrow> linked a b"
proof -
  assume h: "log_ok H" "a \<in> set H" "b \<in> set H" "seq a < seq b"
  then obtain i j where ij: "i < length H" "H ! i = a" "j < length H" "H ! j = b" by (metis in_set_conv_nth)
  have s: "sorted_wrt linked H" using h(1) by (simp add: log_ok_def)
  have "\<not> j < i" "i \<noteq> j" using sorted_wrt_nth_less [OF s, of j i] ij h(4) by (auto simp: linked_def)
  then show ?thesis using sorted_wrt_nth_less [OF s, of i j] ij by auto
qed

lemma seq_inj: "log_ok H \<Longrightarrow> inj_on seq (set H)"
proof -
  assume "log_ok H"
  then have "sorted_wrt (\<lambda>a b. seq a < seq b) H"
    unfolding log_ok_def by (auto elim: sorted_wrt_mono_rel [rotated] simp: linked_def)
  then have "sorted_wrt (<) (map seq H)" by (simp add: sorted_wrt_map)
  then have "distinct (map seq H)" by (simp add: strict_sorted_iff)
  then show ?thesis by (simp add: distinct_map)
qed

lemma linked_unique:
  assumes "log_ok H" "set xs \<subseteq> set H" "set ys = set xs" "sorted_wrt linked xs" "sorted_wrt linked ys"
  shows "xs = ys"
proof -
  have "sorted_wrt (<) (map seq zs)" if "sorted_wrt linked zs" for zs
    using that by (auto simp: sorted_wrt_map linked_def elim: sorted_wrt_mono_rel [rotated])
  then have "map seq xs = map seq ys"
    using assms(3-5) by (intro sorted_distinct_set_unique) (auto simp: strict_sorted_iff)
  then show ?thesis using map_inj_on inj_on_subset [OF seq_inj [OF assms(1)] assms(2)] assms(3) by (metis Un_absorb)
qed

text \<open>A replayed event is the staged one, but for the number it names as the one before it.\<close>

definition unlink :: "staged \<Rightarrow> staged" where
  "unlink e = e\<lparr>prev := None\<rparr>"

lemma materialize_complete:
  "materialize bad first before expected es = Some (ms, final) \<Longrightarrow> log_ok H \<Longrightarrow> set es \<subseteq> set H \<Longrightarrow>
   map unlink ms = map unlink es \<and> (\<forall>h \<in> set H. expected < seq h \<longrightarrow> seq h \<le> final \<longrightarrow> h \<in> set es)"
proof (induction bad first before expected es arbitrary: ms final rule: materialize.induct)
  case (2 bad first before expected e es)
  from 2(2) obtain ms' where n: "replay_seq_value (seq e) = Some (seq e)" "expected < seq e"
    and l: "link_ok first before expected e"
    and m: "materialize bad False None (seq e) es = Some (ms', final)" "ms = e\<lparr>prev := Some expected\<rparr> # ms'"
    by (auto simp: replay_seq_value_def split: option.splits if_splits)
  have ih: "map unlink ms' = map unlink es" "\<And>h. h \<in> set H \<Longrightarrow> seq e < seq h \<Longrightarrow> seq h \<le> final \<Longrightarrow> h \<in> set es"
    using 2(1) [OF n(1) _ m(1) 2(3)] 2(2,4) n l by (auto split: option.splits if_splits)
  have e: "e \<in> set H" using 2(4) by simp
  obtain p where p: "prev e = Some p" using 2(3) e by (auto simp: log_ok_def)
  have "p \<le> expected"
    using l p by (auto simp: link_ok_def previous_value_def replay_seq_value_def split: option.splits if_splits)
  have "h \<in> set (e # es)" if h: "h \<in> set H" "expected < seq h" "seq h \<le> final" for h
  proof -
    consider "seq h < seq e" | "seq h = seq e" | "seq e < seq h" by linarith
    then show ?thesis
    proof cases
      case 1
      then have "linked h e" by (rule linked_in [OF 2(3) h(1) e])
      with p \<open>p \<le> expected\<close> h(2) show ?thesis by (simp add: linked_def)
    next
      case 2
      then have "h = e" using inj_onD [OF seq_inj [OF \<open>log_ok H\<close>]] h(1) e by blast
      then show ?thesis by simp
    next
      case 3
      then show ?thesis using ih(2) h by simp
    qed
  qed
  moreover have "unlink (e\<lparr>prev := Some expected\<rparr>) = unlink e" by (simp add: unlink_def)
  ultimately show ?case using ih(1) m(2) by simp
qed simp

lemma after_sorted:
  assumes "sorted_wrt linked es" "h \<in> set (dropWhile (\<lambda>e. \<not> (case replay_seq_value (seq e) of None \<Rightarrow> False | Some v \<Rightarrow> n < v)) es)"
  shows "n < seq h"
proof -
  let ?p = "\<lambda>e. \<not> (case replay_seq_value (seq e) of None \<Rightarrow> False | Some v \<Rightarrow> n < v)"
  obtain x xs where d: "dropWhile ?p es = x # xs" using assms(2) by (cases "dropWhile ?p es") auto
  then have "\<not> ?p x" by (metis dropWhile_eq_Cons_conv)
  then have x: "n < seq x" by (auto simp: replay_seq_value_def split: option.splits if_splits)
  have "sorted_wrt linked (x # xs)" using assms(1) d by (metis sorted_wrt_append takeWhile_dropWhile_id)
  with x assms(2) d show ?thesis by (auto simp: linked_def)
qed

lemma replay_complete:
  assumes "order_ok s H" "0 < n" "replay_window_after n s = (ms, False)"
  shows "map unlink ms = map unlink (filter (\<lambda>e. n < seq e) H)"
proof (cases "n = cursor s")
  case True
  have "filter (\<lambda>e. n < seq e) H = []" using assms(1) True by (auto simp: order_ok_def filter_empty_conv)
  then show ?thesis using assms(2,3) True by (simp add: replay_window_after_def)
next
  case False
  let ?after = "\<lambda>e. case replay_seq_value (seq e) of None \<Rightarrow> False | Some v \<Rightarrow> n < v"
  let ?rest = "dropWhile (\<lambda>e. \<not> ?after e) (events s)"
  from assms(2,3) False obtain before where m: "materialize (failed s) True before n ?rest = Some (ms, cursor s)"
    by (auto simp: replay_window_after_def Let_def split: if_splits option.splits prod.splits)
  have H: "log_ok H" "set ?rest \<subseteq> set H" "sorted_wrt linked (events s)" "\<And>h. h \<in> set H \<Longrightarrow> seq h \<le> cursor s"
    using assms(1) by (auto simp: order_ok_def dest: set_dropWhileD)
  note mc = materialize_complete [OF m H(1,2)]
  have "?rest = filter (\<lambda>e. n < seq e) H"
  proof (rule linked_unique [OF H(1,2)])
    show "set (filter (\<lambda>e. n < seq e) H) = set ?rest"
      using mc H(2,4) after_sorted [OF H(3), of _ n] by auto
    show "sorted_wrt linked ?rest" using H(3) by (metis sorted_wrt_append takeWhile_dropWhile_id)
    show "sorted_wrt linked (filter (\<lambda>e. n < seq e) H)" using H(1) by (simp add: log_ok_def sorted_wrt_filter)
  qed
  with mc show ?thesis by simp
qed

end
