(* ===== verification/ToolGate.thy ===== *)
theory ToolGate
  imports Prelude
begin

text \<open>
  \<open>ToolExecutionGate\<close> of \<open>backend/agent/tool_execution_gate.py\<close>: the readers-writers lock that
  orders the tool calls of a turn, and the admission of calls against the turn's limit.

  The tasks of the event loop interleave where they wait, so an operation is split there and a run
  is a list of events. A \<open>lease\<close> is one \<open>hold\<close> (its number is the order of its first attempt):
  \<open>Entering\<close> is waiting in \<open>_acquire\<close>, \<open>Inside\<close> is the body (\<open>lease.alive\<close>), \<open>Left\<close> is over. Its
  \<open>suspend\<close> is at most one at a time (the lease's own lock): \<open>Suspended\<close> while the nested call runs,
  \<open>Resuming\<close> while it waits to get the slot back. \<open>le_notified\<close> says that the condition variable
  has woken the waiting task since it last looked; \<open>le_slot\<close> is \<open>lease.acquired\<close>, cleared when the
  slot is given back for good (a finished lease's field is not read again). An event that the code
  cannot take in a state changes nothing. \<open>completed\<close> is the length of \<open>state.tool_calls\<close>, which
  the caller passes to \<open>admit\<close>.
\<close>

section \<open>State\<close>

datatype hold_phase = Entering | Inside | Left
datatype suspension = Unsuspended | Suspended | Resuming

record lease =
  le_read :: bool
  le_phase :: hold_phase
  le_susp :: suspension
  le_slot :: bool
  le_notified :: bool

record gate =
  call_limit :: int
  initial_completed :: int
  inflight :: "ustr list"
  readers :: int
  writer :: bool
  waiting_writers :: int
  leases :: "lease list"
  completed :: int

definition new_gate :: "int \<Rightarrow> int \<Rightarrow> gate" where
  "new_gate n k = \<lparr>call_limit = n, initial_completed = k, inflight = [], readers = 0, writer = False,
     waiting_writers = 0, leases = [], completed = k\<rparr>"

section \<open>Admission\<close>

definition admit :: "ustr \<Rightarrow> gate \<Rightarrow> bool \<times> gate" where
  "admit i g =
     (if i \<in> set (inflight g) then (True, g)
      else if call_limit g \<noteq> 0 \<and> completed g - initial_completed g + int (length (inflight g)) \<ge> call_limit g
      then (False, g)
      else (True, g\<lparr>inflight := inflight g @ [i]\<rparr>))"

text \<open>\<open>store_result\<close> records the call and then calls \<open>complete\<close>.\<close>

definition complete :: "ustr \<Rightarrow> gate \<Rightarrow> gate" where
  "complete i g = g\<lparr>inflight := removeAll i (inflight g)\<rparr>"

definition store_call :: "ustr \<Rightarrow> gate \<Rightarrow> gate" where
  "store_call i g = complete i (g\<lparr>completed := completed g + 1\<rparr>)"

section \<open>The condition variable\<close>

definition awaits :: "lease \<Rightarrow> bool" where
  "awaits l \<longleftrightarrow> le_phase l = Entering \<or> le_susp l = Resuming"

definition may_enter :: "bool \<Rightarrow> gate \<Rightarrow> bool" where
  "may_enter read_only g =
     (if read_only then \<not> writer g \<and> waiting_writers g = 0 else \<not> writer g \<and> readers g = 0)"

definition notify_all :: "gate \<Rightarrow> gate" where
  "notify_all g = g\<lparr>leases := map (\<lambda>l. if awaits l then l\<lparr>le_notified := True\<rparr> else l) (leases g)\<rparr>"

definition set_lease :: "nat \<Rightarrow> (lease \<Rightarrow> lease) \<Rightarrow> gate \<Rightarrow> gate" where
  "set_lease h f g = g\<lparr>leases := (leases g)[h := f (leases g ! h)]\<rparr>"

section \<open>Acquiring and releasing\<close>

text \<open>The slot is taken: \<open>hold\<close> goes on to its body, \<open>suspend\<close> sets \<open>lease.acquired\<close> and ends.\<close>

definition take_slot :: "lease \<Rightarrow> lease" where
  "take_slot l =
     (if le_phase l = Entering then l\<lparr>le_phase := Inside, le_slot := True\<rparr>
      else l\<lparr>le_susp := Unsuspended, le_slot := True\<rparr>)"

text \<open>The test of \<open>wait_for\<close>: the slot is taken, or the task waits for the next wake-up.\<close>

definition look :: "nat \<Rightarrow> gate \<Rightarrow> gate" where
  "look h g =
     (let r = le_read (leases g ! h) in
      if \<not> may_enter r g then set_lease h (\<lambda>l. l\<lparr>le_notified := False\<rparr>) g
      else if r then set_lease h take_slot (g\<lparr>readers := readers g + 1\<rparr>)
      else notify_all (set_lease h take_slot (g\<lparr>writer := True, waiting_writers := waiting_writers g - 1\<rparr>)))"

definition acquire :: "nat \<Rightarrow> gate \<Rightarrow> gate" where
  "acquire h g =
     look h (if le_read (leases g ! h) then g else g\<lparr>waiting_writers := waiting_writers g + 1\<rparr>)"

definition release :: "bool \<Rightarrow> gate \<Rightarrow> gate" where
  "release read_only g =
     notify_all (if read_only then g\<lparr>readers := readers g - 1\<rparr> else g\<lparr>writer := False\<rparr>)"

section \<open>Events\<close>

datatype gate_event =
    Hold bool          \<comment> \<open>\<open>async with gate.hold(read_only=...)\<close>: its first attempt\<close>
  | Retry nat          \<comment> \<open>a woken waiter looks again\<close>
  | CancelWait nat     \<comment> \<open>the task is cancelled while it waits in \<open>_acquire\<close>\<close>
  | Unhold nat         \<comment> \<open>the body of \<open>hold\<close> ends\<close>
  | Suspend nat        \<comment> \<open>\<open>async with gate.suspend()\<close> under the lease\<close>
  | Resume nat         \<comment> \<open>the nested call ends\<close>
  | Abandon nat        \<comment> \<open>the nested call ends and its task is being cancelled\<close>
  | Admit ustr
  | Stored ustr

definition hold :: "bool \<Rightarrow> gate \<Rightarrow> gate" where
  "hold read_only g =
     acquire (length (leases g))
       (g\<lparr>leases := leases g @ [\<lparr>le_read = read_only, le_phase = Entering, le_susp = Unsuspended, le_slot = False,
          le_notified = False\<rparr>]\<rparr>)"

definition retry :: "nat \<Rightarrow> gate \<Rightarrow> gate" where
  "retry h g = (if h < length (leases g) \<and> awaits (leases g ! h) \<and> le_notified (leases g ! h) then look h g else g)"

definition give_up :: "lease \<Rightarrow> lease" where
  "give_up l = (if le_phase l = Entering then l\<lparr>le_phase := Left\<rparr> else l\<lparr>le_susp := Unsuspended\<rparr>)"

definition cancel_wait :: "nat \<Rightarrow> gate \<Rightarrow> gate" where
  "cancel_wait h g =
     (if h < length (leases g) \<and> awaits (leases g ! h) then
        (let g1 = set_lease h give_up g in
         if le_read (leases g ! h) then g1 else notify_all (g1\<lparr>waiting_writers := waiting_writers g1 - 1\<rparr>))
      else g)"

definition unhold :: "nat \<Rightarrow> gate \<Rightarrow> gate" where
  "unhold h g =
     (if h < length (leases g) \<and> le_phase (leases g ! h) = Inside then
        (let l = leases g ! h; g1 = set_lease h (\<lambda>l. l\<lparr>le_phase := Left, le_slot := False\<rparr>) g in
         if le_slot l then release (le_read l) g1 else g1)
      else g)"

definition suspend :: "nat \<Rightarrow> gate \<Rightarrow> gate" where
  "suspend h g =
     (if h < length (leases g) \<and> le_phase (leases g ! h) = Inside \<and> le_susp (leases g ! h) = Unsuspended then
        release (le_read (leases g ! h)) (set_lease h (\<lambda>l. l\<lparr>le_susp := Suspended, le_slot := False\<rparr>) g)
      else g)"

definition resume :: "nat \<Rightarrow> gate \<Rightarrow> gate" where
  "resume h g =
     (if h < length (leases g) \<and> le_susp (leases g ! h) = Suspended then
        (if le_phase (leases g ! h) = Inside
         then acquire h (set_lease h (\<lambda>l. l\<lparr>le_susp := Resuming, le_notified := False\<rparr>) g)
         else set_lease h (\<lambda>l. l\<lparr>le_susp := Unsuspended\<rparr>) g)
      else g)"

definition abandon :: "nat \<Rightarrow> gate \<Rightarrow> gate" where
  "abandon h g =
     (if h < length (leases g) \<and> le_susp (leases g ! h) = Suspended
      then set_lease h (\<lambda>l. l\<lparr>le_susp := Unsuspended\<rparr>) g else g)"

fun gate_step :: "gate \<Rightarrow> gate_event \<Rightarrow> gate" where
  "gate_step g (Hold r) = hold r g"
| "gate_step g (Retry h) = retry h g"
| "gate_step g (CancelWait h) = cancel_wait h g"
| "gate_step g (Unhold h) = unhold h g"
| "gate_step g (Suspend h) = suspend h g"
| "gate_step g (Resume h) = resume h g"
| "gate_step g (Abandon h) = abandon h g"
| "gate_step g (Admit i) = snd (admit i g)"
| "gate_step g (Stored i) = store_call i g"

end
