(* ===== verification/ToolGateProps.thy ===== *)
theory ToolGateProps
  imports ToolGate
begin

text \<open>
  What the gate keeps. \<open>counted\<close> relates the counters to the leases: \<open>readers\<close> and \<open>writer\<close> count
  the slots held, \<open>waiting_writers\<close> the writers that wait, and a writer's slot excludes every
  other. \<open>woken\<close> is the absence of lost wake-ups: a waiter that could enter has been notified.
  Both hold in every run in which a lease suspends only while it has its slot; the code does not
  ensure that, and the last two sections show what follows.
\<close>

section \<open>The invariant\<close>

definition slots :: "bool \<Rightarrow> gate \<Rightarrow> nat set" where
  "slots r g = {h. h < length (leases g) \<and> le_slot (leases g ! h) \<and> le_read (leases g ! h) = r}"

definition writers_waiting :: "gate \<Rightarrow> nat set" where
  "writers_waiting g = {h. h < length (leases g) \<and> awaits (leases g ! h) \<and> \<not> le_read (leases g ! h)}"

definition lease_ok :: "lease \<Rightarrow> bool" where
  "lease_ok l \<longleftrightarrow> (le_slot l \<longrightarrow> le_phase l \<noteq> Entering \<and> le_susp l = Unsuspended)
     \<and> (le_phase l = Entering \<longrightarrow> le_susp l = Unsuspended)"

definition counted :: "gate \<Rightarrow> bool" where
  "counted g \<longleftrightarrow> (\<forall>l \<in> set (leases g). lease_ok l)
     \<and> readers g = int (card (slots True g)) \<and> waiting_writers g = int (card (writers_waiting g))
     \<and> (if writer g then slots True g = {} \<and> (\<exists>h. slots False g = {h}) else slots False g = {})"

definition woken_but :: "nat set \<Rightarrow> gate \<Rightarrow> bool" where
  "woken_but H g \<longleftrightarrow> (\<forall>h. h < length (leases g) \<longrightarrow> h \<notin> H \<longrightarrow> awaits (leases g ! h) \<longrightarrow>
     \<not> le_notified (leases g ! h) \<longrightarrow> \<not> may_enter (le_read (leases g ! h)) g)"

abbreviation woken :: "gate \<Rightarrow> bool" where
  "woken g \<equiv> woken_but {} g"

named_theorems gate_simps \<open>what the steps of the gate leave of its sets and counters\<close>

lemma finite_slots [simp]: "finite (slots r g)" "finite (writers_waiting g)"
  by (simp_all add: slots_def writers_waiting_def)

lemma set_lease_sets [gate_simps]:
  assumes "h < length (leases g)" "le_read (f (leases g ! h)) = le_read (leases g ! h)"
  shows "slots r (set_lease h f g) =
      (if le_slot (f (leases g ! h)) \<and> le_read (leases g ! h) = r then insert h (slots r g) else slots r g - {h})"
    and "writers_waiting (set_lease h f g) =
      (if awaits (f (leases g ! h)) \<and> \<not> le_read (leases g ! h) then insert h (writers_waiting g)
       else writers_waiting g - {h})"
  using assms by (auto simp: slots_def writers_waiting_def set_lease_def nth_list_update split: if_splits)

lemma set_lease_fields [gate_simps]:
  "readers (set_lease h f g) = readers g" "writer (set_lease h f g) = writer g"
  "waiting_writers (set_lease h f g) = waiting_writers g" "length (leases (set_lease h f g)) = length (leases g)"
  "may_enter r (set_lease h f g) = may_enter r g"
  by (simp_all add: set_lease_def may_enter_def)

lemma set_lease_nth: "h < length (leases g) \<Longrightarrow> leases (set_lease h f g) ! h = f (leases g ! h)"
  by (simp add: set_lease_def)

lemma set_lease_lease_ok:
  "\<forall>l \<in> set (leases g). lease_ok l \<Longrightarrow> lease_ok (f (leases g ! h)) \<Longrightarrow> \<forall>l \<in> set (leases (set_lease h f g)). lease_ok l"
  by (auto simp: set_lease_def dest!: set_update_subset_insert [THEN subsetD])

text \<open>A change of the counters alone.\<close>

lemma counter_sets [gate_simps]:
  "slots r (g\<lparr>readers := n\<rparr>) = slots r g" "slots r (g\<lparr>writer := b\<rparr>) = slots r g"
  "slots r (g\<lparr>waiting_writers := m\<rparr>) = slots r g" "slots r (g\<lparr>writer := b, waiting_writers := m\<rparr>) = slots r g"
  "writers_waiting (g\<lparr>readers := n\<rparr>) = writers_waiting g" "writers_waiting (g\<lparr>writer := b\<rparr>) = writers_waiting g"
  "writers_waiting (g\<lparr>waiting_writers := m\<rparr>) = writers_waiting g"
  "writers_waiting (g\<lparr>writer := b, waiting_writers := m\<rparr>) = writers_waiting g"
  by (simp_all add: slots_def writers_waiting_def)

lemma notify_all_lease:
  assumes "h < length (leases g)"
  shows "le_slot (leases (notify_all g) ! h) = le_slot (leases g ! h)"
    "le_read (leases (notify_all g) ! h) = le_read (leases g ! h)"
    "awaits (leases (notify_all g) ! h) = awaits (leases g ! h)"
  using assms by (simp_all add: notify_all_def awaits_def)

lemma notify_all_fields [gate_simps]:
  "readers (notify_all g) = readers g" "writer (notify_all g) = writer g"
  "waiting_writers (notify_all g) = waiting_writers g" "length (leases (notify_all g)) = length (leases g)"
  by (simp_all add: notify_all_def)

lemma notify_all_sets [gate_simps]:
  "slots r (notify_all g) = slots r g" "writers_waiting (notify_all g) = writers_waiting g"
proof -
  show "slots r (notify_all g) = slots r g"
  proof (rule set_eqI)
    fix h show "h \<in> slots r (notify_all g) \<longleftrightarrow> h \<in> slots r g"
      by (cases "h < length (leases g)") (simp_all add: slots_def notify_all_fields notify_all_lease)
  qed
  show "writers_waiting (notify_all g) = writers_waiting g"
  proof (rule set_eqI)
    fix h show "h \<in> writers_waiting (notify_all g) \<longleftrightarrow> h \<in> writers_waiting g"
      by (cases "h < length (leases g)")
        (simp_all only: writers_waiting_def mem_Collect_eq notify_all_fields(4) notify_all_lease simp_thms)
  qed
qed

lemma notify_all_counted [gate_simps]: "counted (notify_all g) = counted g"
proof -
  have flag: "lease_ok (l\<lparr>le_notified := True\<rparr>) = lease_ok l" for l by (simp add: lease_ok_def)
  have "(\<forall>l \<in> set (leases (notify_all g)). lease_ok l) = (\<forall>l \<in> set (leases g). lease_ok l)"
    unfolding notify_all_def by (auto simp: flag ball_Un)
  then show ?thesis
    unfolding counted_def notify_all_sets notify_all_fields by (simp only:)
qed

lemma notify_all_woken [simp]: "woken_but H (notify_all g)"
  by (auto simp: woken_but_def notify_all_def awaits_def split: if_splits)

lemma new_gate_ok: "counted (new_gate n k) \<and> woken (new_gate n k)"
  by (simp add: counted_def woken_but_def new_gate_def slots_def writers_waiting_def)

section \<open>The operations keep it\<close>

lemma lease_okD: "counted g \<Longrightarrow> h < length (leases g) \<Longrightarrow> lease_ok (leases g ! h)"
  by (auto simp: counted_def)

lemma slot_mem: "h \<in> slots r g \<longleftrightarrow> h < length (leases g) \<and> le_slot (leases g ! h) \<and> le_read (leases g ! h) = r"
  by (simp add: slots_def)

lemma waiting_mem: "h \<in> writers_waiting g \<longleftrightarrow> h < length (leases g) \<and> awaits (leases g ! h) \<and> \<not> le_read (leases g ! h)"
  by (simp add: writers_waiting_def)

lemma look_counted:
  assumes g: "counted g" and h: "h < length (leases g)" "awaits (leases g ! h)"
  shows "counted (look h g)"
proof -
  let ?l = "leases g ! h"
  have l: "lease_ok ?l" using g h(1) by (rule lease_okD)
  have no_slot: "\<not> le_slot ?l" using l h(2) by (auto simp: lease_ok_def awaits_def)
  have took: "le_slot (take_slot ?l)" "le_read (take_slot ?l) = le_read ?l" "\<not> awaits (take_slot ?l)"
    "lease_ok (take_slot ?l)"
    using l h(2) by (auto simp: take_slot_def awaits_def lease_ok_def)
  consider (waits) "\<not> may_enter (le_read ?l) g" | (reads) "may_enter True g" "le_read ?l"
    | (writes) "may_enter False g" "\<not> le_read ?l" by (cases "le_read ?l") auto
  then show ?thesis
  proof cases
    case waits
    have "lease_ok (?l\<lparr>le_notified := False\<rparr>)" using l by (simp add: lease_ok_def)
    then show ?thesis
      using g h no_slot waits set_lease_lease_ok [of g "\<lambda>l. l\<lparr>le_notified := False\<rparr>" h]
      by (auto simp: look_def counted_def gate_simps insert_absorb slot_mem waiting_mem awaits_def)
  next
    case reads
    then have "\<not> writer g" "h \<notin> slots True g" using no_slot by (simp_all add: may_enter_def slot_mem)
    moreover have "h \<notin> slots False g" "h \<notin> writers_waiting g" using reads by (simp_all add: slot_mem waiting_mem)
    ultimately show ?thesis
      using g h reads took set_lease_lease_ok [of "g\<lparr>readers := readers g + 1\<rparr>" take_slot h]
      by (simp add: look_def counted_def gate_simps)
  next
    case writes
    then have e: "\<not> writer g" "readers g = 0" "h \<notin> slots False g" using no_slot by (simp_all add: may_enter_def slot_mem)
    have q: "h \<in> writers_waiting g" using h writes by (simp add: waiting_mem)
    have "slots True g = {}" "slots False g = {}" using g e by (simp_all add: counted_def)
    moreover have "int (card (writers_waiting g - {h})) = int (card (writers_waiting g)) - 1"
      using q card_gt_0_iff [of "writers_waiting g"] by (auto simp: card_Diff_singleton of_nat_diff Suc_leI)
    ultimately have "counted (set_lease h take_slot (g\<lparr>writer := True, waiting_writers := waiting_writers g - 1\<rparr>))"
      using g h writes took
        set_lease_lease_ok [of "g\<lparr>writer := True, waiting_writers := waiting_writers g - 1\<rparr>" take_slot h]
      by (simp add: counted_def gate_simps)
    then show ?thesis using writes by (simp add: look_def notify_all_counted)
  qed
qed

lemma look_woken:
  assumes w: "woken_but {h} g" and h: "h < length (leases g)" "awaits (leases g ! h)"
    and l: "lease_ok (leases g ! h)" and r: "readers g \<ge> 0"
  shows "woken (look h g)"
proof -
  let ?l = "leases g ! h"
  have took: "\<not> awaits (take_slot ?l)" using l h(2) by (auto simp: take_slot_def awaits_def lease_ok_def)
  consider (waits) "\<not> may_enter (le_read ?l) g" | (reads) "may_enter True g" "le_read ?l"
    | (writes) "may_enter False g" "\<not> le_read ?l" by (cases "le_read ?l") auto
  then show ?thesis
  proof cases
    case waits
    then have "look h g = set_lease h (\<lambda>l. l\<lparr>le_notified := False\<rparr>) g" by (simp add: look_def)
    then show ?thesis
      using w waits h by (auto simp: woken_but_def gate_simps set_lease_def nth_list_update awaits_def may_enter_def)
  next
    case reads
    then have eq: "look h g = set_lease h take_slot (g\<lparr>readers := readers g + 1\<rparr>)" by (simp add: look_def)
    have other: "\<not> may_enter (le_read (leases g ! j)) (g\<lparr>readers := readers g + 1\<rparr>)"
      if "j < length (leases g)" "j \<noteq> h" "awaits (leases g ! j)" "\<not> le_notified (leases g ! j)" for j
    proof -
      have "\<not> may_enter (le_read (leases g ! j)) g" using w that by (simp add: woken_but_def)
      with reads r show ?thesis by (auto simp: may_enter_def split: if_splits)
    qed
    show ?thesis unfolding woken_but_def
    proof (intro allI impI)
      fix j assume j: "j < length (leases (look h g))" "awaits (leases (look h g) ! j)"
        "\<not> le_notified (leases (look h g) ! j)"
      then have "j \<noteq> h" using took h(1) by (auto simp: eq set_lease_def)
      with j other [of j] show "\<not> may_enter (le_read (leases (look h g) ! j)) (look h g)"
        by (auto simp: eq set_lease_def may_enter_def split: if_splits)
    qed
  qed (simp add: look_def)
qed

lemma look_ok:
  "counted g \<Longrightarrow> woken_but {h} g \<Longrightarrow> h < length (leases g) \<Longrightarrow> awaits (leases g ! h) \<Longrightarrow> counted (look h g) \<and> woken (look h g)"
  using look_counted [of g h] look_woken [of h g] lease_okD [of g h] by (auto simp: counted_def)

text \<open>Both clauses together, and the suspension the code should not meet: of a lease without its slot.\<close>

definition gate_ok :: "gate \<Rightarrow> bool" where
  "gate_ok g \<longleftrightarrow> counted g \<and> woken g"

definition proper :: "gate \<Rightarrow> gate_event \<Rightarrow> bool" where
  "proper g e = (case e of
     Suspend h \<Rightarrow> h < length (leases g) \<longrightarrow> le_phase (leases g ! h) = Inside \<longrightarrow>
        le_susp (leases g ! h) = Unsuspended \<longrightarrow> le_slot (leases g ! h)
   | _ \<Rightarrow> True)"

lemma acquire_ok:
  assumes "counted (if le_read (leases g ! h) then g else g\<lparr>waiting_writers := waiting_writers g + 1\<rparr>)"
    and "woken_but {h} g" "h < length (leases g)" "awaits (leases g ! h)"
  shows "gate_ok (acquire h g)"
proof (cases "le_read (leases g ! h)")
  case True
  with assms look_ok [of g h] show ?thesis by (simp add: acquire_def gate_ok_def)
next
  case False
  let ?g = "g\<lparr>waiting_writers := waiting_writers g + 1\<rparr>"
  have "waiting_writers g + 1 = int (card (writers_waiting g))"
    using assms(1) False by (simp add: counted_def gate_simps)
  moreover have "h \<in> writers_waiting g" using assms(3,4) False by (simp add: waiting_mem)
  then have "0 < card (writers_waiting g)" by (auto simp: card_gt_0_iff)
  ultimately have "0 \<le> waiting_writers g" by linarith
  then have "woken_but {h} ?g" using assms(2) by (auto simp: woken_but_def may_enter_def split: if_splits)
  with assms False look_ok [of ?g h] show ?thesis by (simp add: acquire_def gate_ok_def)
qed

lemma hold_ok:
  assumes g: "gate_ok g"
  shows "gate_ok (hold r g)"
proof -
  let ?h = "length (leases g)"
  let ?l = "\<lparr>le_read = r, le_phase = Entering, le_susp = Unsuspended, le_slot = False, le_notified = False\<rparr>"
  let ?g = "g\<lparr>leases := leases g @ [?l]\<rparr>"
  have "slots q ?g = slots q g" for q by (auto simp: slots_def nth_append)
  moreover have "writers_waiting ?g = (if r then writers_waiting g else insert ?h (writers_waiting g))"
    by (auto simp: writers_waiting_def nth_append awaits_def)
  moreover have "?h \<notin> writers_waiting g" by (simp add: writers_waiting_def)
  ultimately have "counted (if r then ?g else ?g\<lparr>waiting_writers := waiting_writers ?g + 1\<rparr>)"
    using g by (auto simp: gate_ok_def counted_def gate_simps lease_ok_def)
  moreover have "woken_but {?h} ?g"
    using g by (auto simp: gate_ok_def woken_but_def nth_append may_enter_def less_Suc_eq)
  moreover have "awaits (leases ?g ! ?h)" by (simp add: awaits_def)
  ultimately have "gate_ok (acquire ?h ?g)" by (intro acquire_ok) simp_all
  then show ?thesis by (simp add: hold_def)
qed

lemma retry_ok: "gate_ok g \<Longrightarrow> gate_ok (retry h g)"
  using look_ok [of g h] by (auto simp: retry_def gate_ok_def woken_but_def)

lemma woken_set_lease:
  assumes "woken_but H g" "h < length (leases g)" "le_read (f (leases g ! h)) = le_read (leases g ! h)"
    and "awaits (f (leases g ! h)) \<Longrightarrow> awaits (leases g ! h) \<and> le_notified (f (leases g ! h)) = le_notified (leases g ! h)"
  shows "woken_but H (set_lease h f g)"
  using assms by (auto simp: woken_but_def gate_simps set_lease_def nth_list_update may_enter_def)

lemma cancel_wait_ok:
  assumes g: "gate_ok g"
  shows "gate_ok (cancel_wait h g)"
proof (cases "h < length (leases g) \<and> awaits (leases g ! h)")
  case True
  let ?l = "leases g ! h"
  have l: "lease_ok ?l" using g True lease_okD by (simp add: gate_ok_def)
  have f: "le_slot (give_up ?l) = le_slot ?l" "le_read (give_up ?l) = le_read ?l" "\<not> awaits (give_up ?l)"
    "lease_ok (give_up ?l)" "\<not> le_slot ?l"
    using l True by (auto simp: give_up_def awaits_def lease_ok_def)
  have sets: "slots r (set_lease h give_up g) = slots r g"
    "writers_waiting (set_lease h give_up g) = writers_waiting g - {h}" for r
    using True f by (simp_all add: gate_simps slot_mem)
  have ok: "\<forall>l \<in> set (leases (set_lease h give_up g)). lease_ok l"
    using g f(4) by (intro set_lease_lease_ok) (simp_all add: gate_ok_def counted_def)
  show ?thesis
  proof (cases "le_read ?l")
    case True': True
    then have "counted (set_lease h give_up g)"
      using g ok by (simp add: gate_ok_def counted_def sets set_lease_fields waiting_mem)
    moreover have "woken (set_lease h give_up g)"
      using g True f by (intro woken_set_lease) (simp_all add: gate_ok_def)
    ultimately show ?thesis using True True' by (simp add: cancel_wait_def gate_ok_def Let_def)
  next
    case False
    then have "h \<in> writers_waiting g" using True by (simp add: waiting_mem)
    then have "int (card (writers_waiting g - {h})) = int (card (writers_waiting g)) - 1"
      using card_gt_0_iff [of "writers_waiting g"] by (auto simp: card_Diff_singleton of_nat_diff Suc_leI)
    then have "counted ((set_lease h give_up g)\<lparr>waiting_writers := waiting_writers g - 1\<rparr>)"
      using g ok by (simp add: gate_ok_def counted_def sets set_lease_fields counter_sets)
    then show ?thesis using True False by (simp add: cancel_wait_def gate_ok_def Let_def gate_simps)
  qed
qed (use g in \<open>auto simp: cancel_wait_def\<close>)

text \<open>Giving a slot back: the lease loses it, then \<open>release\<close> counts it off and wakes every waiter.\<close>

lemma give_back_ok:
  assumes g: "counted g" and h: "h < length (leases g)" "le_slot (leases g ! h)"
    and f: "le_read (f (leases g ! h)) = le_read (leases g ! h)" "\<not> le_slot (f (leases g ! h))"
      "\<not> awaits (f (leases g ! h))" "lease_ok (f (leases g ! h))"
  shows "gate_ok (release (le_read (leases g ! h)) (set_lease h f g))"
proof -
  let ?l = "leases g ! h" and ?g = "set_lease h f g"
  have l: "lease_ok ?l" using g h(1) by (rule lease_okD)
  then have "h \<notin> writers_waiting g" using h by (auto simp: waiting_mem awaits_def lease_ok_def)
  then have sets: "slots r ?g = slots r g - {h}" "writers_waiting ?g = writers_waiting g" for r
    using h f by (simp_all add: set_lease_sets)
  have ok: "\<forall>l \<in> set (leases ?g). lease_ok l"
    using g f(4) by (intro set_lease_lease_ok) (simp_all add: counted_def)
  have "counted (if le_read ?l then ?g\<lparr>readers := readers ?g - 1\<rparr> else ?g\<lparr>writer := False\<rparr>)"
  proof (cases "le_read ?l")
    case True
    then have m: "h \<in> slots True g" "h \<notin> slots False g" using h by (simp_all add: slot_mem)
    then have "\<not> writer g" using g by (auto simp: counted_def split: if_splits)
    moreover have "int (card (slots True g - {h})) = int (card (slots True g)) - 1"
      using m card_gt_0_iff [of "slots True g"] by (auto simp: card_Diff_singleton of_nat_diff Suc_leI)
    ultimately show ?thesis using g ok m True by (simp add: counted_def sets set_lease_fields counter_sets)
  next
    case False
    then have m: "h \<in> slots False g" "h \<notin> slots True g" using h by (simp_all add: slot_mem)
    then have "slots False g = {h}" "slots True g = {}" using g by (auto simp: counted_def split: if_splits)
    then show ?thesis using g ok False by (simp add: counted_def sets set_lease_fields counter_sets)
  qed
  then show ?thesis by (simp add: release_def gate_ok_def notify_all_counted)
qed

lemma unhold_ok:
  assumes g: "gate_ok g"
  shows "gate_ok (unhold h g)"
proof (cases "h < length (leases g) \<and> le_phase (leases g ! h) = Inside")
  case True
  let ?l = "leases g ! h" and ?f = "\<lambda>l. l\<lparr>le_phase := Left, le_slot := False\<rparr>"
  have l: "lease_ok ?l" using g True lease_okD by (simp add: gate_ok_def)
  show ?thesis
  proof (cases "le_slot ?l")
    case True': True
    have "gate_ok (release (le_read ?l) (set_lease h ?f g))"
      using g l True True' by (intro give_back_ok) (auto simp: gate_ok_def lease_ok_def awaits_def)
    then show ?thesis using True True' by (simp add: unhold_def Let_def)
  next
    case False
    have a: "awaits (?f ?l) = awaits ?l" using True by (simp add: awaits_def)
    have "lease_ok (?f ?l)" using l by (simp add: lease_ok_def)
    then have "\<forall>l \<in> set (leases (set_lease h ?f g)). lease_ok l"
      using g by (intro set_lease_lease_ok) (simp_all add: gate_ok_def counted_def)
    moreover have "slots r (set_lease h ?f g) = slots r g" for r
      using True False by (simp add: set_lease_sets slot_mem)
    moreover have "writers_waiting (set_lease h ?f g) = writers_waiting g"
      using True a by (auto simp: set_lease_sets waiting_mem)
    ultimately have "counted (set_lease h ?f g)" using g by (simp add: gate_ok_def counted_def set_lease_fields)
    moreover have "woken (set_lease h ?f g)"
      using g True a by (intro woken_set_lease) (simp_all add: gate_ok_def)
    ultimately show ?thesis using True False by (simp add: unhold_def Let_def gate_ok_def)
  qed
qed (use g in \<open>auto simp: unhold_def\<close>)

lemma suspend_ok:
  assumes g: "gate_ok g" and p: "proper g (Suspend h)"
  shows "gate_ok (suspend h g)"
proof (cases "h < length (leases g) \<and> le_phase (leases g ! h) = Inside \<and> le_susp (leases g ! h) = Unsuspended")
  case True
  then have "le_slot (leases g ! h)" using p by (simp add: proper_def)
  then have "gate_ok (release (le_read (leases g ! h)) (set_lease h (\<lambda>l. l\<lparr>le_susp := Suspended, le_slot := False\<rparr>) g))"
    using g True by (intro give_back_ok) (auto simp: gate_ok_def lease_ok_def awaits_def)
  then show ?thesis using True by (simp add: suspend_def)
qed (use g in \<open>auto simp: suspend_def\<close>)

text \<open>A lease leaves or enters \<open>Suspended\<close> without a slot.\<close>

lemma unsuspend_ok:
  assumes g: "gate_ok g" and h: "h < length (leases g)" "le_susp (leases g ! h) = Suspended"
  shows "gate_ok (set_lease h (\<lambda>l. l\<lparr>le_susp := Unsuspended\<rparr>) g)"
proof -
  let ?l = "leases g ! h" and ?f = "\<lambda>l. l\<lparr>le_susp := Unsuspended\<rparr>"
  have l: "lease_ok ?l" using g h lease_okD by (simp add: gate_ok_def)
  then have n: "\<not> le_slot ?l" "\<not> awaits ?l" "\<not> awaits (?f ?l)" "lease_ok (?f ?l)"
    using h by (auto simp: lease_ok_def awaits_def)
  have "\<forall>l \<in> set (leases (set_lease h ?f g)). lease_ok l"
    using g n by (intro set_lease_lease_ok) (simp_all add: gate_ok_def counted_def)
  moreover have "slots r (set_lease h ?f g) = slots r g" "writers_waiting (set_lease h ?f g) = writers_waiting g" for r
    using h n by (simp_all add: set_lease_sets slot_mem waiting_mem)
  ultimately have "counted (set_lease h ?f g)" using g by (simp add: gate_ok_def counted_def set_lease_fields)
  moreover have "woken (set_lease h ?f g)" using g h n by (intro woken_set_lease) (simp_all add: gate_ok_def)
  ultimately show ?thesis by (simp add: gate_ok_def)
qed

lemma resume_gate_ok:
  assumes g: "gate_ok g"
  shows "gate_ok (resume h g)"
proof (cases "h < length (leases g) \<and> le_susp (leases g ! h) = Suspended")
  case s: True
  let ?l = "leases g ! h" and ?f = "\<lambda>l. l\<lparr>le_susp := Resuming, le_notified := False\<rparr>"
  show ?thesis
  proof (cases "le_phase ?l = Inside")
    case True
    have l: "lease_ok ?l" using g s lease_okD by (simp add: gate_ok_def)
    then have n: "\<not> le_slot ?l" "\<not> awaits ?l" "awaits (?f ?l)" "lease_ok (?f ?l)"
      using s True by (auto simp: lease_ok_def awaits_def)
    let ?g = "set_lease h ?f g"
    have "\<forall>l \<in> set (leases ?g). lease_ok l"
      using g n by (intro set_lease_lease_ok) (simp_all add: gate_ok_def counted_def)
    moreover have "slots r ?g = slots r g" for r using s n by (simp add: set_lease_sets slot_mem)
    moreover have "writers_waiting ?g = (if le_read ?l then writers_waiting g else insert h (writers_waiting g))"
      using s n by (simp add: set_lease_sets waiting_mem)
    moreover have "h \<notin> writers_waiting g" using n by (simp add: waiting_mem)
    ultimately have "counted (if le_read ?l then ?g else ?g\<lparr>waiting_writers := waiting_writers ?g + 1\<rparr>)"
      using g by (auto simp: gate_ok_def counted_def set_lease_fields counter_sets)
    moreover have "woken_but {h} ?g"
      using g by (auto simp: gate_ok_def woken_but_def set_lease_def nth_list_update may_enter_def)
    ultimately have "gate_ok (acquire h ?g)"
      using s n by (intro acquire_ok) (simp_all add: set_lease_fields set_lease_nth)
    then show ?thesis using s True by (simp add: resume_def)
  next
    case False
    then show ?thesis using s unsuspend_ok [OF g] by (simp add: resume_def)
  qed
qed (use g in \<open>auto simp: resume_def\<close>)

lemma abandon_ok: "gate_ok g \<Longrightarrow> gate_ok (abandon h g)"
  using unsuspend_ok [of g h] by (simp add: abandon_def)

lemma call_sets:
  "slots r (g\<lparr>inflight := xs\<rparr>) = slots r g" "slots r (g\<lparr>completed := n\<rparr>) = slots r g"
  "writers_waiting (g\<lparr>inflight := xs\<rparr>) = writers_waiting g" "writers_waiting (g\<lparr>completed := n\<rparr>) = writers_waiting g"
  "may_enter r (g\<lparr>inflight := xs\<rparr>) = may_enter r g" "may_enter r (g\<lparr>completed := n\<rparr>) = may_enter r g"
  by (simp_all add: slots_def writers_waiting_def may_enter_def)

lemma gate_ok_calls: "gate_ok g \<Longrightarrow> gate_ok (g\<lparr>inflight := xs\<rparr>)" "gate_ok g \<Longrightarrow> gate_ok (g\<lparr>completed := n\<rparr>)"
  by (simp_all add: gate_ok_def counted_def call_sets woken_but_def)

lemma gate_step_ok: "gate_ok g \<Longrightarrow> proper g e \<Longrightarrow> gate_ok (gate_step g e)"
  by (cases e)
    (simp_all add: hold_ok retry_ok cancel_wait_ok unhold_ok suspend_ok resume_gate_ok abandon_ok admit_def store_call_def
      complete_def gate_ok_calls)

section \<open>Runs\<close>

definition gate_after :: "int \<Rightarrow> int \<Rightarrow> gate_event list \<Rightarrow> gate" where
  "gate_after n k es = foldl gate_step (new_gate n k) es"

fun proper_run :: "gate \<Rightarrow> gate_event list \<Rightarrow> bool" where
  "proper_run g [] \<longleftrightarrow> True"
| "proper_run g (e # es) \<longleftrightarrow> proper g e \<and> proper_run (gate_step g e) es"

definition proper_step :: "gate \<Rightarrow> gate_event \<Rightarrow> gate" where
  "proper_step g e = (if proper g e then gate_step g e else g)"

interpretation tool_gate: invariant_machine proper_step gate_ok
  by unfold_locales (simp add: proper_step_def gate_step_ok)

lemma proper_run_steps: "proper_run g es \<Longrightarrow> foldl gate_step g es = foldl proper_step g es"
  by (induction es arbitrary: g) (simp_all add: proper_step_def)

lemma gate_after_ok: "proper_run (new_gate n k) es \<Longrightarrow> gate_ok (gate_after n k es)"
  using tool_gate.run_inv [of "new_gate n k" es] new_gate_ok
  by (simp add: gate_after_def proper_run_steps gate_ok_def)

lemma one_writer:
  assumes "gate_ok g" "h \<in> slots False g"
  shows "slots False g = {h} \<and> slots True g = {} \<and> writer g"
  using assms by (auto simp: gate_ok_def counted_def split: if_splits)

text \<open>
  Claim C15. A tool that may write runs alone: while a lease holds the gate for writing, no other lease holds it.
\<close>

theorem writer_runs_alone:
  assumes "proper_run (new_gate n k) es"
    and "h < length (leases (gate_after n k es))" "le_slot (leases (gate_after n k es) ! h)"
      "\<not> le_read (leases (gate_after n k es) ! h)"
    and "j < length (leases (gate_after n k es))" "j \<noteq> h"
  shows "\<not> le_slot (leases (gate_after n k es) ! j)"
proof -
  let ?g = "gate_after n k es"
  have "h \<in> slots False ?g" using assms by (simp add: slot_mem)
  from one_writer [OF gate_after_ok [OF assms(1)] this] have "j \<notin> slots r ?g" for r
    using assms(6) by (cases r) auto
  then show ?thesis using assms(5) by (auto simp: slot_mem)
qed


section \<open>Admission\<close>

text \<open>The calls the gate admits along a run.\<close>

fun admissions :: "gate \<Rightarrow> gate_event list \<Rightarrow> nat" where
  "admissions g [] = 0"
| "admissions g (e # es) =
     (case e of Admit i \<Rightarrow> (if i \<notin> set (inflight g) \<and> fst (admit i g) then 1 else 0) | _ \<Rightarrow> 0)
     + admissions (gate_step g e) es"

definition used :: "gate \<Rightarrow> int" where
  "used g = completed g - initial_completed g + int (length (inflight g))"

definition same_calls :: "gate \<Rightarrow> gate \<Rightarrow> bool" where
  "same_calls g g' \<longleftrightarrow> inflight g' = inflight g \<and> completed g' = completed g"

lemma lock_keeps_calls:
  "(\<forall>i. e \<noteq> Admit i \<and> e \<noteq> Stored i) \<Longrightarrow> same_calls g (gate_step g e)"
  "initial_completed (gate_step g e) = initial_completed g" "call_limit (gate_step g e) = call_limit g"
  by (cases e; auto simp: same_calls_def hold_def retry_def cancel_wait_def unhold_def suspend_def resume_def abandon_def
      acquire_def look_def release_def notify_all_def set_lease_def admit_def store_call_def complete_def Let_def)+

lemma removeAll_once: "distinct xs \<Longrightarrow> length xs \<le> Suc (length (removeAll x xs))"
  by (simp add: distinct_remove1_removeAll [symmetric] length_remove1 Suc_leI) linarith

lemma gate_step_calls:
  assumes "distinct (inflight g)"
  shows "distinct (inflight (gate_step g e)) \<and> used g + int (admissions g [e]) \<le> used (gate_step g e)"
proof (cases "\<forall>i. e \<noteq> Admit i \<and> e \<noteq> Stored i")
  case True
  then have "admissions g [e] = 0" by (cases e) auto
  with True lock_keeps_calls(1) [of e g] lock_keeps_calls(2) [of g e] assms show ?thesis by (simp add: same_calls_def used_def)
next
  case False
  then obtain i where "e = Admit i \<or> e = Stored i" by blast
  then show ?thesis
    using assms removeAll_once [OF assms, of i]
    by (auto simp: admit_def store_call_def complete_def used_def distinct_removeAll)
qed

lemma admissions_bounded:
  "distinct (inflight g) \<Longrightarrow> call_limit g \<noteq> 0 \<Longrightarrow> 0 \<le> used g \<Longrightarrow>
   int (admissions g es) \<le> max 0 (call_limit g - used g)"
proof (induction es arbitrary: g)
  case (Cons e es)
  let ?g = "gate_step g e"
  have step: "distinct (inflight ?g)" "used g + int (admissions g [e]) \<le> used ?g"
    using gate_step_calls [OF Cons.prems(1)] by simp_all
  have "int (admissions ?g es) \<le> max 0 (call_limit g - used ?g)"
    using Cons.IH [of ?g] step Cons.prems lock_keeps_calls by force
  moreover have "admissions g [e] = 1 \<and> used g < call_limit g \<or> admissions g [e] = 0"
    using Cons.prems by (cases e) (auto simp: admit_def used_def)
  ultimately show ?case using step(2) by auto
qed simp

text \<open>
  Claim C38. The turn's limit on tool calls holds however calls are admitted, run and stored, rejected ones included:
  the gate admits at most so many.
\<close>

theorem admissions_within_limit:
  assumes "0 < n"
  shows "int (admissions (new_gate n k) es) \<le> n"
  using admissions_bounded [of "new_gate n k" es] assms by (simp add: new_gate_def used_def)

theorem admissions_within_limit_witness:
  "admissions (new_gate 2 7) [Admit (u ''a''), Admit (u ''a''), Admit (u ''b''), Stored (u ''a''), Admit (u ''c'')] \<le> 2"
  using admissions_within_limit [of 2 7 "[Admit (u ''a''), Admit (u ''a''), Admit (u ''b''), Stored (u ''a''), Admit (u ''c'')]"]
  by simp

section \<open>Suspensions that lose the slot\<close>

text \<open>
  A suspension whose task is being cancelled does not take the slot back, and its lease lives on when
  the body handles the cancellation (a timeout around the nested call). The next suspension then
  gives back a slot the lease does not hold, and two tools write at once.
\<close>

theorem second_suspension_frees_anothers_slot:
  "let g = gate_after 0 0 [Hold False, Suspend 0, Abandon 0, Hold False, Suspend 0, Hold False] in
     map le_slot (leases g) = [False, True, True] \<and> map le_read (leases g) = [False, False, False]"
  by code_simp

lemma dead_slot_stays:
  assumes "0 < length (leases g)" "le_phase (leases g ! 0) = Left" "le_susp (leases g ! 0) = Unsuspended"
  shows "0 < length (leases (gate_step g e)) \<and> leases (gate_step g e) ! 0 = leases g ! 0"
  using assms
  by (cases e) (auto simp: hold_def retry_def cancel_wait_def unhold_def suspend_def resume_def abandon_def acquire_def look_def
      release_def notify_all_def set_lease_def admit_def store_call_def complete_def Let_def awaits_def nth_append
      nth_list_update)

text \<open>
  A suspension that waits for the slot when its \<open>hold\<close> ends takes the slot afterwards all the same:
  nobody gives it back, and no call enters the gate any more.
\<close>

definition late_resume :: "gate_event list" where
  "late_resume = [Hold False, Suspend 0, Hold False, Resume 0, Unhold 0, Unhold 1, Retry 0]"

theorem late_resume_locks_the_gate:
  "{h. h < length (leases (foldl proper_step (gate_after 0 0 late_resume) es)) \<and>
       le_slot (leases (foldl proper_step (gate_after 0 0 late_resume) es) ! h)} = {0}"
proof -
  let ?g = "gate_after 0 0 late_resume"
  have start: "0 < length (leases ?g)" "le_phase (leases ?g ! 0) = Left" "le_susp (leases ?g ! 0) = Unsuspended"
    "le_slot (leases ?g ! 0)" "\<not> le_read (leases ?g ! 0)"
    by code_simp+
  have "proper_run (new_gate 0 0) late_resume" by code_simp
  then have ok: "gate_ok ?g" by (rule gate_after_ok)
  let ?s = "foldl proper_step ?g es"
  have "0 < length (leases ?s) \<and> leases ?s ! 0 = leases ?g ! 0"
    using start(1-3)
  proof (induction es rule: rev_induct)
    case (snoc e es)
    let ?t = "foldl proper_step ?g es"
    have "foldl proper_step ?g (es @ [e]) = (if proper ?t e then gate_step ?t e else ?t)"
      by (simp add: proper_step_def [of ?t])
    then show ?case using snoc dead_slot_stays [of ?t e] by (cases "proper ?t e") simp_all
  qed simp
  then have "0 \<in> slots False ?s" using start by (simp add: slot_mem)
  from one_writer [OF tool_gate.run_inv [OF ok] this] have "slots r ?s \<subseteq> {0}" for r by (cases r) auto
  moreover have "{h. h < length (leases ?s) \<and> le_slot (leases ?s ! h)} = slots True ?s \<union> slots False ?s"
    by (auto simp: slots_def)
  ultimately show ?thesis using \<open>0 \<in> slots False ?s\<close> by blast
qed

section \<open>Witnesses\<close>

theorem writer_runs_alone_witness:
  "le_slot (leases (gate_after 0 0 [Hold False, Hold True]) ! 0) \<and> \<not> le_slot (leases (gate_after 0 0 [Hold False, Hold True]) ! 1)"
proof -
  have h: "proper_run (new_gate 0 0) [Hold False, Hold True]" "length (leases (gate_after 0 0 [Hold False, Hold True])) = 2"
    "le_slot (leases (gate_after 0 0 [Hold False, Hold True]) ! 0)"
    "\<not> le_read (leases (gate_after 0 0 [Hold False, Hold True]) ! 0)"
    by code_simp+
  with writer_runs_alone [of 0 0 "[Hold False, Hold True]" 0 1] show ?thesis by simp
qed


end
