(* ===== verification/ToolCalls.thy ===== *)
theory ToolCalls
  imports Checker Patch "HOL-Library.List_Lexorder" "HOL-Library.Product_Lexorder"
begin

text \<open>
  Tool calls on their way to execution: \<open>ToolCallEvent\<close> of \<open>backend/llm/base.py\<close>,
  \<open>agent/final_tool_request.py\<close>, and of \<open>agent/tool_execution.py\<close> the preparation of a batch, the
  guards, \<open>_authorize_final_tool_request\<close> and \<open>_execution_arguments_for_tool\<close>.

  Arguments are JSON values, on which freezing and thawing is the identity and cannot fail.
  SHA-256 of the compact JSON text with sorted keys is the argument \<open>be_sha\<close> on the value with its
  keys sorted. A guard's text is left out: its refusal is a constructor. What a tool declares or
  computes for given arguments, the capability policy, path resolution and the checker's answer
  come from the record \<open>batch_env\<close>; each is asked at most once per call and arguments, so a function
  of them covers every course of events. The answer of the checker is \<open>Decided\<close> with the decision
  of the permission checker (theory Checker), or one of the failures the code catches.
\<close>

section \<open>State\<close>

type_synonym fields = "(ustr \<times> json) list"

record request =
  rq_name :: ustr
  rq_args :: fields
  rq_digest :: ustr

record tool_call =
  tc_id :: ustr
  tc_name :: ustr
  tc_args :: json
  arguments_repaired :: bool
  prepare_error :: ustr
  duplicate_id :: bool
  hook_decision :: ustr
  bound :: "request option"

datatype refusal =
    BudgetExhausted | NoName | NotAnObject | Repaired | NotPrepared | DuplicateId | UnknownTool
  | MissingArguments | Unavailable | HookRefused | OutOfScope | InvalidInput
  | CheckerRaised | CheckerMutated | PolicyDenied | PlanRefused | PermissionHookRefused | PermissionHookFailed
  | UpdateRefused | UpdateDenied | ApprovalStale | Rejected | ApprovalInvalid | NeedsNewApproval | PartlyRejected
  | NoApprovalChannel | DeadlinePassed | StaleSubagent | NoCheckpoint | ArgumentsNotDetached | ToolRaised
  | ToolTimedOut | CancelledBySibling | BatchTimedOut | NotStarted | ToolError

record registered =
  rg_view :: "fields \<Rightarrow> tool_view"
  rg_required :: "ustr list"
  rg_prepare :: "(fields \<Rightarrow> ustr + fields) option"
  rg_validate :: "fields \<Rightarrow> bool \<times> fields"  \<comment> \<open>accepted?, the arguments as coercion left them\<close>
  rg_safe :: "fields \<Rightarrow> unit + bool"
  rg_read_only :: bool

datatype checker_answer = Raised | Mutated | Decided decision

record batch_env =
  be_tool :: "ustr \<Rightarrow> registered option"
  be_sha :: "json \<Rightarrow> ustr"
  be_repr :: "json \<Rightarrow> ustr"
  be_visible :: "ustr \<Rightarrow> bool"
  be_only_reads :: bool
  be_write_scope :: "ustr list"
  be_resolve :: "ustr \<Rightarrow> ustr list option"
  be_read_hash :: "ustr \<Rightarrow> ustr"
  be_decide :: "call \<Rightarrow> tool_view option \<Rightarrow> checker_answer"
  be_auto_mode :: bool

definition fields_of :: "tool_call \<Rightarrow> fields" where
  "fields_of tc = (case tc_args tc of JObj kvs \<Rightarrow> kvs | _ \<Rightarrow> [])"

definition set_fields :: "fields \<Rightarrow> tool_call \<Rightarrow> tool_call" where
  "set_fields fs tc = tc\<lparr>tc_args := JObj fs\<rparr>"

section \<open>Requests and digests\<close>

fun canonical_json_value :: "json \<Rightarrow> json" where
  "canonical_json_value (JObj kvs) = JObj (sort_key fst (map (\<lambda>(k, v). (k, canonical_json_value v)) kvs))"
| "canonical_json_value (JList xs) = JList (map canonical_json_value xs)"
| "canonical_json_value j = j"

definition canonical_tool_request_digest :: "batch_env \<Rightarrow> ustr \<Rightarrow> fields \<Rightarrow> ustr" where
  "canonical_tool_request_digest env name args =
     be_sha env (canonical_json_value (JObj [(u ''tool_name'', JStr (ustrip name)), (u ''arguments'', JObj args)]))"

definition freeze :: "batch_env \<Rightarrow> tool_call \<Rightarrow> request" where
  "freeze env tc =
     \<lparr>rq_name = ustrip (tc_name tc), rq_args = fields_of tc,
      rq_digest = canonical_tool_request_digest env (tc_name tc) (fields_of tc)\<rparr>"

definition bind_final_tool_request :: "request \<Rightarrow> tool_call \<Rightarrow> tool_call" where
  "bind_final_tool_request r tc = (set_fields (rq_args r) tc)\<lparr>bound := Some r\<rparr>"

definition final_tool_request_digest :: "tool_call \<Rightarrow> ustr" where
  "final_tool_request_digest tc = (case bound tc of Some r \<Rightarrow> ustrip (rq_digest r) | None \<Rightarrow> [])"

section \<open>Preparing a batch\<close>

definition normalize_tool_call_event :: "ustr \<Rightarrow> tool_call \<Rightarrow> tool_call" where
  "normalize_tool_call_event fallback tc =
     tc\<lparr>tc_id := (if ustrip (tc_id tc) = [] then fallback else ustrip (tc_id tc)), tc_name := ustrip (tc_name tc),
        hook_decision := [], bound := None\<rparr>"

definition fallback_id :: "nat \<Rightarrow> ustr" where
  "fallback_id n = u ''tool_'' @ nat_text n"

definition prepare_one :: "batch_env \<Rightarrow> nat \<Rightarrow> tool_call \<Rightarrow> tool_call" where
  "prepare_one env index raw =
     (let tc = normalize_tool_call_event (fallback_id index) raw in
      case (be_tool env (tc_name tc), tc_args tc) of
        (Some t, JObj kvs) \<Rightarrow>
          (case rg_prepare t of
             None \<Rightarrow> tc
           | Some f \<Rightarrow> (case f kvs of Inl e \<Rightarrow> tc\<lparr>prepare_error := e\<rparr> | Inr kvs' \<Rightarrow> set_fields kvs' tc))
      | _ \<Rightarrow> tc)"

definition dup_id :: "ustr \<Rightarrow> nat \<Rightarrow> ustr" where
  "dup_id i n = i @ u '':dup'' @ nat_text n"

text \<open>The first suffix from 2 on that is free: among one more than there are seen ids there is one.\<close>

definition dup_suffix :: "ustr list \<Rightarrow> ustr \<Rightarrow> nat" where
  "dup_suffix seen i = (case find (\<lambda>n. dup_id i n \<notin> set seen) [2..<3 + length seen] of Some n \<Rightarrow> n | None \<Rightarrow> 2)"

fun dedupe :: "ustr list \<Rightarrow> nat \<Rightarrow> tool_call list \<Rightarrow> tool_call list" where
  "dedupe seen index [] = []"
| "dedupe seen index (tc # tcs) =
     (let base = (if ustrip (tc_id tc) = [] then fallback_id index else ustrip (tc_id tc));
          i = (if base \<in> set seen then dup_id base (dup_suffix seen base) else base) in
      (if tc_id tc = i then tc else tc\<lparr>tc_id := i, duplicate_id := ustrip (tc_id tc) \<noteq> []\<rparr>)
        # dedupe (i # seen) (Suc index) tcs)"

definition dedupe_tool_call_ids :: "tool_call list \<Rightarrow> tool_call list" where
  "dedupe_tool_call_ids tcs = dedupe [] 1 tcs"

definition prepare_tool_call_sequence :: "batch_env \<Rightarrow> tool_call list \<Rightarrow> tool_call list" where
  "prepare_tool_call_sequence env tcs = dedupe_tool_call_ids (map2 (prepare_one env) [1..<Suc (length tcs)] tcs)"

section \<open>Guards\<close>

definition argument_has_value :: "fields \<Rightarrow> ustr \<Rightarrow> bool" where
  "argument_has_value args f \<longleftrightarrow> map_of args f \<noteq> None \<and> map_of args f \<noteq> Some JNull"

definition task_parallel_tasks_have_value :: "fields \<Rightarrow> bool" where
  "task_parallel_tasks_have_value args =
     (case map_of args (u ''parallel_tasks'') of
        Some (JList items) \<Rightarrow>
          2 \<le> length items \<and>
          2 \<le> length (filter (\<lambda>j. case j of
            JObj kvs \<Rightarrow> argument_has_value kvs (u ''description'') \<and> argument_has_value kvs (u ''prompt'') | _ \<Rightarrow> False) items)
      | _ \<Rightarrow> False)"

definition missing_required :: "batch_env \<Rightarrow> tool_call \<Rightarrow> bool" where
  "missing_required env tc =
     (if tc_name tc = u ''task'' \<and> task_parallel_tasks_have_value (fields_of tc) then False
      else (case be_tool env (tc_name tc) of
              None \<Rightarrow> False
            | Some t \<Rightarrow> \<not> (\<forall>f \<in> set (rg_required t). argument_has_value (fields_of tc) f)))"

definition tool_mutates :: "batch_env \<Rightarrow> tool_call \<Rightarrow> bool" where
  "tool_mutates env tc =
     (case be_tool env (tc_name tc) of
        None \<Rightarrow> False
      | Some t \<Rightarrow>
          (let v = rg_view t (fields_of tc) in
           case side_effect_kind v of
             Inr k \<Rightarrow> k \<in> set [u ''workspace'', u ''external'', u ''destructive'']
           | Inl _ \<Rightarrow> t_destructive v \<or> t_mutates_external v \<or> t_mutates_workspace v))"

definition control_tool_names :: "ustr list" where
  "control_tool_names = [u ''ask_user'']"

definition invalid_tool_call :: "batch_env \<Rightarrow> tool_call \<Rightarrow> refusal option" where
  "invalid_tool_call env tc =
     (let name = ustrip (tc_name tc) in
      if name = [] then Some NoName
      else (case tc_args tc of
              JObj _ \<Rightarrow>
                if arguments_repaired tc then Some Repaired
                else if ustrip (prepare_error tc) \<noteq> [] then Some NotPrepared
                else if duplicate_id tc \<and> tool_mutates env (tc\<lparr>tc_name := name\<rparr>) then Some DuplicateId
                else if be_tool env name = None \<and> name \<notin> set control_tool_names then Some UnknownTool
                else None
            | _ \<Rightarrow> Some NotAnObject))"

definition tool_call_is_read_only :: "batch_env \<Rightarrow> tool_call \<Rightarrow> bool" where
  "tool_call_is_read_only env tc =
     (case be_tool env (tc_name tc) of
        Some t \<Rightarrow> (case t_is_read_only (rg_view t (fields_of tc)) of Inr b \<Rightarrow> b | Inl _ \<Rightarrow> rg_read_only t)
      | None \<Rightarrow> \<not> tool_mutates env tc)"

definition or_text :: "batch_env \<Rightarrow> json option \<Rightarrow> ustr" where
  "or_text env j = (case j of None \<Rightarrow> [] | Some v \<Rightarrow> if json_falsy v then [] else json_text (be_repr env) v)"

definition workspace_write_targets :: "batch_env \<Rightarrow> tool_call \<Rightarrow> ustr list option" where
  "workspace_write_targets env tc =
     (if tc_name tc = u ''write_file'' \<or> tc_name tc = u ''edit_file'' then
        (let t = ustrip (or_text env (map_of (fields_of tc) (u ''file_path''))) in Some (if t = [] then [] else [t]))
      else if tc_name tc = u ''apply_patch'' then
        (case map_of (fields_of tc) (u ''patch'') of
           Some (JStr p) \<Rightarrow> (case patch_target_paths p of Inl _ \<Rightarrow> None | Inr ps \<Rightarrow> Some ps)
         | _ \<Rightarrow> Some [])
      else None)"

definition path_is_within_any_scope :: "ustr list list \<Rightarrow> ustr list \<Rightarrow> bool" where
  "path_is_within_any_scope scopes p \<longleftrightarrow> (\<exists>s \<in> set scopes. startswith p s)"

definition collect_options :: "'a option list \<Rightarrow> 'a list option" where
  "collect_options xs = (if None \<in> set xs then None else Some (map the xs))"

definition out_of_scope :: "batch_env \<Rightarrow> tool_call \<Rightarrow> bool" where
  "out_of_scope env tc =
     (if \<not> be_only_reads env \<and> be_write_scope env = [] then False
      else if be_only_reads env \<and> \<not> tool_call_is_read_only env tc then True
      else if be_write_scope env = [] then False
      else if (case be_tool env (tc_name tc) of Some t \<Rightarrow> \<not> t_mutates_workspace (rg_view t (fields_of tc)) | None \<Rightarrow> True)
        \<or> tool_call_is_read_only env tc then False
      else (case workspace_write_targets env tc of
              None \<Rightarrow> True
            | Some [] \<Rightarrow> True
            | Some targets \<Rightarrow>
                (case (collect_options (map (be_resolve env) (be_write_scope env)),
                       collect_options (map (be_resolve env) targets)) of
                   (Some scopes, Some ps) \<Rightarrow> \<not> (\<forall>p \<in> set ps. path_is_within_any_scope scopes p)
                 | _ \<Rightarrow> True)))"

section \<open>Authorization\<close>

datatype authorization = Refused "request option" refusal | Authorized request decision

definition view_of :: "batch_env \<Rightarrow> tool_call \<Rightarrow> tool_view option" where
  "view_of env tc = map_option (\<lambda>t. rg_view t (fields_of tc)) (be_tool env (tc_name tc))"

definition checker_call :: "tool_call \<Rightarrow> call" where
  "checker_call tc = \<lparr>k_name = tc_name tc, k_args = Some (fields_of tc)\<rparr>"

text \<open>The call comes back with its arguments as \<open>validate_tool_input\<close> coerced them in place.\<close>

definition authorize_final_tool_request :: "batch_env \<Rightarrow> tool_call \<Rightarrow> tool_call \<times> authorization" where
  "authorize_final_tool_request env tc =
     (case invalid_tool_call env tc of
        Some e \<Rightarrow> (tc, Refused None e)
      | None \<Rightarrow>
          (let (valid, fs) = (case be_tool env (tc_name tc) of
                                None \<Rightarrow> (True, fields_of tc) | Some t \<Rightarrow> rg_validate t (fields_of tc));
               tc1 = set_fields fs tc;
               req = freeze env tc1 in
           (tc1,
            if \<not> valid then Refused (Some req) InvalidInput
            else if missing_required env tc1 then Refused (Some req) MissingArguments
            else if \<not> be_visible env (tc_name tc1) then Refused (Some req) Unavailable
            else if out_of_scope env tc1 then Refused (Some req) OutOfScope
            else (case be_decide env (checker_call tc1) (view_of env tc1) of
                    Raised \<Rightarrow> Refused (Some req) CheckerRaised
                  | Mutated \<Rightarrow> Refused (Some req) CheckerMutated
                  | Decided d \<Rightarrow> Authorized req d))))"

definition permission_decision_denial :: "decision \<Rightarrow> bool" where
  "permission_decision_denial d \<longleftrightarrow> d_denial d \<noteq> None \<or> d_outcome d = Deny \<or> d_level d = ALWAYS_DENY"

section \<open>Arguments of the execution\<close>

definition execution_arguments_for_tool :: "batch_env \<Rightarrow> tool_call \<Rightarrow> fields option" where
  "execution_arguments_for_tool env tc =
     (let fs = fields_of tc in
      if tc_name tc \<in> set [u ''write_file'', u ''edit_file'', u ''notebook_edit''] then
        (let given = or_text env (map_of fs (u ''file_path''));
             path = ustrip (if given = [] then or_text env (map_of fs (u ''notebook_path'')) else given);
             clean = AList.delete (u ''expected_hash'') fs in
         if path = [] then Some clean
         else (case be_resolve env path of
                 None \<Rightarrow> None
               | Some _ \<Rightarrow> Some (clean @ [(u ''expected_hash'', JStr (be_read_hash env path))])))
      else if tc_name tc = u ''apply_patch'' then Some (AList.delete (u ''_expected_hashes'') fs)
      else Some fs)"

end
