(* ===== verification/ToolBatch.thy ===== *)
theory ToolBatch
  imports ToolCalls ToolGate
begin

text \<open>
  \<open>backend/agent/tool_batch_execution.py\<close>: \<open>execute_tool_batch\<close> with \<open>_flush_queue\<close> and
  \<open>execute_serial\<close>, and \<open>run_tool_with_timeout\<close>/\<open>run_tool\<close> of \<open>agent/tool_execution.py\<close> up to the
  call of the registry.

  The state is a record of what the batch has done: the \<open>trace\<close> of its events in order, the calls
  queued for parallel execution, the turn's gate (its admission part), the digests approved so far
  (\<open>_approved_request_digests\<close>) and the ids whose results are in the model's context. \<open>stopped\<close> is
  an exception that leaves the generator: a cancellation, or a tool that raises outside a parallel batch.

  What the outside answers is the record \<open>world\<close>: hooks and extensions, the approval channel, the
  tools themselves and the order in which the tasks of a parallel batch end. Each is asked at
  most once per call, so a function of the call covers every course of events. The texts of
  results, diffs, spans and receipts are left out; a result is its refusal, or \<open>None\<close> for success.
\<close>

section \<open>The world\<close>

datatype pre_answer =
    PreCancelled
  | PreRefused                     \<comment> \<open>blocked or failed hook or extension, or the deadline\<close>
  | PrePassed json ustr            \<comment> \<open>the arguments afterwards; the hook's permission decision\<close>

record permission_answer =
  pa_blocked :: bool
  pa_decision :: ustr
  pa_updated :: "fields option"

datatype permission_hook = HookCancelled | HookRaised | HookAnswered permission_answer

datatype approval_wait = WaitCancelled | WaitExpired | Answered json

datatype run_answer =
    RunCancelled | RunDeadline | RunStale | SnapshotFails
  | RunTimesOut bool               \<comment> \<open>had the registry been called?\<close>
  | RunRaises | RunReturns bool    \<comment> \<open>is the result an error?\<close>

datatype wake =
    Finished "ustr list"           \<comment> \<open>the tasks that \<open>asyncio.wait\<close> finds done\<close>
  | DeadlineHit
  | Interrupted                    \<comment> \<open>the generator is closed while it waits\<close>

record world =
  wo_pre_hook :: "tool_call \<Rightarrow> pre_answer"
  wo_permission_hook :: "(tool_call \<Rightarrow> permission_hook) option"
  wo_approval :: "(tool_call \<Rightarrow> approval_wait) option"
  wo_args_after :: "tool_call \<Rightarrow> json"       \<comment> \<open>the call's arguments when the wait for approval is over\<close>
  wo_plan :: "(ustr option \<times> ustr) option"   \<comment> \<open>the plan file, when there is exactly one\<close>
  wo_run :: "tool_call \<Rightarrow> run_answer"
  wo_wakes :: "tool_call list \<Rightarrow> wake list"
  wo_late :: "tool_call \<Rightarrow> bool"             \<comment> \<open>done after all when the timed-out batch is drained\<close>
  wo_parallel :: int
  wo_prompt_setter :: bool
  wo_execution_limit :: "int option"

section \<open>The state of a batch\<close>

datatype batch_event =
    Announced ustr ustr            \<comment> \<open>\<open>tool_call_start_event\<close>: call, digest\<close>
  | PolicyDecision ustr outcome
  | HookDecision ustr ustr
  | AskedApproval ustr ustr        \<comment> \<open>\<open>approval_request\<close>: call, digest\<close>
  | PromptRules "ustr list"
  | AskedUser ustr
  | Ran ustr ustr fields fields    \<comment> \<open>\<open>tool_registry.execute\<close>: call, tool, the request's arguments, those executed\<close>
  | Replied ustr "refusal option"

record batch =
  trace :: "batch_event list"
  queue :: "tool_call list"
  turn_gate :: "gate option"
  approved :: "ustr list"
  context_results :: "ustr list"
  stopped :: bool

definition emit :: "batch_event list \<Rightarrow> batch \<Rightarrow> batch" where
  "emit es s = s\<lparr>trace := trace s @ es\<rparr>"

definition stop :: "batch \<Rightarrow> batch" where
  "stop s = s\<lparr>stopped := True\<rparr>"

definition announce :: "tool_call \<Rightarrow> batch \<Rightarrow> batch" where
  "announce tc s = emit [Announced (tc_id tc) (final_tool_request_digest tc)] s"

text \<open>\<open>_finalize_tool_result\<close>: the result enters the context, the record and the gate, then the stream.\<close>

definition settle_call :: "tool_call \<Rightarrow> refusal option \<Rightarrow> batch \<Rightarrow> batch" where
  "settle_call tc why s = emit [Replied (tc_id tc) why] (s\<lparr>turn_gate := map_option (store_call (tc_id tc)) (turn_gate s)\<rparr>)"

definition append_tool_result :: "ustr \<Rightarrow> batch \<Rightarrow> batch" where
  "append_tool_result i s = s\<lparr>context_results := context_results s @ [i]\<rparr>"

definition finalize_tool_result :: "tool_call \<Rightarrow> refusal option \<Rightarrow> batch \<Rightarrow> batch" where
  "finalize_tool_result tc why s = settle_call tc why (append_tool_result (tc_id tc) s)"

section \<open>Running one tool\<close>

datatype run_outcome = RunStops | RunFails | RunDone "refusal option"

definition ran :: "tool_call \<Rightarrow> fields \<Rightarrow> batch_event" where
  "ran tc xs = Ran (tc_id tc) (tc_name tc) (fields_of tc) xs"

definition run_tool_with_timeout :: "batch_env \<Rightarrow> world \<Rightarrow> tool_call \<Rightarrow> batch_event list \<times> run_outcome" where
  "run_tool_with_timeout e w tc =
     (case wo_run w tc of
        RunCancelled \<Rightarrow> ([], RunStops)
      | RunDeadline \<Rightarrow> ([], RunDone (Some DeadlinePassed))
      | RunTimesOut False \<Rightarrow> ([], RunDone (Some ToolTimedOut))
      | RunStale \<Rightarrow> ([], RunDone (Some StaleSubagent))
      | answer \<Rightarrow>
          if (case be_tool e (tc_name tc) of
                None \<Rightarrow> False | Some t \<Rightarrow> \<not> (\<forall>f \<in> set (rg_required t). argument_has_value (fields_of tc) f))
          then ([], RunDone (Some MissingArguments))
          else if \<not> be_visible e (tc_name tc) then ([], RunDone (Some Unavailable))
          else if answer = SnapshotFails then ([], RunDone (Some NoCheckpoint))
          else (case execution_arguments_for_tool e tc of
                  None \<Rightarrow> ([], RunDone (Some ArgumentsNotDetached))
                | Some xs \<Rightarrow>
                    ([ran tc xs],
                     case answer of
                       RunTimesOut _ \<Rightarrow> RunDone (Some ToolTimedOut)
                     | RunRaises \<Rightarrow> RunFails
                     | RunReturns err \<Rightarrow> RunDone (if err then Some ToolError else None)
                     | _ \<Rightarrow> RunStops)))"

definition run_serially :: "batch_env \<Rightarrow> world \<Rightarrow> tool_call \<Rightarrow> batch \<Rightarrow> batch" where
  "run_serially e w tc s =
     (let (es, out) = run_tool_with_timeout e w tc; s1 = emit es s in
      case out of RunDone why \<Rightarrow> finalize_tool_result tc why s1 | _ \<Rightarrow> stop s1)"

section \<open>Batches of queued calls\<close>

definition is_concurrency_safe :: "batch_env \<Rightarrow> tool_call \<Rightarrow> bool" where
  "is_concurrency_safe e tc =
     (case be_tool e (tc_name tc) of
        None \<Rightarrow> False
      | Some t \<Rightarrow> (case rg_safe t (fields_of tc) of Inr b \<Rightarrow> b | Inl _ \<Rightarrow> False))"

definition add_to_batches :: "batch_env \<Rightarrow> (bool \<times> tool_call list) list \<Rightarrow> tool_call \<Rightarrow> (bool \<times> tool_call list) list" where
  "add_to_batches e bs tc =
     (let safe = is_concurrency_safe e tc in
      if safe \<and> bs \<noteq> [] \<and> fst (last bs) then butlast bs @ [(True, snd (last bs) @ [tc])]
      else bs @ [(safe, [tc])])"

definition batch_tool_calls :: "batch_env \<Rightarrow> tool_call list \<Rightarrow> (bool \<times> tool_call list) list" where
  "batch_tool_calls e tcs = foldl (add_to_batches e) [] tcs"

subsection \<open>A parallel batch\<close>

record parallel =
  pl_batch :: batch
  pl_pending :: "tool_call list"
  pl_waiting :: "tool_call list"              \<comment> \<open>\<open>batch[next_executable_index:]\<close>\<close>
  pl_results :: "(ustr \<times> refusal option) list"
  pl_history :: "ustr list"                   \<comment> \<open>\<open>pending_history\<close>\<close>
  pl_next :: nat                              \<comment> \<open>\<open>next_history_index\<close>\<close>

definition parallel_tool_concurrency :: "world \<Rightarrow> nat \<Rightarrow> nat" where
  "parallel_tool_concurrency w n = min n (nat (max 1 (wo_parallel w)))"

function start_ready_tasks :: "batch_env \<Rightarrow> world \<Rightarrow> nat \<Rightarrow> parallel \<Rightarrow> parallel" where
  "start_ready_tasks e w most p =
     (case pl_waiting p of
        [] \<Rightarrow> p
      | tc # rest \<Rightarrow>
          if length (pl_pending p) < most then
            start_ready_tasks e w most
              (p\<lparr>pl_batch := emit (fst (run_tool_with_timeout e w tc)) (pl_batch p),
                 pl_pending := pl_pending p @ [tc], pl_waiting := rest\<rparr>)
          else p)"
  by pat_completeness auto
termination by (relation "measure (\<lambda>(e, w, most, p). length (pl_waiting p))") auto

declare start_ready_tasks.simps [simp del]

text \<open>\<open>_append_ordered_context_result\<close>: results wait until all earlier calls of the batch have theirs.\<close>

function release_history :: "tool_call list \<Rightarrow> parallel \<Rightarrow> parallel" where
  "release_history calls p =
     (if pl_next p < length calls \<and> tc_id (calls ! pl_next p) \<in> set (pl_history p) then
        release_history calls
          (p\<lparr>pl_history := removeAll (tc_id (calls ! pl_next p)) (pl_history p), pl_next := Suc (pl_next p),
             pl_batch := append_tool_result (tc_id (calls ! pl_next p)) (pl_batch p)\<rparr>)
      else p)"
  by pat_completeness auto
termination by (relation "measure (\<lambda>(calls, p). length calls - pl_next p)") auto

declare release_history.simps [simp del]

definition append_ordered_context_result :: "tool_call list \<Rightarrow> ustr \<Rightarrow> parallel \<Rightarrow> parallel" where
  "append_ordered_context_result calls i p = release_history calls (p\<lparr>pl_history := List.insert i (pl_history p)\<rparr>)"

definition record_batch_result :: "tool_call \<Rightarrow> refusal option \<Rightarrow> parallel \<Rightarrow> parallel" where
  "record_batch_result tc why p = p\<lparr>pl_results := AList.update (tc_id tc) why (pl_results p)\<rparr>"

definition emit_ready_result :: "tool_call list \<Rightarrow> parallel \<Rightarrow> tool_call \<Rightarrow> parallel" where
  "emit_ready_result calls p tc =
     (case map_of (pl_results p) (tc_id tc) of
        None \<Rightarrow> p
      | Some why \<Rightarrow>
          (let p1 = append_ordered_context_result calls (tc_id tc) (p\<lparr>pl_results := AList.delete (tc_id tc) (pl_results p)\<rparr>) in
           p1\<lparr>pl_batch := settle_call tc why (pl_batch p1)\<rparr>))"

definition emit_ready_results :: "tool_call list \<Rightarrow> parallel \<Rightarrow> parallel" where
  "emit_ready_results calls p = foldl (emit_ready_result calls) p calls"

text \<open>What a finished task of the batch yields.\<close>

definition task_result :: "batch_env \<Rightarrow> world \<Rightarrow> tool_call \<Rightarrow> refusal option" where
  "task_result e w tc =
     (case snd (run_tool_with_timeout e w tc) of
        RunStops \<Rightarrow> Some CancelledBySibling | RunFails \<Rightarrow> Some ToolRaised | RunDone why \<Rightarrow> why)"

definition harvest_batch_result :: "batch_env \<Rightarrow> world \<Rightarrow> refusal \<Rightarrow> tool_call \<Rightarrow> refusal option" where
  "harvest_batch_result e w fallback tc =
     (if \<not> wo_late w tc then Some fallback
      else (case snd (run_tool_with_timeout e w tc) of
              RunStops \<Rightarrow> Some fallback | RunFails \<Rightarrow> Some ToolRaised | RunDone why \<Rightarrow> why))"

definition time_out_batch :: "batch_env \<Rightarrow> world \<Rightarrow> tool_call list \<Rightarrow> parallel \<Rightarrow> parallel" where
  "time_out_batch e w calls p =
     (let p1 = foldl (\<lambda>p tc. record_batch_result tc (harvest_batch_result e w BatchTimedOut tc) p) p (pl_pending p);
          p2 = foldl (\<lambda>p tc. record_batch_result tc (Some NotStarted) p) p1 (pl_waiting p) in
      emit_ready_results calls (p2\<lparr>pl_pending := [], pl_waiting := []\<rparr>))"

text \<open>The \<open>finally\<close> clause keeps every observation that has completed.\<close>

definition interrupt_batch :: "tool_call list \<Rightarrow> parallel \<Rightarrow> parallel" where
  "interrupt_batch calls p =
     p\<lparr>pl_batch := stop (foldl (\<lambda>s tc. if tc_id tc \<in> set (pl_history p) then append_tool_result (tc_id tc) s else s)
        (pl_batch p) calls), pl_history := []\<rparr>"

fun parallel_rounds :: "batch_env \<Rightarrow> world \<Rightarrow> nat \<Rightarrow> tool_call list \<Rightarrow> wake list \<Rightarrow> parallel \<Rightarrow> parallel" where
  "parallel_rounds e w most calls [] p = (if pl_pending p = [] then p else time_out_batch e w calls p)"
| "parallel_rounds e w most calls (r # rs) p =
     (if pl_pending p = [] then p
      else (case r of
        DeadlineHit \<Rightarrow> time_out_batch e w calls p
      | Interrupted \<Rightarrow> interrupt_batch calls p
      | Finished ids \<Rightarrow>
          (let finished = filter (\<lambda>tc. tc_id tc \<in> set ids) (pl_pending p) in
           if finished = [] then time_out_batch e w calls p
           else
            (let p1 = foldl (\<lambda>p tc. record_batch_result tc (task_result e w tc) p)
                        (p\<lparr>pl_pending := filter (\<lambda>tc. tc_id tc \<notin> set ids) (pl_pending p)\<rparr>) finished in
             parallel_rounds e w most calls rs (start_ready_tasks e w most (emit_ready_results calls p1))))))"

definition run_parallel :: "batch_env \<Rightarrow> world \<Rightarrow> tool_call list \<Rightarrow> batch \<Rightarrow> batch" where
  "run_parallel e w calls s =
     (let most = parallel_tool_concurrency w (length calls);
          p = \<lparr>pl_batch = s, pl_pending = [], pl_waiting = calls, pl_results = [], pl_history = [], pl_next = 0\<rparr> in
      pl_batch (parallel_rounds e w most calls (wo_wakes w calls) (start_ready_tasks e w most p)))"

subsection \<open>Flushing the queue\<close>

definition run_one_batch :: "batch_env \<Rightarrow> world \<Rightarrow> batch \<Rightarrow> bool \<times> tool_call list \<Rightarrow> batch" where
  "run_one_batch e w s b =
     (if stopped s then s
      else if fst b \<and> 1 < length (snd b) then run_parallel e w (snd b) s
      else foldl (\<lambda>s tc. if stopped s then s else run_serially e w tc s) s (snd b))"

definition flush_queue :: "batch_env \<Rightarrow> world \<Rightarrow> batch \<Rightarrow> batch" where
  "flush_queue e w s = foldl (run_one_batch e w) (s\<lparr>queue := []\<rparr>) (batch_tool_calls e (queue s))"

definition reject_tool_call :: "batch_env \<Rightarrow> world \<Rightarrow> tool_call \<Rightarrow> refusal \<Rightarrow> batch \<Rightarrow> batch" where
  "reject_tool_call e w tc why s =
     (let s1 = flush_queue e w s in
      if stopped s1 then s1 else finalize_tool_result tc (Some why) (announce tc s1))"

section \<open>A call that needs more than a place in the queue\<close>

text \<open>The turn of one such call: its arguments and binding, its decision, and whether it has been announced.\<close>

record serial =
  sl_call :: tool_call
  sl_level :: permission_level
  sl_decision :: decision
  sl_announced :: bool
  sl_allowed :: bool
  sl_batch :: batch

datatype 'a flow = Over batch | Next 'a

fun bind_flow :: "'a flow \<Rightarrow> ('a \<Rightarrow> 'b flow) \<Rightarrow> 'b flow" where
  "bind_flow (Over s) f = Over s"
| "bind_flow (Next x) f = f x"

definition announce_once :: "serial \<Rightarrow> serial" where
  "announce_once l =
     (if sl_announced l then l else l\<lparr>sl_announced := True, sl_batch := announce (sl_call l) (sl_batch l)\<rparr>)"

text \<open>Every early return announces the call (again, where the code does) and stores a refusal.\<close>

definition refuse :: "refusal \<Rightarrow> serial \<Rightarrow> batch" where
  "refuse why l = finalize_tool_result (sl_call l) (Some why) (announce (sl_call l) (sl_batch l))"

subsection \<open>Leaving plan mode\<close>

definition is_exit_plan :: "tool_call \<Rightarrow> bool" where
  "is_exit_plan tc \<longleftrightarrow> tc_name tc = u ''exit_plan_mode''"

definition plan_arguments :: "world \<Rightarrow> fields \<Rightarrow> fields" where
  "plan_arguments w fs =
     (case wo_plan w of
        None \<Rightarrow> fs
      | Some (plan, path) \<Rightarrow>
          AList.update (u ''plan_file_path'') (JStr path)
            (case plan of None \<Rightarrow> fs | Some t \<Rightarrow> AList.update (u ''plan'') (JStr t) fs))"

definition bind_if_request :: "authorization \<Rightarrow> tool_call \<Rightarrow> tool_call" where
  "bind_if_request a tc =
     (case a of Refused (Some r) _ \<Rightarrow> bind_final_tool_request r tc | Refused None _ \<Rightarrow> tc
      | Authorized r _ \<Rightarrow> bind_final_tool_request r tc)"

text \<open>The proposal shown to the user, or the plan as the user edited it, is authorized as a request of its own.\<close>

definition reauthorize_plan :: "batch_env \<Rightarrow> fields \<Rightarrow> serial \<Rightarrow> serial flow" where
  "reauthorize_plan e fs l =
     (let (tc, a) = authorize_final_tool_request e (set_fields fs (sl_call l));
          l1 = l\<lparr>sl_call := bind_if_request a tc\<rparr> in
      case a of
        Refused _ _ \<Rightarrow> Over (refuse PlanRefused l1)
      | Authorized r d \<Rightarrow>
          if permission_decision_denial d then Over (refuse PlanRefused l1)
          else Next (l1\<lparr>sl_decision := d, sl_level := d_level d\<rparr>))"

definition plan_proposal :: "batch_env \<Rightarrow> world \<Rightarrow> serial \<Rightarrow> serial flow" where
  "plan_proposal e w l =
     (if is_exit_plan (sl_call l) then reauthorize_plan e (plan_arguments w (fields_of (sl_call l))) l else Next l)"

subsection \<open>Hooks on the permission request\<close>

definition hook_overridable_sources :: "ustr list" where
  "hook_overridable_sources = [u ''tool'', u ''mode'', u ''default'', u ''external_checker'']"

definition known_decision :: "ustr \<Rightarrow> bool" where
  "known_decision d \<longleftrightarrow> d \<in> set [u ''allow'', u ''deny'', u ''ask'']"

text \<open>A \<open>PreToolUse\<close> hook that allows skips the prompt of the tool itself, not rules and floors of the policy.\<close>

definition allowed_by_pre_hook :: "serial \<Rightarrow> bool" where
  "allowed_by_pre_hook l \<longleftrightarrow>
     ulower (ustrip (hook_decision (sl_call l))) = u ''allow''
     \<and> d_source (sl_decision l) \<in> set hook_overridable_sources \<and> \<not> is_exit_plan (sl_call l)"

definition hook_updates_input :: "batch_env \<Rightarrow> permission_answer \<Rightarrow> serial \<Rightarrow> serial flow" where
  "hook_updates_input e pa l =
     (case pa_updated pa of
        None \<Rightarrow> Next l
      | Some fs \<Rightarrow>
          (let (tc, a) = authorize_final_tool_request e (set_fields fs (sl_call l)) in
           case a of
             Refused _ _ \<Rightarrow> Over (refuse UpdateRefused (l\<lparr>sl_call := tc\<rparr>))
           | Authorized r d \<Rightarrow>
               (let l1 = l\<lparr>sl_call := bind_final_tool_request r tc, sl_decision := d, sl_level := d_level d,
                           sl_batch := emit [PolicyDecision (tc_id tc) (d_outcome d)] (sl_batch l)\<rparr> in
                if permission_decision_denial d then Over (refuse UpdateDenied l1)
                else Next (l1\<lparr>sl_allowed := sl_allowed l1 \<or> (d_level d = AUTO \<and> pa_decision pa \<noteq> u ''ask'')\<rparr>))))"

definition hook_decides :: "permission_answer \<Rightarrow> serial \<Rightarrow> serial" where
  "hook_decides pa l =
     (let l1 = (if known_decision (pa_decision pa)
                then l\<lparr>sl_batch := emit [HookDecision (tc_id (sl_call l)) (pa_decision pa)] (sl_batch l)\<rparr> else l);
          l2 = (if pa_decision pa = u ''ask'' then l1\<lparr>sl_level := max (sl_level l1) CONFIRM\<rparr> else l1) in
      if pa_decision pa = u ''allow'' \<and> \<not> is_exit_plan (sl_call l2) \<and> d_denial (sl_decision l2) = None
        \<and> d_outcome (sl_decision l2) \<noteq> Deny \<and> d_source (sl_decision l2) \<in> set hook_overridable_sources
      then l2\<lparr>sl_allowed := True\<rparr> else l2)"

definition permission_request_hook :: "batch_env \<Rightarrow> world \<Rightarrow> serial \<Rightarrow> serial flow" where
  "permission_request_hook e w l =
     (let l0 = l\<lparr>sl_allowed := allowed_by_pre_hook l\<rparr> in
      case wo_permission_hook w of
        None \<Rightarrow> Next l0
      | Some hook \<Rightarrow>
          if sl_allowed l0 \<or> is_exit_plan (sl_call l0) then Next l0
          else (case hook (sl_call l0) of
                  HookCancelled \<Rightarrow> Over (stop (sl_batch l0))
                | HookRaised \<Rightarrow> Over (refuse PermissionHookFailed l0)
                | HookAnswered pa \<Rightarrow>
                    if pa_blocked pa \<or> pa_decision pa = u ''deny'' then
                      Over (refuse PermissionHookRefused (l0\<lparr>sl_batch :=
                        emit [HookDecision (tc_id (sl_call l0)) (if pa_decision pa = [] then u ''deny'' else pa_decision pa)]
                          (sl_batch l0)\<rparr>))
                    else bind_flow (hook_updates_input e pa l0) (\<lambda>l1. Next (hook_decides pa l1))))"

subsection \<open>The user's approval\<close>

text \<open>
  \<open>_await_approval_within_turn_deadline\<close>: \<open>None\<close> is a cancellation. An answer for another digest is
  turned into a rejection.
\<close>

definition rejection :: fields where
  "rejection = [(u ''action'', JStr (u ''reject''))]"

definition await_approval :: "batch_env \<Rightarrow> ustr \<Rightarrow> approval_wait \<Rightarrow> fields option" where
  "await_approval e expected answer =
     (case answer of
        WaitCancelled \<Rightarrow> None
      | WaitExpired \<Rightarrow> Some rejection
      | Answered (JObj kvs) \<Rightarrow>
          (let supplied = ustrip (or_text e (map_of kvs (u ''request_digest''))) in
           if expected \<noteq> [] \<and> supplied \<noteq> [] \<and> supplied \<noteq> expected then Some rejection
           else Some (if expected = [] then kvs else AList.update (u ''request_digest'') (JStr expected) kvs))
      | Answered _ \<Rightarrow> Some rejection)"

definition approval_action :: "batch_env \<Rightarrow> fields \<Rightarrow> ustr" where
  "approval_action e ap = ulower (ustrip (or_text e (map_of ap (u ''action''))))"

definition given :: "fields \<Rightarrow> string \<Rightarrow> json option" where
  "given ap k = (case map_of ap (u k) of Some JNull \<Rightarrow> None | j \<Rightarrow> j)"

definition truthy :: "fields \<Rightarrow> string \<Rightarrow> json option" where
  "truthy ap k = (case map_of ap (u k) of Some j \<Rightarrow> if json_falsy j then None else Some j | None \<Rightarrow> None)"

definition edited_plan_arguments :: "fields \<Rightarrow> fields \<Rightarrow> fields" where
  "edited_plan_arguments ap fs =
     (let plan = (case truthy ap ''plan'' of None \<Rightarrow> map_of ap (u ''updated_plan'') | j \<Rightarrow> j);
          fs1 = (case plan of Some (JStr t) \<Rightarrow> AList.update (u ''plan'') (JStr t) fs | _ \<Rightarrow> fs) in
      case map_of ap (u ''command_prompts'') of
        Some (JList ps) \<Rightarrow> AList.update (u ''command_prompts'') (JList ps) fs1 | _ \<Rightarrow> fs1)"

text \<open>\<open>None\<close>: \<open>decisions\<close> is no object, and asking for its items raises.\<close>

definition rejected_files :: "fields \<Rightarrow> ustr list option" where
  "rejected_files ap =
     (case map_of ap (u ''decisions'') of
        None \<Rightarrow> Some []
      | Some (JObj ds) \<Rightarrow> Some (map fst (filter (\<lambda>(p, d). d = JStr (u ''rejected'')) ds))
      | _ \<Rightarrow> None)"

definition prompt_rules :: "batch_env \<Rightarrow> fields \<Rightarrow> ustr list" where
  "prompt_rules e fs =
     (case map_of fs (u ''command_prompts'') of
        Some (JList items) \<Rightarrow>
          List.map_filter (\<lambda>j. case j of
            JObj kvs \<Rightarrow>
              (let t = ustrip (or_text e (map_of kvs (u ''prompt''))) in
               if map_of kvs (u ''tool'') = Some (JStr (u ''run_command'')) \<and> t \<noteq> [] then Some t else None)
          | _ \<Rightarrow> None) items
      | _ \<Rightarrow> [])"

definition approve_plan :: "batch_env \<Rightarrow> world \<Rightarrow> fields \<Rightarrow> serial \<Rightarrow> serial flow" where
  "approve_plan e w ap l =
     (if \<not> is_exit_plan (sl_call l) then Next l
      else bind_flow (reauthorize_plan e (fields_of (sl_call l)) l)
        (\<lambda>l1. Next (case map_of (fields_of (sl_call l1)) (u ''command_prompts'') of
            Some (JList _) \<Rightarrow>
              if wo_prompt_setter w
              then l1\<lparr>sl_batch := emit [PromptRules (prompt_rules e (fields_of (sl_call l1)))] (sl_batch l1)\<rparr> else l1
          | _ \<Rightarrow> l1)))"

definition take_approval :: "batch_env \<Rightarrow> world \<Rightarrow> request \<Rightarrow> fields \<Rightarrow> serial \<Rightarrow> serial flow" where
  "take_approval e w proposal ap l =
     (let digest = final_tool_request_digest (sl_call l);
          tc = (sl_call l)\<lparr>tc_args := wo_args_after w (sl_call l)\<rparr>;
          l1 = l\<lparr>sl_call := tc\<rparr> in
      if canonical_tool_request_digest e (tc_name tc) (fields_of tc) \<noteq> rq_digest proposal then
        Over (refuse ApprovalStale (l1\<lparr>sl_call := bind_final_tool_request proposal tc\<rparr>))
      else if map_of ap (u ''action'') = Some (JStr (u ''reject'')) then Over (refuse Rejected l1)
      else if approval_action e ap \<notin> set [u ''approve'', u ''partial''] then Over (refuse ApprovalInvalid l1)
      else
       (let l2 = l1\<lparr>sl_batch := (sl_batch l1)\<lparr>approved := List.insert digest (approved (sl_batch l1))\<rparr>\<rparr> in
        if \<not> is_exit_plan tc \<and> (given ap ''updated_input'' \<noteq> None \<or> given ap ''updatedInput'' \<noteq> None)
        then Over (refuse NeedsNewApproval l2)
        else
         (let l3 = (if is_exit_plan tc
                    then l2\<lparr>sl_call := set_fields (edited_plan_arguments ap (rq_args proposal)) tc\<rparr> else l2) in
          if map_of ap (u ''action'') = Some (JStr (u ''partial'')) \<and> rejected_files ap = None
          then Over (stop (sl_batch l3))
          else if map_of ap (u ''action'') = Some (JStr (u ''partial'')) \<and> rejected_files ap \<noteq> Some []
          then Over (finalize_tool_result (sl_call l3) (Some PartlyRejected) (sl_batch l3))
          else bind_flow (approve_plan e w ap l3) (\<lambda>l4. Next (announce_once l4)))))"

definition ask_approval :: "batch_env \<Rightarrow> world \<Rightarrow> serial \<Rightarrow> serial flow" where
  "ask_approval e w l =
     (let proposal = (case bound (sl_call l) of Some r \<Rightarrow> r | None \<Rightarrow> freeze e (sl_call l));
          tc = (if bound (sl_call l) = None then bind_final_tool_request proposal (sl_call l) else sl_call l);
          l1 = l\<lparr>sl_call := tc, sl_batch := emit [AskedApproval (tc_id tc) (final_tool_request_digest tc)] (sl_batch l)\<rparr> in
      case wo_approval w of
        None \<Rightarrow> Over (refuse NoApprovalChannel l1)
      | Some handler \<Rightarrow>
          (case await_approval e (final_tool_request_digest tc) (handler tc) of
             None \<Rightarrow> Over (stop (sl_batch l1))
           | Some ap \<Rightarrow> take_approval e w proposal ap l1))"

definition obtain_permission :: "batch_env \<Rightarrow> world \<Rightarrow> serial \<Rightarrow> serial flow" where
  "obtain_permission e w l =
     (if sl_level l = CONFIRM \<or> sl_level l = DIFF_REVIEW then
        bind_flow (permission_request_hook e w l)
          (\<lambda>l1. if sl_allowed l1 then Next (announce_once l1) else ask_approval e w l1)
      else Next l)"

subsection \<open>Execution\<close>

definition run_control_or_tool :: "batch_env \<Rightarrow> world \<Rightarrow> serial \<Rightarrow> batch" where
  "run_control_or_tool e w l =
     (let tc = sl_call l; s = sl_batch l in
      case (if tc_name tc = u ''ask_user'' then wo_approval w else None) of
        None \<Rightarrow> run_serially e w tc s
      | Some handler \<Rightarrow>
          (let s1 = emit [AskedUser (tc_id tc)] s in
           case await_approval e [] (handler tc) of
             None \<Rightarrow> stop s1
           | Some _ \<Rightarrow> finalize_tool_result tc None s1))"

definition execute_serial :: "batch_env \<Rightarrow> world \<Rightarrow> tool_call \<Rightarrow> permission_level \<Rightarrow> decision \<Rightarrow> batch \<Rightarrow> batch" where
  "execute_serial e w tc level d s =
     (let l = \<lparr>sl_call = tc, sl_level = level, sl_decision = d, sl_announced = False, sl_allowed = False, sl_batch = s\<rparr> in
      case bind_flow (plan_proposal e w l) (obtain_permission e w) of
        Over s1 \<Rightarrow> s1
      | Next l1 \<Rightarrow> run_control_or_tool e w (announce_once l1))"

section \<open>A batch of the model's calls\<close>

definition admit_call :: "world \<Rightarrow> nat \<Rightarrow> tool_call \<Rightarrow> batch \<Rightarrow> bool \<times> batch" where
  "admit_call w index tc s =
     (let (ok, g) = (case turn_gate s of
                       None \<Rightarrow> (True, None) | Some g \<Rightarrow> (case admit (tc_id tc) g of (b, g') \<Rightarrow> (b, Some g'))) in
      (ok \<and> (case wo_execution_limit w of None \<Rightarrow> True | Some n \<Rightarrow> int index \<le> max 0 n), s\<lparr>turn_gate := g\<rparr>))"

definition policy_denial :: "permission_level \<Rightarrow> decision \<Rightarrow> bool" where
  "policy_denial level d \<longleftrightarrow> d_denial d \<noteq> None \<or> (d_outcome d = Deny \<and> d_rule d \<noteq> []) \<or> level = ALWAYS_DENY"

text \<open>The policy's decision: an \<open>ask\<close> of a \<open>PreToolUse\<close> hook is a floor for it.\<close>

definition apply_decision :: "batch_env \<Rightarrow> world \<Rightarrow> request \<Rightarrow> decision \<Rightarrow> tool_call \<Rightarrow> batch \<Rightarrow> batch" where
  "apply_decision e w r d tc0 s =
     (let tc = bind_final_tool_request r tc0;
          level = (if ulower (ustrip (hook_decision tc)) = u ''ask'' \<and> d_level d = AUTO then CONFIRM else d_level d);
          s1 = (if d_outcome d \<noteq> Allow \<and> \<not> be_auto_mode e then emit [PolicyDecision (tc_id tc) (d_outcome d)] s else s) in
      if policy_denial level d then reject_tool_call e w tc PolicyDenied s1
      else if level = AUTO \<and> tc_name tc \<notin> set control_tool_names then
        (announce tc s1)\<lparr>queue := queue s1 @ [tc]\<rparr>
      else
       (let s2 = flush_queue e w s1 in
        if stopped s2 then s2 else execute_serial e w tc level d s2))"

definition execute_call :: "batch_env \<Rightarrow> world \<Rightarrow> batch \<Rightarrow> nat \<times> tool_call \<Rightarrow> batch" where
  "execute_call e w s c =
     (let (index, raw) = c; tc = normalize_tool_call_event (fallback_id index) raw; (ok, s1) = admit_call w index tc s in
      if stopped s then s
      else if \<not> ok then reject_tool_call e w tc BudgetExhausted s1
      else (case invalid_tool_call e tc of
        Some why \<Rightarrow> reject_tool_call e w tc why s1
      | None \<Rightarrow>
          if be_tool e (tc_name tc) = None then stop s1
          else if missing_required e tc then reject_tool_call e w tc MissingArguments s1
          else if \<not> be_visible e (tc_name tc) then reject_tool_call e w tc Unavailable s1
          else (case wo_pre_hook w tc of
            PreCancelled \<Rightarrow> stop s1
          | PreRefused \<Rightarrow> reject_tool_call e w tc HookRefused s1
          | PrePassed args asked \<Rightarrow>
              (let tc1 = tc\<lparr>tc_args := args, hook_decision := (if is_exit_plan tc then [] else asked)\<rparr> in
               if out_of_scope e tc1 then reject_tool_call e w tc1 OutOfScope (emit [PolicyDecision (tc_id tc1) Deny] s1)
               else (case authorize_final_tool_request e tc1 of
                 (tc2, Refused r why) \<Rightarrow> reject_tool_call e w (bind_if_request (Refused r why) tc2) why s1
               | (tc2, Authorized r d) \<Rightarrow> apply_decision e w r d tc2 s1)))))"

definition new_batch :: "gate option \<Rightarrow> ustr list \<Rightarrow> batch" where
  "new_batch g ds = \<lparr>trace = [], queue = [], turn_gate = g, approved = ds, context_results = [], stopped = False\<rparr>"

definition execute_tool_batch :: "batch_env \<Rightarrow> world \<Rightarrow> tool_call list \<Rightarrow> batch \<Rightarrow> batch" where
  "execute_tool_batch e w calls s =
     (let s1 = foldl (execute_call e w) s (zip [1..<Suc (length calls)] calls) in
      if stopped s1 then s1 else flush_queue e w s1)"

end
