(* ===== verification/ToolBatchProps.thy ===== *)
theory ToolBatchProps
  imports ToolBatch CheckerProps
begin

text \<open>
  What stands behind every run of a tool. \<open>warrant\<close> says it of one request: the checker decided on
  arguments with the same digest, did not deny them, and either let them through by itself, or a
  hook allowed them where hooks may, or the user approved them. \<open>warranted\<close> says it of the whole
  state, and every step of a batch keeps it.
\<close>

section \<open>Warrants\<close>

definition decided :: "batch_env \<Rightarrow> tool_call \<Rightarrow> decision \<Rightarrow> bool" where
  "decided e tc d \<longleftrightarrow>
     be_decide e (checker_call tc) (view_of e tc) = Decided d \<and> d_denial d = None \<and> d_level d \<noteq> ALWAYS_DENY"

definition hook_allows :: "world \<Rightarrow> ustr \<Rightarrow> bool" where
  "hook_allows w i \<longleftrightarrow>
     (\<exists>tc args asked. tc_id tc = i \<and> wo_pre_hook w tc = PrePassed args asked \<and> ulower (ustrip asked) = u ''allow'')
     \<or> (\<exists>hook tc pa. wo_permission_hook w = Some hook \<and> tc_id tc = i \<and> hook tc = HookAnswered pa \<and> pa_decision pa = u ''allow'')"

definition user_approves :: "batch_env \<Rightarrow> world \<Rightarrow> tool_call \<Rightarrow> bool" where
  "user_approves e w tc \<longleftrightarrow>
     (\<exists>handler ap. wo_approval w = Some handler
        \<and> await_approval e (final_tool_request_digest tc) (handler tc) = Some ap
        \<and> approval_action e ap \<in> set [u ''approve'', u ''partial''])"

definition warrant :: "batch_env \<Rightarrow> world \<Rightarrow> ustr \<Rightarrow> ustr \<Rightarrow> fields \<Rightarrow> bool" where
  "warrant e w i n fs \<longleftrightarrow>
     (\<exists>tc d. tc_id tc = i \<and> tc_name tc = n \<and> decided e tc d
        \<and> canonical_tool_request_digest e n fs = canonical_tool_request_digest e n (fields_of tc)
        \<and> (d_level d = AUTO
           \<or> hook_allows w i \<and> d_source d \<in> set hook_overridable_sources
           \<or> user_approves e w tc
           \<or> n = u ''exit_plan_mode'' \<and> (\<exists>shown. tc_id shown = i \<and> tc_name shown = n \<and> user_approves e w shown)))"

abbreviation call_warrant :: "batch_env \<Rightarrow> world \<Rightarrow> tool_call \<Rightarrow> bool" where
  "call_warrant e w tc \<equiv> warrant e w (tc_id tc) (tc_name tc) (fields_of tc)"

definition warranted :: "batch_env \<Rightarrow> world \<Rightarrow> batch \<Rightarrow> bool" where
  "warranted e w s \<longleftrightarrow>
     (\<forall>i n fs xs. Ran i n fs xs \<in> set (trace s) \<longrightarrow> warrant e w i n fs) \<and> (\<forall>tc \<in> set (queue s). call_warrant e w tc)"

named_theorems batch_intros \<open>what keeps the warrants of a batch\<close>

fun runs_nothing :: "batch_event \<Rightarrow> bool" where
  "runs_nothing (Ran _ _ _ _) = False"
| "runs_nothing _ = True"

lemma warranted_emit [batch_intros]: "warranted e w s \<Longrightarrow> \<forall>x \<in> set es. runs_nothing x \<Longrightarrow> warranted e w (emit es s)"
  by (fastforce simp: warranted_def emit_def)

lemma warranted_fields [batch_intros]:
  "warranted e w s \<Longrightarrow> warranted e w (stop s)"
  "warranted e w s \<Longrightarrow> warranted e w (announce tc s)"
  "warranted e w s \<Longrightarrow> warranted e w (append_tool_result i s)"
  "warranted e w s \<Longrightarrow> warranted e w (settle_call tc why s)"
  "warranted e w s \<Longrightarrow> warranted e w (finalize_tool_result tc why s)"
  "warranted e w s \<Longrightarrow> warranted e w (s\<lparr>turn_gate := g\<rparr>)"
  "warranted e w s \<Longrightarrow> warranted e w (s\<lparr>approved := ds\<rparr>)"
  "warranted e w s \<Longrightarrow> warranted e w (s\<lparr>queue := []\<rparr>)"
  by (auto simp: warranted_def stop_def announce_def emit_def append_tool_result_def settle_call_def finalize_tool_result_def)

lemma warranted_run:
  assumes "warranted e w s" "call_warrant e w tc"
  shows "warranted e w (emit (fst (run_tool_with_timeout e w tc)) s)"
proof -
  have "set (fst (run_tool_with_timeout e w tc)) \<subseteq> {ran tc xs | xs. True}"
    by (auto simp: run_tool_with_timeout_def split: run_answer.splits bool.splits option.splits if_splits)
  with assms show ?thesis by (auto simp: warranted_def emit_def ran_def dest!: subsetD)
qed

lemma warranted_run_serially [batch_intros]:
  "warranted e w s \<Longrightarrow> call_warrant e w tc \<Longrightarrow> warranted e w (run_serially e w tc s)"
  using warranted_run [of e w s tc]
  by (auto simp: run_serially_def Let_def intro: batch_intros split: prod.splits run_outcome.splits)

section \<open>Parallel batches\<close>

definition parallel_warranted :: "batch_env \<Rightarrow> world \<Rightarrow> parallel \<Rightarrow> bool" where
  "parallel_warranted e w p \<longleftrightarrow> warranted e w (pl_batch p) \<and> (\<forall>tc \<in> set (pl_waiting p). call_warrant e w tc)"

lemma start_ready_tasks_warranted:
  "parallel_warranted e w p \<Longrightarrow> parallel_warranted e w (start_ready_tasks e w n p)"
proof (induction e w n p rule: start_ready_tasks.induct)
  case (1 e w n p)
  show ?case
  proof (cases "pl_waiting p")
    case Nil
    then show ?thesis using 1 by (simp add: start_ready_tasks.simps)
  next
    case (Cons tc rest)
    with 1 warranted_run [of e w "pl_batch p" tc] show ?thesis
      by (subst start_ready_tasks.simps) (simp add: parallel_warranted_def)
  qed
qed

lemma release_history_warranted: "parallel_warranted e w p \<Longrightarrow> parallel_warranted e w (release_history calls p)"
proof (induction calls p rule: release_history.induct)
  case (1 calls p)
  then show ?case
    by (subst release_history.simps) (simp add: parallel_warranted_def batch_intros)
qed

lemma record_batch_result_fields [simp]:
  "pl_batch (record_batch_result tc why p) = pl_batch p" "pl_waiting (record_batch_result tc why p) = pl_waiting p"
  "pl_pending (record_batch_result tc why p) = pl_pending p" "pl_history (record_batch_result tc why p) = pl_history p"
  "pl_next (record_batch_result tc why p) = pl_next p"
  by (simp_all add: record_batch_result_def)

lemma record_all_fields [simp]:
  "pl_batch (foldl (\<lambda>p tc. record_batch_result tc (f tc) p) p tcs) = pl_batch p"
  "pl_waiting (foldl (\<lambda>p tc. record_batch_result tc (f tc) p) p tcs) = pl_waiting p"
  "pl_pending (foldl (\<lambda>p tc. record_batch_result tc (f tc) p) p tcs) = pl_pending p"
  "pl_history (foldl (\<lambda>p tc. record_batch_result tc (f tc) p) p tcs) = pl_history p"
  "pl_next (foldl (\<lambda>p tc. record_batch_result tc (f tc) p) p tcs) = pl_next p"
  by (induction tcs arbitrary: p) simp_all

lemma emit_ready_results_warranted:
  assumes "parallel_warranted e w p"
  shows "parallel_warranted e w (emit_ready_results calls p)"
proof -
  have step: "parallel_warranted e w (emit_ready_result calls p tc)" if p: "parallel_warranted e w p" for p tc
  proof -
    let ?p = "p\<lparr>pl_results := AList.delete (tc_id tc) (pl_results p), pl_history := List.insert (tc_id tc) (pl_history p)\<rparr>"
    have "parallel_warranted e w (release_history calls ?p)"
      by (rule release_history_warranted) (use p in \<open>simp add: parallel_warranted_def\<close>)
    with p show ?thesis
      by (simp add: emit_ready_result_def append_ordered_context_result_def parallel_warranted_def Let_def batch_intros
          split: option.splits)
  qed
  have "parallel_warranted e w (foldl (emit_ready_result calls) p cs)" for cs
    using assms by (induction cs arbitrary: p) (auto intro: step)
  then show ?thesis by (simp add: emit_ready_results_def)
qed

lemma time_out_batch_warranted: "parallel_warranted e w p \<Longrightarrow> parallel_warranted e w (time_out_batch e w calls p)"
  unfolding time_out_batch_def Let_def by (rule emit_ready_results_warranted) (simp add: parallel_warranted_def)

lemma interrupt_batch_warranted:
  assumes "parallel_warranted e w p"
  shows "parallel_warranted e w (interrupt_batch calls p)"
proof -
  have "warranted e w (foldl (\<lambda>s tc. if tc_id tc \<in> set (pl_history p) then append_tool_result (tc_id tc) s else s) s calls)"
    if "warranted e w s" for s
    using that by (induction calls arbitrary: s) (simp_all add: batch_intros)
  with assms show ?thesis by (simp add: interrupt_batch_def parallel_warranted_def batch_intros)
qed

lemma parallel_rounds_warranted:
  "parallel_warranted e w p \<Longrightarrow> parallel_warranted e w (parallel_rounds e w n calls rs p)"
proof (induction rs arbitrary: p)
  case (Cons r rs)
  have "parallel_warranted e w (p\<lparr>pl_pending := ts\<rparr>)" for ts using Cons.prems by (simp add: parallel_warranted_def)
  then have "parallel_warranted e w (foldl (\<lambda>p tc. record_batch_result tc (task_result e w tc) p) (p\<lparr>pl_pending := ts\<rparr>) fs)" for ts fs
    by (simp add: parallel_warranted_def)
  then show ?case
    using Cons by (cases r)
      (simp_all add: Let_def time_out_batch_warranted interrupt_batch_warranted emit_ready_results_warranted
        start_ready_tasks_warranted)
qed (simp add: time_out_batch_warranted)

lemma run_parallel_warranted [batch_intros]:
  assumes "warranted e w s" "\<forall>tc \<in> set calls. call_warrant e w tc"
  shows "warranted e w (run_parallel e w calls s)"
  using parallel_rounds_warranted [OF start_ready_tasks_warranted, of e w] assms
  by (simp add: run_parallel_def Let_def parallel_warranted_def)

section \<open>The queue\<close>

lemma batches_concat_step: "concat (map snd (add_to_batches e bs tc)) = concat (map snd bs) @ [tc]"
  by (cases bs rule: rev_cases) (simp_all add: add_to_batches_def Let_def)

lemma batches_concat: "concat (map snd (batch_tool_calls e tcs)) = tcs"
proof -
  have "concat (map snd (foldl (add_to_batches e) bs tcs)) = concat (map snd bs) @ tcs" for bs
    by (induction tcs arbitrary: bs) (simp_all add: batches_concat_step)
  then show ?thesis by (simp add: batch_tool_calls_def)
qed

lemma run_one_batch_warranted:
  assumes "warranted e w s" "\<forall>tc \<in> set (snd b). call_warrant e w tc"
  shows "warranted e w (run_one_batch e w s b)"
proof -
  have "warranted e w (foldl (\<lambda>s tc. if stopped s then s else run_serially e w tc s) s tcs)"
    if "\<forall>tc \<in> set tcs. call_warrant e w tc" for tcs
    using that assms(1) by (induction tcs arbitrary: s) (simp_all add: batch_intros)
  with assms show ?thesis by (simp add: run_one_batch_def batch_intros)
qed

lemma flush_queue_warranted [batch_intros]:
  assumes "warranted e w s"
  shows "warranted e w (flush_queue e w s)"
proof -
  have "\<forall>tc \<in> set (concat (map snd (batch_tool_calls e (queue s)))). call_warrant e w tc"
    unfolding batches_concat using assms by (simp add: warranted_def)
  then have "\<forall>b \<in> set (batch_tool_calls e (queue s)). \<forall>tc \<in> set (snd b). call_warrant e w tc" by auto
  moreover have "warranted e w (foldl (run_one_batch e w) s' bs)"
    if "warranted e w s'" "\<forall>b \<in> set bs. \<forall>tc \<in> set (snd b). call_warrant e w tc" for s' bs
    using that by (induction bs arbitrary: s') (simp_all add: run_one_batch_warranted)
  ultimately show ?thesis using assms by (simp add: flush_queue_def batch_intros)
qed

lemma reject_tool_call_warranted [batch_intros]:
  "warranted e w s \<Longrightarrow> warranted e w (reject_tool_call e w tc why s)"
  by (simp add: reject_tool_call_def Let_def batch_intros)

section \<open>Calls that ask for permission\<close>

fun over_or :: "(batch \<Rightarrow> bool) \<Rightarrow> ('a \<Rightarrow> bool) \<Rightarrow> 'a flow \<Rightarrow> bool" where
  "over_or P Q (Over s) = P s"
| "over_or P Q (Next x) = Q x"

lemma over_or_if:
  "(c \<Longrightarrow> over_or P Q f) \<Longrightarrow> (\<not> c \<Longrightarrow> over_or P Q g) \<Longrightarrow> over_or P Q (if c then f else g)"
  by simp

lemma over_or_bind: "over_or P Q f \<Longrightarrow> (\<And>x. Q x \<Longrightarrow> over_or P R (g x)) \<Longrightarrow> over_or P R (bind_flow f g)"
  by (cases f) simp_all

text \<open>A call on its way: bound to the request it is, decided on as it is, never raised but from \<open>AUTO\<close>.\<close>

definition on_its_way :: "batch_env \<Rightarrow> world \<Rightarrow> ustr \<Rightarrow> ustr \<Rightarrow> serial \<Rightarrow> bool" where
  "on_its_way e w i n l \<longleftrightarrow>
     tc_id (sl_call l) = i \<and> tc_name (sl_call l) = n \<and> bound (sl_call l) = Some (freeze e (sl_call l))
     \<and> decided e (sl_call l) (sl_decision l)
     \<and> (ulower (ustrip (hook_decision (sl_call l))) = u ''allow'' \<longrightarrow> hook_allows w i)
     \<and> (sl_level l = d_level (sl_decision l) \<or> d_level (sl_decision l) = AUTO \<and> sl_level l = CONFIRM)
     \<and> (sl_allowed l \<longrightarrow> d_level (sl_decision l) = AUTO \<or> hook_allows w i \<and> d_source (sl_decision l) \<in> set hook_overridable_sources)
     \<and> warranted e w (sl_batch l)"

definition cleared :: "batch_env \<Rightarrow> world \<Rightarrow> serial \<Rightarrow> bool" where
  "cleared e w l \<longleftrightarrow> call_warrant e w (sl_call l) \<and> warranted e w (sl_batch l)"

lemma set_fields_simps [simp]:
  "fields_of (set_fields fs tc) = fs" "tc_id (set_fields fs tc) = tc_id tc" "tc_name (set_fields fs tc) = tc_name tc"
  "hook_decision (set_fields fs tc) = hook_decision tc"
  by (simp_all add: set_fields_def fields_of_def)

lemma bind_request_simps [simp]:
  "fields_of (bind_final_tool_request r tc) = rq_args r" "tc_id (bind_final_tool_request r tc) = tc_id tc"
  "tc_name (bind_final_tool_request r tc) = tc_name tc" "hook_decision (bind_final_tool_request r tc) = hook_decision tc"
  "bound (bind_final_tool_request r tc) = Some r"
  by (simp_all add: bind_final_tool_request_def fields_of_def set_fields_def)

lemma freeze_simps [simp]:
  "rq_args (freeze e tc) = fields_of tc"
  "rq_digest (freeze e tc) = canonical_tool_request_digest e (tc_name tc) (fields_of tc)"
  by (simp_all add: freeze_def)

lemma freeze_bound [simp]: "freeze e (bind_final_tool_request (freeze e tc) tc) = freeze e tc"
  by (simp add: freeze_def)

lemma decided_bound [simp]: "decided e (bind_final_tool_request (freeze e tc) tc) d = decided e tc d"
  by (simp add: decided_def checker_call_def view_of_def)

lemma authorize_keeps:
  "authorize_final_tool_request e tc0 = (tc, a) \<Longrightarrow>
   tc_id tc = tc_id tc0 \<and> tc_name tc = tc_name tc0 \<and> hook_decision tc = hook_decision tc0"
  by (auto simp: authorize_final_tool_request_def Let_def split: option.splits prod.splits)

lemma authorize_decides:
  "authorize_final_tool_request e tc0 = (tc, Authorized r d) \<Longrightarrow>
   r = freeze e tc \<and> be_decide e (checker_call tc) (view_of e tc) = Decided d"
  by (auto simp: authorize_final_tool_request_def Let_def split: option.splits prod.splits if_splits checker_answer.splits)

lemma authorize_ok:
  assumes "authorize_final_tool_request e tc0 = (tc, Authorized r d)" "d_denial d = None" "d_level d \<noteq> ALWAYS_DENY"
  shows "decided e tc d" "r = freeze e tc"
  using authorize_decides [OF assms(1)] assms(2,3) by (simp_all add: decided_def)

lemma warranted_refuse [batch_intros]: "warranted e w (sl_batch l) \<Longrightarrow> warranted e w (refuse why l)"
  by (simp add: refuse_def batch_intros)

lemma on_its_way_batch: "on_its_way e w i n l \<Longrightarrow> warranted e w (sl_batch l)"
  by (simp add: on_its_way_def)

lemma announce_once_way: "on_its_way e w i n l \<Longrightarrow> on_its_way e w i n (announce_once l)"
  by (simp add: announce_once_def on_its_way_def batch_intros)

lemma announce_once_cleared: "cleared e w l \<Longrightarrow> cleared e w (announce_once l)"
  by (simp add: announce_once_def cleared_def batch_intros)

text \<open>A request authorized anew replaces the old one.\<close>

lemma reauthorized:
  assumes l: "on_its_way e w i n l" and a: "authorize_final_tool_request e (set_fields fs (sl_call l)) = (tc, Authorized r d)"
    and d: "\<not> permission_decision_denial d" and b: "warranted e w b"
  shows "on_its_way e w i n (l\<lparr>sl_call := bind_final_tool_request r tc, sl_decision := d, sl_level := d_level d, sl_allowed := False,
    sl_batch := b\<rparr>)"
proof -
  have "d_denial d = None" "d_level d \<noteq> ALWAYS_DENY" using d by (simp_all add: permission_decision_denial_def)
  from authorize_ok [OF a this] authorize_keeps [OF a] l b show ?thesis by (simp add: on_its_way_def)
qed

lemma reauthorize_plan_way:
  assumes l: "on_its_way e w i n l" and n: "\<not> sl_allowed l"
  shows "over_or (warranted e w) (\<lambda>l'. on_its_way e w i n l' \<and> \<not> sl_allowed l') (reauthorize_plan e fs l)"
proof (cases "authorize_final_tool_request e (set_fields fs (sl_call l))")
  case (Pair tc a)
  have b: "warranted e w (sl_batch l)" using l by (rule on_its_way_batch)
  show ?thesis
  proof (cases a)
    case (Refused r why)
    with Pair b show ?thesis by (simp add: reauthorize_plan_def batch_intros)
  next
    case (Authorized r d)
    show ?thesis
    proof (cases "permission_decision_denial d")
      case True
      with Pair Authorized b show ?thesis by (simp add: reauthorize_plan_def Let_def batch_intros)
    next
      case False
      have "l\<lparr>sl_call := bind_final_tool_request r tc, sl_decision := d, sl_level := d_level d\<rparr> =
          l\<lparr>sl_call := bind_final_tool_request r tc, sl_decision := d, sl_level := d_level d, sl_allowed := False,
            sl_batch := sl_batch l\<rparr>"
        using n by simp
      with reauthorized [OF l _ False b, of fs tc r] Pair Authorized n show ?thesis
        by (simp add: reauthorize_plan_def False Let_def bind_if_request_def)
    qed
  qed
qed

lemma hook_updates_input_way:
  assumes l: "on_its_way e w i n l" "\<not> sl_allowed l"
  shows "over_or (warranted e w) (on_its_way e w i n) (hook_updates_input e pa l)"
proof (cases "pa_updated pa")
  case None
  then show ?thesis using l by (simp add: hook_updates_input_def)
next
  case (Some fs)
  have b: "warranted e w (sl_batch l)" using l(1) by (rule on_its_way_batch)
  obtain tc a where p: "authorize_final_tool_request e (set_fields fs (sl_call l)) = (tc, a)" by fastforce
  show ?thesis
  proof (cases a)
    case (Refused r why)
    with p Some b show ?thesis by (simp add: hook_updates_input_def batch_intros)
  next
    case (Authorized r d)
    let ?b = "emit [PolicyDecision (tc_id tc) (d_outcome d)] (sl_batch l)"
    have b1: "warranted e w (emit [PolicyDecision j (d_outcome d)] (sl_batch l))" for j using b by (simp add: batch_intros)
    show ?thesis
    proof (cases "permission_decision_denial d")
      case True
      with p Some Authorized b1 show ?thesis by (simp add: hook_updates_input_def Let_def batch_intros)
    next
      case False
      from reauthorized [OF l(1) _ False b1, of fs tc r] p Authorized
      have "on_its_way e w i n (l\<lparr>sl_call := bind_final_tool_request r tc, sl_decision := d, sl_level := d_level d,
          sl_allowed := False, sl_batch := ?b\<rparr>)" by simp
      with p Some Authorized False l(2) show ?thesis by (simp add: hook_updates_input_def Let_def on_its_way_def b1)
    qed
  qed
qed

lemma way_emit: "on_its_way e w i n l \<Longrightarrow> \<forall>x \<in> set es. runs_nothing x \<Longrightarrow> on_its_way e w i n (l\<lparr>sl_batch := emit es (sl_batch l)\<rparr>)"
  by (simp add: on_its_way_def warranted_emit)

lemma way_floor: "on_its_way e w i n l \<Longrightarrow> on_its_way e w i n (l\<lparr>sl_level := max (sl_level l) CONFIRM\<rparr>)"
  by (cases "d_level (sl_decision l)") (auto simp: on_its_way_def max_def level_order)

lemma way_allow:
  "on_its_way e w i n l \<Longrightarrow> hook_allows w i \<Longrightarrow> d_source (sl_decision l) \<in> set hook_overridable_sources \<Longrightarrow>
   on_its_way e w i n (l\<lparr>sl_allowed := True\<rparr>)"
  by (simp add: on_its_way_def)

lemma hook_decides_way:
  assumes l: "on_its_way e w i n l" and h: "pa_decision pa = u ''allow'' \<Longrightarrow> hook_allows w i"
  shows "on_its_way e w i n (hook_decides pa l)"
proof -
  define l1 where "l1 = (if known_decision (pa_decision pa)
    then l\<lparr>sl_batch := emit [HookDecision (tc_id (sl_call l)) (pa_decision pa)] (sl_batch l)\<rparr> else l)"
  define l2 where "l2 = (if pa_decision pa = u ''ask'' then l1\<lparr>sl_level := max (sl_level l1) CONFIRM\<rparr> else l1)"
  have l1: "on_its_way e w i n l1" using l by (simp add: way_emit l1_def)
  then have way: "on_its_way e w i n l2" by (simp add: l2_def way_floor)
  show ?thesis
    unfolding hook_decides_def Let_def l1_def [symmetric] l2_def [symmetric]
    using h way way_allow [OF way] by (cases "pa_decision pa = u ''allow''") (simp_all split: if_split)
qed

lemma permission_request_hook_way:
  assumes l: "on_its_way e w i n l"
  shows "over_or (warranted e w) (on_its_way e w i n) (permission_request_hook e w l)"
proof -
  let ?l = "l\<lparr>sl_allowed := allowed_by_pre_hook l\<rparr>"
  have l0: "on_its_way e w i n ?l" using l by (auto simp: on_its_way_def allowed_by_pre_hook_def)
  note b = on_its_way_batch [OF l0]
  show ?thesis
  proof (cases "wo_permission_hook w")
    case None
    then show ?thesis using l0 by (simp add: permission_request_hook_def)
  next
    case (Some hook)
    show ?thesis
    proof (cases "allowed_by_pre_hook l \<or> is_exit_plan (sl_call l)")
      case True
      then show ?thesis using Some l0 by (auto simp: permission_request_hook_def)
    next
      case False
      show ?thesis
      proof (cases "hook (sl_call l)")
        case (HookAnswered pa)
        have allows: "pa_decision pa = u ''allow'' \<Longrightarrow> hook_allows w i"
          using Some HookAnswered l by (auto simp: hook_allows_def on_its_way_def)
        have "over_or (warranted e w) (on_its_way e w i n)
            (bind_flow (hook_updates_input e pa ?l) (\<lambda>l1. Next (hook_decides pa l1)))"
          by (rule over_or_bind [OF hook_updates_input_way [OF l0]]) (use False allows in \<open>simp_all add: hook_decides_way\<close>)
        then show ?thesis
          using Some False HookAnswered b by (auto simp: permission_request_hook_def Let_def intro!: batch_intros)
      qed (use Some False b in \<open>auto simp: permission_request_hook_def Let_def intro!: batch_intros\<close>)
    qed
  qed
qed

text \<open>What a user's answer releases: the proposal, whatever object carries it, or an edited plan authorized anew.\<close>

lemma on_its_way_warrant:
  "on_its_way e w i n l \<Longrightarrow>
   d_level (sl_decision l) = AUTO \<or> sl_allowed l \<or> user_approves e w (sl_call l)
     \<or> n = u ''exit_plan_mode'' \<and> (\<exists>shown. tc_id shown = i \<and> tc_name shown = n \<and> user_approves e w shown) \<Longrightarrow>
   cleared e w l"
  unfolding cleared_def warrant_def on_its_way_def
  by (intro conjI exI [of _ "sl_call l"] exI [of _ "sl_decision l"]) auto

lemma approve_plan_cleared:
  assumes l: "on_its_way e w i n (l\<lparr>sl_call := shown\<rparr>)" "\<not> sl_allowed l" and u: "user_approves e w shown"
    and tc: "sl_call l = set_fields fs shown'" "is_exit_plan shown'" "shown'\<lparr>tc_args := tc_args shown\<rparr> = shown"
  shows "over_or (warranted e w) (cleared e w) (approve_plan e w ap l)"
proof -
  let ?l = "l\<lparr>sl_call := shown\<rparr>"
  have same: "set_fields gs (sl_call l) = set_fields gs shown" for gs
  proof -
    have "set_fields gs (shown'\<lparr>tc_args := tc_args shown\<rparr>) = set_fields gs (sl_call l)"
      by (simp add: tc(1) set_fields_def)
    then show ?thesis by (simp only: tc(3))
  qed
  have n: "n = u ''exit_plan_mode''" "tc_id shown = i" "tc_name shown = n"
    using l(1) tc(2,3) by (auto simp: on_its_way_def is_exit_plan_def dest!: arg_cong [of _ _ tc_name])
  have "reauthorize_plan e gs l = reauthorize_plan e gs ?l" for gs
    unfolding reauthorize_plan_def by (simp add: same Let_def refuse_def)
  then have r: "over_or (warranted e w) (\<lambda>l'. on_its_way e w i n l' \<and> \<not> sl_allowed l') (reauthorize_plan e gs l)" for gs
    using reauthorize_plan_way [OF l(1)] l(2) by simp
  have fin: "cleared e w l'" if "on_its_way e w i n l'" for l'
    by (rule on_its_way_warrant [OF that]) (use n u in blast)
  have "is_exit_plan (sl_call l)" using tc by (simp add: is_exit_plan_def)
  then show ?thesis
    unfolding approve_plan_def
    by (simp, intro over_or_bind [OF r])
      (auto split: option.splits json.splits intro!: fin batch_intros simp: on_its_way_def)
qed

lemma take_approval_cleared:
  assumes l: "on_its_way e w i n l" "\<not> sl_allowed l" and p: "proposal = freeze e (sl_call l)"
    and h: "wo_approval w = Some handler" "await_approval e (final_tool_request_digest (sl_call l)) (handler (sl_call l)) = Some ap"
  shows "over_or (warranted e w) (cleared e w) (take_approval e w proposal ap l)"
proof -
  let ?tc = "(sl_call l)\<lparr>tc_args := wo_args_after w (sl_call l)\<rparr>"
  let ?l1 = "l\<lparr>sl_call := ?tc\<rparr>"
  let ?l2 = "?l1\<lparr>sl_batch := (sl_batch l)\<lparr>approved := List.insert (final_tool_request_digest (sl_call l)) (approved (sl_batch l))\<rparr>\<rparr>"
  let ?edited = "set_fields (edited_plan_arguments ap (rq_args proposal)) ?tc"
  let ?l3 = "if is_exit_plan ?tc then ?l2\<lparr>sl_call := ?edited\<rparr> else ?l2"
  note b = on_its_way_batch [OF l(1)]
  have b2: "warranted e w (sl_batch ?l2)" using b by (simp add: batch_intros)
  have goes: "over_or (warranted e w) (cleared e w) (bind_flow (approve_plan e w ap ?l3) (\<lambda>l4. Next (announce_once l4)))"
    if digest: "canonical_tool_request_digest e (tc_name ?tc) (fields_of ?tc) = rq_digest proposal"
      and act: "approval_action e ap \<in> set [u ''approve'', u ''partial'']"
  proof (rule over_or_bind)
    have u: "user_approves e w (sl_call l)" using h act by (auto simp: user_approves_def)
    show "over_or (warranted e w) (cleared e w) (approve_plan e w ap ?l3)"
    proof (cases "is_exit_plan ?tc")
      case True
      have way: "on_its_way e w i n (?l2\<lparr>sl_call := ?edited, sl_call := sl_call l\<rparr>)"
        using l(1) b2 by (simp add: on_its_way_def)
      have "over_or (warranted e w) (cleared e w) (approve_plan e w ap (?l2\<lparr>sl_call := ?edited\<rparr>))"
        by (rule approve_plan_cleared [OF way _ u, where shown' = ?tc]) (use l(2) True in simp_all)
      then show ?thesis using True by simp
    next
      case False
      have "call_warrant e w ?tc"
        unfolding warrant_def
        by (intro exI [of _ "sl_call l"] exI [of _ "sl_decision l"])
          (use l(1) u digest in \<open>simp add: on_its_way_def p\<close>)
      with False b2 show ?thesis by (simp add: approve_plan_def cleared_def)
    qed
  qed (simp add: announce_once_cleared)
  have stays: "warranted e w (refuse why (?l1\<lparr>sl_call := tc\<rparr>))" "warranted e w (refuse why ?l1)"
    "warranted e w (refuse why ?l2)" "warranted e w (stop (sl_batch ?l3))"
    "warranted e w (finalize_tool_result (sl_call ?l3) why' (sl_batch ?l3))" for why why' tc
    using b b2 by (simp_all add: batch_intros)
  have b3: "sl_batch ?l1 = sl_batch l" by simp
  show ?thesis
    unfolding take_approval_def Let_def b3
    by (intro over_or_if goes, unfold over_or.simps) (rule stays | assumption | simp)+
qed

lemma ask_approval_cleared:
  assumes l: "on_its_way e w i n l" "\<not> sl_allowed l"
  shows "over_or (warranted e w) (cleared e w) (ask_approval e w l)"
proof -
  let ?l = "l\<lparr>sl_batch := emit [AskedApproval (tc_id (sl_call l)) (final_tool_request_digest (sl_call l))] (sl_batch l)\<rparr>"
  have l1: "on_its_way e w i n ?l" using l(1) by (rule way_emit) simp
  have bd: "bound (sl_call l) = Some (freeze e (sl_call l))" using l(1) by (simp add: on_its_way_def)
  have "ask_approval e w l = (case wo_approval w of None \<Rightarrow> Over (refuse NoApprovalChannel ?l)
      | Some handler \<Rightarrow> (case await_approval e (final_tool_request_digest (sl_call l)) (handler (sl_call l)) of
          None \<Rightarrow> Over (stop (sl_batch ?l)) | Some ap \<Rightarrow> take_approval e w (freeze e (sl_call l)) ap ?l))"
    by (simp add: ask_approval_def bd Let_def cong: option.case_cong)
  then show ?thesis
    using take_approval_cleared [OF l1, of "freeze e (sl_call l)"] l(2) on_its_way_batch [OF l1]
    by (simp add: batch_intros split: option.split)
qed

lemma obtain_permission_cleared:
  assumes "on_its_way e w i n l" "\<not> sl_allowed l"
  shows "over_or (warranted e w) (cleared e w) (obtain_permission e w l)"
proof (cases "sl_level l = CONFIRM \<or> sl_level l = DIFF_REVIEW")
  case True
  have "over_or (warranted e w) (cleared e w) (if sl_allowed l1 then Next (announce_once l1) else ask_approval e w l1)"
    if "on_its_way e w i n l1" for l1
    using that ask_approval_cleared on_its_way_warrant [of e w i n l1] by (simp add: announce_once_cleared)
  from over_or_bind [OF permission_request_hook_way [OF assms(1)] this] True show ?thesis
    by (simp add: obtain_permission_def)
next
  case False
  then have "d_level (sl_decision l) = AUTO"
    using assms by (cases "sl_level l") (auto simp: on_its_way_def decided_def)
  with False on_its_way_warrant [OF assms(1)] show ?thesis by (simp add: obtain_permission_def)
qed

lemma run_control_or_tool_warranted: "cleared e w l \<Longrightarrow> warranted e w (run_control_or_tool e w l)"
  by (auto simp: run_control_or_tool_def cleared_def Let_def intro!: batch_intros split: option.splits)

lemma execute_serial_warranted:
  assumes s: "warranted e w s" and tc: "bound tc = Some (freeze e tc)" "decided e tc d"
    and hook: "ulower (ustrip (hook_decision tc)) = u ''allow'' \<longrightarrow> hook_allows w (tc_id tc)"
    and level: "level = d_level d \<or> d_level d = AUTO \<and> level = CONFIRM"
  shows "warranted e w (execute_serial e w tc level d s)"
proof -
  let ?l = "\<lparr>sl_call = tc, sl_level = level, sl_decision = d, sl_announced = False, sl_allowed = False, sl_batch = s\<rparr>"
  have l: "on_its_way e w (tc_id tc) (tc_name tc) ?l" using assms by (simp add: on_its_way_def)
  have "over_or (warranted e w) (\<lambda>l'. on_its_way e w (tc_id tc) (tc_name tc) l' \<and> \<not> sl_allowed l') (plan_proposal e w ?l)"
    using reauthorize_plan_way [OF l] l by (simp add: plan_proposal_def)
  from over_or_bind [OF this, of _ "obtain_permission e w"] obtain_permission_cleared
  have "over_or (warranted e w) (cleared e w) (bind_flow (plan_proposal e w ?l) (obtain_permission e w))" by blast
  then show ?thesis
    unfolding execute_serial_def Let_def
    by (cases "bind_flow (plan_proposal e w ?l) (obtain_permission e w)")
      (simp_all add: run_control_or_tool_warranted announce_once_cleared)
qed

section \<open>The whole batch\<close>

lemma admit_call_fields [simp]:
  "trace (snd (admit_call w n tc s)) = trace s" "queue (snd (admit_call w n tc s)) = queue s"
  "stopped (snd (admit_call w n tc s)) = stopped s" "context_results (snd (admit_call w n tc s)) = context_results s"
  "approved (snd (admit_call w n tc s)) = approved s"
  by (simp_all add: admit_call_def split_beta)

lemma apply_decision_warranted:
  assumes s: "warranted e w s" and a: "authorize_final_tool_request e tc0 = (tc1, Authorized r d)"
    and hook: "ulower (ustrip (hook_decision tc0)) = u ''allow'' \<longrightarrow> hook_allows w (tc_id tc0)"
  shows "warranted e w (apply_decision e w r d tc1 s)"
proof -
  define tc where "tc = bind_final_tool_request r tc1"
  define level where "level = (if ulower (ustrip (hook_decision tc)) = u ''ask'' \<and> d_level d = AUTO then CONFIRM else d_level d)"
  define s1 where "s1 = (if d_outcome d \<noteq> Allow \<and> \<not> be_auto_mode e then emit [PolicyDecision (tc_id tc) (d_outcome d)] s else s)"
  have s1: "warranted e w s1" using s by (simp add: s1_def batch_intros)
  have run: "apply_decision e w r d tc1 s =
     (if policy_denial level d then reject_tool_call e w tc PolicyDenied s1
      else if level = AUTO \<and> tc_name tc \<notin> set control_tool_names then (announce tc s1)\<lparr>queue := queue s1 @ [tc]\<rparr>
      else let s2 = flush_queue e w s1 in if stopped s2 then s2 else execute_serial e w tc level d s2)"
    unfolding apply_decision_def Let_def tc_def level_def s1_def ..
  show ?thesis
  proof (cases "policy_denial level d")
    case True
    then show ?thesis using s1 by (simp add: run batch_intros)
  next
    case False
    then have "d_denial d = None" "d_level d \<noteq> ALWAYS_DENY" by (auto simp: policy_denial_def level_def split: if_splits)
    note ok = authorize_ok [OF a this]
    have tc: "decided e tc d" "bound tc = Some (freeze e tc)" using ok by (simp_all add: tc_def)
    have hook': "ulower (ustrip (hook_decision tc)) = u ''allow'' \<longrightarrow> hook_allows w (tc_id tc)"
      using hook authorize_keeps [OF a] by (simp add: tc_def)
    have level: "level = d_level d \<or> d_level d = AUTO \<and> level = CONFIRM" by (simp add: level_def)
    have queued: "warranted e w ((announce tc s1)\<lparr>queue := queue s1 @ [tc]\<rparr>)" if "level = AUTO"
    proof -
      have "d_level d = AUTO" using that by (simp add: level_def split: if_splits)
      then have "call_warrant e w tc" using tc unfolding warrant_def by blast
      with s1 show ?thesis by (simp add: warranted_def announce_def emit_def)
    qed
    have "warranted e w (flush_queue e w s1)" using s1 by (rule flush_queue_warranted)
    with execute_serial_warranted [OF _ tc(2,1) hook' level, of "flush_queue e w s1"] queued False show ?thesis
      by (simp add: run Let_def)
  qed
qed

lemma execute_call_warranted:
  assumes s: "warranted e w s"
  shows "warranted e w (execute_call e w s c)"
proof -
  obtain index raw where c: "c = (index, raw)" by fastforce
  define tc where "tc = normalize_tool_call_event (fallback_id index) raw"
  obtain ok s1 where adm: "admit_call w index tc s = (ok, s1)" by fastforce
  have s1: "warranted e w s1" using s admit_call_fields(1,2) [of w index tc s] adm by (simp add: warranted_def)
  have hooked: "warranted e w (let tc1 = tc\<lparr>tc_args := args, hook_decision := (if is_exit_plan tc then [] else asked)\<rparr> in
      if out_of_scope e tc1 then reject_tool_call e w tc1 OutOfScope (emit [PolicyDecision (tc_id tc1) Deny] s1)
      else (case authorize_final_tool_request e tc1 of
          (tc2, Refused r why) \<Rightarrow> reject_tool_call e w (bind_if_request (Refused r why) tc2) why s1
        | (tc2, Authorized r d) \<Rightarrow> apply_decision e w r d tc2 s1))"
    if h: "wo_pre_hook w tc = PrePassed args asked" for args asked
  proof -
    let ?tc1 = "tc\<lparr>tc_args := args, hook_decision := (if is_exit_plan tc then [] else asked)\<rparr>"
    have "warranted e w (apply_decision e w r d tc2 s1)"
      if "authorize_final_tool_request e ?tc1 = (tc2, Authorized r d)" for tc2 r d
      by (rule apply_decision_warranted [OF s1 that]) (use h in \<open>auto simp: hook_allows_def ustrip_def ulower_def u_def\<close>)
    with s1 show ?thesis by (auto simp: Let_def intro!: batch_intros split: prod.split authorization.split)
  qed
  show ?thesis
    unfolding execute_call_def c
    using s s1 hooked
    by (simp add: tc_def [symmetric] adm batch_intros split: option.split pre_answer.split)
qed

lemma execute_tool_batch_warranted:
  assumes "warranted e w s"
  shows "warranted e w (execute_tool_batch e w calls s)"
proof -
  have "warranted e w (foldl (execute_call e w) s cs)" for cs
    using assms by (induction cs arbitrary: s) (simp_all add: execute_call_warranted)
  then show ?thesis by (simp add: execute_tool_batch_def Let_def flush_queue_warranted)
qed

text \<open>
  Claim C1. Every run of a tool that the trace of a batch shows stands on a decision of the
  permission checker: the checker decided on a request of the same call and tool whose digest is that of
  the arguments run, did not deny it, and let it through by itself, or a hook allowed it where the
  policy leaves that to hooks, or the user approved it. Neither hooks, approvals, edits of arguments while
  they wait, coercion, failing tools nor the order in which parallel tasks end change that.
\<close>

theorem only_decided_requests_run:
  assumes "Ran i n fs xs \<in> set (trace (execute_tool_batch e w calls (new_batch g ds)))"
  shows "warrant e w i n fs"
proof -
  have "warranted e w (new_batch g ds)" by (simp add: warranted_def new_batch_def)
  from execute_tool_batch_warranted [OF this] assms show ?thesis unfolding warranted_def by blast
qed

text \<open>
  Claim C2. With the checker's own decisions, a tool that is denied for all its arguments is
  never run in a batch, whatever hooks, extensions and the user answer and in whatever order tasks end.
\<close>

theorem denied_tool_never_runs:
  assumes "be_decide e = (\<lambda>k v. Decided (evaluate_call s h po k ctx v))"
    and "\<And>args. hard_denied s h \<lparr>k_name = n, k_args = args\<rparr> ctx"
  shows "Ran i n fs xs \<notin> set (trace (execute_tool_batch e w calls (new_batch g ds)))"
proof
  assume run: "Ran i n fs xs \<in> set (trace (execute_tool_batch e w calls (new_batch g ds)))"
  have "warranted e w (new_batch g ds)" by (simp add: warranted_def new_batch_def)
  from execute_tool_batch_warranted [OF this] run have "warrant e w i n fs" unfolding warranted_def by blast
  then obtain tc d where "tc_name tc = n" "decided e tc d" unfolding warrant_def by blast
  then have "d_level (evaluate_call s h po (checker_call tc) ctx (view_of e tc)) \<noteq> ALWAYS_DENY"
    and "hard_denied s h (checker_call tc) ctx"
    using assms by (auto simp: decided_def checker_call_def)
  then show False using hard_denied_level(3) by blast
qed

section \<open>Witnesses\<close>

definition registered_ex :: "permission_level \<Rightarrow> registered" where
  "registered_ex l = \<lparr>rg_view = (\<lambda>fs. tool_ex l (u ''none'')), rg_required = [], rg_prepare = None,
     rg_validate = (\<lambda>fs. (True, fs)), rg_safe = (\<lambda>fs. Inr (l = AUTO)), rg_read_only = (l = AUTO)\<rparr>"

definition env_ex :: batch_env where
  "env_ex = \<lparr>be_tool = (\<lambda>n. Some (registered_ex (if n = u ''read_file'' then AUTO else CONFIRM))), be_sha = (\<lambda>j. u ''sha''),
     be_repr = (\<lambda>j. []), be_visible = (\<lambda>n. True), be_only_reads = False, be_write_scope = [], be_resolve = (\<lambda>p. None),
     be_read_hash = (\<lambda>p. []), be_decide = (\<lambda>k v. Decided (evaluate_call settings_ex host_ex oracle_ex k (Some (context_ex ConfirmMode)) v)),
     be_auto_mode = False\<rparr>"

definition world_ex :: world where
  "world_ex = \<lparr>wo_pre_hook = (\<lambda>tc. PrePassed (tc_args tc) []),
     wo_permission_hook = None, wo_approval = Some (\<lambda>tc. Answered (JObj [(u ''action'', JStr (u ''approve''))])),
     wo_args_after = tc_args, wo_plan = None, wo_run = (\<lambda>tc. RunReturns False), wo_wakes = (\<lambda>tcs. []),
     wo_late = (\<lambda>tc. False), wo_parallel = 4, wo_prompt_setter = False, wo_execution_limit = None\<rparr>"

definition call_ex :: "string \<Rightarrow> string \<Rightarrow> tool_call" where
  "call_ex i n = \<lparr>tc_id = u i, tc_name = u n, tc_args = JObj [(u ''x'', JNull)], arguments_repaired = False, prepare_error = [],
     duplicate_id = False, hook_decision = [], bound = None\<rparr>"

theorem only_decided_requests_run_witness:
  "warrant env_ex world_ex (u ''a'') (u ''write_file'') [(u ''x'', JNull)]"
proof (rule only_decided_requests_run)
  show "Ran (u ''a'') (u ''write_file'') [(u ''x'', JNull)] [(u ''x'', JNull)]
      \<in> set (trace (execute_tool_batch env_ex world_ex [call_ex ''a'' ''write_file'', call_ex ''b'' ''shutdown''] (new_batch None [])))"
    by code_simp
qed

theorem denied_tool_never_runs_witness:
  "Ran (u ''b'') (u ''shutdown'') [(u ''x'', JNull)] [(u ''x'', JNull)]
     \<notin> set (trace (execute_tool_batch env_ex world_ex [call_ex ''a'' ''write_file'', call_ex ''b'' ''shutdown''] (new_batch None [])))"
proof (rule denied_tool_never_runs)
  show "be_decide env_ex = (\<lambda>k v. Decided (evaluate_call settings_ex host_ex oracle_ex k (Some (context_ex ConfirmMode)) v))"
    by (simp add: env_ex_def)
  have "first_match (u ''shutdown'') (s_always_deny settings_ex) \<noteq> []" by code_simp
  then show "hard_denied settings_ex host_ex \<lparr>k_name = u ''shutdown'', k_args = args\<rparr> (Some (context_ex ConfirmMode))" for args
    by (simp add: hard_denied_def)
qed

section \<open>Answers that do not say what they approve\<close>

text \<open>
  The digest of a request is on record as approved before the answer is read to its end: a call refused
  because the user changed its input, and never run, leaves its unchanged form approved for the
  rest of the turn.
\<close>

definition changing_world_ex :: world where
  "changing_world_ex = world_ex\<lparr>wo_approval := Some (\<lambda>tc. Answered (JObj
     [(u ''action'', JStr (u ''approve'')), (u ''updated_input'', JObj [(u ''x'', JStr (u ''safer''))])]))\<rparr>"

lemma refused_call_stays_approved:
  "Replied (u ''a'') (Some NeedsNewApproval) \<in> set (trace (execute_tool_batch env_ex changing_world_ex [call_ex ''a'' ''write_file''] (new_batch None [])))
   \<and> approved (execute_tool_batch env_ex changing_world_ex [call_ex ''a'' ''write_file''] (new_batch None [])) = [u ''sha'']"
  by code_simp

text \<open>
  The action is read in lower case to see whether it approves, and as it is to see whether it approves
  only in part: an answer \<open>Partial\<close> that rejects a file runs the whole call.
\<close>

definition partial_world_ex :: "string \<Rightarrow> world" where
  "partial_world_ex act = world_ex\<lparr>wo_approval := Some (\<lambda>tc. Answered (JObj
     [(u ''action'', JStr (u act)), (u ''decisions'', JObj [(u ''a.py'', JStr (u ''rejected''))])]))\<rparr>"

lemma capital_partial_runs_rejected_files:
  "Replied (u ''a'') (Some PartlyRejected) \<in> set (trace (execute_tool_batch env_ex (partial_world_ex ''partial'') [call_ex ''a'' ''write_file''] (new_batch None [])))
   \<and> Ran (u ''a'') (u ''write_file'') [(u ''x'', JNull)] [(u ''x'', JNull)]
       \<in> set (trace (execute_tool_batch env_ex (partial_world_ex ''Partial'') [call_ex ''a'' ''write_file''] (new_batch None [])))"
  by code_simp

end
