(* ===== verification/ToolCallIds.thy ===== *)
theory ToolCallIds
  imports ToolCalls
begin

text \<open>
  The ids of a prepared batch: whatever ids the model gave its calls, or none, the calls that come
  out of \<open>prepare_tool_call_sequence\<close> have ids that are not blank, carry no surrounding space and
  are pairwise different, so a result can be assigned to its call.
\<close>

section \<open>Numbers in ids\<close>

lemma read_nat_text: "foldl (\<lambda>a d. 10 * a + (d - 48)) 0 (nat_text n) = int n"
proof (induction n rule: nat_text.induct)
  case (1 n)
  show ?case
  proof (cases "n < 10")
    case False
    have "int n = 10 * int (n div 10) + int (n mod 10)" by presburger
    with 1 [OF False] False show ?thesis by (subst nat_text.simps) simp
  qed (subst nat_text.simps, simp)
qed

lemma inj_nat_text: "nat_text m = nat_text n \<longleftrightarrow> m = n"
proof
  assume "nat_text m = nat_text n"
  then have "int m = int n" unfolding read_nat_text [symmetric] by (rule arg_cong)
  then show "m = n" by simp
qed simp

lemma inj_dup_id: "dup_id i m = dup_id i n \<longleftrightarrow> m = n"
  by (simp add: dup_id_def inj_nat_text)

lemma nat_text_last: "nat_text n \<noteq> [] \<and> \<not> uspace (last (nat_text n))"
proof -
  have "\<exists>d. nat_text n \<noteq> [] \<and> last (nat_text n) = 48 + int d \<and> d < 10"
    using nat_text.simps [of n] by (cases "n < 10") (auto intro: exI [of _ "n mod 10"])
  then show ?thesis by (auto simp: uspace_def space_code_def)
qed

section \<open>Ids without surrounding space\<close>

definition id_type :: "ustr \<Rightarrow> bool" where
  "id_type i \<longleftrightarrow> i \<noteq> [] \<and> ustrip i = i"

lemma ustrip_fix: "s \<noteq> [] \<Longrightarrow> \<not> uspace (hd s) \<Longrightarrow> \<not> uspace (last s) \<Longrightarrow> ustrip s = s"
proof -
  assume s: "s \<noteq> []" "\<not> uspace (hd s)" "\<not> uspace (last s)"
  have "lstrip_by uspace s = s" using s(1,2) by (cases s) (simp_all add: lstrip_by_def)
  moreover have "rstrip_by uspace s = s" using s(1,3) by (cases s rule: rev_cases) (simp_all add: rstrip_by_def)
  ultimately show "ustrip s = s" by (simp add: ustrip_def strip_by_def)
qed

lemma id_type_ends: "id_type i \<Longrightarrow> \<not> uspace (hd i)"
proof -
  assume i: "id_type i"
  have e: "\<exists>t. lstrip_by uspace i = ustrip i @ t"
    unfolding ustrip_def strip_by_def using rstrip_by_prefix [of "lstrip_by uspace i" uspace] by blast
  with i obtain t where "lstrip_by uspace i = i @ t" by (auto simp: id_type_def)
  moreover obtain c cs where "i = c # cs" using i by (cases i) (auto simp: id_type_def)
  ultimately show ?thesis using lstrip_by_hd [of uspace i c "cs @ t"] by simp
qed

lemma id_type_suffix:
  assumes "id_type i" "t \<noteq> []" "\<not> uspace (last t)"
  shows "id_type (i @ t)"
proof -
  have "hd (i @ t) = hd i" using assms(1) by (cases i) (auto simp: id_type_def)
  with assms id_type_ends [OF assms(1)] ustrip_fix [of "i @ t"] show ?thesis by (simp add: id_type_def)
qed

lemma id_type_dup: "id_type i \<Longrightarrow> id_type (dup_id i n)"
  using id_type_suffix [of i "u '':dup'' @ nat_text n"] nat_text_last [of n] by (simp add: dup_id_def)

lemma id_type_fallback: "id_type (fallback_id n)"
proof -
  have "id_type (u ''tool_'')" by code_simp
  from id_type_suffix [OF this] nat_text_last show ?thesis by (simp add: fallback_id_def)
qed

lemma id_type_strip: "ustrip i \<noteq> [] \<Longrightarrow> id_type (ustrip i)"
  by (simp add: id_type_def ustrip_idem)

section \<open>A free suffix\<close>

lemma dup_suffix_free: "dup_id i (dup_suffix seen i) \<notin> set seen"
proof -
  let ?ns = "[2..<3 + length seen]"
  have "\<exists>n \<in> set ?ns. dup_id i n \<notin> set seen"
  proof (rule ccontr)
    assume "\<not> ?thesis"
    then have "dup_id i ` set ?ns \<subseteq> set seen" by auto
    then have "card (dup_id i ` set ?ns) \<le> card (set seen)" by (simp add: card_mono)
    also have "\<dots> \<le> length seen" by (rule card_length)
    finally show False by (simp add: card_image inj_on_def inj_dup_id)
  qed
  then obtain n where n: "find (\<lambda>n. dup_id i n \<notin> set seen) ?ns = Some n"
    by (cases "find (\<lambda>n. dup_id i n \<notin> set seen) ?ns") (auto simp: find_None_iff)
  then have "dup_id i n \<notin> set seen" by (auto simp: find_Some_iff)
  with n show ?thesis by (simp add: dup_suffix_def)
qed

lemma dedupe_ids:
  "(\<forall>tc \<in> set (dedupe seen index tcs). id_type (tc_id tc) \<and> tc_id tc \<notin> set seen)
   \<and> distinct (map tc_id (dedupe seen index tcs))"
proof (induction seen index tcs rule: dedupe.induct)
  case (2 seen index tc tcs)
  define base where "base = (if ustrip (tc_id tc) = [] then fallback_id index else ustrip (tc_id tc))"
  define i where "i = (if base \<in> set seen then dup_id base (dup_suffix seen base) else base)"
  have base: "id_type base" by (simp add: base_def id_type_fallback id_type_strip)
  have i: "id_type i" "i \<notin> set seen" using base dup_suffix_free by (simp_all add: i_def id_type_dup)
  have run: "dedupe seen index (tc # tcs) =
      (if tc_id tc = i then tc else tc\<lparr>tc_id := i, duplicate_id := ustrip (tc_id tc) \<noteq> []\<rparr>) # dedupe (i # seen) (Suc index) tcs"
    by (simp only: dedupe.simps Let_def base_def i_def)
  have rest: "(\<forall>tc \<in> set (dedupe (i # seen) (Suc index) tcs). id_type (tc_id tc) \<and> tc_id tc \<notin> set (i # seen))
      \<and> distinct (map tc_id (dedupe (i # seen) (Suc index) tcs))"
    using 2 [OF base_def i_def] .
  then show ?case unfolding run using i by auto
qed simp

lemma dedupe_length [simp]: "length (dedupe seen index tcs) = length tcs"
  by (induction seen index tcs rule: dedupe.induct) (simp_all add: Let_def)

lemma prepare_length [simp]: "length (prepare_tool_call_sequence e tcs) = length tcs"
  by (simp add: prepare_tool_call_sequence_def dedupe_tool_call_ids_def del: upt_Suc)

lemma prepared_ids:
  "(\<forall>tc \<in> set (prepare_tool_call_sequence e tcs). id_type (tc_id tc)) \<and> distinct (map tc_id (prepare_tool_call_sequence e tcs))"
  using dedupe_ids unfolding prepare_tool_call_sequence_def dedupe_tool_call_ids_def by blast

text \<open>
  Claim C16. A prepared batch has as many calls as the model made, and their ids are non-blank
  texts without surrounding space and pairwise different, whatever ids and arguments came in.
\<close>

theorem prepared_ids_are_an_index:
  "list_all (\<lambda>tc. tc_id tc \<noteq> [] \<and> ustrip (tc_id tc) = tc_id tc) (prepare_tool_call_sequence e tcs)
   \<and> distinct (map tc_id (prepare_tool_call_sequence e tcs))
   \<and> length (prepare_tool_call_sequence e tcs) = length tcs"
  using prepared_ids [of e tcs] by (auto simp: list_all_iff id_type_def)

end
