(* ===== verification/ToolBatchOrder.thy ===== *)
theory ToolBatchOrder
  imports ToolBatchProps ToolCallIds "HOL-Library.Multiset"
begin

text \<open>
  What comes out of a batch: every call is answered exactly once and the results enter the model's
  context in the order of the calls, though parallel tasks end in any order.
\<close>

section \<open>Answers\<close>

fun reply_of :: "batch_event \<Rightarrow> ustr option" where
  "reply_of (Replied i why) = Some i"
| "reply_of _ = None"

definition replies :: "batch_event list \<Rightarrow> ustr list" where
  "replies es = List.map_filter reply_of es"

abbreviation ids :: "tool_call list \<Rightarrow> ustr list" where
  "ids tcs \<equiv> map tc_id tcs"

lemma replies_simps [simp]:
  "replies [] = []" "replies (es @ fs) = replies es @ replies fs"
  "replies (e # es) = (case reply_of e of None \<Rightarrow> replies es | Some i \<Rightarrow> i # replies es)"
  by (simp_all add: replies_def List.map_filter_def split: option.split)

text \<open>A batch has answered: the results in the context, and the answers given, are those of these calls.\<close>

definition answered :: "batch \<Rightarrow> ustr list \<Rightarrow> bool" where
  "answered s is \<longleftrightarrow> context_results s = is \<and> mset (replies (trace s)) = mset is"

named_theorems answer_simps \<open>what the operations of a batch do to its answers\<close>

lemma runs_no_reply [simp]: "replies (fst (run_tool_with_timeout e w tc)) = []"
proof -
  have "set (fst (run_tool_with_timeout e w tc)) \<subseteq> {ran tc xs | xs. True}"
    by (auto simp: run_tool_with_timeout_def split: run_answer.splits bool.splits option.splits if_splits)
  moreover have "replies es = []" if "set es \<subseteq> {ran tc xs | xs. True}" for es
    using that by (induction es) (auto simp: ran_def)
  ultimately show ?thesis by blast
qed

lemma emit_fields [answer_simps]:
  "context_results (emit es s) = context_results s" "queue (emit es s) = queue s" "stopped (emit es s) = stopped s"
  "trace (emit es s) = trace s @ es"
  by (simp_all add: emit_def)

lemma settle_fields [answer_simps]:
  "context_results (settle_call tc why s) = context_results s" "queue (settle_call tc why s) = queue s"
  "stopped (settle_call tc why s) = stopped s" "trace (settle_call tc why s) = trace s @ [Replied (tc_id tc) why]"
  by (simp_all add: settle_call_def emit_def)

lemma append_fields [answer_simps]:
  "context_results (append_tool_result i s) = context_results s @ [i]" "queue (append_tool_result i s) = queue s"
  "stopped (append_tool_result i s) = stopped s" "trace (append_tool_result i s) = trace s"
  by (simp_all add: append_tool_result_def)

lemma stop_fields [answer_simps]: "stopped (stop s)" "queue (stop s) = queue s"
  by (simp_all add: stop_def)

lemma announce_fields [answer_simps]:
  "context_results (announce tc s) = context_results s" "queue (announce tc s) = queue s"
  "stopped (announce tc s) = stopped s" "replies (trace (announce tc s)) = replies (trace s)"
  by (simp_all add: announce_def emit_def)

lemma finalize_answers [answer_simps]:
  "queue (finalize_tool_result tc why s) = queue s" "stopped (finalize_tool_result tc why s) = stopped s"
  "answered s is \<Longrightarrow> answered (finalize_tool_result tc why s) (is @ [tc_id tc])"
  by (simp_all add: finalize_tool_result_def answered_def answer_simps)

lemma answered_emit [answer_simps]: "replies es = [] \<Longrightarrow> answered (emit es s) is = answered s is"
  by (simp add: answered_def answer_simps)

lemma answered_announce [answer_simps]: "answered (announce tc s) is = answered s is"
  by (simp add: answered_def answer_simps)

lemma run_serially_answers:
  assumes "answered s is" "\<not> stopped (run_serially e w tc s)"
  shows "answered (run_serially e w tc s) (is @ [tc_id tc])" "queue (run_serially e w tc s) = queue s"
proof -
  obtain es out where r: "run_tool_with_timeout e w tc = (es, out)" by fastforce
  then have "replies es = []" using runs_no_reply [of e w tc] by simp
  with assms r show "answered (run_serially e w tc s) (is @ [tc_id tc])" "queue (run_serially e w tc s) = queue s"
    by (auto simp: run_serially_def Let_def answer_simps split: run_outcome.splits)
qed

section \<open>Parallel batches\<close>

text \<open>Every call of a parallel batch is in one place: running, waiting, done, kept back or in the context.\<close>

definition places :: "tool_call list \<Rightarrow> parallel \<Rightarrow> ustr multiset" where
  "places calls p =
     mset (ids (pl_pending p)) + mset (ids (pl_waiting p)) + mset (map fst (pl_results p))
     + mset (pl_history p) + mset (ids (take (pl_next p) calls))"

definition settled :: "tool_call list \<Rightarrow> parallel \<Rightarrow> ustr multiset" where
  "settled calls p = mset (pl_history p) + mset (ids (take (pl_next p) calls))"

record answers =
  an_ids :: "ustr list"
  an_queue :: "tool_call list"
  an_owed :: "ustr multiset"     \<comment> \<open>kept back or in the context, and still to be answered\<close>

definition in_progress :: "tool_call list \<Rightarrow> answers \<Rightarrow> parallel \<Rightarrow> bool" where
  "in_progress calls a p \<longleftrightarrow>
     distinct (ids calls) \<and> places calls p = mset (ids calls) \<and> pl_next p \<le> length calls
     \<and> context_results (pl_batch p) = an_ids a @ ids (take (pl_next p) calls)
     \<and> mset (replies (trace (pl_batch p))) + an_owed a = mset (an_ids a) + settled calls p
     \<and> queue (pl_batch p) = an_queue a \<and> \<not> stopped (pl_batch p)"

definition held_back :: "tool_call list \<Rightarrow> parallel \<Rightarrow> bool" where
  "held_back calls p \<longleftrightarrow> (pl_next p < length calls \<longrightarrow> tc_id (calls ! pl_next p) \<notin> set (pl_history p))"

lemma distinct_places:
  assumes "in_progress calls a p"
  shows "distinct (ids (pl_pending p) @ ids (pl_waiting p) @ map fst (pl_results p) @ pl_history p @ ids (take (pl_next p) calls))"
proof -
  have "mset (ids (pl_pending p) @ ids (pl_waiting p) @ map fst (pl_results p) @ pl_history p @ ids (take (pl_next p) calls))
      = mset (ids calls)"
    using assms by (simp add: in_progress_def places_def ac_simps)
  moreover have "distinct (ids calls)" using assms by (simp add: in_progress_def)
  ultimately show ?thesis by (metis mset_eq_imp_distinct_iff)
qed

lemma start_ready_tasks_progress:
  "in_progress calls a p \<Longrightarrow> in_progress calls a (start_ready_tasks e w n p)
   \<and> pl_results (start_ready_tasks e w n p) = pl_results p \<and> held_back calls (start_ready_tasks e w n p) = held_back calls p
   \<and> (0 < n \<and> pl_pending (start_ready_tasks e w n p) = [] \<longrightarrow> pl_waiting (start_ready_tasks e w n p) = [])"
proof (induction e w n p rule: start_ready_tasks.induct)
  case (1 e w n p)
  show ?case
  proof (cases "pl_waiting p")
    case Nil
    then show ?thesis using 1 by (simp add: start_ready_tasks.simps)
  next
    case (Cons tc rest)
    let ?p = "p\<lparr>pl_batch := emit (fst (run_tool_with_timeout e w tc)) (pl_batch p),
                 pl_pending := pl_pending p @ [tc], pl_waiting := rest\<rparr>"
    have p: "in_progress calls a ?p"
      using 1(2) Cons by (simp add: in_progress_def places_def settled_def answer_simps)
    have h: "held_back calls ?p = held_back calls p" by (simp add: held_back_def)
    show ?thesis
    proof (cases "length (pl_pending p) < n")
      case True
      then have "start_ready_tasks e w n p = start_ready_tasks e w n ?p"
        using Cons by (subst start_ready_tasks.simps) simp
      with 1(1) [OF Cons True p] h show ?thesis by simp
    next
      case False
      then have "start_ready_tasks e w n p = p" using Cons by (subst start_ready_tasks.simps) simp
      with 1(2) False show ?thesis by auto
    qed
  qed
qed

lemma release_history_progress:
  "in_progress calls a p \<Longrightarrow> in_progress calls a (release_history calls p) \<and> held_back calls (release_history calls p)
   \<and> pl_pending (release_history calls p) = pl_pending p \<and> pl_waiting (release_history calls p) = pl_waiting p
   \<and> pl_results (release_history calls p) = pl_results p"
proof (induction calls p rule: release_history.induct)
  case (1 calls p)
  show ?case
  proof (cases "pl_next p < length calls \<and> tc_id (calls ! pl_next p) \<in> set (pl_history p)")
    case False
    then have "release_history calls p = p" by (subst release_history.simps) auto
    with 1(2) False show ?thesis by (simp add: held_back_def)
  next
    case True
    let ?i = "tc_id (calls ! pl_next p)"
    let ?p = "p\<lparr>pl_history := removeAll ?i (pl_history p), pl_next := Suc (pl_next p),
             pl_batch := append_tool_result ?i (pl_batch p)\<rparr>"
    have next_run: "ids (take (Suc (pl_next p)) calls) = ids (take (pl_next p) calls) @ [?i]"
      using True by (simp add: take_Suc_conv_app_nth)
    have "distinct (pl_history p)" using distinct_places [OF 1(2)] by simp
    then have "mset (removeAll ?i (pl_history p)) = mset (pl_history p) - {#?i#}"
      by (simp add: distinct_remove1_removeAll [symmetric])
    moreover have "?i \<in># mset (pl_history p)" using True by simp
    ultimately have h: "add_mset ?i (mset (removeAll ?i (pl_history p))) = mset (pl_history p)"
      by (simp only: insert_DiffM)
    have "places calls ?p = places calls p" "settled calls ?p = settled calls p"
      unfolding places_def settled_def using next_run h by (simp_all add: h [symmetric] del: take_Suc_conv_app_nth)
    then have "in_progress calls a ?p"
      using 1(2) True next_run by (simp add: in_progress_def answer_simps)
    moreover have "release_history calls p = release_history calls ?p"
      using True by (subst release_history.simps) simp
    ultimately show ?thesis using 1(1) [OF True] by simp
  qed
qed


lemma delete_absent_key: "k \<notin> set (map fst xs) \<Longrightarrow> AList.delete k xs = xs"
  by (induction xs) auto

lemma delete_key_mset: "distinct (map fst xs) \<Longrightarrow> k \<in> set (map fst xs) \<Longrightarrow>
    mset (map fst xs) = add_mset k (mset (map fst (AList.delete k xs)))"
  by (induction xs) (auto simp: delete_absent_key)

lemma emit_ready_result_progress:
  assumes p: "in_progress calls a p" "held_back calls p" and a: "an_owed a = {#}"
  shows "in_progress calls a (emit_ready_result calls p tc) \<and> held_back calls (emit_ready_result calls p tc)
     \<and> pl_pending (emit_ready_result calls p tc) = pl_pending p \<and> pl_waiting (emit_ready_result calls p tc) = pl_waiting p
     \<and> pl_results (emit_ready_result calls p tc) = AList.delete (tc_id tc) (pl_results p)"
proof (cases "map_of (pl_results p) (tc_id tc)")
  case None
  then have "emit_ready_result calls p tc = p" by (simp add: emit_ready_result_def)
  moreover have "tc_id tc \<notin> set (map fst (pl_results p))" using None by (simp add: map_of_eq_None_iff)
  ultimately show ?thesis using p delete_absent_key [of "tc_id tc"] by simp
next
  case (Some why)
  let ?i = "tc_id tc"
  let ?p = "p\<lparr>pl_results := AList.delete ?i (pl_results p), pl_history := List.insert ?i (pl_history p)\<rparr>"
  define q where "q = release_history calls ?p"
  have i: "?i \<in> set (map fst (pl_results p))" using Some by (auto dest: map_of_SomeD intro: rev_image_eqI)
  have d: "distinct (map fst (pl_results p))" "?i \<notin> set (pl_history p)"
    using distinct_places [OF p(1)] i by auto
  note keys = delete_key_mset [OF d(1) i]
  have "places calls ?p = places calls p" "settled calls ?p = add_mset ?i (settled calls p)"
    using d(2) keys by (simp_all add: places_def settled_def List.insert_def)
  then have "in_progress calls (a\<lparr>an_owed := {#?i#}\<rparr>) ?p" using p(1) a by (simp add: in_progress_def)
  from release_history_progress [OF this]
  have q: "in_progress calls (a\<lparr>an_owed := {#?i#}\<rparr>) q" "held_back calls q"
    "pl_pending q = pl_pending p" "pl_waiting q = pl_waiting p" "pl_results q = AList.delete ?i (pl_results p)"
    by (simp_all add: q_def)
  have e: "emit_ready_result calls p tc = q\<lparr>pl_batch := settle_call tc why (pl_batch q)\<rparr>"
    using Some by (simp add: emit_ready_result_def append_ordered_context_result_def Let_def q_def)
  have "in_progress calls a (emit_ready_result calls p tc)"
    unfolding e using q(1) a by (simp add: in_progress_def places_def settled_def answer_simps)
  moreover have "held_back calls (emit_ready_result calls p tc)" unfolding e using q(2) by (simp add: held_back_def)
  ultimately show ?thesis using q(3-) by (simp add: e)
qed

lemma emit_ready_results_progress:
  assumes "in_progress calls a p" "held_back calls p" "an_owed a = {#}"
  shows "in_progress calls a (emit_ready_results calls p) \<and> held_back calls (emit_ready_results calls p)
     \<and> pl_pending (emit_ready_results calls p) = pl_pending p \<and> pl_waiting (emit_ready_results calls p) = pl_waiting p
     \<and> pl_results (emit_ready_results calls p) = []"
proof -
  let ?e = "foldl (emit_ready_result calls)"
  have "in_progress calls a (?e p cs) \<and> held_back calls (?e p cs) \<and> pl_pending (?e p cs) = pl_pending p
      \<and> pl_waiting (?e p cs) = pl_waiting p \<and> set (map fst (pl_results (?e p cs))) = set (map fst (pl_results p)) - set (ids cs)" for cs
    using assms
  proof (induction cs arbitrary: p)
    case (Cons tc cs)
    from emit_ready_result_progress [OF Cons.prems, of tc] Cons.IH [of "emit_ready_result calls p tc"] Cons.prems(3)
    show ?case by (auto simp: delete_keys)
  qed simp
  note run = this [of calls]
  have "mset (map fst (pl_results p)) \<subseteq># places calls p" by (simp add: places_def add.commute add.left_commute)
  then have "set_mset (mset (map fst (pl_results p))) \<subseteq> set_mset (mset (ids calls))"
    using assms(1) by (intro set_mset_mono) (simp add: in_progress_def)
  then have "set (map fst (pl_results p)) - set (ids calls) = {}" by auto
  with run have "set (map fst (pl_results (?e p calls))) = {}" by simp
  then have "pl_results (?e p calls) = []" by simp
  with run show ?thesis by (simp add: emit_ready_results_def)
qed

lemma record_all_places:
  "distinct (map fst (pl_results p) @ ids tcs) \<Longrightarrow>
   mset (map fst (pl_results (foldl (\<lambda>p tc. record_batch_result tc (f tc) p) p tcs))) = mset (map fst (pl_results p)) + mset (ids tcs)"
proof (induction tcs arbitrary: p)
  case (Cons tc tcs)
  have "map fst (pl_results (record_batch_result tc (f tc) p)) = map fst (pl_results p) @ [tc_id tc]"
    using Cons.prems by (simp add: record_batch_result_def update_fresh)
  with Cons.IH [of "record_batch_result tc (f tc) p"] Cons.prems show ?case
    by (simp del: mset_map)
qed simp

lemma in_progress_results:
  assumes "in_progress calls a p" "places calls q = places calls p" "pl_batch q = pl_batch p" "pl_history q = pl_history p"
    "pl_next q = pl_next p"
  shows "in_progress calls a q" "held_back calls q = held_back calls p"
  using assms by (simp_all add: in_progress_def settled_def held_back_def)

lemma time_out_batch_progress:
  assumes p: "in_progress calls a p" "held_back calls p" "an_owed a = {#}"
  shows "in_progress calls a (time_out_batch e w calls p) \<and> held_back calls (time_out_batch e w calls p)
     \<and> pl_pending (time_out_batch e w calls p) = [] \<and> pl_waiting (time_out_batch e w calls p) = []
     \<and> pl_results (time_out_batch e w calls p) = []"
proof -
  let ?p1 = "foldl (\<lambda>p tc. record_batch_result tc (harvest_batch_result e w BatchTimedOut tc) p) p (pl_pending p)"
  let ?p2 = "foldl (\<lambda>p tc. record_batch_result tc (Some NotStarted) p) ?p1 (pl_waiting p)"
  let ?q = "?p2\<lparr>pl_pending := [], pl_waiting := []\<rparr>"
  have d: "distinct (map fst (pl_results p) @ ids (pl_pending p))" "distinct (map fst (pl_results p) @ ids (pl_pending p) @ ids (pl_waiting p))"
    using distinct_places [OF p(1)] by auto
  note one = record_all_places [OF d(1), of "\<lambda>tc. harvest_batch_result e w BatchTimedOut tc"]
  have "mset (map fst (pl_results ?p1) @ ids (pl_waiting p)) = mset (map fst (pl_results p) @ ids (pl_pending p) @ ids (pl_waiting p))"
    using one by simp
  with d(2) have "distinct (map fst (pl_results ?p1) @ ids (pl_waiting p))" by (metis mset_eq_imp_distinct_iff)
  note two = record_all_places [OF this, of "\<lambda>tc. Some NotStarted"]
  have "places calls ?q = places calls p" using one two by (simp add: places_def ac_simps)
  note q = in_progress_results [OF p(1) this]
  have "in_progress calls a ?q" "held_back calls ?q" using q p(2) by simp_all
  from emit_ready_results_progress [OF this p(3)] show ?thesis by (simp add: time_out_batch_def Let_def)
qed

lemma stopped_interrupt: "stopped (pl_batch (interrupt_batch calls p))"
  by (simp add: interrupt_batch_def stop_def)

lemma partition_ids: "mset (ids (filter P tcs)) + mset (ids (filter (\<lambda>tc. \<not> P tc) tcs)) = mset (ids tcs)"
  by (induction tcs) auto

lemma finish_round_progress:
  assumes p: "in_progress calls a p" "held_back calls p" "an_owed a = {#}" "pl_results p = []"
    and q_def: "q = emit_ready_results calls (foldl (\<lambda>p tc. record_batch_result tc (f tc) p)
      (p\<lparr>pl_pending := filter (\<lambda>tc. \<not> P tc) (pl_pending p)\<rparr>) (filter P (pl_pending p)))"
  shows "in_progress calls a q \<and> held_back calls q \<and> pl_results q = []"
proof -
  let ?p = "p\<lparr>pl_pending := filter (\<lambda>tc. \<not> P tc) (pl_pending p)\<rparr>"
  let ?q = "foldl (\<lambda>p tc. record_batch_result tc (f tc) p) ?p (filter P (pl_pending p))"
  have "distinct (ids (pl_pending p))" using distinct_places [OF p(1)] by simp
  then have "distinct (map fst (pl_results ?p) @ ids (filter P (pl_pending p)))"
    using p(4) by (simp add: distinct_map_filter)
  note r = record_all_places [OF this, of f]
  have "places calls ?q = places calls p"
    using r p(4) partition_ids [of P "pl_pending p"] by (simp add: places_def ac_simps)
  note q = in_progress_results [OF p(1) this]
  have "in_progress calls a ?q" "held_back calls ?q" using q p(2) by simp_all
  from emit_ready_results_progress [OF this p(3)] show ?thesis unfolding q_def by blast
qed

lemma parallel_rounds_progress:
  assumes "in_progress calls a p" "held_back calls p" "an_owed a = {#}" "pl_results p = []" "0 < n"
    "pl_pending p = [] \<longrightarrow> pl_waiting p = []" "\<not> stopped (pl_batch (parallel_rounds e w n calls rs p))"
  shows "in_progress calls a (parallel_rounds e w n calls rs p) \<and> held_back calls (parallel_rounds e w n calls rs p)
     \<and> pl_pending (parallel_rounds e w n calls rs p) = [] \<and> pl_waiting (parallel_rounds e w n calls rs p) = []
     \<and> pl_results (parallel_rounds e w n calls rs p) = []"
  using assms
proof (induction rs arbitrary: p)
  case Nil
  then show ?case using time_out_batch_progress [OF Nil(1-3)] by simp
next
  case (Cons r rs)
  note late = time_out_batch_progress [OF Cons.prems(1-3), of e w]
  show ?case
  proof (cases "pl_pending p = []")
    case True
    then show ?thesis using Cons.prems by simp
  next
    case False
    show ?thesis
    proof (cases r)
      case (Finished ended)
      let ?P = "\<lambda>tc. tc_id tc \<in> set ended"
      define q where "q = emit_ready_results calls (foldl (\<lambda>p tc. record_batch_result tc (task_result e w tc) p)
        (p\<lparr>pl_pending := filter (\<lambda>tc. \<not> ?P tc) (pl_pending p)\<rparr>) (filter ?P (pl_pending p)))"
      have q: "in_progress calls a q \<and> held_back calls q \<and> pl_results q = []"
        unfolding q_def by (rule finish_round_progress [OF Cons.prems(1-4) refl])
      let ?q = "start_ready_tasks e w n q"
      have s: "in_progress calls a ?q \<and> held_back calls ?q \<and> pl_results ?q = [] \<and> (pl_pending ?q = [] \<longrightarrow> pl_waiting ?q = [])"
        using start_ready_tasks_progress [of calls a q e w n] q Cons.prems(5) by simp
      have run: "parallel_rounds e w n calls (r # rs) p =
          (if filter ?P (pl_pending p) = [] then time_out_batch e w calls p else parallel_rounds e w n calls rs ?q)"
        unfolding q_def using Finished False by (simp add: Let_def)
      show ?thesis
      proof (cases "filter ?P (pl_pending p) = []")
        case True
        then show ?thesis using late unfolding run by simp
      next
        case later: False
        have "\<not> stopped (pl_batch (parallel_rounds e w n calls rs ?q))" using Cons.prems(7) later unfolding run by simp
        with Cons.IH [of ?q] s Cons.prems(3,5) later show ?thesis unfolding run by simp
      qed
    next
      case DeadlineHit
      then show ?thesis using late False by simp
    next
      case Interrupted
      then show ?thesis using Cons.prems(7) False stopped_interrupt by simp
    qed
  qed
qed

lemma all_released:
  assumes p: "in_progress calls a p" "held_back calls p" "pl_pending p = []" "pl_waiting p = []" "pl_results p = []"
  shows "pl_next p = length calls \<and> pl_history p = []"
proof -
  have m: "mset (pl_history p @ ids (take (pl_next p) calls)) = mset (ids calls)"
    using p by (simp add: in_progress_def places_def)
  have "\<not> pl_next p < length calls"
  proof
    assume l: "pl_next p < length calls"
    let ?i = "tc_id (calls ! pl_next p)"
    have "distinct (ids calls)" using p(1) by (simp add: in_progress_def)
    then have "distinct (take (pl_next p) (ids calls) @ [ids calls ! pl_next p])"
      using l by (metis distinct_take length_map take_Suc_conv_app_nth)
    then have "?i \<notin> set (ids (take (pl_next p) calls))" using l by (simp add: take_map)
    moreover have "?i \<notin> set (pl_history p)" using p(2) l by (simp add: held_back_def)
    moreover have "?i \<in> set (ids calls)" using l by simp
    ultimately show False using mset_eq_setD [OF m] by auto
  qed
  then have n: "pl_next p = length calls" using p(1) by (simp add: in_progress_def)
  with m show ?thesis by simp
qed

lemma run_parallel_answers:
  assumes s: "answered s is" "\<not> stopped s" "distinct (ids calls)" "calls \<noteq> []"
    and r: "\<not> stopped (run_parallel e w calls s)"
  shows "answered (run_parallel e w calls s) (is @ ids calls) \<and> queue (run_parallel e w calls s) = queue s"
proof -
  define n where "n = parallel_tool_concurrency w (length calls)"
  define a where "a = \<lparr>an_ids = is, an_queue = queue s, an_owed = {#}\<rparr>"
  define p where "p = \<lparr>pl_batch = s, pl_pending = [], pl_waiting = calls, pl_results = [], pl_history = [], pl_next = 0\<rparr>"
  define q where "q = parallel_rounds e w n calls (wo_wakes w calls) (start_ready_tasks e w n p)"
  have n: "0 < n" using s(4) by (simp add: n_def parallel_tool_concurrency_def)
  have o: "an_owed a = {#}" by (simp add: a_def)
  have p: "in_progress calls a p" "held_back calls p"
    using s by (simp_all add: in_progress_def a_def p_def places_def settled_def answered_def held_back_def)
  have run: "run_parallel e w calls s = pl_batch q" by (simp add: run_parallel_def q_def n_def p_def Let_def)
  have started: "in_progress calls a (start_ready_tasks e w n p)" "held_back calls (start_ready_tasks e w n p)"
    "pl_results (start_ready_tasks e w n p) = []"
    "pl_pending (start_ready_tasks e w n p) = [] \<longrightarrow> pl_waiting (start_ready_tasks e w n p) = []"
    using start_ready_tasks_progress [OF p(1), of e w n] p(2) n by (simp_all add: p_def)
  have q: "in_progress calls a q \<and> held_back calls q \<and> pl_pending q = [] \<and> pl_waiting q = [] \<and> pl_results q = []"
    unfolding q_def using r parallel_rounds_progress [OF started(1,2) o started(3) n started(4)]
    by (simp add: run q_def)
  then have "pl_next q = length calls \<and> pl_history q = []" using all_released by blast
  with q show ?thesis by (simp add: run in_progress_def settled_def answered_def a_def)
qed

section \<open>The queue\<close>

lemma run_serially_all_answers:
  assumes "answered s is" "\<not> stopped s"
    "\<not> stopped (foldl (\<lambda>s tc. if stopped s then s else run_serially e w tc s) s tcs)"
  shows "answered (foldl (\<lambda>s tc. if stopped s then s else run_serially e w tc s) s tcs) (is @ ids tcs)
    \<and> queue (foldl (\<lambda>s tc. if stopped s then s else run_serially e w tc s) s tcs) = queue s"
  using assms
proof (induction tcs arbitrary: s "is")
  case (Cons tc tcs)
  have stays: "stopped s' \<Longrightarrow> foldl (\<lambda>s tc. if stopped s then s else run_serially e w tc s) s' cs = s'" for s' cs
    by (induction cs) simp_all
  let ?s = "run_serially e w tc s"
  have ok: "\<not> stopped ?s" using Cons.prems stays by auto
  from run_serially_answers [OF Cons.prems(1) ok] Cons.IH [of ?s "is @ [tc_id tc]"] Cons.prems ok show ?case by simp
qed simp

lemma run_one_batch_answers:
  assumes "answered s is" "distinct (ids (snd b))" "\<not> stopped (run_one_batch e w s b)"
  shows "\<not> stopped s \<and> answered (run_one_batch e w s b) (is @ ids (snd b)) \<and> queue (run_one_batch e w s b) = queue s"
proof (cases "stopped s")
  case True
  then show ?thesis using assms(3) by (simp add: run_one_batch_def)
next
  case False
  show ?thesis
  proof (cases "fst b \<and> 1 < length (snd b)")
    case True
    then have r: "run_one_batch e w s b = run_parallel e w (snd b) s" using False by (simp add: run_one_batch_def)
    have "snd b \<noteq> []" using True by auto
    from run_parallel_answers [OF assms(1) False assms(2) this] assms(3) False show ?thesis unfolding r by simp
  next
    case serial: False
    then have r: "run_one_batch e w s b = foldl (\<lambda>s tc. if stopped s then s else run_serially e w tc s) s (snd b)"
      using False unfolding run_one_batch_def by (simp only: if_False)
    from run_serially_all_answers [OF assms(1) False] assms(3) False show ?thesis unfolding r by simp
  qed
qed

lemma run_batches_answers:
  assumes "answered s is" "distinct (ids (concat (map snd bs)))" "\<not> stopped (foldl (run_one_batch e w) s bs)"
  shows "answered (foldl (run_one_batch e w) s bs) (is @ ids (concat (map snd bs))) \<and> queue (foldl (run_one_batch e w) s bs) = queue s"
  using assms
proof (induction bs arbitrary: s "is")
  case (Cons b bs)
  let ?s = "run_one_batch e w s b"
  have stays: "stopped s' \<Longrightarrow> foldl (run_one_batch e w) s' cs = s'" for s' cs
    by (induction cs) (simp_all add: run_one_batch_def)
  have ok: "\<not> stopped ?s" using Cons.prems(3) stays by auto
  have d: "distinct (ids (snd b))" "distinct (ids (concat (map snd bs)))" using Cons.prems(2) by auto
  from run_one_batch_answers [OF Cons.prems(1) d(1) ok] Cons.IH [of ?s "is @ ids (snd b)"] Cons.prems(3) d(2) show ?case by simp
qed simp

text \<open>A batch accounts for calls: those answered and those still queued, in this order.\<close>

definition accounts :: "batch \<Rightarrow> ustr list \<Rightarrow> bool" where
  "accounts s is \<longleftrightarrow> distinct is \<and> (\<exists>js. is = js @ ids (queue s) \<and> answered s js)"

definition cleared_up :: "batch \<Rightarrow> ustr list \<Rightarrow> bool" where
  "cleared_up s is \<longleftrightarrow> \<not> stopped s \<longrightarrow> answered s is \<and> queue s = []"

lemma flush_queue_clears: "accounts s is \<Longrightarrow> cleared_up (flush_queue e w s) is"
proof -
  assume "accounts s is"
  then obtain js where js: "distinct is" "is = js @ ids (queue s)" "answered s js" by (auto simp: accounts_def)
  let ?s = "s\<lparr>queue := []\<rparr>"
  have a: "answered ?s js" using js(3) by (simp add: answered_def)
  have d: "distinct (ids (concat (map snd (batch_tool_calls e (queue s)))))" using js(1,2) by (simp add: batches_concat)
  from run_batches_answers [OF a d] js(2) show ?thesis
    by (auto simp: cleared_up_def flush_queue_def batches_concat)
qed

lemma finalize_clears: "\<not> stopped s \<Longrightarrow> cleared_up s is \<Longrightarrow> cleared_up (finalize_tool_result tc why s) (is @ [tc_id tc])"
  by (auto simp: cleared_up_def answer_simps)

lemma stop_clears: "cleared_up (stop s) is"
  by (simp add: cleared_up_def answer_simps)

lemma emit_clears: "replies es = [] \<Longrightarrow> cleared_up (emit es s) is = cleared_up s is"
  by (simp add: cleared_up_def answer_simps)

lemma announce_clears: "cleared_up (announce tc s) is = cleared_up s is"
  by (simp add: cleared_up_def answer_simps)

lemma reject_clears:
  assumes "accounts s is"
  shows "cleared_up (reject_tool_call e w tc why s) (is @ [tc_id tc])"
proof -
  have f: "cleared_up (flush_queue e w s) is" using assms by (rule flush_queue_clears)
  show ?thesis
  proof (cases "stopped (flush_queue e w s)")
    case True
    then show ?thesis by (simp add: reject_tool_call_def Let_def cleared_up_def)
  next
    case False
    have "\<not> stopped (announce tc (flush_queue e w s))" using False by (simp add: answer_simps)
    from finalize_clears [OF this, of "is" tc "Some why"] f False show ?thesis
      by (simp add: reject_tool_call_def Let_def announce_clears)
  qed
qed

section \<open>Calls that ask for permission\<close>

text \<open>A call on its way has kept its id, and everything before it is answered.\<close>

definition next_up :: "ustr \<Rightarrow> ustr list \<Rightarrow> serial \<Rightarrow> bool" where
  "next_up i is l \<longleftrightarrow> tc_id (sl_call l) = i \<and> \<not> stopped (sl_batch l) \<and> cleared_up (sl_batch l) is"

abbreviation goes_on :: "ustr \<Rightarrow> ustr list \<Rightarrow> serial flow \<Rightarrow> bool" where
  "goes_on i is \<equiv> over_or (\<lambda>s. cleared_up s (is @ [i])) (next_up i is)"

lemma refuse_clears [intro]: "next_up i is l \<Longrightarrow> cleared_up (refuse why l) (is @ [i])"
  using finalize_clears [of "announce (sl_call l) (sl_batch l)" "is" "sl_call l" "Some why"]
  by (auto simp: refuse_def next_up_def announce_clears answer_simps)

lemma next_up_call: "next_up i is l \<Longrightarrow> tc_id tc = i \<Longrightarrow> next_up i is (l\<lparr>sl_call := tc\<rparr>)"
  by (simp add: next_up_def)

lemma next_up_fields [simp]:
  "next_up i is (l\<lparr>sl_level := v\<rparr>) = next_up i is l" "next_up i is (l\<lparr>sl_decision := d\<rparr>) = next_up i is l"
  "next_up i is (l\<lparr>sl_announced := b\<rparr>) = next_up i is l" "next_up i is (l\<lparr>sl_allowed := b\<rparr>) = next_up i is l"
  "replies es = [] \<Longrightarrow> next_up i is (l\<lparr>sl_batch := emit es (sl_batch l)\<rparr>) = next_up i is l"
  "next_up i is (l\<lparr>sl_batch := announce tc (sl_batch l)\<rparr>) = next_up i is l"
  "next_up i is (l\<lparr>sl_batch := (sl_batch l)\<lparr>approved := ds\<rparr>\<rparr>) = next_up i is l"
  by (simp_all add: next_up_def emit_clears announce_clears answer_simps) (simp_all add: cleared_up_def answered_def)

lemma next_up_id: "next_up i is l \<Longrightarrow> tc_id (sl_call l) = i"
  by (simp add: next_up_def)

lemma announce_once_next [simp]: "next_up i is (announce_once l) = next_up i is l"
  by (simp add: announce_once_def next_up_def announce_clears answer_simps)

lemma authorize_id: "authorize_final_tool_request e tc0 = (tc, a) \<Longrightarrow> tc_id tc = tc_id tc0"
  using authorize_keeps by blast

lemma bind_if_request_id [simp]: "tc_id (bind_if_request a tc) = tc_id tc"
  by (simp add: bind_if_request_def split: authorization.split option.split)

lemma reauthorize_plan_goes_on: "next_up i is l \<Longrightarrow> goes_on i is (reauthorize_plan e fs l)"
  by (auto simp: reauthorize_plan_def Let_def next_up_id dest!: authorize_id intro!: next_up_call split: prod.split authorization.split)

lemma plan_proposal_goes_on: "next_up i is l \<Longrightarrow> goes_on i is (plan_proposal e w l)"
  by (simp add: plan_proposal_def reauthorize_plan_goes_on)


lemma hook_updates_input_goes_on: "next_up i is l \<Longrightarrow> goes_on i is (hook_updates_input e pa l)"
proof (cases "pa_updated pa")
  case (Some fs)
  assume l: "next_up i is l"
  obtain tc a where p: "authorize_final_tool_request e (set_fields fs (sl_call l)) = (tc, a)" by fastforce
  have tc: "tc_id tc = i" using authorize_id [OF p] next_up_id [OF l] by simp
  have "next_up i is (l\<lparr>sl_call := tc\<rparr>)" using l tc by (rule next_up_call)
  moreover have "next_up i is (l\<lparr>sl_call := bind_final_tool_request r tc, sl_decision := d, sl_level := v, sl_batch := emit [PolicyDecision j o'] (sl_batch l)\<rparr>)"
    for r d v j o' using l tc by (simp add: next_up_def emit_clears answer_simps)
  ultimately show ?thesis
    using Some p by (auto simp: hook_updates_input_def Let_def split: authorization.split)
qed (simp add: hook_updates_input_def)

lemma hook_decides_goes_on: "next_up i is l \<Longrightarrow> next_up i is (hook_decides pa l)"
  by (simp add: hook_decides_def Let_def)

lemma permission_request_hook_goes_on:
  assumes "next_up i is l"
  shows "goes_on i is (permission_request_hook e w l)"
proof -
  have l: "next_up i is (l\<lparr>sl_allowed := allowed_by_pre_hook l\<rparr>)" using assms by simp
  have "goes_on i is (bind_flow (hook_updates_input e pa (l\<lparr>sl_allowed := allowed_by_pre_hook l\<rparr>)) (\<lambda>l1. Next (hook_decides pa l1)))" for pa
    by (rule over_or_bind [OF hook_updates_input_goes_on [OF l]]) (simp add: hook_decides_goes_on)
  with l show ?thesis
    by (auto simp: permission_request_hook_def Let_def stop_clears next_up_def emit_clears answer_simps
        intro!: refuse_clears split: option.split permission_hook.split)
qed

lemma approve_plan_goes_on:
  assumes "next_up i is l"
  shows "goes_on i is (approve_plan e w ap l)"
proof -
  have "goes_on i is (bind_flow (reauthorize_plan e fs l) (\<lambda>l1. Next (case map_of (fields_of (sl_call l1)) (u ''command_prompts'') of
      Some (JList js) \<Rightarrow>
        if wo_prompt_setter w then l1\<lparr>sl_batch := emit [PromptRules (prompt_rules e (fields_of (sl_call l1)))] (sl_batch l1)\<rparr> else l1
    | _ \<Rightarrow> l1)))" for fs
    by (rule over_or_bind [OF reauthorize_plan_goes_on [OF assms]]) (simp split: option.split json.split)
  with assms show ?thesis by (simp add: approve_plan_def)
qed

lemma take_approval_goes_on:
  assumes l: "next_up i is l"
  shows "goes_on i is (take_approval e w proposal ap l)"
proof -
  let ?tc = "(sl_call l)\<lparr>tc_args := wo_args_after w (sl_call l)\<rparr>"
  let ?l1 = "l\<lparr>sl_call := ?tc\<rparr>"
  let ?l2 = "?l1\<lparr>sl_batch := (sl_batch l)\<lparr>approved := List.insert (final_tool_request_digest (sl_call l)) (approved (sl_batch l))\<rparr>\<rparr>"
  let ?l3 = "if is_exit_plan ?tc then ?l2\<lparr>sl_call := set_fields (edited_plan_arguments ap (rq_args proposal)) ?tc\<rparr> else ?l2"
  have tc: "tc_id (sl_call l) = i" using l by (rule next_up_id)
  have l1: "next_up i is (?l1\<lparr>sl_call := bind_final_tool_request proposal ?tc\<rparr>)" "next_up i is ?l1"
    using l tc by (simp_all add: next_up_def)
  have l2: "next_up i is ?l2" using l tc by (simp add: next_up_def) (simp add: cleared_up_def answered_def)
  have "next_up i is (?l2\<lparr>sl_call := set_fields (edited_plan_arguments ap (rq_args proposal)) ?tc\<rparr>)"
    by (rule next_up_call [OF l2]) (simp add: tc)
  with l2 have l3: "next_up i is ?l3" by (simp split: if_split)
  have fin: "cleared_up (finalize_tool_result (sl_call l') why (sl_batch l')) (is @ [i])" if "next_up i is l'" for l' why
    using finalize_clears [of "sl_batch l'" "is" "sl_call l'" why] that by (simp add: next_up_def)
  have go: "goes_on i is (bind_flow (approve_plan e w ap ?l3) (\<lambda>l4. Next (announce_once l4)))"
    by (rule over_or_bind [OF approve_plan_goes_on [OF l3]]) simp
  have b3: "sl_batch ?l1 = sl_batch l" by simp
  show ?thesis
    unfolding take_approval_def Let_def b3
    by (intro over_or_if go, unfold over_or.simps) (rule refuse_clears l1 l2 fin [OF l3] stop_clears)+
qed

lemma ask_approval_goes_on:
  assumes l: "next_up i is l"
  shows "goes_on i is (ask_approval e w l)"
proof -
  have "next_up i is (l\<lparr>sl_call := tc, sl_batch := emit [AskedApproval j d] (sl_batch l)\<rparr>)" if "tc_id tc = i" for tc j d
    using l that by (simp add: next_up_def emit_clears answer_simps)
  moreover have "next_up i is (l\<lparr>sl_batch := emit [AskedApproval j d] (sl_batch l)\<rparr>)" for j d using l by simp
  ultimately show ?thesis
    using next_up_id [OF l]
    by (auto simp: ask_approval_def Let_def stop_clears intro!: refuse_clears take_approval_goes_on split: option.split)
qed

lemma obtain_permission_goes_on:
  assumes "next_up i is l"
  shows "goes_on i is (obtain_permission e w l)"
proof -
  have "goes_on i is (bind_flow (permission_request_hook e w l)
      (\<lambda>l1. if sl_allowed l1 then Next (announce_once l1) else ask_approval e w l1))"
    by (rule over_or_bind [OF permission_request_hook_goes_on [OF assms]]) (simp add: ask_approval_goes_on)
  with assms show ?thesis by (simp add: obtain_permission_def)
qed

lemma run_control_clears:
  assumes l: "next_up i is l"
  shows "cleared_up (run_control_or_tool e w l) (is @ [i])"
proof -
  have b: "\<not> stopped (sl_batch l)" "answered (sl_batch l) is" "queue (sl_batch l) = []"
    using l by (simp_all add: next_up_def cleared_up_def)
  have "cleared_up (run_serially e w (sl_call l) (sl_batch l)) (is @ [i])"
    unfolding cleared_up_def using run_serially_answers [OF b(2)] b(3) next_up_id [OF l] by auto
  moreover have "cleared_up (finalize_tool_result (sl_call l) None (emit [AskedUser j] (sl_batch l))) (is @ [i])" for j
    using finalize_clears [of "emit [AskedUser j] (sl_batch l)" "is" "sl_call l"] l
    by (simp add: next_up_def emit_clears answer_simps)
  ultimately show ?thesis
    by (auto simp: run_control_or_tool_def Let_def stop_clears split: option.split)
qed

lemma execute_serial_clears:
  assumes "cleared_up s is" "\<not> stopped s"
  shows "cleared_up (execute_serial e w tc level d s) (is @ [tc_id tc])"
proof -
  let ?l = "\<lparr>sl_call = tc, sl_level = level, sl_decision = d, sl_announced = False, sl_allowed = False, sl_batch = s\<rparr>"
  have "next_up (tc_id tc) is ?l" using assms by (simp add: next_up_def)
  then have "goes_on (tc_id tc) is (bind_flow (plan_proposal e w ?l) (obtain_permission e w))"
    by (rule over_or_bind [OF plan_proposal_goes_on obtain_permission_goes_on])
  then show ?thesis
    unfolding execute_serial_def Let_def
    by (cases "bind_flow (plan_proposal e w ?l) (obtain_permission e w)") (simp_all add: run_control_clears)
qed

section \<open>The whole batch\<close>

definition on_account :: "batch \<Rightarrow> ustr list \<Rightarrow> bool" where
  "on_account s is \<longleftrightarrow> \<not> stopped s \<longrightarrow> accounts s is"

lemma cleared_on_account: "distinct is \<Longrightarrow> cleared_up s is \<Longrightarrow> on_account s is"
  by (auto simp: cleared_up_def on_account_def accounts_def)

lemma accounts_emit [answer_simps]: "replies es = [] \<Longrightarrow> accounts (emit es s) is = accounts s is"
  by (simp add: accounts_def answer_simps)

lemma reject_on_account:
  "accounts s is \<Longrightarrow> distinct (is @ [tc_id tc]) \<Longrightarrow> on_account (reject_tool_call e w tc why s) (is @ [tc_id tc])"
  using cleared_on_account reject_clears by blast

lemma apply_decision_on_account:
  assumes "accounts s is" "distinct (is @ [tc_id tc0])"
  shows "on_account (apply_decision e w r d tc0 s) (is @ [tc_id tc0])"
proof -
  define tc where "tc = bind_final_tool_request r tc0"
  define level where "level = (if ulower (ustrip (hook_decision tc)) = u ''ask'' \<and> d_level d = AUTO then CONFIRM else d_level d)"
  define s1 where "s1 = (if d_outcome d \<noteq> Allow \<and> \<not> be_auto_mode e then emit [PolicyDecision (tc_id tc) (d_outcome d)] s else s)"
  have run: "apply_decision e w r d tc0 s =
     (if policy_denial level d then reject_tool_call e w tc PolicyDenied s1
      else if level = AUTO \<and> tc_name tc \<notin> set control_tool_names then (announce tc s1)\<lparr>queue := queue s1 @ [tc]\<rparr>
      else let s2 = flush_queue e w s1 in if stopped s2 then s2 else execute_serial e w tc level d s2)"
    unfolding apply_decision_def Let_def tc_def level_def s1_def ..
  have s1: "accounts s1 is" using assms(1) by (simp add: s1_def answer_simps)
  have tc: "tc_id tc = tc_id tc0" by (simp add: tc_def)
  have d: "distinct (is @ [tc_id tc])" using assms(2) tc by simp
  have "accounts ((announce tc s1)\<lparr>queue := queue s1 @ [tc]\<rparr>) (is @ [tc_id tc])"
    using s1 d by (simp add: accounts_def) (auto simp: answered_def answer_simps)
  moreover have "on_account (execute_serial e w tc level d (flush_queue e w s1)) (is @ [tc_id tc])"
    if "\<not> stopped (flush_queue e w s1)"
    using cleared_on_account [OF d execute_serial_clears [OF flush_queue_clears [OF s1] that]] .
  ultimately show ?thesis
    unfolding run tc [symmetric] using reject_on_account [OF s1 d]
    by (simp add: Let_def) (simp add: on_account_def)
qed

lemma normalized_id: "id_type (tc_id tc) \<Longrightarrow> tc_id (normalize_tool_call_event i tc) = tc_id tc"
  by (simp add: normalize_tool_call_event_def id_type_def)

lemma execute_call_on_account:
  assumes s: "on_account s is" and i: "distinct (is @ [tc_id raw])" "id_type (tc_id raw)"
  shows "on_account (execute_call e w s (index, raw)) (is @ [tc_id raw])"
proof (cases "stopped s")
  case True
  then show ?thesis by (simp add: execute_call_def Let_def on_account_def split: prod.split)
next
  case False
  define tc where "tc = normalize_tool_call_event (fallback_id index) raw"
  obtain ok s1 where adm: "admit_call w index tc s = (ok, s1)" by fastforce
  have "accounts s1 is = accounts s is"
    using admit_call_fields [of w index tc s] adm by (simp add: accounts_def answered_def)
  then have s1: "accounts s1 is" using s False by (simp add: on_account_def)
  have tc: "tc_id tc = tc_id raw" using i(2) by (simp add: tc_def normalized_id)
  have d: "distinct (is @ [tc_id tc])" using i(1) tc by simp
  have rej: "on_account (reject_tool_call e w tc' why s') (is @ [tc_id tc])"
    if "tc_id tc' = tc_id tc" "accounts s' is" for tc' why s'
    using reject_on_account [of s' "is" tc'] that d by simp
  have stp: "on_account (stop s') js" for s' js by (simp add: on_account_def answer_simps)
  have emi: "accounts (emit [PolicyDecision j Deny] s1) is" for j using s1 by (simp add: answer_simps)
  have app: "on_account (apply_decision e w r dec tc2 s1) (is @ [tc_id tc])" if "tc_id tc2 = tc_id tc" for r dec tc2
    using apply_decision_on_account [OF s1, of tc2] that d by simp
  have hooked: "on_account (let tc1 = tc\<lparr>tc_args := args, hook_decision := (if is_exit_plan tc then [] else asked)\<rparr> in
      if out_of_scope e tc1 then reject_tool_call e w tc1 OutOfScope (emit [PolicyDecision (tc_id tc1) Deny] s1)
      else (case authorize_final_tool_request e tc1 of
          (tc2, Refused r why) \<Rightarrow> reject_tool_call e w (bind_if_request (Refused r why) tc2) why s1
        | (tc2, Authorized r d) \<Rightarrow> apply_decision e w r d tc2 s1)) (is @ [tc_id tc])" for args asked
    by (auto simp: Let_def emi s1 intro!: rej app dest!: authorize_id split: prod.split authorization.split)
  have "on_account (execute_call e w s (index, raw)) (is @ [tc_id tc])"
    unfolding execute_call_def
    using False hooked
    by (simp add: tc_def [symmetric] adm rej s1 stp split: option.split pre_answer.split)
  then show ?thesis by (simp add: tc)
qed

lemma execute_calls_on_account:
  "on_account s is \<Longrightarrow> distinct (is @ ids (map snd cs)) \<Longrightarrow> \<forall>c \<in> set cs. id_type (tc_id (snd c)) \<Longrightarrow>
   on_account (foldl (execute_call e w) s cs) (is @ ids (map snd cs))"
proof (induction cs arbitrary: s "is")
  case (Cons c cs)
  obtain n raw where c: "c = (n, raw)" by fastforce
  have "on_account (execute_call e w s c) (is @ [tc_id raw])"
    unfolding c by (rule execute_call_on_account) (use Cons.prems c in auto)
  from Cons.IH [OF this] Cons.prems c show ?case by simp
qed simp

lemma execute_tool_batch_answers:
  assumes "distinct (ids calls)" "\<forall>tc \<in> set calls. id_type (tc_id tc)"
  shows "cleared_up (execute_tool_batch e w calls (new_batch g ds)) (ids calls)"
proof -
  let ?s = "foldl (execute_call e w) (new_batch g ds) (zip [1..<Suc (length calls)] calls)"
  have z: "map snd (zip [1..<Suc (length calls)] calls) = calls" by (simp add: map_snd_zip del: upt_Suc)
  have "on_account (new_batch g ds) []" by (simp add: on_account_def accounts_def new_batch_def answered_def)
  moreover have "\<forall>c \<in> set (zip [1..<Suc (length calls)] calls). id_type (tc_id (snd c))"
    using assms(2) in_set_zipE by fastforce
  ultimately have "on_account ?s ([] @ ids (map snd (zip [1..<Suc (length calls)] calls)))"
    using assms(1) by (intro execute_calls_on_account) (simp_all only: z append_Nil)
  then have "on_account ?s (ids calls)" unfolding z by simp
  then show ?thesis
    using flush_queue_clears by (auto simp: execute_tool_batch_def Let_def on_account_def cleared_up_def)
qed

text \<open>
  Claim C3. When the batch of the calls the model made, prepared, comes to its end, every call
  has been answered exactly once, and the results stand in the model's context in the order of the calls,
  whatever is refused, asked, runs in parallel, fails or times out on the way.
\<close>

theorem every_call_answered_in_order:
  assumes "calls = prepare_tool_call_sequence e raw" "s = execute_tool_batch e w calls (new_batch g ds)" "\<not> stopped s"
  shows "context_results s = map tc_id calls \<and> mset (replies (trace s)) = mset (map tc_id calls) \<and> queue s = []"
  using execute_tool_batch_answers [of calls e w g ds] prepared_ids [of e raw] assms
  by (simp add: cleared_up_def answered_def)

definition calls_ex :: "tool_call list" where
  "calls_ex = [call_ex ''a'' ''read_file'', call_ex ''a'' ''read_file'', call_ex [] ''read_file'',
     call_ex ''c'' ''shutdown'', call_ex ''d'' ''write_file'']"

definition out_of_order_ex :: world where
  "out_of_order_ex = world_ex\<lparr>wo_wakes := (\<lambda>tcs. [Finished [u ''tool_3''], Finished [u ''a'', u ''a:dup2'']])\<rparr>"

theorem every_call_answered_in_order_witness:
  "context_results (execute_tool_batch env_ex out_of_order_ex (prepare_tool_call_sequence env_ex calls_ex) (new_batch None []))
   = [u ''a'', u ''a:dup2'', u ''tool_3'', u ''c'', u ''d'']"
proof -
  have "\<not> stopped (execute_tool_batch env_ex out_of_order_ex (prepare_tool_call_sequence env_ex calls_ex) (new_batch None []))"
    by code_simp
  moreover have "map tc_id (prepare_tool_call_sequence env_ex calls_ex) = [u ''a'', u ''a:dup2'', u ''tool_3'', u ''c'', u ''d'']"
    by code_simp
  ultimately show ?thesis using every_call_answered_in_order [OF refl refl] by metis
qed

end
