(* ===== verification/ToolBatchAlone.thy ===== *)
theory ToolBatchAlone
  imports ToolBatchOrder
begin

text \<open>
  Which tools run at the same time. What holds of a batch as long as tools are run one after
  another, or in a parallel batch of calls that declare themselves safe, is the locale
  \<open>batch_invariant\<close>; the traffic of a batch is one such property.
\<close>

section \<open>Invariants of a batch\<close>

locale batch_invariant =
  fixes e :: batch_env and w :: world and P :: "batch \<Rightarrow> bool"
  assumes silent: "P s \<Longrightarrow> trace s' = trace s @ es \<Longrightarrow> list_all runs_nothing es \<Longrightarrow> stopped s' = stopped s \<Longrightarrow> P s'"
    and stopping: "P s \<Longrightarrow> P (stop s)"
    and serially: "P s \<Longrightarrow> \<not> stopped s \<Longrightarrow> P (run_serially e w tc s)"
    and parallelly: "P s \<Longrightarrow> \<not> stopped s \<Longrightarrow> list_all (is_concurrency_safe e) tcs \<Longrightarrow> P (run_parallel e w tcs s)"
begin

lemma emits: "P s \<Longrightarrow> list_all runs_nothing es \<Longrightarrow> P (emit es s)"
  by (rule silent [of s _ es]) (simp_all add: answer_simps)

lemma announces: "P s \<Longrightarrow> P (announce tc s)"
  unfolding announce_def by (rule emits) simp_all

lemma same_trace: "P s \<Longrightarrow> trace s' = trace s \<Longrightarrow> stopped s' = stopped s \<Longrightarrow> P s'"
  by (rule silent [of s _ "[]"]) simp_all

lemma finalizes: "P s \<Longrightarrow> P (finalize_tool_result tc why s)"
  unfolding finalize_tool_result_def
  by (rule silent [of s _ "[Replied (tc_id tc) why]"]) (simp_all add: answer_simps)

lemma one_batch: "P s \<Longrightarrow> (fst b \<longrightarrow> list_all (is_concurrency_safe e) (snd b)) \<Longrightarrow> P (run_one_batch e w s b)"
proof -
  assume a: "P s" "fst b \<longrightarrow> list_all (is_concurrency_safe e) (snd b)"
  have "P (foldl (\<lambda>s tc. if stopped s then s else run_serially e w tc s) s tcs)" for tcs
    using a(1) by (induction tcs arbitrary: s) (simp_all add: serially)
  with a show ?thesis by (simp add: run_one_batch_def parallelly)
qed

lemma flushes: "P s \<Longrightarrow> P (flush_queue e w s)"
proof -
  assume s: "P s"
  let ?ok = "\<lambda>bs. list_all (\<lambda>b. fst b \<longrightarrow> list_all (is_concurrency_safe e) (snd b)) bs"
  have step: "?ok (add_to_batches e bs tc)" if "?ok bs" for bs tc
    using that by (cases bs rule: rev_cases) (auto simp: add_to_batches_def Let_def)
  have "?ok (foldl (add_to_batches e) bs tcs)" if "?ok bs" for bs tcs
    using that by (induction tcs arbitrary: bs) (simp_all add: step)
  then have ok: "?ok (batch_tool_calls e (queue s))" by (simp add: batch_tool_calls_def)
  have "P (foldl (run_one_batch e w) s' bs)" if "P s'" "?ok bs" for s' bs
    using that by (induction bs arbitrary: s') (simp_all add: one_batch)
  moreover have "P (s\<lparr>queue := []\<rparr>)" using s by (rule same_trace) simp_all
  ultimately show ?thesis using ok by (simp add: flush_queue_def)
qed

lemma rejects: "P s \<Longrightarrow> P (reject_tool_call e w tc why s)"
  by (simp add: reject_tool_call_def Let_def flushes announces finalizes)

text \<open>Asking for permission runs nothing.\<close>

definition goes :: "serial \<Rightarrow> bool" where
  "goes l \<longleftrightarrow> P (sl_batch l) \<and> \<not> stopped (sl_batch l)"

lemma refuses: "goes l \<Longrightarrow> P (refuse why l)"
  by (simp add: goes_def refuse_def announces finalizes)

lemma goes_fields [simp]:
  "goes (l\<lparr>sl_call := tc\<rparr>) = goes l" "goes (l\<lparr>sl_level := v\<rparr>) = goes l" "goes (l\<lparr>sl_decision := d\<rparr>) = goes l"
  "goes (l\<lparr>sl_announced := b\<rparr>) = goes l" "goes (l\<lparr>sl_allowed := b\<rparr>) = goes l"
  by (simp_all add: goes_def)

lemma goes_emit [intro]: "goes l \<Longrightarrow> list_all runs_nothing es \<Longrightarrow> goes (l\<lparr>sl_batch := emit es (sl_batch l)\<rparr>)"
  by (simp add: goes_def emits answer_simps)

lemma announces_once: "goes l \<Longrightarrow> goes (announce_once l)"
  by (simp add: announce_once_def goes_def announces answer_simps)

lemma reauthorizes: "goes l \<Longrightarrow> over_or P goes (reauthorize_plan e fs l)"
  by (auto simp: reauthorize_plan_def Let_def intro!: refuses split: prod.split authorization.split)

lemma updates_input: "goes l \<Longrightarrow> over_or P goes (hook_updates_input e pa l)"
proof -
  assume l: "goes l"
  have "goes (l\<lparr>sl_call := tc, sl_decision := d, sl_level := v, sl_batch := emit [PolicyDecision j o'] (sl_batch l)\<rparr>)" for tc d v j o'
    using l by (simp add: goes_def emits answer_simps)
  with l show ?thesis
    by (auto simp: hook_updates_input_def Let_def intro!: refuses split: prod.split authorization.split option.split)
qed

lemma decides: "goes l \<Longrightarrow> goes (hook_decides pa l)"
  by (simp add: hook_decides_def Let_def goes_emit)

lemma asks_hook: "goes l \<Longrightarrow> over_or P goes (permission_request_hook e w l)"
proof -
  assume l: "goes l"
  let ?l = "l\<lparr>sl_allowed := allowed_by_pre_hook l\<rparr>"
  have l0: "goes ?l" using l by simp
  have d: "goes (?l\<lparr>sl_batch := emit [HookDecision j n] (sl_batch ?l)\<rparr>)" for j n using l0 by (rule goes_emit) simp
  have "over_or P goes (bind_flow (hook_updates_input e pa ?l) (\<lambda>l1. Next (hook_decides pa l1)))" for pa
    by (rule over_or_bind [OF updates_input [OF l0]]) (simp add: decides)
  with l0 d show ?thesis
    by (auto simp: permission_request_hook_def Let_def goes_def intro!: stopping refuses split: option.split permission_hook.split)
qed

lemma approves_plan: "goes l \<Longrightarrow> over_or P goes (approve_plan e w ap l)"
proof -
  assume l: "goes l"
  have "over_or P goes (bind_flow (reauthorize_plan e fs l) (\<lambda>l1. Next (case map_of (fields_of (sl_call l1)) (u ''command_prompts'') of
      Some (JList js) \<Rightarrow>
        if wo_prompt_setter w then l1\<lparr>sl_batch := emit [PromptRules (prompt_rules e (fields_of (sl_call l1)))] (sl_batch l1)\<rparr> else l1
    | _ \<Rightarrow> l1)))" for fs
    by (rule over_or_bind [OF reauthorizes [OF l]]) (simp split: option.split json.split add: goes_emit)
  with l show ?thesis by (simp add: approve_plan_def)
qed

lemma takes_approval: "goes l \<Longrightarrow> over_or P goes (take_approval e w proposal ap l)"
proof -
  assume l: "goes l"
  let ?tc = "(sl_call l)\<lparr>tc_args := wo_args_after w (sl_call l)\<rparr>"
  let ?l1 = "l\<lparr>sl_call := ?tc\<rparr>"
  let ?l2 = "?l1\<lparr>sl_batch := (sl_batch l)\<lparr>approved := List.insert (final_tool_request_digest (sl_call l)) (approved (sl_batch l))\<rparr>\<rparr>"
  let ?l3 = "if is_exit_plan ?tc then ?l2\<lparr>sl_call := set_fields (edited_plan_arguments ap (rq_args proposal)) ?tc\<rparr> else ?l2"
  have l1: "goes (?l1\<lparr>sl_call := tc\<rparr>)" "goes ?l1" for tc using l by simp_all
  have "P ((sl_batch l)\<lparr>approved := ds\<rparr>)" for ds by (rule same_trace [of "sl_batch l"]) (use l in \<open>simp_all add: goes_def\<close>)
  then have l2: "goes ?l2" using l by (simp add: goes_def)
  then have l3: "goes ?l3" by (simp add: goes_def)
  have fin: "P (finalize_tool_result (sl_call ?l3) why (sl_batch ?l3))" "P (stop (sl_batch ?l3))" for why
    using l3 unfolding goes_def by (blast intro: finalizes stopping)+
  have go: "over_or P goes (bind_flow (approve_plan e w ap ?l3) (\<lambda>l4. Next (announce_once l4)))"
    by (rule over_or_bind [OF approves_plan [OF l3]]) (simp add: announces_once)
  have b3: "sl_batch ?l1 = sl_batch l" by simp
  show ?thesis
    unfolding take_approval_def Let_def b3
    by (intro over_or_if go, unfold over_or.simps) (rule refuses l1 l2 fin)+
qed

lemma asks_user: "goes l \<Longrightarrow> over_or P goes (ask_approval e w l)"
proof -
  assume l: "goes l"
  have "goes (l\<lparr>sl_call := tc, sl_batch := emit [AskedApproval j d] (sl_batch l)\<rparr>)" for tc j d
    using l by (simp add: goes_def emits answer_simps)
  moreover have "goes (l\<lparr>sl_batch := emit [AskedApproval j d] (sl_batch l)\<rparr>)" for j d using l by (rule goes_emit) simp
  moreover have "P (stop (emit [AskedApproval j d] (sl_batch l)))" for j d
    using l by (simp add: goes_def stopping emits)
  ultimately show ?thesis
    by (auto simp: ask_approval_def Let_def intro!: refuses takes_approval split: option.split)
qed

lemma obtains_permission: "goes l \<Longrightarrow> over_or P goes (obtain_permission e w l)"
proof -
  assume l: "goes l"
  have "over_or P goes (bind_flow (permission_request_hook e w l)
      (\<lambda>l1. if sl_allowed l1 then Next (announce_once l1) else ask_approval e w l1))"
    by (rule over_or_bind [OF asks_hook [OF l]]) (simp add: asks_user announces_once)
  with l show ?thesis by (simp add: obtain_permission_def)
qed

lemma executes_serially: "P s \<Longrightarrow> \<not> stopped s \<Longrightarrow> P (execute_serial e w tc level d s)"
proof -
  assume s: "P s" "\<not> stopped s"
  let ?l = "\<lparr>sl_call = tc, sl_level = level, sl_decision = d, sl_announced = False, sl_allowed = False, sl_batch = s\<rparr>"
  have l: "goes ?l" using s by (simp add: goes_def)
  then have "over_or P goes (plan_proposal e w ?l)" by (simp add: plan_proposal_def reauthorizes)
  then have "over_or P goes (bind_flow (plan_proposal e w ?l) (obtain_permission e w))"
    by (rule over_or_bind [OF _ obtains_permission])
  moreover have "P (run_control_or_tool e w l1)" if "goes l1" for l1
    using that by (auto simp: run_control_or_tool_def Let_def goes_def intro!: serially stopping emits finalizes split: option.split)
  ultimately show ?thesis
    unfolding execute_serial_def Let_def
    by (cases "bind_flow (plan_proposal e w ?l) (obtain_permission e w)") (simp_all add: announces_once)
qed

lemma applies_decision: "P s \<Longrightarrow> P (apply_decision e w r d tc s)"
proof -
  assume s: "P s"
  have q: "P (s'\<lparr>queue := ts\<rparr>)" if "P s'" for s' ts using that by (rule same_trace) simp_all
  show ?thesis
    unfolding apply_decision_def Let_def
    using s by (simp add: q rejects announces emits flushes executes_serially)
qed

lemma executes_call: "P s \<Longrightarrow> P (execute_call e w s c)"
proof -
  assume s: "P s"
  obtain index raw where c: "c = (index, raw)" by fastforce
  define tc where "tc = normalize_tool_call_event (fallback_id index) raw"
  obtain ok s1 where adm: "admit_call w index tc s = (ok, s1)" by fastforce
  have s1: "P s1" by (rule same_trace [OF s]) (use admit_call_fields [of w index tc s] adm in simp_all)
  have "P (reject_tool_call e w tc1 OutOfScope (emit [PolicyDecision j Deny] s1))" for tc1 j
    by (intro rejects emits s1) simp
  with s s1 show ?thesis
    unfolding execute_call_def c
    by (simp add: tc_def [symmetric] adm rejects stopping applies_decision Let_def split: option.split pre_answer.split prod.split authorization.split)
qed

lemma executes_batch: "P s \<Longrightarrow> P (execute_tool_batch e w calls s)"
proof -
  assume s: "P s"
  have "P (foldl (execute_call e w) s cs)" for cs using s by (induction cs arbitrary: s) (simp_all add: executes_call)
  then show ?thesis by (simp add: execute_tool_batch_def Let_def flushes)
qed

end

section \<open>The traffic of a batch\<close>

text \<open>
  The traffic of a trace, read from its start: the runs that have no answer yet, each with whether it
  declared itself safe. \<open>None\<close> is a violation: a run beside another one that are not both safe.
\<close>

definition safe_request :: "batch_env \<Rightarrow> ustr \<Rightarrow> fields \<Rightarrow> bool" where
  "safe_request e n fs = (case be_tool e n of
     None \<Rightarrow> False | Some t \<Rightarrow> (case rg_safe t fs of Inr b \<Rightarrow> b | Inl _ \<Rightarrow> False))"

fun traffic :: "(ustr \<Rightarrow> fields \<Rightarrow> bool) \<Rightarrow> (ustr \<times> bool) list \<Rightarrow> batch_event list \<Rightarrow> (ustr \<times> bool) list option" where
  "traffic safe busy [] = Some busy"
| "traffic safe busy (Ran i n fs xs # es) =
     (if busy = [] \<or> safe n fs \<and> list_all snd busy then traffic safe ((i, safe n fs) # busy) es else None)"
| "traffic safe busy (Replied i why # es) = traffic safe (filter (\<lambda>r. fst r \<noteq> i) busy) es"
| "traffic safe busy (_ # es) = traffic safe busy es"

lemma traffic_append: "traffic safe busy (es @ fs) = Option.bind (traffic safe busy es) (\<lambda>b. traffic safe b fs)"
  by (induction safe busy es rule: traffic.induct) simp_all

lemma safe_call: "is_concurrency_safe e tc = safe_request e (tc_name tc) (fields_of tc)"
  by (simp add: is_concurrency_safe_def safe_request_def)

lemma traffic_silent: "list_all runs_nothing es \<Longrightarrow> \<exists>b. traffic safe busy es = Some b \<and> set b \<subseteq> set busy"
proof (induction es arbitrary: busy)
  case (Cons x es)
  show ?case
  proof (cases x)
    case (Replied i why)
    with Cons.IH [of "filter (\<lambda>r. fst r \<noteq> i) busy"] Cons.prems show ?thesis by auto
  qed (use Cons in auto)
qed simp

definition quiet :: "batch_env \<Rightarrow> batch \<Rightarrow> bool" where
  "quiet e s \<longleftrightarrow> (\<exists>b. traffic (safe_request e) [] (trace s) = Some b \<and> (\<not> stopped s \<longrightarrow> b = []))"

lemma one_run: "\<exists>xs. fst (run_tool_with_timeout e w tc) = [] \<or> fst (run_tool_with_timeout e w tc) = [ran tc xs]"
  by (auto simp: run_tool_with_timeout_def split: run_answer.splits bool.splits option.splits if_splits)

lemma quiet_serially: "quiet e s \<Longrightarrow> \<not> stopped s \<Longrightarrow> quiet e (run_serially e w tc s)"
proof -
  assume s: "quiet e s" "\<not> stopped s"
  obtain es out where r: "run_tool_with_timeout e w tc = (es, out)" by fastforce
  obtain xs where "es = [] \<or> es = [ran tc xs]" using one_run [of e w tc] r by auto
  with s r show ?thesis
    by (cases out) (auto simp: run_serially_def Let_def quiet_def traffic_append ran_def finalize_tool_result_def stop_def answer_simps)
qed

subsection \<open>Parallel batches\<close>

definition all_safe :: "batch_env \<Rightarrow> tool_call list \<Rightarrow> parallel \<Rightarrow> bool" where
  "all_safe e calls p \<longleftrightarrow>
     (\<exists>b. traffic (safe_request e) [] (trace (pl_batch p)) = Some b
        \<and> (\<forall>r \<in> set b. snd r \<and> fst r \<in> set (ids (pl_pending p)) \<union> set (map fst (pl_results p))))
     \<and> set (ids (pl_pending p)) \<union> set (ids (pl_waiting p)) \<union> set (map fst (pl_results p)) \<subseteq> set (ids calls)
     \<and> list_all (is_concurrency_safe e) (pl_waiting p)"

lemma start_ready_tasks_safe: "all_safe e calls p \<Longrightarrow> all_safe e calls (start_ready_tasks e w n p)
    \<and> pl_results (start_ready_tasks e w n p) = pl_results p"
proof (induction e w n p rule: start_ready_tasks.induct)
  case (1 e w n p)
  show ?case
  proof (cases "pl_waiting p")
    case Nil
    then show ?thesis using 1 by (simp add: start_ready_tasks.simps)
  next
    case (Cons tc rest)
    let ?p = "p\<lparr>pl_batch := emit (fst (run_tool_with_timeout e w tc)) (pl_batch p),
                 pl_pending := pl_pending p @ [tc], pl_waiting := rest\<rparr>"
    obtain xs where es: "fst (run_tool_with_timeout e w tc) = [] \<or> fst (run_tool_with_timeout e w tc) = [ran tc xs]"
      using one_run by blast
    have "all_safe e calls ?p"
      using 1(2) es Cons by (fastforce simp: all_safe_def answer_simps traffic_append ran_def safe_call list_all_iff)
    with 1 Cons show ?thesis by (subst (1 2) start_ready_tasks.simps) simp
  qed
qed

lemma release_history_fields:
  "trace (pl_batch (release_history calls p)) = trace (pl_batch p) \<and> pl_pending (release_history calls p) = pl_pending p
   \<and> pl_waiting (release_history calls p) = pl_waiting p \<and> pl_results (release_history calls p) = pl_results p
   \<and> stopped (pl_batch (release_history calls p)) = stopped (pl_batch p)"
proof (induction calls p rule: release_history.induct)
  case (1 calls p)
  then show ?case by (subst (1 2 3 4 5) release_history.simps) (simp add: answer_simps)
qed

lemma emit_ready_result_safe:
  assumes "all_safe e calls p"
  shows "all_safe e calls (emit_ready_result calls' p tc) \<and> pl_pending (emit_ready_result calls' p tc) = pl_pending p
    \<and> set (map fst (pl_results (emit_ready_result calls' p tc))) = set (map fst (pl_results p)) - {tc_id tc}"
proof (cases "map_of (pl_results p) (tc_id tc)")
  case None
  then have "tc_id tc \<notin> set (map fst (pl_results p))" by (simp add: map_of_eq_None_iff)
  then show ?thesis using assms None by (auto simp: emit_ready_result_def)
next
  case (Some why)
  let ?p = "p\<lparr>pl_results := AList.delete (tc_id tc) (pl_results p), pl_history := List.insert (tc_id tc) (pl_history p)\<rparr>"
  define q where "q = release_history calls' ?p"
  have q: "trace (pl_batch q) = trace (pl_batch p)" "pl_pending q = pl_pending p" "pl_waiting q = pl_waiting p"
    "pl_results q = AList.delete (tc_id tc) (pl_results p)"
    using release_history_fields [of calls' ?p] by (simp_all add: q_def)
  have e: "emit_ready_result calls' p tc = q\<lparr>pl_batch := settle_call tc why (pl_batch q)\<rparr>"
    using Some by (simp add: emit_ready_result_def append_ordered_context_result_def Let_def q_def)
  have k: "set (map fst (AList.delete (tc_id tc) (pl_results p))) = set (map fst (pl_results p)) - {tc_id tc}"
    by (simp add: delete_keys)
  show ?thesis
    using assms unfolding e all_safe_def by (fastforce simp: q k answer_simps traffic_append simp del: set_map)
qed

lemma emit_ready_results_safe:
  assumes "all_safe e calls p"
  shows "all_safe e calls (emit_ready_results calls p) \<and> pl_pending (emit_ready_results calls p) = pl_pending p
    \<and> pl_results (emit_ready_results calls p) = []"
proof -
  let ?e = "foldl (emit_ready_result calls)"
  have run: "all_safe e calls (?e p cs) \<and> pl_pending (?e p cs) = pl_pending p
      \<and> set (map fst (pl_results (?e p cs))) = set (map fst (pl_results p)) - set (ids cs)" for cs
    using assms
  proof (induction cs arbitrary: p)
    case (Cons tc cs)
    from Cons.IH [of "emit_ready_result calls p tc"] emit_ready_result_safe [OF Cons.prems, of calls tc]
    show ?case by auto
  qed simp
  have "set (map fst (pl_results p)) - set (ids calls) = {}" using assms by (auto simp: all_safe_def)
  with run [of calls] have "set (map fst (pl_results (?e p calls))) = {}" by simp
  then have "pl_results (?e p calls) = []" by simp
  with run [of calls] show ?thesis by (simp add: emit_ready_results_def)
qed

lemma record_all_keys:
  "set (map fst (pl_results (foldl (\<lambda>p tc. record_batch_result tc (f tc) p) p tcs))) = set (map fst (pl_results p)) \<union> set (ids tcs)"
proof (induction tcs arbitrary: p)
  case (Cons tc tcs)
  have "set (map fst (pl_results (record_batch_result tc (f tc) p))) = insert (tc_id tc) (set (map fst (pl_results p)))"
    by (simp add: record_batch_result_def update_keys del: set_map) auto
  with Cons.IH [of "record_batch_result tc (f tc) p"] show ?case by simp
qed simp

lemma recorded_safe:
  assumes "all_safe e calls p" "pl_batch q = pl_batch p"
    "set (ids (pl_pending p)) \<union> set (map fst (pl_results p)) \<subseteq> set (ids (pl_pending q)) \<union> set (map fst (pl_results q))"
    "set (ids (pl_pending q)) \<union> set (ids (pl_waiting q)) \<union> set (map fst (pl_results q)) \<subseteq> set (ids calls)"
    "set (pl_waiting q) \<subseteq> set (pl_waiting p)"
  shows "all_safe e calls q"
  using assms unfolding all_safe_def list_all_iff by (metis (no_types, lifting) subsetD)

lemma time_out_batch_safe:
  assumes p: "all_safe e calls p"
  shows "all_safe e calls (time_out_batch e w calls p) \<and> pl_pending (time_out_batch e w calls p) = []
    \<and> pl_results (time_out_batch e w calls p) = []"
proof -
  let ?p1 = "foldl (\<lambda>p tc. record_batch_result tc (harvest_batch_result e w BatchTimedOut tc) p) p (pl_pending p)"
  let ?p2 = "foldl (\<lambda>p tc. record_batch_result tc (Some NotStarted) p) ?p1 (pl_waiting p)"
  let ?q = "?p2\<lparr>pl_pending := [], pl_waiting := []\<rparr>"
  have k: "set (map fst (pl_results ?q)) = set (map fst (pl_results p)) \<union> set (ids (pl_pending p)) \<union> set (ids (pl_waiting p))"
    using record_all_keys [of "\<lambda>tc. Some NotStarted" ?p1 "pl_waiting p"]
      record_all_keys [of "harvest_batch_result e w BatchTimedOut" p "pl_pending p"] by simp
  have "all_safe e calls ?q"
    by (rule recorded_safe [OF p]) (use p in \<open>simp_all only: k, auto simp: all_safe_def\<close>)
  from emit_ready_results_safe [OF this] show ?thesis by (simp add: time_out_batch_def Let_def)
qed

lemma finish_round_safe:
  assumes p: "all_safe e calls p"
  shows "all_safe e calls (emit_ready_results calls (foldl (\<lambda>p tc. record_batch_result tc (f tc) p)
      (p\<lparr>pl_pending := filter (\<lambda>tc. \<not> Q tc) (pl_pending p)\<rparr>) (filter Q (pl_pending p))))
    \<and> pl_results (emit_ready_results calls (foldl (\<lambda>p tc. record_batch_result tc (f tc) p)
      (p\<lparr>pl_pending := filter (\<lambda>tc. \<not> Q tc) (pl_pending p)\<rparr>) (filter Q (pl_pending p)))) = []"
proof -
  let ?p = "p\<lparr>pl_pending := filter (\<lambda>tc. \<not> Q tc) (pl_pending p)\<rparr>"
  let ?q = "foldl (\<lambda>p tc. record_batch_result tc (f tc) p) ?p (filter Q (pl_pending p))"
  have k: "set (map fst (pl_results ?q)) = set (map fst (pl_results p)) \<union> set (ids (filter Q (pl_pending p)))"
    using record_all_keys [of f ?p "filter Q (pl_pending p)"] by simp
  have "all_safe e calls ?q"
    by (rule recorded_safe [OF p]) (use p in \<open>simp_all only: k, auto simp: all_safe_def\<close>)
  from emit_ready_results_safe [OF this] show ?thesis by blast
qed

lemma all_safe_quiet: "all_safe e calls p \<Longrightarrow> pl_pending p = [] \<Longrightarrow> pl_results p = [] \<Longrightarrow> quiet e (pl_batch p)"
proof -
  assume p: "all_safe e calls p" "pl_pending p = []" "pl_results p = []"
  then obtain b where "traffic (safe_request e) [] (trace (pl_batch p)) = Some b" "\<forall>r \<in> set b. False"
    by (auto simp: all_safe_def)
  then have "traffic (safe_request e) [] (trace (pl_batch p)) = Some []" by (cases b) auto
  then show "quiet e (pl_batch p)" by (simp add: quiet_def)
qed

lemma interrupt_quiet: "all_safe e calls p \<Longrightarrow> quiet e (pl_batch (interrupt_batch calls p))"
proof -
  assume p: "all_safe e calls p"
  have "trace (foldl (\<lambda>s tc. if tc_id tc \<in> set hs then append_tool_result (tc_id tc) s else s) s tcs) = trace s" for hs s and tcs :: "tool_call list"
    by (induction tcs arbitrary: s) (simp_all add: answer_simps)
  with p show ?thesis by (auto simp: interrupt_batch_def quiet_def all_safe_def stop_def)
qed

lemma parallel_rounds_quiet:
  "all_safe e calls p \<Longrightarrow> pl_results p = [] \<Longrightarrow> quiet e (pl_batch (parallel_rounds e w n calls rs p))"
proof (induction rs arbitrary: p)
  case Nil
  then show ?case using time_out_batch_safe [OF Nil(1), of w] all_safe_quiet [of e calls] by auto
next
  case (Cons r rs)
  have late: "quiet e (pl_batch (time_out_batch e w calls p))"
    using time_out_batch_safe [OF Cons.prems(1), of w] all_safe_quiet by blast
  show ?case
  proof (cases "pl_pending p = []")
    case True
    then show ?thesis using Cons.prems by (simp add: all_safe_quiet)
  next
    case False
    show ?thesis
    proof (cases r)
      case (Finished ended)
      let ?P = "\<lambda>tc. tc_id tc \<in> set ended"
      define q where "q = emit_ready_results calls (foldl (\<lambda>p tc. record_batch_result tc (task_result e w tc) p)
        (p\<lparr>pl_pending := filter (\<lambda>tc. \<not> ?P tc) (pl_pending p)\<rparr>) (filter ?P (pl_pending p)))"
      have "all_safe e calls q \<and> pl_results q = []" unfolding q_def by (rule finish_round_safe [OF Cons.prems(1)])
      then have "all_safe e calls (start_ready_tasks e w n q)" "pl_results (start_ready_tasks e w n q) = []"
        using start_ready_tasks_safe [of e calls q w n] by simp_all
      from Cons.IH [OF this] late show ?thesis using False Finished by (simp add: Let_def q_def)
    qed (use late False Cons.prems interrupt_quiet in simp_all)
  qed
qed

lemma quiet_parallel:
  assumes "quiet e s" "\<not> stopped s" "list_all (is_concurrency_safe e) tcs"
  shows "quiet e (run_parallel e w tcs s)"
proof -
  let ?p = "\<lparr>pl_batch = s, pl_pending = [], pl_waiting = tcs, pl_results = [], pl_history = [], pl_next = 0\<rparr>"
  have "all_safe e tcs ?p" using assms by (auto simp: all_safe_def quiet_def)
  then have "all_safe e tcs (start_ready_tasks e w n ?p)" "pl_results (start_ready_tasks e w n ?p) = []" for n
    using start_ready_tasks_safe [of e tcs ?p w n] by simp_all
  then show ?thesis unfolding run_parallel_def Let_def by (rule parallel_rounds_quiet)
qed

lemma quiet_silent:
  assumes s: "quiet e s" and t: "trace s' = trace s @ es" "list_all runs_nothing es" "stopped s' = stopped s"
  shows "quiet e s'"
proof -
  obtain b where b: "traffic (safe_request e) [] (trace s) = Some b" "\<not> stopped s \<longrightarrow> b = []" using s by (auto simp: quiet_def)
  obtain c where c: "traffic (safe_request e) b es = Some c" "set c \<subseteq> set b" using traffic_silent [OF t(2)] by blast
  with b t show ?thesis by (auto simp: quiet_def traffic_append)
qed

interpretation quiet_batch: batch_invariant e w "quiet e" for e w
proof unfold_locales
  show "quiet e s \<Longrightarrow> quiet e (stop s)" for s by (auto simp: quiet_def stop_def)
qed (fact quiet_silent quiet_serially quiet_parallel)+

text \<open>
  Claim C14. In the trace of a batch a tool that does not declare itself safe for its arguments runs
  alone: it starts when every run before it has its answer, and no other tool starts before it has its own.
  Tools that run side by side have all declared themselves safe.
\<close>

theorem unsafe_tools_run_alone:
  "traffic (safe_request e) [] (trace (execute_tool_batch e w calls (new_batch g ds))) \<noteq> None"
proof -
  have "quiet e (new_batch g ds)" by (simp add: quiet_def new_batch_def)
  from quiet_batch.executes_batch [OF this] show ?thesis by (auto simp: quiet_def)
qed

end
