(* ===== verification/DurableQueue.thy ===== *)
theory DurableQueue
  imports Json "HOL-Library.AList" "HOL-Library.List_Lexorder"
begin

text \<open>
  \<open>backend/ws/durable_user_queue.py\<close>: the queue of user commands that survives a crash, shared by
  the runtimes (\<open>DurableUserMessageQueue\<close> objects) of all MiniCode processes through one file, each
  with a lease that ends with its process.

  Every method runs under the file lock, so a step of the model is a whole method. The file holds
  the state as it was serialized; the JSON text itself (\<open>json.dumps\<close> and \<open>json.loads\<close>) is below the
  model. \<open>None\<close> is a missing file, \<open>Some None\<close> one that is not a JSON object. What can go wrong outside is
  the record \<open>io\<close>: the reading, the two writes a method may do, the renaming of a corrupt file, and the
  leases of others that seem held (held, or not verifiable). Commands carry JSON data only: a
  value that cannot be serialized (a runtime handle under an underscore key) is dropped by the
  code when it writes, and is not represented.
\<close>

section \<open>Commands\<close>

type_synonym conv = ustr

record ucommand =
  uc_type :: ustr
  uc_data :: "(ustr \<times> json) list"

definition id_char :: "int \<Rightarrow> bool" where
  "id_char c \<longleftrightarrow> uword c \<or> c \<in> {45, 58, 46}"

definition clean_command_id :: "json option \<Rightarrow> ustr" where
  "clean_command_id j =
     (case j of
        Some (JStr t) \<Rightarrow> (let i = take 128 (ustrip t) in if i \<noteq> [] \<and> list_all id_char i then i else [])
      | _ \<Rightarrow> [])"

definition command_id :: "ucommand \<Rightarrow> ustr" where
  "command_id c = clean_command_id (map_of (uc_data c) (u ''client_command_id''))"

definition command_to_dict :: "ucommand \<Rightarrow> ucommand option" where
  "command_to_dict c = (if uc_type c = u ''user_message'' then Some c else None)"

definition dict_to_command :: "ucommand \<Rightarrow> ucommand option" where
  "dict_to_command c = (if uc_type c = u ''user_message'' then Some c else None)"

definition client_command_to_dict :: "ucommand \<Rightarrow> ucommand option" where
  "client_command_to_dict c =
     (let fs = filter (\<lambda>(k, v). \<not> startswith k (u ''_'')) (uc_data c);
          i = clean_command_id (map_of fs (u ''client_command_id'')) in
      if i = [] then None else Some (c\<lparr>uc_data := AList.update (u ''client_command_id'') (JStr i) fs\<rparr>))"

definition dict_to_client_command :: "ucommand \<Rightarrow> ucommand option" where
  "dict_to_client_command c =
     (let t = ustrip (uc_type c); i = command_id c in
      if t = [] \<or> i = [] then None
      else Some \<lparr>uc_type = t, uc_data = AList.update (u ''client_command_id'') (JStr i) (uc_data c)\<rparr>)"

text \<open>\<open>json.dumps\<close> with sorted keys, up to the text.\<close>

fun sorted_keys :: "json \<Rightarrow> json" where
  "sorted_keys (JObj kvs) = JObj (sort_key fst (map (\<lambda>(k, v). (k, sorted_keys v)) kvs))"
| "sorted_keys (JList xs) = JList (map sorted_keys xs)"
| "sorted_keys j = j"

datatype identity = MessageIdentity ustr | PayloadIdentity json

definition or_blank :: "(json \<Rightarrow> ustr) \<Rightarrow> json option \<Rightarrow> ustr" where
  "or_blank repr j = (case j of None \<Rightarrow> [] | Some v \<Rightarrow> if json_falsy v then [] else ustrip (json_text repr v))"

definition user_command_identity :: "(json \<Rightarrow> ustr) \<Rightarrow> ucommand \<Rightarrow> identity" where
  "user_command_identity repr c =
     (let a = or_blank repr (map_of (uc_data c) (u ''assistant_message_id''));
          m = or_blank repr (map_of (uc_data c) (u ''user_message_id'')) in
      if a \<noteq> [] \<or> m \<noteq> [] then MessageIdentity (a @ 0 # m)
      else (case command_to_dict c of
        Some d \<Rightarrow> PayloadIdentity (sorted_keys (JObj [(u ''type'', JStr (uc_type d)), (u ''data'', JObj (uc_data d))]))
      | None \<Rightarrow> PayloadIdentity (sorted_keys (JObj [(u ''type'', JStr (uc_type c)), (u ''data'', JObj [])]))))"

definition same_user_command :: "(json \<Rightarrow> ustr) \<Rightarrow> ucommand \<Rightarrow> ucommand \<Rightarrow> bool" where
  "same_user_command repr a b \<longleftrightarrow> user_command_identity repr a = user_command_identity repr b"

section \<open>State\<close>

record qstate =
  queues :: "(conv \<times> ucommand list) list"
  inflight :: "(conv \<times> ucommand) list"
  turn_inputs :: "(conv \<times> ucommand list) list"
  client_pending :: "ucommand list"
  client_inflight :: "(ustr \<times> ucommand) list"
  inflight_owners :: "(conv \<times> ustr) list"
  turn_input_owners :: "(conv \<times> ustr) list"
  client_inflight_owners :: "(ustr \<times> ustr) list"

definition no_work :: qstate where
  "no_work = \<lparr>queues = [], inflight = [], turn_inputs = [], client_pending = [], client_inflight = [],
     inflight_owners = [], turn_input_owners = [], client_inflight_owners = []\<rparr>"

type_synonym disk = "qstate option option"

record runtime =
  owner_id :: ustr
  opened :: bool
  mem :: qstate
  owner_queues :: "(conv \<times> ucommand list) list"
  owner_inflight :: "(conv \<times> ucommand) list"
  owner_turn_inputs :: "(conv \<times> ucommand list) list"

record io =
  read_ok :: bool
  rename_ok :: bool
  recover_ok :: bool
  write_ok :: bool
  held :: "ustr \<Rightarrow> bool"       \<comment> \<open>a foreign lease is held, or could not be verified\<close>
  repr_of :: "json \<Rightarrow> ustr"

datatype queue_error = Closed | ReadFails | WriteFails | OwnedElsewhere

type_synonym 'a outcome = "(queue_error + 'a) \<times> runtime \<times> disk"

definition or_empty :: "('k \<times> 'v list) list \<Rightarrow> 'k \<Rightarrow> 'v list" where
  "or_empty d k = (case map_of d k of None \<Rightarrow> [] | Some xs \<Rightarrow> xs)"

definition owner_of :: "('k \<times> ustr) list \<Rightarrow> 'k \<Rightarrow> ustr" where
  "owner_of d k = (case map_of d k of None \<Rightarrow> [] | Some o' \<Rightarrow> o')"

section \<open>Reading and writing\<close>

definition owner_pattern :: "ustr \<Rightarrow> bool" where
  "owner_pattern i \<longleftrightarrow> 16 \<le> length i \<and> length i \<le> 128
     \<and> list_all (\<lambda>c. (48 \<le> c \<and> c \<le> 57) \<or> (65 \<le> c \<and> c \<le> 90) \<or> (97 \<le> c \<and> c \<le> 122) \<or> c = 95 \<or> c = 45) i"

definition map_opt :: "('v \<Rightarrow> 'w option) \<Rightarrow> ('k \<times> 'v) list \<Rightarrow> ('k \<times> 'w) list" where
  "map_opt f d = List.map_filter (\<lambda>(k, v). map_option (Pair k) (f v)) d"

definition map_each :: "('v \<Rightarrow> 'w option) \<Rightarrow> ('k \<times> 'v list) list \<Rightarrow> ('k \<times> 'w list) list" where
  "map_each f d = map (\<lambda>(k, vs). (k, List.map_filter f vs)) d"

definition owner_map :: "('k \<times> 'v) list \<Rightarrow> ('k \<times> ustr) list \<Rightarrow> ('k \<times> ustr) list" where
  "owner_map d owners = filter (\<lambda>(k, i). k \<in> fst ` set d \<and> owner_pattern i) owners"

definition client_entries :: "(ustr \<times> ucommand) list \<Rightarrow> (ustr \<times> ucommand) list" where
  "client_entries d =
     foldl (\<lambda>acc (raw, item).
       (case dict_to_client_command item of
          None \<Rightarrow> acc
        | Some c \<Rightarrow>
            (let k = (if clean_command_id (Some (JStr raw)) = [] then command_id c else clean_command_id (Some (JStr raw))) in
             if k = [] then acc else AList.update k c acc))) [] d"

definition parse_state :: "qstate \<Rightarrow> qstate" where
  "parse_state p =
     (let inf = map_opt dict_to_command (inflight p); tis = map_each dict_to_command (turn_inputs p);
          cinf = client_entries (client_inflight p) in
      \<lparr>queues = map_each dict_to_command (queues p), inflight = inf, turn_inputs = tis,
       client_pending = List.map_filter dict_to_client_command (client_pending p), client_inflight = cinf,
       inflight_owners = owner_map inf (inflight_owners p),
       turn_input_owners = owner_map tis (turn_input_owners p),
       client_inflight_owners = owner_map cinf (client_inflight_owners p)\<rparr>)"

text \<open>A file that is no JSON object is renamed, when that works, and read as empty.\<close>

definition read_state :: "io \<Rightarrow> disk \<Rightarrow> qstate \<times> disk" where
  "read_state x d =
     (case d of
        None \<Rightarrow> (no_work, None)
      | Some None \<Rightarrow> (no_work, if rename_ok x then None else Some None)
      | Some (Some p) \<Rightarrow> (parse_state p, d))"

definition serialize :: "qstate \<Rightarrow> qstate" where
  "serialize s =
     (let inf = map_opt command_to_dict (inflight s); tis = map_each command_to_dict (turn_inputs s) in
      \<lparr>queues = map_each command_to_dict (queues s), inflight = inf, turn_inputs = tis,
       client_pending = List.map_filter client_command_to_dict (client_pending s),
       client_inflight = map_opt client_command_to_dict (client_inflight s),
       inflight_owners = owner_map inf (inflight_owners s),
       turn_input_owners = owner_map tis (turn_input_owners s),
       client_inflight_owners = owner_map (client_inflight s) (client_inflight_owners s)\<rparr>)"

section \<open>Recovery of work whose owner is gone\<close>

definition owner_is_live :: "io \<Rightarrow> runtime \<Rightarrow> ustr \<Rightarrow> bool" where
  "owner_is_live x r owner =
     (let i = ustrip owner in
      owner_pattern i \<and> (if i = owner_id r then opened r else held x i))"

definition recover_conversation :: "(ustr \<Rightarrow> bool) \<Rightarrow> qstate \<Rightarrow> conv \<Rightarrow> qstate" where
  "recover_conversation live s c =
     (let turn_dead = c \<in> fst ` set (turn_inputs s) \<and> \<not> live (owner_of (turn_input_owners s) c);
          s1 = (if turn_dead then s\<lparr>turn_inputs := AList.delete c (turn_inputs s),
                                    turn_input_owners := AList.delete c (turn_input_owners s)\<rparr> else s);
          dead = c \<in> fst ` set (inflight s1) \<and> \<not> live (owner_of (inflight_owners s1) c);
          s2 = (if dead then s1\<lparr>inflight := AList.delete c (inflight s1),
                                inflight_owners := AList.delete c (inflight_owners s1)\<rparr> else s1);
          replay = (if turn_dead then or_empty (turn_inputs s) c else [])
                   @ (if dead then (case map_of (inflight s1) c of Some k \<Rightarrow> [k] | None \<Rightarrow> []) else []) in
      if replay = [] then s2 else s2\<lparr>queues := AList.update c (replay @ or_empty (queues s2) c) (queues s2)\<rparr>)"

definition conversation_recovers :: "(ustr \<Rightarrow> bool) \<Rightarrow> qstate \<Rightarrow> conv \<Rightarrow> bool" where
  "conversation_recovers live s c \<longleftrightarrow>
     c \<in> fst ` set (turn_inputs s) \<and> \<not> live (owner_of (turn_input_owners s) c)
     \<or> c \<in> fst ` set (inflight s) \<and> \<not> live (owner_of (inflight_owners s) c)"

definition dead_clients :: "(ustr \<Rightarrow> bool) \<Rightarrow> qstate \<Rightarrow> ustr list" where
  "dead_clients live s = filter (\<lambda>k. \<not> live (owner_of (client_inflight_owners s) k)) (map fst (client_inflight s))"

definition recover_clients :: "(ustr \<Rightarrow> bool) \<Rightarrow> qstate \<Rightarrow> qstate" where
  "recover_clients live s =
     (let gone = dead_clients live s;
          regained = List.map_filter (map_of (client_inflight s)) gone;
          pending = set (filter (\<lambda>i. i \<noteq> []) (map command_id (client_pending s)));
          fresh = filter (\<lambda>c. command_id c \<notin> pending) regained in
      s\<lparr>client_inflight := filter (\<lambda>(k, c). k \<notin> set gone) (client_inflight s),
        client_inflight_owners := filter (\<lambda>(k, i). k \<notin> set gone) (client_inflight_owners s),
        client_pending := fresh @ client_pending s\<rparr>)"

definition attached :: "('k \<times> 'v) list \<Rightarrow> ('k \<times> ustr) list \<Rightarrow> ('k \<times> ustr) list" where
  "attached d owners = filter (\<lambda>(k, i). k \<in> fst ` set d) owners"

definition drop_dangling :: "qstate \<Rightarrow> qstate" where
  "drop_dangling s =
     s\<lparr>inflight_owners := attached (inflight s) (inflight_owners s),
       turn_input_owners := attached (turn_inputs s) (turn_input_owners s),
       client_inflight_owners := attached (client_inflight s) (client_inflight_owners s)\<rparr>"

definition recover_stale_owners :: "(ustr \<Rightarrow> bool) \<Rightarrow> qstate \<Rightarrow> qstate \<times> bool" where
  "recover_stale_owners live s =
     (let cs = remdups (map fst (inflight s) @ map fst (turn_inputs s));
          s1 = recover_clients live (foldl (recover_conversation live) s cs);
          s2 = drop_dangling s1 in
      (s2, list_ex (conversation_recovers live s) cs \<or> dead_clients live s \<noteq> [] \<or> s2 \<noteq> s1))"

definition refresh :: "io \<Rightarrow> runtime \<Rightarrow> disk \<Rightarrow> unit outcome" where
  "refresh x r d =
     (if \<not> read_ok x then (Inl ReadFails, r, d)
      else
       (let (p, d1) = read_state x d; (s, changed) = recover_stale_owners (owner_is_live x r) p; r1 = r\<lparr>mem := s\<rparr> in
        if \<not> changed then (Inr (), r1, d1)
        else if recover_ok x then (Inr (), r1, Some (Some (serialize s)))
        else (Inl WriteFails, r1, d1)))"

section \<open>Operations\<close>

definition locked :: "io \<Rightarrow> runtime \<Rightarrow> disk \<Rightarrow> (runtime \<Rightarrow> disk \<Rightarrow> 'a outcome) \<Rightarrow> 'a outcome" where
  "locked x r d f =
     (if \<not> opened r then (Inl Closed, r, d)
      else (case refresh x r d of (Inl err, r1, d1) \<Rightarrow> (Inl err, r1, d1) | (Inr _, r1, d1) \<Rightarrow> f r1 d1))"

text \<open>\<open>_write_current_unlocked\<close>; an operation whose write fails puts its memory back and raises.\<close>

definition publish :: "io \<Rightarrow> qstate \<Rightarrow> qstate \<Rightarrow> runtime \<Rightarrow> disk \<Rightarrow> (runtime \<Rightarrow> runtime) \<Rightarrow> 'a \<Rightarrow> 'a outcome" where
  "publish x s before r d fin a =
     (if write_ok x then (Inr a, fin (r\<lparr>mem := s\<rparr>), Some (Some (serialize s)))
      else (Inl WriteFails, r\<lparr>mem := before\<rparr>, d))"

definition load :: "io \<Rightarrow> runtime \<Rightarrow> disk \<Rightarrow> (conv \<times> ucommand list) list outcome" where
  "load x r d = locked x r d (\<lambda>r d.
     (let s = mem r; mine = (\<lambda>owners c. map_of owners c = Some (owner_id r)) in
      (Inr (queues s),
       r\<lparr>owner_queues := queues s,
         owner_inflight := filter (\<lambda>(c, k). mine (inflight_owners s) c) (inflight s),
         owner_turn_inputs := filter (\<lambda>(c, ks). mine (turn_input_owners s) c) (turn_inputs s)\<rparr>, d)))"

definition update_baseline :: "conv \<Rightarrow> runtime \<Rightarrow> runtime" where
  "update_baseline c r =
     (case or_empty (queues (mem r)) c of
        [] \<Rightarrow> r\<lparr>owner_queues := AList.delete c (owner_queues r)\<rparr>
      | ks \<Rightarrow> r\<lparr>owner_queues := AList.update c ks (owner_queues r)\<rparr>)"

definition pending_user_messages :: "io \<Rightarrow> conv \<Rightarrow> runtime \<Rightarrow> disk \<Rightarrow> ucommand list outcome" where
  "pending_user_messages x c r d = locked x r d (\<lambda>r d. (Inr (or_empty (queues (mem r)) c), r, d))"

definition set_queue :: "conv \<Rightarrow> ucommand list \<Rightarrow> qstate \<Rightarrow> qstate" where
  "set_queue c ks s = s\<lparr>queues := (if ks = [] then AList.delete c (queues s) else AList.update c ks (queues s))\<rparr>"

definition take_inflight :: "conv \<Rightarrow> ucommand \<Rightarrow> ustr \<Rightarrow> qstate \<Rightarrow> qstate" where
  "take_inflight c k i s = s\<lparr>inflight := AList.update c k (inflight s), inflight_owners := AList.update c i (inflight_owners s)\<rparr>"

definition drop_inflight :: "conv \<Rightarrow> qstate \<Rightarrow> qstate" where
  "drop_inflight c s = s\<lparr>inflight := AList.delete c (inflight s), inflight_owners := AList.delete c (inflight_owners s)\<rparr>"

definition claim_user_message :: "io \<Rightarrow> conv \<Rightarrow> runtime \<Rightarrow> disk \<Rightarrow> ucommand option outcome" where
  "claim_user_message x conversation r d = locked x r d (\<lambda>r d.
     (let c = ustrip conversation; s = mem r in
      if c = [] \<or> map_of (inflight s) c \<noteq> None \<or> c \<in> fst ` set (turn_inputs s) then (Inr None, r, d)
      else (case or_empty (queues s) c of
        [] \<Rightarrow> (Inr None, update_baseline c r, d)
      | k # rest \<Rightarrow>
          (let s1 = take_inflight c k (owner_id r) (set_queue c rest s); s2 = drop_inflight c s1 in
           publish x s1 (set_queue c (k # or_empty (queues s2) c) s2) r d
             (\<lambda>r. (update_baseline c r)\<lparr>owner_inflight := AList.update c k (owner_inflight r)\<rparr>) (Some k)))))"

definition settle_user_message :: "io \<Rightarrow> conv \<Rightarrow> ucommand \<Rightarrow> bool \<Rightarrow> runtime \<Rightarrow> disk \<Rightarrow> bool outcome" where
  "settle_user_message x conversation command succeeded r d = locked x r d (\<lambda>r d.
     (let c = ustrip conversation; s = mem r in
      case map_of (inflight s) c of
        None \<Rightarrow> (Inr False, r, d)
      | Some k \<Rightarrow>
          if map_of (inflight_owners s) c \<noteq> Some (owner_id r) \<or> \<not> same_user_command (repr_of x) k command
          then (Inr False, r, d)
          else
           (let s1 = drop_inflight c s;
                s2 = (if succeeded then s1 else set_queue c (k # or_empty (queues s1) c) s1);
                s3 = (if succeeded then s2 else set_queue c (tl (or_empty (queues s2) c)) s2) in
            publish x s2 (take_inflight c k (owner_id r) s3) r d
              (\<lambda>r. update_baseline c (r\<lparr>owner_inflight := AList.delete c (owner_inflight r)\<rparr>)) True)))"

subsection \<open>Client commands\<close>

definition pending_index :: "ustr \<Rightarrow> ucommand list \<Rightarrow> nat option" where
  "pending_index i ks = find (\<lambda>n. command_id (ks ! n) = i) [0..<length ks]"

definition remove_at :: "nat \<Rightarrow> 'a list \<Rightarrow> 'a list" where
  "remove_at n xs = take n xs @ drop (Suc n) xs"

definition insert_at :: "nat \<Rightarrow> 'a \<Rightarrow> 'a list \<Rightarrow> 'a list" where
  "insert_at n a xs = take n xs @ a # drop n xs"

definition has_client_command :: "io \<Rightarrow> json \<Rightarrow> runtime \<Rightarrow> disk \<Rightarrow> bool outcome" where
  "has_client_command x j r d = locked x r d (\<lambda>r d.
     (let i = clean_command_id (Some j); s = mem r in
      (Inr (i \<noteq> [] \<and> (i \<in> fst ` set (client_inflight s) \<or> i \<in> command_id ` set (client_pending s))), r, d)))"

definition persist_client_command :: "io \<Rightarrow> ucommand \<Rightarrow> runtime \<Rightarrow> disk \<Rightarrow> bool outcome" where
  "persist_client_command x c r d = locked x r d (\<lambda>r d.
     (let s = mem r; i = command_id c in
      case client_command_to_dict c of
        None \<Rightarrow> (Inr False, r, d)
      | Some payload \<Rightarrow>
          if i \<in> fst ` set (client_inflight s) \<or> i \<in> command_id ` set (client_pending s) then (Inr True, r, d)
          else (case dict_to_client_command payload of
            None \<Rightarrow> (Inr False, r, d)
          | Some k \<Rightarrow> publish x (s\<lparr>client_pending := client_pending s @ [k]\<rparr>) s r d id True)))"

definition pending_client_commands :: "io \<Rightarrow> runtime \<Rightarrow> disk \<Rightarrow> ucommand list outcome" where
  "pending_client_commands x r d = locked x r d (\<lambda>r d. (Inr (client_pending (mem r)), r, d))"

definition discard_pending_client_command :: "io \<Rightarrow> json \<Rightarrow> runtime \<Rightarrow> disk \<Rightarrow> bool outcome" where
  "discard_pending_client_command x j r d = locked x r d (\<lambda>r d.
     (let i = clean_command_id (Some j); s = mem r in
      if i = [] \<or> i \<in> fst ` set (client_inflight s) then (Inr False, r, d)
      else (case pending_index i (client_pending s) of
        None \<Rightarrow> (Inr False, r, d)
      | Some n \<Rightarrow>
          (let s1 = s\<lparr>client_pending := remove_at n (client_pending s)\<rparr> in
           publish x s1 (s1\<lparr>client_pending := insert_at n (client_pending s ! n) (client_pending s1)\<rparr>) r d id True))))"

definition claim_client_command :: "io \<Rightarrow> json \<Rightarrow> runtime \<Rightarrow> disk \<Rightarrow> ucommand option outcome" where
  "claim_client_command x j r d = locked x r d (\<lambda>r d.
     (let i = clean_command_id (Some j); s = mem r in
      if i = [] \<or> i \<in> fst ` set (client_inflight s) then (Inr None, r, d)
      else (case pending_index i (client_pending s) of
        None \<Rightarrow> (Inr None, r, d)
      | Some n \<Rightarrow>
          (let k = client_pending s ! n;
               s1 = s\<lparr>client_pending := remove_at n (client_pending s),
                      client_inflight := AList.update i k (client_inflight s),
                      client_inflight_owners := AList.update i (owner_id r) (client_inflight_owners s)\<rparr> in
           publish x s1
             (s1\<lparr>client_pending := insert_at n k (client_pending s1), client_inflight := AList.delete i (client_inflight s1),
                 client_inflight_owners := AList.delete i (client_inflight_owners s1)\<rparr>) r d id (Some k)))))"

definition finish_client_command :: "bool \<Rightarrow> io \<Rightarrow> json \<Rightarrow> runtime \<Rightarrow> disk \<Rightarrow> bool outcome" where
  "finish_client_command again x j r d = locked x r d (\<lambda>r d.
     (let i = clean_command_id (Some j); s = mem r in
      if map_of (client_inflight_owners s) i \<noteq> Some (owner_id r) then (Inr False, r, d)
      else (case map_of (client_inflight s) i of
        None \<Rightarrow> (Inr False, r, d)
      | Some k \<Rightarrow>
          (let s1 = s\<lparr>client_inflight := AList.delete i (client_inflight s),
                      client_inflight_owners := AList.delete i (client_inflight_owners s)\<rparr>;
               s2 = (if again then s1\<lparr>client_pending := k # client_pending s1\<rparr> else s1) in
           publish x s2
             (s1\<lparr>client_inflight := AList.update i k (client_inflight s1),
                 client_inflight_owners := AList.update i (owner_id r) (client_inflight_owners s1)\<rparr>) r d id True))))"

definition complete_client_command :: "io \<Rightarrow> json \<Rightarrow> runtime \<Rightarrow> disk \<Rightarrow> bool outcome" where
  "complete_client_command = finish_client_command False"

definition release_client_command :: "io \<Rightarrow> json \<Rightarrow> runtime \<Rightarrow> disk \<Rightarrow> bool outcome" where
  "release_client_command = finish_client_command True"

section \<open>Saving the queues of a session\<close>

type_synonym indexed = "((identity \<times> nat) \<times> ucommand) list"

text \<open>Equal commands are told apart by their occurrence.\<close>

fun index_from :: "(json \<Rightarrow> ustr) \<Rightarrow> identity list \<Rightarrow> ucommand list \<Rightarrow> indexed" where
  "index_from repr seen [] = []"
| "index_from repr seen (c # cs) =
     (let i = user_command_identity repr c in
      ((i, count_list seen i), c) # index_from repr (i # seen) cs)"

definition indexed_commands :: "(json \<Rightarrow> ustr) \<Rightarrow> ucommand list \<Rightarrow> indexed" where
  "indexed_commands repr cs = index_from repr [] cs"

fun insert_new :: "(identity \<times> nat) set \<Rightarrow> indexed \<Rightarrow> indexed \<Rightarrow> indexed" where
  "insert_new previous merged [] = merged"
| "insert_new previous merged ((key, c) # rest) =
     (if key \<in> previous \<or> key \<in> fst ` set merged then insert_new previous merged rest
      else insert_new previous
        (takeWhile (\<lambda>e. fst e \<notin> fst ` set rest) merged @ (key, c) # dropWhile (\<lambda>e. fst e \<notin> fst ` set rest) merged) rest)"

definition reorder :: "indexed \<Rightarrow> indexed \<Rightarrow> indexed" where
  "reorder common merged =
     (let slots = filter (\<lambda>n. fst (merged ! n) \<in> fst ` set common) [0..<length merged] in
      if length slots = length common then foldl (\<lambda>m (n, entry). m[n := entry]) merged (zip slots common) else merged)"

definition merge_entries :: "indexed \<Rightarrow> indexed \<Rightarrow> indexed \<Rightarrow> indexed" where
  "merge_entries latest previous want =
     (let prev = fst ` set previous;
          removed = prev - fst ` set want;
          merged = filter (\<lambda>e. fst e \<notin> removed) latest;
          common = filter (\<lambda>e. fst e \<in> prev \<and> fst e \<in> fst ` set merged) want in
      insert_new prev (reorder common merged) want)"

definition merge_queue_delta :: "(json \<Rightarrow> ustr) \<Rightarrow> ucommand list \<Rightarrow> ucommand list \<Rightarrow> ucommand list \<Rightarrow> ucommand list" where
  "merge_queue_delta repr latest previous desired =
     map snd (merge_entries (indexed_commands repr latest) (indexed_commands repr previous) (indexed_commands repr desired))"

definition merge_queues :: "(json \<Rightarrow> ustr) \<Rightarrow> (conv \<times> ucommand list) list \<Rightarrow> (conv \<times> ucommand list) list
    \<Rightarrow> (conv \<times> ucommand list) list \<Rightarrow> (conv \<times> ucommand list) list" where
  "merge_queues repr latest previous desired =
     foldl (\<lambda>acc c.
       (case merge_queue_delta repr (or_empty latest c) (or_empty previous c) (or_empty desired c) of
          [] \<Rightarrow> AList.delete c acc | ks \<Rightarrow> AList.update c ks acc))
       latest (remdups (map fst previous @ map fst desired))"

text \<open>Only what this owner holds is taken back or replaced.\<close>

fun merge_owned :: "ustr \<Rightarrow> (conv \<times> 'v) list \<Rightarrow> (conv \<times> 'v) list \<Rightarrow> conv list
    \<Rightarrow> (conv \<times> 'v) list \<times> (conv \<times> ustr) list \<Rightarrow> ((conv \<times> 'v) list \<times> (conv \<times> ustr) list) option" where
  "merge_owned me previous desired [] acc = Some acc"
| "merge_owned me previous desired (c # cs) (merged, owners) =
     (let before = map_of previous c; after = map_of desired c; owner = owner_of owners c in
      if before = after then merge_owned me previous desired cs (merged, owners)
      else if before \<noteq> None \<and> owner \<noteq> me then merge_owned me previous desired cs (merged, owners)
      else (case after of
        Some v \<Rightarrow>
          if c \<in> fst ` set merged \<and> owner \<noteq> [] \<and> owner \<noteq> me then None
          else merge_owned me previous desired cs (AList.update c v merged, AList.update c me owners)
      | None \<Rightarrow>
          if owner = me then merge_owned me previous desired cs (AList.delete c merged, AList.delete c owners)
          else merge_owned me previous desired cs (merged, owners)))"

definition merge_owned_delta :: "ustr \<Rightarrow> (conv \<times> 'v) list \<Rightarrow> (conv \<times> ustr) list \<Rightarrow> (conv \<times> 'v) list \<Rightarrow> (conv \<times> 'v) list
    \<Rightarrow> ((conv \<times> 'v) list \<times> (conv \<times> ustr) list) option" where
  "merge_owned_delta me latest owners previous desired =
     merge_owned me previous desired (remdups (map fst previous @ map fst desired)) (latest, owners)"

definition save :: "io \<Rightarrow> (conv \<times> ucommand list) list \<Rightarrow> (conv \<times> ucommand) list \<Rightarrow> (conv \<times> ucommand list) list
    \<Rightarrow> runtime \<Rightarrow> disk \<Rightarrow> unit outcome" where
  "save x want_queues want_inflight want_inputs r d = locked x r d (\<lambda>r d.
     (let me = owner_id r;
          s = (mem r)\<lparr>queues := merge_queues (repr_of x) (queues (mem r)) (owner_queues r) want_queues\<rparr> in
      case merge_owned_delta me (inflight s) (inflight_owners s) (owner_inflight r) want_inflight of
        None \<Rightarrow> (Inl OwnedElsewhere, r\<lparr>mem := s\<rparr>, d)
      | Some (held_now, holders) \<Rightarrow>
          (let s1 = s\<lparr>inflight := held_now, inflight_owners := holders\<rparr> in
           case merge_owned_delta me (turn_inputs s1) (turn_input_owners s1) (owner_turn_inputs r) want_inputs of
             None \<Rightarrow> (Inl OwnedElsewhere, r\<lparr>mem := s1\<rparr>, d)
           | Some (tis, tiss) \<Rightarrow>
               (let s2 = s1\<lparr>turn_inputs := tis, turn_input_owners := tiss\<rparr> in
                publish x s2 s2 r d
                  (\<lambda>r. r\<lparr>owner_queues := want_queues,
                         owner_inflight := filter (\<lambda>(c, k). map_of holders c = Some me \<and> map_of held_now c = Some k) want_inflight,
                         owner_turn_inputs := filter (\<lambda>(c, ks). map_of tiss c = Some me \<and> map_of tis c = Some ks) want_inputs\<rparr>) ()))))"

definition close :: "runtime \<Rightarrow> runtime" where
  "close r = r\<lparr>opened := False\<rparr>"

end
