(* ===== verification/DurableQueueProps.thy ===== *)
theory DurableQueueProps
  imports DurableQueue "HOL-Library.Multiset"
begin

text \<open>
  States the program writes are read back as they are (\<open>tidy\<close>), recovery moves work and loses none,
  and the lemma that says what an operation can publish (\<open>change\<close>).
\<close>

section \<open>Tidy states\<close>

definition user_command :: "ucommand \<Rightarrow> bool" where
  "user_command c \<longleftrightarrow> uc_type c = u ''user_message''"

definition client_ok :: "ucommand \<Rightarrow> bool" where
  "client_ok c \<longleftrightarrow> command_id c \<noteq> [] \<and> dict_to_client_command c = Some c \<and> client_command_to_dict c = Some c"

definition owners_ok :: "('k \<times> 'v) list \<Rightarrow> ('k \<times> ustr) list \<Rightarrow> bool" where
  "owners_ok d owners \<longleftrightarrow> dict_ok owners \<and> (\<forall>k i. map_of owners k = Some i \<longrightarrow> map_of d k \<noteq> None \<and> owner_pattern i)"

definition client_ids :: "qstate \<Rightarrow> ustr list" where
  "client_ids s = map command_id (client_pending s) @ map fst (client_inflight s)"

definition client_work :: "qstate \<Rightarrow> ucommand list" where
  "client_work s = client_pending s @ map snd (client_inflight s)"

definition all_entries :: "('k \<Rightarrow> 'v \<Rightarrow> bool) \<Rightarrow> ('k \<times> 'v) list \<Rightarrow> bool" where
  "all_entries Q d \<longleftrightarrow> (\<forall>(k, v) \<in> set d. Q k v)"

lemma all_entries_dict [dict_simps]:
  "all_entries Q d \<Longrightarrow> Q k v \<Longrightarrow> all_entries Q (AList.update k v d)"
  "all_entries Q d \<Longrightarrow> all_entries Q (AList.delete k d)"
  "all_entries Q d \<Longrightarrow> all_entries Q (filter R d)"
proof -
  have "set (AList.update k v d) \<subseteq> insert (k, v) (set d)" by (induction d) auto
  then show "all_entries Q d \<Longrightarrow> Q k v \<Longrightarrow> all_entries Q (AList.update k v d)" unfolding all_entries_def by blast
  show "all_entries Q d \<Longrightarrow> all_entries Q (AList.delete k d)" unfolding all_entries_def AList.delete_eq by simp
  show "all_entries Q d \<Longrightarrow> all_entries Q (filter R d)" unfolding all_entries_def by simp
qed

lemma all_entriesD: "all_entries Q d \<Longrightarrow> map_of d k = Some v \<Longrightarrow> Q k v"
  by (auto simp: all_entries_def dest!: map_of_SomeD)

definition tidy :: "qstate \<Rightarrow> bool" where
  "tidy s \<longleftrightarrow>
     dict_ok (queues s) \<and> dict_ok (inflight s) \<and> dict_ok (turn_inputs s) \<and> distinct (client_ids s)
     \<and> all_entries (\<lambda>c. list_all user_command) (queues s)
     \<and> all_entries (\<lambda>c. user_command) (inflight s)
     \<and> all_entries (\<lambda>c. list_all user_command) (turn_inputs s)
     \<and> list_all client_ok (client_pending s)
     \<and> all_entries (\<lambda>i k. client_ok k \<and> command_id k = i) (client_inflight s)
     \<and> owners_ok (inflight s) (inflight_owners s) \<and> owners_ok (turn_inputs s) (turn_input_owners s)
     \<and> owners_ok (client_inflight s) (client_inflight_owners s)"

lemma map_filter_all: "list_all (\<lambda>x. f x = Some x) xs \<Longrightarrow> List.map_filter f xs = xs"
  by (induction xs) (simp_all add: List.map_filter_def)

lemma map_opt_all: "\<forall>(k, v) \<in> set d. f v = Some v \<Longrightarrow> map_opt f d = d"
  unfolding map_opt_def by (rule map_filter_all) (auto simp: list_all_iff)

lemma map_each_all: "\<forall>(k, vs) \<in> set d. list_all (\<lambda>x. f x = Some x) vs \<Longrightarrow> map_each f d = d"
  by (induction d) (auto simp: map_each_def map_filter_all)

lemma in_keys: "c \<in> fst ` set d \<longleftrightarrow> map_of d c \<noteq> None"
  by (simp add: map_of_eq_None_iff)

lemma owner_map_all: "owners_ok d owners \<Longrightarrow> owner_map d owners = owners"
  unfolding owner_map_def owners_ok_def in_keys by (rule filter_True) (auto dest!: map_of_is_SomeI)

lemma clean_id: "i = clean_command_id j \<Longrightarrow> clean_command_id (Some (JStr i)) = i"
proof -
  assume i: "i = clean_command_id j"
  show ?thesis
  proof (cases "i = []")
    case True
    then show ?thesis by (simp add: clean_command_id_def ustrip_def)
  next
    case False
    have "i \<noteq> [] \<and> list_all id_char i \<and> length i \<le> 128"
      using i False by (auto simp: clean_command_id_def Let_def split: option.splits json.splits if_splits)
    moreover have "\<not> uspace c" if "id_char c" for c
      using that by (auto simp: id_char_def uword_def uspace_def space_code_def)
    moreover have "hd i \<in> set i" "last i \<in> set i" using False by simp_all
    ultimately have "\<not> uspace (hd i)" "\<not> uspace (last i)" by (auto simp: list_all_iff)
    with False have "ustrip i = i" by (simp add: ustrip_def strip_by_id)
    with \<open>i \<noteq> [] \<and> list_all id_char i \<and> length i \<le> 128\<close> show ?thesis by (simp add: clean_command_id_def)
  qed
qed

lemma update_same: "map_of d k = Some v \<Longrightarrow> AList.update k v d = d"
  by (induction d) (auto split: if_splits)

lemma client_entries_all:
  assumes "dict_ok d" "\<forall>(i, k) \<in> set d. client_ok k \<and> command_id k = i"
  shows "client_entries d = d"
proof -
  let ?f = "\<lambda>acc (raw, item). (case dict_to_client_command item of None \<Rightarrow> acc
     | Some c \<Rightarrow> (let k = (if clean_command_id (Some (JStr raw)) = [] then command_id c else clean_command_id (Some (JStr raw))) in
             if k = [] then acc else AList.update k c acc))"
  have "foldl ?f acc d = acc @ d" if "dict_ok (acc @ d)" "\<forall>(i, k) \<in> set d. client_ok k \<and> command_id k = i" for acc
    using that
  proof (induction d arbitrary: acc)
    case (Cons e d)
    obtain i k where e: "e = (i, k)" by fastforce
    have k: "client_ok k" "command_id k = i" using Cons.prems(2) e by auto
    have "clean_command_id (Some (JStr i)) = i" using k(2) clean_id unfolding command_id_def by metis
    moreover have "AList.update i k acc = acc @ [(i, k)]"
    proof -
      have "i \<notin> fst ` set acc" using Cons.prems(1) e by auto
      then show ?thesis by (induction acc) auto
    qed
    ultimately have "?f acc e = acc @ [(i, k)]" using k e by (auto simp: client_ok_def Let_def)
    with Cons.IH [of "acc @ [(i, k)]"] Cons.prems e show ?case by simp
  qed simp
  from this [of "[]"] assms show ?thesis by (simp add: client_entries_def)
qed

lemma tidy_fixed: "tidy s \<Longrightarrow> serialize s = s" "tidy s \<Longrightarrow> parse_state s = s"
proof -
  assume t: "tidy s"
  have q: "map_each command_to_dict (queues s) = queues s" "map_each command_to_dict (turn_inputs s) = turn_inputs s"
    "map_each dict_to_command (queues s) = queues s" "map_each dict_to_command (turn_inputs s) = turn_inputs s"
    by (rule map_each_all, use t in \<open>fastforce simp: tidy_def all_entries_def list_all_iff user_command_def command_to_dict_def dict_to_command_def\<close>)+
  have i: "map_opt command_to_dict (inflight s) = inflight s" "map_opt dict_to_command (inflight s) = inflight s"
    by (rule map_opt_all, use t in \<open>fastforce simp: tidy_def all_entries_def user_command_def command_to_dict_def dict_to_command_def\<close>)+
  have p: "List.map_filter client_command_to_dict (client_pending s) = client_pending s"
    "List.map_filter dict_to_client_command (client_pending s) = client_pending s"
    by (rule map_filter_all, use t in \<open>auto simp: tidy_def list_all_iff client_ok_def\<close>)+
  have c: "map_opt client_command_to_dict (client_inflight s) = client_inflight s"
    by (rule map_opt_all) (use t in \<open>fastforce simp: tidy_def all_entries_def client_ok_def\<close>)
  have e: "client_entries (client_inflight s) = client_inflight s"
    by (rule client_entries_all) (use t in \<open>auto simp: tidy_def all_entries_def client_ids_def\<close>)
  have o: "owner_map (inflight s) (inflight_owners s) = inflight_owners s"
    "owner_map (turn_inputs s) (turn_input_owners s) = turn_input_owners s"
    "owner_map (client_inflight s) (client_inflight_owners s) = client_inflight_owners s"
    by (rule owner_map_all, use t in \<open>simp add: tidy_def\<close>)+
  show "serialize s = s" by (simp add: serialize_def Let_def q i p c o)
  show "parse_state s = s" by (simp add: parse_state_def Let_def q i p e o)
qed

lemma tidy_ids: "tidy s \<Longrightarrow> client_ids s = map command_id (client_work s)"
  by (fastforce simp: tidy_def client_ids_def client_work_def all_entries_def)

lemma tidy_no_work [simp]: "tidy no_work"
  by (simp add: tidy_def no_work_def client_ids_def owners_ok_def all_entries_def)

definition disk_ok :: "disk \<Rightarrow> bool" where
  "disk_ok d \<longleftrightarrow> (case d of Some (Some p) \<Rightarrow> tidy p | _ \<Rightarrow> True)"

text \<open>What a reader of the file finds.\<close>

definition content :: "disk \<Rightarrow> qstate" where
  "content d = (case d of Some (Some p) \<Rightarrow> parse_state p | _ \<Rightarrow> no_work)"

lemma content_simps [simp]: "content None = no_work" "content (Some None) = no_work" "content (Some (Some p)) = parse_state p"
  by (simp_all add: content_def)

lemma content_tidy: "disk_ok d \<Longrightarrow> tidy (content d)"
  by (auto simp: disk_ok_def tidy_fixed split: option.splits)

lemma read_content: "fst (read_state x d) = content d" "content (snd (read_state x d)) = content d"
  "disk_ok d \<Longrightarrow> disk_ok (snd (read_state x d))"
  by (auto simp: read_state_def disk_ok_def split: option.splits)

section \<open>Recovery\<close>

definition inflight_of :: "qstate \<Rightarrow> conv \<Rightarrow> ucommand list" where
  "inflight_of s c = (case map_of (inflight s) c of Some k \<Rightarrow> [k] | None \<Rightarrow> [])"

definition user_work :: "qstate \<Rightarrow> conv \<Rightarrow> ucommand list" where
  "user_work s c = or_empty (turn_inputs s) c @ inflight_of s c @ or_empty (queues s) c"

lemma or_empty_dict [dict_simps]:
  "or_empty (AList.update c v d) c' = (if c' = c then v else or_empty d c')"
  "or_empty (AList.delete c d) c' = (if c' = c then [] else or_empty d c')"
  by (simp_all add: or_empty_def dict_simps)

lemma owner_of_dict [dict_simps]:
  "owner_of (AList.update c v d) c' = (if c' = c then v else owner_of d c')"
  "owner_of (AList.delete c d) c' = (if c' = c then [] else owner_of d c')"
  by (simp_all add: owner_of_def dict_simps)

definition turn_gone :: "(ustr \<Rightarrow> bool) \<Rightarrow> qstate \<Rightarrow> conv \<Rightarrow> bool" where
  "turn_gone live s c \<longleftrightarrow> map_of (turn_inputs s) c \<noteq> None \<and> \<not> live (owner_of (turn_input_owners s) c)"

definition claim_gone :: "(ustr \<Rightarrow> bool) \<Rightarrow> qstate \<Rightarrow> conv \<Rightarrow> bool" where
  "claim_gone live s c \<longleftrightarrow> map_of (inflight s) c \<noteq> None \<and> \<not> live (owner_of (inflight_owners s) c)"

definition replayed :: "(ustr \<Rightarrow> bool) \<Rightarrow> qstate \<Rightarrow> conv \<Rightarrow> ucommand list" where
  "replayed live s c = (if turn_gone live s c then or_empty (turn_inputs s) c else []) @ (if claim_gone live s c then inflight_of s c else [])"

lemma recover_conversation_fields:
  assumes s': "s' = recover_conversation live s c"
  shows "inflight s' = (if claim_gone live s c then AList.delete c (inflight s) else inflight s)"
    "inflight_owners s' = (if claim_gone live s c then AList.delete c (inflight_owners s) else inflight_owners s)"
    "turn_inputs s' = (if turn_gone live s c then AList.delete c (turn_inputs s) else turn_inputs s)"
    "turn_input_owners s' = (if turn_gone live s c then AList.delete c (turn_input_owners s) else turn_input_owners s)"
    "queues s' = (if replayed live s c = [] then queues s else AList.update c (replayed live s c @ or_empty (queues s) c) (queues s))"
    "client_pending s' = client_pending s" "client_inflight s' = client_inflight s"
    "client_inflight_owners s' = client_inflight_owners s"
  unfolding s' recover_conversation_def Let_def in_keys replayed_def turn_gone_def claim_gone_def inflight_of_def
  by (auto split: option.splits)

text \<open>What recovery does, conversation by conversation.\<close>

definition recovered :: "(ustr \<Rightarrow> bool) \<Rightarrow> conv set \<Rightarrow> qstate \<Rightarrow> qstate \<Rightarrow> bool" where
  "recovered live cs s s' \<longleftrightarrow>
     (\<forall>c. map_of (inflight s') c = (if c \<in> cs \<and> claim_gone live s c then None else map_of (inflight s) c)
        \<and> map_of (inflight_owners s') c = (if c \<in> cs \<and> claim_gone live s c then None else map_of (inflight_owners s) c)
        \<and> map_of (turn_inputs s') c = (if c \<in> cs \<and> turn_gone live s c then None else map_of (turn_inputs s) c)
        \<and> map_of (turn_input_owners s') c = (if c \<in> cs \<and> turn_gone live s c then None else map_of (turn_input_owners s) c)
        \<and> or_empty (queues s') c = (if c \<in> cs then replayed live s c else []) @ or_empty (queues s) c)
     \<and> client_pending s' = client_pending s \<and> client_inflight s' = client_inflight s
     \<and> client_inflight_owners s' = client_inflight_owners s"

lemma recovered_step:
  assumes "recovered live cs s s'" "c \<notin> cs"
  shows "recovered live (insert c cs) s (recover_conversation live s' c)"
proof -
  have same: "claim_gone live s' c = claim_gone live s c" "turn_gone live s' c = turn_gone live s c"
    "inflight_of s' c = inflight_of s c" "or_empty (turn_inputs s') c = or_empty (turn_inputs s) c"
    using assms by (simp_all add: recovered_def claim_gone_def turn_gone_def owner_of_def inflight_of_def or_empty_def)
  have rep: "replayed live s' c = replayed live s c" using same by (simp add: replayed_def)
  show ?thesis
    using assms unfolding recovered_def recover_conversation_fields [OF refl] rep same
    by (auto simp: dict_simps)
qed

lemma recovered_all: "distinct cs \<Longrightarrow> recovered live (set cs) s (foldl (recover_conversation live) s cs)"
proof (induction cs rule: rev_induct)
  case Nil
  then show ?case by (simp add: recovered_def)
next
  case (snoc c cs)
  from recovered_step [OF snoc.IH] snoc.prems show ?case by simp
qed

lemma owners_ok_dict [dict_simps]:
  "owners_ok d owners \<Longrightarrow> owners_ok (AList.delete c d) (AList.delete c owners)"
  "owners_ok d owners \<Longrightarrow> owners_ok (AList.update c v d) owners"
  "owners_ok d owners \<Longrightarrow> owner_pattern i \<Longrightarrow> owners_ok (AList.update c v d) (AList.update c i owners)"
  by (auto simp: owners_ok_def dict_simps)

lemma tidy_work:
  assumes "tidy s"
  shows "list_all user_command (or_empty (turn_inputs s) c)" "list_all user_command (inflight_of s c)"
    "list_all user_command (or_empty (queues s) c)"
  using assms by (auto simp: tidy_def or_empty_def inflight_of_def split: option.split dest: all_entriesD)

lemma tidy_recover_conversation:
  assumes t: "tidy s"
  shows "tidy (recover_conversation live s c)"
proof -
  let ?s = "recover_conversation live s c"
  note f = recover_conversation_fields [OF refl, of live s c]
  have d: "dict_ok (queues ?s)" "dict_ok (inflight ?s)" "dict_ok (turn_inputs ?s)"
    unfolding f using t by (simp_all add: tidy_def dict_simps)
  have "list_all user_command (replayed live s c @ or_empty (queues s) c)" using tidy_work [OF t] by (simp add: replayed_def)
  then have "all_entries (\<lambda>c. list_all user_command) (queues ?s)" unfolding f using t by (simp add: tidy_def dict_simps)
  moreover have "all_entries (\<lambda>c. user_command) (inflight ?s)" "all_entries (\<lambda>c. list_all user_command) (turn_inputs ?s)"
    unfolding f using t by (simp_all add: tidy_def dict_simps)
  moreover have "owners_ok (inflight ?s) (inflight_owners ?s)" "owners_ok (turn_inputs ?s) (turn_input_owners ?s)"
    unfolding f using t by (simp_all add: tidy_def dict_simps)
  ultimately show ?thesis
    using t d unfolding tidy_def client_ids_def by (simp add: f(6-8))
qed

definition client_gone :: "(ustr \<Rightarrow> bool) \<Rightarrow> qstate \<Rightarrow> ustr \<Rightarrow> bool" where
  "client_gone live s i \<longleftrightarrow> map_of (client_inflight s) i \<noteq> None \<and> \<not> live (owner_of (client_inflight_owners s) i)"

definition restored :: "(ustr \<Rightarrow> bool) \<Rightarrow> qstate \<Rightarrow> qstate \<Rightarrow> bool" where
  "restored live s s' \<longleftrightarrow>
     (\<forall>c. map_of (inflight s') c = (if claim_gone live s c then None else map_of (inflight s) c)
        \<and> map_of (inflight_owners s') c = (if claim_gone live s c then None else map_of (inflight_owners s) c)
        \<and> map_of (turn_inputs s') c = (if turn_gone live s c then None else map_of (turn_inputs s) c)
        \<and> map_of (turn_input_owners s') c = (if turn_gone live s c then None else map_of (turn_input_owners s) c)
        \<and> or_empty (queues s') c = replayed live s c @ or_empty (queues s) c)
     \<and> (\<forall>i. map_of (client_inflight s') i = (if client_gone live s i then None else map_of (client_inflight s) i)
        \<and> map_of (client_inflight_owners s') i = (if client_gone live s i then None else map_of (client_inflight_owners s) i))
     \<and> mset (client_work s') = mset (client_work s)
     \<and> set (client_pending s) \<subseteq> set (client_pending s')"

lemma map_of_filter_key: "map_of (filter (\<lambda>(k, v). P k) d) k = (if P k then map_of d k else None)"
  by (induction d) auto

lemma dict_ok_filter [dict_simps]: "dict_ok d \<Longrightarrow> dict_ok (filter P d)"
  by (induction d) auto

lemma recover_clients_facts:
  fixes live :: "ustr \<Rightarrow> bool"
  assumes t: "tidy s"
  defines "s' \<equiv> recover_clients live s"
  shows "tidy s'" "mset (client_work s') = mset (client_work s)" "set (client_pending s) \<subseteq> set (client_pending s')"
    "map_of (client_inflight s') i = (if client_gone live s i then None else map_of (client_inflight s) i)"
    "map_of (client_inflight_owners s') i = (if client_gone live s i then None else map_of (client_inflight_owners s) i)"
proof -
  let ?d = "client_inflight s"
  let ?dead = "\<lambda>k. \<not> live (owner_of (client_inflight_owners s) k)"
  have ok: "dict_ok ?d" "distinct (client_ids s)" "owners_ok ?d (client_inflight_owners s)"
      "all_entries (\<lambda>i k. client_ok k \<and> command_id k = i) ?d"
    using t by (auto simp: tidy_def client_ids_def)
  have gone: "dead_clients live s = map fst (filter (\<lambda>(k, c). ?dead k) ?d)"
    by (simp add: dead_clients_def filter_map o_def split_def)
  have in_gone: "k \<in> set (dead_clients live s) \<longleftrightarrow> client_gone live s k" for k
    using ok(1) by (auto simp: gone client_gone_def dest: map_of_SomeD intro!: rev_image_eqI)
  have returned: "List.map_filter (map_of ?d) (dead_clients live s) = map snd (filter (\<lambda>(k, c). ?dead k) ?d)"
  proof -
    have m: "List.map_filter (map_of ?d) (map fst es) = map snd es" if "set es \<subseteq> set ?d" for es
      using that ok(1) by (induction es) (auto simp: List.map_filter_def)
    show ?thesis unfolding gone by (rule m) auto
  qed
  let ?regained = "map snd (filter (\<lambda>(k, c). ?dead k) ?d)"
  have ids: "map command_id ?regained = map fst (filter (\<lambda>(k, c). ?dead k) ?d)"
    using ok(4) by (auto simp: all_entries_def)
  have "command_id c \<notin> set (filter (\<lambda>i. i \<noteq> []) (map command_id (client_pending s)))" if "c \<in> set ?regained" for c
  proof -
    have "command_id c \<in> set (map command_id ?regained)" using imageI [OF that, of command_id] by (simp only: set_map)
    then have "command_id c \<in> fst ` set ?d" unfolding ids by auto
    then show ?thesis using ok(2) by (auto simp: client_ids_def)
  qed
  then have fresh: "filter (\<lambda>c. command_id c \<notin> set (filter (\<lambda>i. i \<noteq> []) (map command_id (client_pending s)))) ?regained = ?regained"
    by (intro filter_True) blast
  have s': "s' = s\<lparr>client_inflight := filter (\<lambda>(k, c). \<not> client_gone live s k) ?d,
      client_inflight_owners := filter (\<lambda>(k, i). \<not> client_gone live s k) (client_inflight_owners s),
      client_pending := ?regained @ client_pending s\<rparr>"
    unfolding s'_def recover_clients_def Let_def returned fresh in_gone ..
  show "set (client_pending s) \<subseteq> set (client_pending s')" unfolding s' by simp
  show m1: "map_of (client_inflight s') i = (if client_gone live s i then None else map_of (client_inflight s) i)" for i
    unfolding s' by (simp add: map_of_filter_key)
  show m2: "map_of (client_inflight_owners s') i = (if client_gone live s i then None else map_of (client_inflight_owners s) i)" for i
    unfolding s' by (simp add: map_of_filter_key)
  have g: "client_gone live s k \<longleftrightarrow> ?dead k" if "(k, c) \<in> set ?d" for k c
    using that ok(1) by (simp add: client_gone_def)
  have "filter (\<lambda>(k, c). \<not> client_gone live s k) ?d = filter (\<lambda>(k, c). \<not> ?dead k) ?d"
    by (rule filter_cong) (use g in auto)
  then have p: "client_pending s' = ?regained @ client_pending s" "client_inflight s' = filter (\<lambda>(k, c). \<not> ?dead k) ?d"
    by (simp_all add: s')
  have w: "client_work s' = map snd (filter (\<lambda>(k, c). ?dead k) ?d) @ client_pending s
      @ map snd (filter (\<lambda>(k, c). \<not> ?dead k) ?d)"
    using p by (simp only: client_work_def append_assoc)
  have sent: "mset (map snd (filter (\<lambda>(k, c). ?dead k) ds)) + mset (map snd (filter (\<lambda>(k, c). \<not> ?dead k) ds)) = mset (map snd ds)"
    for ds :: "(ustr \<times> ucommand) list" by (induction ds) auto
  have "mset (client_work s) = mset (client_pending s)
      + (mset (map snd (filter (\<lambda>(k, c). ?dead k) ?d)) + mset (map snd (filter (\<lambda>(k, c). \<not> ?dead k) ?d)))"
    unfolding sent client_work_def mset_append ..
  then show "mset (client_work s') = mset (client_work s)" by (simp only: w mset_append ac_simps)
  have e: "client_ids s' = map fst (filter (\<lambda>(k, c). ?dead k) ?d) @ map command_id (client_pending s)
      @ map fst (filter (\<lambda>(k, c). \<not> ?dead k) ?d)"
    using p by (simp only: client_ids_def map_append ids append_assoc)
  have part: "mset (map fst (filter (\<lambda>(k, c). ?dead k) ds)) + mset (map fst (filter (\<lambda>(k, c). \<not> ?dead k) ds)) = mset (map fst ds)"
    for ds :: "(ustr \<times> ucommand) list" by (induction ds) auto
  have "mset (client_ids s) = mset (map command_id (client_pending s))
      + (mset (map fst (filter (\<lambda>(k, c). ?dead k) ?d)) + mset (map fst (filter (\<lambda>(k, c). \<not> ?dead k) ?d)))"
    unfolding part client_ids_def mset_append ..
  then have m: "mset (client_ids s') = mset (client_ids s)" by (simp only: e mset_append ac_simps)
  have "distinct (client_ids s')" using m ok(2) by (metis mset_eq_imp_distinct_iff)
  moreover have "list_all client_ok ?regained" using ok(4) by (auto simp: list_all_iff all_entries_def)
  moreover have "owners_ok (client_inflight s') (client_inflight_owners s')"
    using ok(3) m1 m2 unfolding owners_ok_def by (auto simp: s' dict_ok_filter split: if_splits)
  moreover have "all_entries (\<lambda>i k. client_ok k \<and> command_id k = i) (client_inflight s')" unfolding s' using ok(4) by (simp add: dict_simps)
  ultimately show "tidy s'" using t unfolding tidy_def by (simp add: s')
qed

lemma attached_all: "owners_ok d owners \<Longrightarrow> attached d owners = owners"
  unfolding attached_def owners_ok_def in_keys by (rule filter_True) (auto dest!: map_of_is_SomeI)

lemma drop_dangling_tidy: "tidy s \<Longrightarrow> drop_dangling s = s"
  by (simp add: drop_dangling_def tidy_def attached_all)

lemma recover_stale_owners_facts:
  assumes t: "tidy s"
  shows "tidy (fst (recover_stale_owners live s))" "restored live s (fst (recover_stale_owners live s))"
    "\<not> snd (recover_stale_owners live s) \<Longrightarrow> fst (recover_stale_owners live s) = s"
proof -
  let ?cs = "remdups (map fst (inflight s) @ map fst (turn_inputs s))"
  let ?s1 = "foldl (recover_conversation live) s ?cs"
  have t1: "tidy (foldl (recover_conversation live) s cs)" for cs
    using t by (induction cs arbitrary: s) (simp_all add: tidy_recover_conversation)
  have r: "recovered live (set ?cs) s ?s1" by (rule recovered_all) simp
  note c = recover_clients_facts [OF t1 [of ?cs], of live]
  have f: "fst (recover_stale_owners live s) = recover_clients live ?s1"
    using drop_dangling_tidy [OF c(1)] by (simp add: recover_stale_owners_def Let_def)
  show "tidy (fst (recover_stale_owners live s))" unfolding f by (rule c(1))
  have keys: "c \<in> set ?cs" if "claim_gone live s c \<or> turn_gone live s c" for c
    using that by (auto simp: claim_gone_def turn_gone_def dest!: map_of_SomeD intro: rev_image_eqI)
  have rep: "(if c \<in> set ?cs then replayed live s c else []) = replayed live s c" for c
    using keys [of c] by (auto simp: replayed_def)
  have same: "client_gone live ?s1 i = client_gone live s i" "client_work ?s1 = client_work s" for i
    using r by (simp_all add: recovered_def client_gone_def client_work_def)
  show "restored live s (fst (recover_stale_owners live s))"
    unfolding f restored_def c(4,5) same [symmetric] c(2)
    using c(3) r keys rep by (auto simp: recovered_def recover_clients_def Let_def same)
  show "fst (recover_stale_owners live s) = s" if "\<not> snd (recover_stale_owners live s)"
  proof -
    have n: "\<not> list_ex (conversation_recovers live s) ?cs" "dead_clients live s = []"
      using that by (simp_all add: recover_stale_owners_def Let_def)
    have still: "recover_conversation live s c = s" if "c \<in> set ?cs" for c
    proof -
      have "\<not> conversation_recovers live s c" using n(1) that by (auto simp: list_ex_iff)
      then show ?thesis by (auto simp: conversation_recovers_def recover_conversation_def Let_def)
    qed
    have "foldl (recover_conversation live) s cs = s" if "set cs \<subseteq> set ?cs" for cs
      using that by (induction cs) (simp_all add: still)
    then have "?s1 = s" by simp
    moreover have "recover_clients live s = s" using n(2) by (simp add: recover_clients_def)
    ultimately show ?thesis unfolding f by simp
  qed
qed

end
