(* ===== verification/DurableQueueMerge.thy ===== *)
theory DurableQueueMerge
  imports DurableQueue "HOL-Library.Multiset"
begin

text \<open>
  \<open>_merge_queue_delta\<close> is a three-way merge: what this session added or took out since it last
  looked is applied to what is in the file now. Without concurrent changes the file ends up
  with what the session wants; what others added stays, in its order, and what others consumed
  does not come back.
\<close>

section \<open>Keys\<close>

lemma keys_filter:
  "fst ` set (filter (\<lambda>e. fst e \<in> A) d) = A \<inter> fst ` set d"
  "fst ` set (filter (\<lambda>e. fst e \<in> A \<and> fst e \<in> B) d) = A \<inter> B \<inter> fst ` set d"
  "fst ` set (filter (\<lambda>e. fst e \<notin> A) d) = fst ` set d - A"
  "fst ` {e \<in> set d. fst e \<notin> A \<and> fst e \<notin> B} = fst ` set d - A - B"
  by auto

lemma index_from_keys:
  "distinct (map fst (index_from repr seen cs))"
  "(i, n) \<in> fst ` set (index_from repr seen cs) \<Longrightarrow> count_list seen i \<le> n"
  "map snd (index_from repr seen cs) = cs"
proof -
  have b: "(i, n) \<in> fst ` set (index_from repr seen cs) \<Longrightarrow> count_list seen i \<le> n" for i n seen cs
  proof (induction cs arbitrary: seen)
    case (Cons c cs)
    then consider "i = user_command_identity repr c" "n = count_list seen i"
      | "(i, n) \<in> fst ` set (index_from repr (user_command_identity repr c # seen) cs)" by (auto simp: Let_def)
    then show ?case using Cons.IH [of "user_command_identity repr c # seen"] by cases (auto split: if_splits)
  qed simp
  show "(i, n) \<in> fst ` set (index_from repr seen cs) \<Longrightarrow> count_list seen i \<le> n" by (rule b)
  show "map snd (index_from repr seen cs) = cs" by (induction cs arbitrary: seen) (simp_all add: Let_def)
  show "distinct (map fst (index_from repr seen cs))"
  proof (induction cs arbitrary: seen)
    case (Cons c cs)
    let ?i = "user_command_identity repr c"
    have "(?i, count_list seen ?i) \<notin> fst ` set (index_from repr (?i # seen) cs)"
    proof
      assume "(?i, count_list seen ?i) \<in> fst ` set (index_from repr (?i # seen) cs)"
      from b [OF this] show False by simp
    qed
    then have "(?i, count_list seen ?i) \<notin> set (map fst (index_from repr (?i # seen) cs))" by (simp only: set_map simp_thms)
    with Cons.IH [of "?i # seen"] show ?case by (simp only: index_from.simps Let_def list.map fst_conv distinct.simps simp_thms)
  qed simp
qed

lemma indexed_commands_keys [simp]: "distinct (map fst (indexed_commands repr cs))" "map snd (indexed_commands repr cs) = cs"
  by (simp_all add: indexed_commands_def index_from_keys)

section \<open>Reordering\<close>

fun refill :: "('a \<Rightarrow> bool) \<Rightarrow> 'a list \<Rightarrow> 'a list \<Rightarrow> 'a list" where
  "refill P common [] = []"
| "refill P common (e # es) =
     (if P e then (case common of [] \<Rightarrow> e # es | c # cs \<Rightarrow> c # refill P cs es) else e # refill P common es)"

lemma fold_updates_Suc:
  "foldl (\<lambda>m (n, e). m[n := e]) (y # ys) (zip (map Suc ns) es) = y # foldl (\<lambda>m (n, e). m[n := e]) ys (zip ns es)"
proof (induction ns arbitrary: ys es)
  case (Cons n ns)
  then show ?case by (cases es) simp_all
qed simp

lemma slots_Cons: "filter (\<lambda>n. P ((e # es) ! n)) [0..<length (e # es)] =
    (if P e then [0] else []) @ map Suc (filter (\<lambda>n. P (es ! n)) [0..<length es])"
  by (simp add: upt_rec [of 0] map_Suc_upt [symmetric] filter_map o_def del: upt_Suc)

lemma updates_refill:
  "foldl (\<lambda>m (n, e). m[n := e]) es (zip (filter (\<lambda>n. P (es ! n)) [0..<length es]) common) = refill P common es"
proof (induction es arbitrary: common)
  case (Cons e es)
  show ?case
  proof (cases "P e")
    case False
    then show ?thesis unfolding slots_Cons using Cons.IH by (simp add: fold_updates_Suc)
  next
    case True
    show ?thesis
    proof (cases common)
      case Nil
      then show ?thesis using True by simp
    next
      case (Cons c cs)
      then show ?thesis unfolding slots_Cons using True Cons.IH by (simp add: fold_updates_Suc)
    qed
  qed
qed simp

lemma reorder_eq:
  "length (filter (\<lambda>e. fst e \<in> fst ` set common) merged) = length common
    \<Longrightarrow> reorder common merged = refill (\<lambda>e. fst e \<in> fst ` set common) common merged"
proof -
  have "length (filter (\<lambda>n. P (es ! n)) [0..<length es]) = length (filter P es)" for P and es :: "((identity \<times> nat) \<times> ucommand) list"
  proof (induction es)
    case (Cons e es)
    then show ?case unfolding slots_Cons by simp
  qed simp
  note len = this [where P = "\<lambda>e. fst e \<in> fst ` set common" and es = merged]
  show "length (filter (\<lambda>e. fst e \<in> fst ` set common) merged) = length common
      \<Longrightarrow> reorder common merged = refill (\<lambda>e. fst e \<in> fst ` set common) common merged"
    unfolding reorder_def Let_def len updates_refill [where P = "\<lambda>e. fst e \<in> fst ` set common" and es = merged] by (rule if_P)
qed

lemma refill_facts:
  "length (filter P es) = length common \<Longrightarrow> filter (\<lambda>e. \<not> P e) es = rest \<Longrightarrow> mset (refill P common es) = mset common + mset rest"
  "length (filter P es) = length common \<Longrightarrow> list_all P common
     \<Longrightarrow> filter (\<lambda>e. \<not> P e) (refill P common es) = filter (\<lambda>e. \<not> P e) es"
  "length (filter P es) = length common \<Longrightarrow> list_all P es \<Longrightarrow> refill P common es = common"
proof (induction es arbitrary: common rest)
  case (Cons e es)
  {
    case 1
    then show ?case using Cons.IH(1) by (cases common) auto
  next
    case 2
    then show ?case using Cons.IH(2) by (cases common) auto
  next
    case 3
    then show ?case using Cons.IH(3) by (cases common) auto
  }
qed simp_all

section \<open>Insertion\<close>

lemma filter_out_one: "\<not> Q y \<Longrightarrow> {x \<in> insert y A. Q x} = {x \<in> A. Q x}"
  by blast

lemma insert_new_facts:
  assumes "distinct (map fst want)" "distinct (map fst merged)"
  shows "set (insert_new prev merged want) = set merged \<union> {e \<in> set want. fst e \<notin> prev \<and> fst e \<notin> fst ` set merged}"
    "distinct (map fst (insert_new prev merged want))"
    "filter (\<lambda>e. fst e \<notin> fst ` set want) (insert_new prev merged want) = filter (\<lambda>e. fst e \<notin> fst ` set want) merged"
proof -
  have "set (insert_new prev merged want) = set merged \<union> {e \<in> set want. fst e \<notin> prev \<and> fst e \<notin> fst ` set merged}
      \<and> distinct (map fst (insert_new prev merged want))
      \<and> (\<forall>W. fst ` set want \<subseteq> W \<longrightarrow> filter (\<lambda>e. fst e \<notin> W) (insert_new prev merged want) = filter (\<lambda>e. fst e \<notin> W) merged)"
    using assms
  proof (induction want arbitrary: merged)
    case (Cons e rest)
    obtain k c where e: "e = (k, c)" by fastforce
    let ?Q = "\<lambda>e. fst e \<notin> fst ` set rest"
    let ?m = "takeWhile ?Q merged @ (k, c) # dropWhile ?Q merged"
    show ?case
    proof (cases "k \<in> prev \<or> k \<in> fst ` set merged")
      case True
      then have "{x \<in> set (e # rest). fst x \<notin> prev \<and> fst x \<notin> fst ` set merged} = {e \<in> set rest. fst e \<notin> prev \<and> fst e \<notin> fst ` set merged}"
      proof -
        show ?thesis unfolding list.set by (rule filter_out_one) (use True e in simp)
      qed
      moreover have "insert_new prev merged (e # rest) = insert_new prev merged rest" using True unfolding e by simp
      ultimately show ?thesis using Cons.IH [of merged] Cons.prems by (simp del: insert_new.simps)
    next
      case False
      have s: "mset ?m = add_mset (k, c) (mset merged)"
        using mset_append [of "takeWhile ?Q merged" "dropWhile ?Q merged"] by simp
      then have ss: "set ?m = insert (k, c) (set merged)" by (metis set_mset_mset set_mset_add_mset_insert)
      have "mset (map fst ?m) = mset (map fst ((k, c) # merged))"
        using arg_cong [OF s, of "image_mset fst"] by simp
      moreover have "distinct (map fst ((k, c) # merged))" using Cons.prems False by simp
      ultimately have d: "distinct (map fst ?m)" using mset_eq_imp_distinct_iff by blast
      have f: "filter (\<lambda>e. fst e \<notin> W) ?m = filter (\<lambda>e. fst e \<notin> W) merged" if "k \<in> W" for W
        using that filter_append [of "\<lambda>e. fst e \<notin> W" "takeWhile ?Q merged" "dropWhile ?Q merged"] by simp
      have i: "insert_new prev merged ((k, c) # rest) = insert_new prev ?m rest" using False by simp
      have IH: "set (insert_new prev ?m rest) = set ?m \<union> {e \<in> set rest. fst e \<notin> prev \<and> fst e \<notin> fst ` set ?m}"
        "distinct (map fst (insert_new prev ?m rest))"
        "\<And>W. fst ` set rest \<subseteq> W \<Longrightarrow> filter (\<lambda>e. fst e \<notin> W) (insert_new prev ?m rest) = filter (\<lambda>e. fst e \<notin> W) ?m"
        using Cons.IH [OF _ d] Cons.prems by auto
      have k: "k \<notin> fst ` set rest" using Cons.prems e by simp
      have a: "insert (k, c) (set merged) \<union> {x \<in> set rest. fst x \<notin> prev \<and> fst x \<notin> fst ` insert (k, c) (set merged)}
          = set merged \<union> {x \<in> insert (k, c) (set rest). fst x \<notin> prev \<and> fst x \<notin> fst ` set merged}"
      proof -
        have "fst x \<noteq> k" if "x \<in> set rest" for x using k imageI [OF that, of fst] by metis
        moreover have "k \<notin> prev" "k \<notin> fst ` set merged" using False by blast+
        ultimately show ?thesis by (intro set_eqI) (simp, metis fst_conv)
      qed
      have b: "filter (\<lambda>x. fst x \<notin> W) (insert_new prev ?m rest) = filter (\<lambda>x. fst x \<notin> W) merged"
        if "fst ` set ((k, c) # rest) \<subseteq> W" for W
        using IH(3) [of W] f [of W] that by simp
      show ?thesis unfolding e i IH(1) ss list.set(2) using a IH(2) b by simp
    qed
  qed simp
  then show "set (insert_new prev merged want) = set merged \<union> {e \<in> set want. fst e \<notin> prev \<and> fst e \<notin> fst ` set merged}"
    "distinct (map fst (insert_new prev merged want))"
    "filter (\<lambda>e. fst e \<notin> fst ` set want) (insert_new prev merged want) = filter (\<lambda>e. fst e \<notin> fst ` set want) merged" by blast+
qed

lemma insert_new_all:
  assumes "distinct (map fst (pre @ rest))"
  shows "insert_new prev (pre @ filter (\<lambda>e. fst e \<in> prev) rest) rest = pre @ rest"
  using assms
proof (induction rest arbitrary: pre)
  case (Cons e rest)
  obtain k c where e: "e = (k, c)" by fastforce
  have IH: "insert_new prev ((pre @ [e]) @ filter (\<lambda>e. fst e \<in> prev) rest) rest = (pre @ [e]) @ rest"
    by (rule Cons.IH) (use Cons.prems in simp)
  show ?case
  proof (cases "k \<in> prev")
    case True
    then show ?thesis using IH e by simp
  next
    case False
    let ?Q = "\<lambda>e. fst e \<notin> fst ` set rest"
    let ?f = "filter (\<lambda>e. fst e \<in> prev) rest"
    have p: "takeWhile ?Q (pre @ ?f) = pre" "dropWhile ?Q (pre @ ?f) = ?f"
    proof -
      have "?Q x" if "x \<in> set pre" for x using Cons.prems that by force
      moreover have "takeWhile ?Q ?f = []" "dropWhile ?Q ?f = ?f"
      proof -
        have "fst x \<in> fst ` set rest" if "?f = x # xs" for x xs
        proof -
          have "x \<in> set ?f" using that by simp
          then show ?thesis by simp
        qed
        then show "takeWhile ?Q ?f = []" "dropWhile ?Q ?f = ?f" by (cases ?f; simp)+
      qed
      ultimately show "takeWhile ?Q (pre @ ?f) = pre" "dropWhile ?Q (pre @ ?f) = ?f"
        by (simp_all add: takeWhile_append2 dropWhile_append2)
    qed
    have "k \<notin> fst ` set (pre @ ?f)" using Cons.prems e by auto
    then show ?thesis using IH False p e by simp
  qed
qed simp

section \<open>The merge\<close>

lemma common_slots:
  fixes removed prev :: "(identity \<times> nat) set" and latest want :: indexed
  assumes "distinct (map fst latest)" "distinct (map fst want)"
  defines "merged \<equiv> filter (\<lambda>e. fst e \<notin> removed) latest"
  defines "common \<equiv> filter (\<lambda>e. fst e \<in> prev \<and> fst e \<in> fst ` set merged) want"
  shows "length (filter (\<lambda>e. fst e \<in> fst ` set common) merged) = length common"
proof -
  have d: "distinct (map fst (filter (\<lambda>e. fst e \<in> fst ` set common) merged))" "distinct (map fst common)"
    using assms(1,2) by (simp_all add: merged_def common_def distinct_map_filter)
  have "set (map fst (filter (\<lambda>e. fst e \<in> fst ` set common) merged)) = set (map fst common)"
    unfolding set_map keys_filter common_def by blast
  then have "card (set (map fst (filter (\<lambda>e. fst e \<in> fst ` set common) merged))) = card (set (map fst common))" by simp
  then show ?thesis unfolding distinct_card [OF d(1)] distinct_card [OF d(2)] by simp
qed

lemma merge_entries_facts:
  fixes latest previous want :: indexed
  assumes d: "distinct (map fst latest)" "distinct (map fst want)"
  shows "distinct (map fst (merge_entries latest previous want))"
    "fst ` set (merge_entries latest previous want) = (fst ` set latest - (fst ` set previous - fst ` set want)) \<union> (fst ` set want - fst ` set previous)"
    "set (merge_entries latest previous want) \<subseteq> set latest \<union> set want"
    "filter (\<lambda>e. fst e \<notin> fst ` set want) (merge_entries latest previous want) = filter (\<lambda>e. fst e \<notin> fst ` set want \<union> fst ` set previous) latest"
proof -
  define prev where "prev = fst ` set previous"
  define W where "W = fst ` set want"
  define merged where "merged = filter (\<lambda>e. fst e \<notin> prev - W) latest"
  define common where "common = filter (\<lambda>e. fst e \<in> prev \<and> fst e \<in> fst ` set merged) want"
  define C where "C = fst ` set common"
  have l: "length (filter (\<lambda>e. fst e \<in> C) merged) = length common"
    unfolding C_def common_def merged_def by (rule common_slots) (use d in simp_all)
  define R where "R = reorder common merged"
  have R: "R = refill (\<lambda>e. fst e \<in> C) common merged" unfolding R_def C_def by (rule reorder_eq) (use l in \<open>simp add: C_def\<close>)
  have m: "merge_entries latest previous want = insert_new prev R want"
    by (simp add: merge_entries_def Let_def R_def common_def merged_def prev_def W_def)
  have R1: "mset R = mset common + mset (filter (\<lambda>e. fst e \<notin> C) merged)" unfolding R by (rule refill_facts(1)) (use l in simp_all)
  have R2: "filter (\<lambda>e. fst e \<notin> C) R = filter (\<lambda>e. fst e \<notin> C) merged"
    unfolding R by (rule refill_facts(2)) (use l in \<open>simp_all add: C_def list_all_iff\<close>)
  have C: "C = prev \<inter> W \<inter> fst ` set merged" unfolding C_def common_def keys_filter W_def by blast
  have sR: "set R = set common \<union> set (filter (\<lambda>e. fst e \<notin> C) merged)" using arg_cong [OF R1, of set_mset] by simp
  have kR: "fst ` set R = fst ` set merged" unfolding sR image_Un C_def [symmetric] keys_filter using C by blast
  have dR: "distinct (map fst R)"
  proof -
    have "mset (map fst R) = mset (map fst (common @ filter (\<lambda>e. fst e \<notin> C) merged))"
      using arg_cong [OF R1, of "image_mset fst"] by simp
    moreover have "distinct (map fst (common @ filter (\<lambda>e. fst e \<notin> C) merged))"
    proof -
      have "fst ` set common \<inter> fst ` set (filter (\<lambda>e. fst e \<notin> C) merged) = {}"
        unfolding keys_filter C_def by blast
      moreover have "distinct (map fst common)" "distinct (map fst (filter (\<lambda>e. fst e \<notin> C) merged))"
        using d by (simp_all add: common_def merged_def distinct_map_filter)
      ultimately show ?thesis by simp
    qed
    ultimately show ?thesis using mset_eq_imp_distinct_iff by blast
  qed
  note i = insert_new_facts [OF d(2) dR, of prev]
  show "distinct (map fst (merge_entries latest previous want))" unfolding m by (rule i(2))
  show "set (merge_entries latest previous want) \<subseteq> set latest \<union> set want"
    unfolding m i(1) sR by (auto simp: common_def merged_def)
  have "fst ` set (insert_new prev R want) = fst ` set merged \<union> (W - prev)"
    unfolding i(1) image_Un keys_filter kR W_def by blast
  also have "fst ` set merged = fst ` set latest - (prev - W)" unfolding merged_def keys_filter by blast
  finally show "fst ` set (merge_entries latest previous want) = (fst ` set latest - (fst ` set previous - fst ` set want)) \<union> (fst ` set want - fst ` set previous)"
    unfolding m W_def prev_def .
  have "filter (\<lambda>e. fst e \<notin> W) R = filter (\<lambda>e. fst e \<notin> W) (filter (\<lambda>e. fst e \<notin> C) R)"
    by (subst filter_filter) (rule filter_cong, use C in auto)
  also have "\<dots> = filter (\<lambda>e. fst e \<notin> W \<union> prev) latest"
    unfolding R2 merged_def filter_filter by (rule filter_cong) (use C in auto)
  finally have "filter (\<lambda>e. fst e \<notin> W) R = filter (\<lambda>e. fst e \<notin> W \<union> prev) latest" .
  then show "filter (\<lambda>e. fst e \<notin> fst ` set want) (merge_entries latest previous want)
      = filter (\<lambda>e. fst e \<notin> fst ` set want \<union> fst ` set previous) latest"
    unfolding m i(3) unfolding W_def prev_def .
qed

lemma merge_entries_alone:
  fixes previous want :: indexed
  assumes d: "distinct (map fst previous)" "distinct (map fst want)"
  shows "merge_entries previous previous want = want"
proof -
  define prev where "prev = fst ` set previous"
  define merged where "merged = filter (\<lambda>e. fst e \<notin> prev - fst ` set want) previous"
  define common where "common = filter (\<lambda>e. fst e \<in> prev \<and> fst e \<in> fst ` set merged) want"
  have k: "fst ` set merged = prev \<inter> fst ` set want" unfolding merged_def keys_filter prev_def by blast
  have c: "common = filter (\<lambda>e. fst e \<in> prev) want" unfolding common_def k by (rule filter_cong) auto
  have cm: "fst ` set common = fst ` set merged" unfolding c k keys_filter by blast
  have l: "length (filter (\<lambda>e. fst e \<in> fst ` set common) merged) = length common"
    unfolding common_def merged_def by (rule common_slots) (use d in simp_all)
  have "reorder common merged = common"
    unfolding reorder_eq [OF l] by (rule refill_facts(3)) (use l cm in \<open>auto simp: list_all_iff\<close>)
  then have "merge_entries previous previous want = insert_new prev common want"
    by (simp add: merge_entries_def Let_def common_def merged_def prev_def)
  also have "\<dots> = want" unfolding c using insert_new_all [of "[]" want prev] d by simp
  finally show ?thesis .
qed

end
