(* ===== verification/DurableQueueSystem.thy ===== *)
theory DurableQueueSystem
  imports DurableQueueProps DurableQueueMerge
begin

text \<open>
  All the runtimes that share one queue file: they are created with a fresh id, do operations in any
  order, close, or die with their process, which frees their lease. Any write may fail.
\<close>

section \<open>Operations and their answers\<close>

datatype qop =
    Load | Pending conv | ClaimUser conv | SettleUser conv ucommand bool
  | Save "(conv \<times> ucommand list) list" "(conv \<times> ucommand) list" "(conv \<times> ucommand list) list"
  | HasClient json | PersistClient ucommand | PendingClients | DiscardClient json | ClaimClient json
  | CompleteClient json | ReleaseClient json

datatype answer =
    Failed queue_error | Queues "(conv \<times> ucommand list) list" | Commands "ucommand list"
  | Claimed "ucommand option" | Flag bool | Saved

definition answered_by :: "('a \<Rightarrow> answer) \<Rightarrow> 'a outcome \<Rightarrow> answer \<times> runtime \<times> disk" where
  "answered_by f out = (case out of (res, r, d) \<Rightarrow> (case res of Inl err \<Rightarrow> Failed err | Inr a \<Rightarrow> f a, r, d))"

fun run_op :: "io \<Rightarrow> qop \<Rightarrow> runtime \<Rightarrow> disk \<Rightarrow> answer \<times> runtime \<times> disk" where
  "run_op x Load r d = answered_by Queues (load x r d)"
| "run_op x (Pending c) r d = answered_by Commands (pending_user_messages x c r d)"
| "run_op x (ClaimUser c) r d = answered_by Claimed (claim_user_message x c r d)"
| "run_op x (SettleUser c k ok) r d = answered_by Flag (settle_user_message x c k ok r d)"
| "run_op x (Save qs ks ts) r d = answered_by (\<lambda>_. Saved) (save x qs ks ts r d)"
| "run_op x (HasClient j) r d = answered_by Flag (has_client_command x j r d)"
| "run_op x (PersistClient c) r d = answered_by Flag (persist_client_command x c r d)"
| "run_op x PendingClients r d = answered_by Commands (pending_client_commands x r d)"
| "run_op x (DiscardClient j) r d = answered_by Flag (discard_pending_client_command x j r d)"
| "run_op x (ClaimClient j) r d = answered_by Claimed (claim_client_command x j r d)"
| "run_op x (CompleteClient j) r d = answered_by Flag (complete_client_command x j r d)"
| "run_op x (ReleaseClient j) r d = answered_by Flag (release_client_command x j r d)"

section \<open>What an operation can publish\<close>

fun change :: "runtime \<Rightarrow> qop \<Rightarrow> answer \<Rightarrow> qstate \<Rightarrow> qstate \<Rightarrow> bool" where
  "change r (ClaimUser conversation) a s s' =
     (\<exists>c k rest. c = ustrip conversation \<and> a = Claimed (Some k) \<and> map_of (inflight s) c = None \<and> map_of (turn_inputs s) c = None
        \<and> or_empty (queues s) c = k # rest \<and> s' = take_inflight c k (owner_id r) (set_queue c rest s))"
| "change r (SettleUser conversation command ok) a s s' =
     (\<exists>c k. c = ustrip conversation \<and> a = Flag True \<and> map_of (inflight s) c = Some k \<and> map_of (inflight_owners s) c = Some (owner_id r)
        \<and> s' = (if ok then drop_inflight c s else set_queue c (k # or_empty (queues s) c) (drop_inflight c s)))"
| "change r (PersistClient c) a s s' =
     (\<exists>p k. client_command_to_dict c = Some p \<and> dict_to_client_command p = Some k \<and> a = Flag True
        \<and> command_id c \<notin> set (client_ids s) \<and> s' = s\<lparr>client_pending := client_pending s @ [k]\<rparr>)"
| "change r (DiscardClient j) a s s' =
     (\<exists>n < length (client_pending s). clean_command_id (Some j) \<noteq> [] \<and> a = Flag True
        \<and> command_id (client_pending s ! n) = clean_command_id (Some j)
        \<and> s' = s\<lparr>client_pending := remove_at n (client_pending s)\<rparr>)"
| "change r (ClaimClient j) a s s' =
     (\<exists>i n k. i = clean_command_id (Some j) \<and> n < length (client_pending s) \<and> k = client_pending s ! n \<and> command_id k = i
        \<and> a = Claimed (Some k) \<and> map_of (client_inflight s) i = None
        \<and> s' = s\<lparr>client_pending := remove_at n (client_pending s), client_inflight := AList.update i k (client_inflight s),
               client_inflight_owners := AList.update i (owner_id r) (client_inflight_owners s)\<rparr>)"
| "change r (CompleteClient j) a s s' =
     (\<exists>i. i = clean_command_id (Some j) \<and> map_of (client_inflight_owners s) i = Some (owner_id r) \<and> a = Flag True
        \<and> s' = s\<lparr>client_inflight := AList.delete i (client_inflight s), client_inflight_owners := AList.delete i (client_inflight_owners s)\<rparr>)"
| "change r (ReleaseClient j) a s s' =
     (\<exists>i k. i = clean_command_id (Some j) \<and> map_of (client_inflight_owners s) i = Some (owner_id r) \<and> a = Flag True
        \<and> map_of (client_inflight s) i = Some k
        \<and> s' = s\<lparr>client_pending := k # client_pending s, client_inflight := AList.delete i (client_inflight s),
               client_inflight_owners := AList.delete i (client_inflight_owners s)\<rparr>)"
| "change r (Save qs ks ts) a s s' =
     (\<exists>repr ks' owners ts' towners. a = Saved
        \<and> merge_owned_delta (owner_id r) (inflight s) (inflight_owners s) (owner_inflight r) ks = Some (ks', owners)
        \<and> merge_owned_delta (owner_id r) (turn_inputs s) (turn_input_owners s) (owner_turn_inputs r) ts = Some (ts', towners)
        \<and> s' = s\<lparr>queues := merge_queues repr (queues s) (owner_queues r) qs, inflight := ks', turn_inputs := ts',
               inflight_owners := owners, turn_input_owners := towners\<rparr>)"
| "change r _ a s s' = False"

section \<open>What is written can be read back\<close>

definition op_ok :: "qop \<Rightarrow> bool" where
  "op_ok oper \<longleftrightarrow>
     (case oper of
        Save qs ks ts \<Rightarrow>
          dict_ok qs \<and> dict_ok ks \<and> dict_ok ts \<and> all_entries (\<lambda>c. list_all user_command) qs
          \<and> all_entries (\<lambda>c. user_command) ks \<and> all_entries (\<lambda>c. list_all user_command) ts
      | _ \<Rightarrow> True)"

lemma update_idem: "AList.update k v (AList.update k v d) = AList.update k v d"
  by (rule update_same) (simp add: dict_simps)

lemma stored_client_command:
  assumes p: "client_command_to_dict c = Some p" and k: "dict_to_client_command p = Some k"
  shows "client_ok k" "command_id k = command_id c"
proof -
  let ?key = "u ''client_command_id''"
  let ?Q = "\<lambda>(k, v). \<not> startswith k (u ''_'')"
  let ?fs = "filter ?Q (uc_data c)"
  let ?i = "clean_command_id (map_of ?fs ?key)"
  have key: "\<not> startswith ?key (u ''_'')" by code_simp
  have m: "map_of ?fs ?key = map_of (uc_data c) ?key" using key by (simp add: map_of_filter_key)
  then have i: "?i = command_id c" by (simp add: command_id_def)
  have pd: "p = c\<lparr>uc_data := AList.update ?key (JStr ?i) ?fs\<rparr>" "?i \<noteq> []"
    using p by (auto simp: client_command_to_dict_def Let_def split: if_splits)
  have clean: "clean_command_id (Some (JStr ?i)) = ?i" by (rule clean_id [OF refl])
  have pi: "command_id p = ?i" unfolding command_id_def pd(1) using clean by (simp add: dict_simps)
  have kd: "k = \<lparr>uc_type = ustrip (uc_type p), uc_data = AList.update ?key (JStr ?i) ?fs\<rparr>" "ustrip (uc_type p) \<noteq> []"
    using k pi pd(1) by (auto simp: dict_to_client_command_def Let_def update_idem split: if_splits)
  have ki: "command_id k = ?i" unfolding command_id_def kd(1) using clean by (simp add: dict_simps)
  have "filter ?Q (AList.update ?key (JStr ?i) ?fs) = AList.update ?key (JStr ?i) ?fs"
  proof (rule filter_True)
    have "set (AList.update ?key (JStr ?i) ds) \<subseteq> insert (?key, JStr ?i) (set ds)" for ds by (induction ds) auto
    then show "\<forall>x \<in> set (AList.update ?key (JStr ?i) ?fs). ?Q x" using key by fastforce
  qed
  then have "client_command_to_dict k = Some k"
    using clean pd(2) by (simp add: client_command_to_dict_def Let_def kd(1) dict_simps update_idem)
  moreover have "dict_to_client_command k = Some k"
    using ki kd pd(2) by (simp add: dict_to_client_command_def Let_def update_idem ustrip_idem)
  ultimately show "client_ok k" using ki pd(2) by (simp add: client_ok_def)
  show "command_id k = command_id c" using ki i by simp
qed

lemma mset_remove_at: "n < length xs \<Longrightarrow> add_mset (xs ! n) (mset (remove_at n xs)) = mset xs"
  by (simp add: remove_at_def) (metis id_take_nth_drop mset.simps(2) mset_append union_mset_add_mset_right)

lemma remove_at_subset: "set (remove_at n xs) \<subseteq> set xs"
  unfolding remove_at_def by (auto dest: in_set_takeD in_set_dropD)

lemma merge_owned_cases [consumes 1, case_names same put drop]:
  assumes "merge_owned me previous desired (b # cs) (m, owners) = Some res"
  obtains "merge_owned me previous desired cs (m, owners) = Some res"
    | v where "map_of desired b = Some v" "map_of m b = None \<or> owner_of owners b = [] \<or> owner_of owners b = me"
        "merge_owned me previous desired cs (AList.update b v m, AList.update b me owners) = Some res"
    | "map_of desired b = None" "owner_of owners b = me" "merge_owned me previous desired cs (AList.delete b m, AList.delete b owners) = Some res"
  using assms by (auto simp: Let_def in_keys split: if_splits option.splits)

lemma merge_owned_own:
  "merge_owned me previous desired cs (m, owners) = Some (m', owners') \<Longrightarrow> map_of desired c = Some k
   \<Longrightarrow> map_of m c = Some k \<Longrightarrow> map_of owners c = Some me \<Longrightarrow> map_of m' c = Some k \<and> map_of owners' c = Some me"
proof (induction cs arbitrary: m owners)
  case (Cons b cs)
  from Cons.prems(1) show ?case
  proof (cases rule: merge_owned_cases)
    case (put v)
    show ?thesis by (rule Cons.IH [OF put(3) Cons.prems(2)]) (use put(1) Cons.prems in \<open>auto simp: dict_simps\<close>)
  next
    case drop
    then have "b \<noteq> c" using Cons.prems(2) by auto
    show ?thesis by (rule Cons.IH [OF drop(3) Cons.prems(2)]) (use \<open>b \<noteq> c\<close> Cons.prems in \<open>auto simp: dict_simps\<close>)
  qed (use Cons in blast)
qed simp

lemma merge_owned_facts:
  "merge_owned me previous desired cs (m, owners) = Some (m', owners') \<Longrightarrow> dict_ok m \<Longrightarrow> dict_ok m'"
  "merge_owned me previous desired cs (m, owners) = Some (m', owners') \<Longrightarrow> owners_ok m owners \<Longrightarrow> owner_pattern me \<Longrightarrow> owners_ok m' owners'"
  "merge_owned me previous desired cs (m, owners) = Some (m', owners') \<Longrightarrow> all_entries Q m \<Longrightarrow> all_entries Q desired \<Longrightarrow> all_entries Q m'"
  "merge_owned me previous desired cs (m, owners) = Some (m', owners')
     \<Longrightarrow> map_of m c \<noteq> None \<Longrightarrow> map_of owners c = Some i \<Longrightarrow> i \<noteq> me \<Longrightarrow> i \<noteq> []
     \<Longrightarrow> map_of m' c = map_of m c \<and> map_of owners' c = Some i"
proof (induction cs arbitrary: m owners)
  case (Cons b cs)
  {
    case 1
    from this(1) show ?case by (cases rule: merge_owned_cases) (use 1 Cons.IH(1) in \<open>simp_all add: dict_simps\<close>)
  next
    case 2
    from this(1) show ?case by (cases rule: merge_owned_cases) (use 2 Cons.IH(2) in \<open>simp_all add: dict_simps\<close>)
  next
    case 3
    from this(1) show ?case
      by (cases rule: merge_owned_cases) (use 3 Cons.IH(3) in \<open>auto simp: dict_simps dest: all_entriesD\<close>)
  next
    case 4
    from this(1) show ?case
    proof (cases rule: merge_owned_cases)
      case same
      then show ?thesis using 4 Cons.IH(4) by blast
    next
      case (put v)
      then have "b \<noteq> c" using 4 by (auto simp: owner_of_def)
      then show ?thesis using 4 put Cons.IH(4) [of "AList.update b v m" "AList.update b me owners"] by (simp add: dict_simps)
    next
      case drop
      then have "b \<noteq> c" using 4 by (auto simp: owner_of_def)
      then show ?thesis using 4 drop Cons.IH(4) [of "AList.delete b m" "AList.delete b owners"] by (simp add: dict_simps)
    qed
  }
qed simp_all


lemma merge_queues_entries:
  assumes "all_entries (\<lambda>c. list_all Q) latest" "all_entries (\<lambda>c. list_all Q) desired" "dict_ok latest"
  shows "all_entries (\<lambda>c. list_all Q) (merge_queues repr latest previous desired)" "dict_ok (merge_queues repr latest previous desired)"
proof -
  let ?next = "\<lambda>acc c. case merge_queue_delta repr (or_empty latest c) (or_empty previous c) (or_empty desired c) of
          [] \<Rightarrow> AList.delete c acc | k # ks \<Rightarrow> AList.update c (k # ks) acc"
  have sub: "list_all Q (merge_queue_delta repr (or_empty latest c) (or_empty previous c) (or_empty desired c))" for c
  proof -
    have "set (merge_queue_delta repr l p d) \<subseteq> set l \<union> set d" for l p d
    proof -
      let ?i = "\<lambda>cs. indexed_commands repr cs"
      have "snd ` set (merge_entries (?i l) (?i p) (?i d)) \<subseteq> snd ` set (?i l) \<union> snd ` set (?i d)"
        using merge_entries_facts(3) [of "?i l" "?i d" "?i p"] by auto
      then show ?thesis using indexed_commands_keys(2) by (metis merge_queue_delta_def set_map)
    qed
    moreover have "list_all Q (or_empty latest c)" "list_all Q (or_empty desired c)"
      using assms by (auto simp: or_empty_def split: option.splits dest: all_entriesD)
    ultimately show ?thesis unfolding list_all_iff by blast
  qed
  have "all_entries (\<lambda>c. list_all Q) (foldl ?next acc cs) \<and> dict_ok (foldl ?next acc cs)"
    if "all_entries (\<lambda>c. list_all Q) acc \<and> dict_ok acc" for acc cs
    using that
  proof (induction cs arbitrary: acc)
    case (Cons c cs)
    have "all_entries (\<lambda>c. list_all Q) (?next acc c) \<and> dict_ok (?next acc c)"
      using Cons.prems sub [of c]
      by (cases "merge_queue_delta repr (or_empty latest c) (or_empty previous c) (or_empty desired c)") (simp_all add: dict_simps)
    then show ?case using Cons.IH by simp
  qed simp
  then show "all_entries (\<lambda>c. list_all Q) (merge_queues repr latest previous desired)" "dict_ok (merge_queues repr latest previous desired)"
    using assms unfolding merge_queues_def by simp_all
qed

definition client_tidy :: "qstate \<Rightarrow> bool" where
  "client_tidy s \<longleftrightarrow> distinct (client_ids s) \<and> list_all client_ok (client_pending s)
     \<and> all_entries (\<lambda>i k. client_ok k \<and> command_id k = i) (client_inflight s)
     \<and> owners_ok (client_inflight s) (client_inflight_owners s)"

definition user_tidy :: "qstate \<Rightarrow> bool" where
  "user_tidy s \<longleftrightarrow> dict_ok (queues s) \<and> dict_ok (inflight s) \<and> dict_ok (turn_inputs s)
     \<and> all_entries (\<lambda>c. list_all user_command) (queues s) \<and> all_entries (\<lambda>c. user_command) (inflight s)
     \<and> all_entries (\<lambda>c. list_all user_command) (turn_inputs s)
     \<and> owners_ok (inflight s) (inflight_owners s) \<and> owners_ok (turn_inputs s) (turn_input_owners s)"

lemma tidy_split: "tidy s \<longleftrightarrow> user_tidy s \<and> client_tidy s"
  unfolding tidy_def user_tidy_def client_tidy_def by blast

lemma set_queue_fields [simp]:
  "inflight (set_queue c ks s) = inflight s" "inflight_owners (set_queue c ks s) = inflight_owners s"
  "turn_inputs (set_queue c ks s) = turn_inputs s" "turn_input_owners (set_queue c ks s) = turn_input_owners s"
  "client_pending (set_queue c ks s) = client_pending s" "client_inflight (set_queue c ks s) = client_inflight s"
  "client_inflight_owners (set_queue c ks s) = client_inflight_owners s"
  "or_empty (queues (set_queue c ks s)) c' = (if c' = c then ks else or_empty (queues s) c')"
  by (simp_all add: set_queue_def dict_simps)

lemma user_tidy_set_queue: "user_tidy s \<Longrightarrow> list_all user_command ks \<Longrightarrow> user_tidy (set_queue c ks s)"
  unfolding user_tidy_def set_queue_fields by (auto simp: set_queue_def dict_simps)

lemma user_tidy_take: "user_tidy s \<Longrightarrow> user_command k \<Longrightarrow> owner_pattern i \<Longrightarrow> user_tidy (take_inflight c k i s)"
  by (simp add: user_tidy_def take_inflight_def dict_simps)

lemma user_tidy_drop: "user_tidy s \<Longrightarrow> user_tidy (drop_inflight c s)"
  by (simp add: user_tidy_def drop_inflight_def dict_simps)

lemma user_tidy_work:
  assumes "user_tidy s"
  shows "list_all user_command (or_empty (queues s) c)" "map_of (inflight s) c = Some k \<Longrightarrow> user_command k"
  using assms by (auto simp: user_tidy_def or_empty_def split: option.split dest: all_entriesD)

lemma change_user_tidy:
  assumes t: "user_tidy s" and ok: "op_ok oper" "owner_pattern (owner_id r)" and ch: "change r oper a s s'"
  shows "user_tidy s'"
proof (cases oper)
  case (ClaimUser conversation)
  then obtain c k rest where e: "or_empty (queues s) c = k # rest" "s' = take_inflight c k (owner_id r) (set_queue c rest s)"
    using ch by auto
  have "user_command k" "list_all user_command rest" using user_tidy_work(1) [OF t, of c] unfolding e by simp_all
  then show ?thesis unfolding e by (intro user_tidy_take user_tidy_set_queue t ok)
next
  case (SettleUser conversation command succeeded)
  then obtain c k where e: "map_of (inflight s) c = Some k"
      "s' = (if succeeded then drop_inflight c s else set_queue c (k # or_empty (queues s) c) (drop_inflight c s))"
    using ch by auto
  have "list_all user_command (k # or_empty (queues s) c)" using user_tidy_work [OF t] e(1) by simp
  then show ?thesis unfolding e(2) by (simp add: user_tidy_set_queue user_tidy_drop t)
next
  case (Save qs ks ts)
  then obtain repr ks' owners ts' towners where e:
      "merge_owned (owner_id r) (owner_inflight r) ks (remdups (map fst (owner_inflight r) @ map fst ks)) (inflight s, inflight_owners s) = Some (ks', owners)"
      "merge_owned (owner_id r) (owner_turn_inputs r) ts (remdups (map fst (owner_turn_inputs r) @ map fst ts)) (turn_inputs s, turn_input_owners s) = Some (ts', towners)"
      "s' = s\<lparr>queues := merge_queues repr (queues s) (owner_queues r) qs, inflight := ks', turn_inputs := ts',
               inflight_owners := owners, turn_input_owners := towners\<rparr>"
    using ch by (auto simp: merge_owned_delta_def)
  note m = merge_owned_facts(1-3) [OF e(1)] merge_owned_facts(1-3) [OF e(2)]
  note q = merge_queues_entries [of user_command "queues s" qs repr "owner_queues r"]
  show ?thesis using t ok Save unfolding user_tidy_def op_ok_def e(3) by (simp add: m q)
qed (use t ch in \<open>auto simp: user_tidy_def\<close>)


lemma take_drop_fields [simp]:
  "client_pending (take_inflight c k i s) = client_pending s" "client_inflight (take_inflight c k i s) = client_inflight s"
  "client_inflight_owners (take_inflight c k i s) = client_inflight_owners s"
  "client_pending (drop_inflight c s) = client_pending s" "client_inflight (drop_inflight c s) = client_inflight s"
  "client_inflight_owners (drop_inflight c s) = client_inflight_owners s"
  "turn_inputs (take_inflight c k i s) = turn_inputs s" "turn_inputs (drop_inflight c s) = turn_inputs s"
  "turn_input_owners (take_inflight c k i s) = turn_input_owners s" "turn_input_owners (drop_inflight c s) = turn_input_owners s"
  "queues (take_inflight c k i s) = queues s" "queues (drop_inflight c s) = queues s"
  by (simp_all add: take_inflight_def drop_inflight_def)

lemma same_clients:
  "client_pending s' = client_pending s \<Longrightarrow> client_inflight s' = client_inflight s
    \<Longrightarrow> client_inflight_owners s' = client_inflight_owners s \<Longrightarrow> client_tidy s \<Longrightarrow> client_tidy s'"
  by (simp add: client_tidy_def client_ids_def)

lemma change_client_tidy:
  assumes t: "client_tidy s" and ok: "owner_pattern (owner_id r)" and ch: "change r oper a s s'"
  shows "client_tidy s'"
proof -
  let ?d = "client_inflight s"
  have t': "distinct (client_ids s)" "list_all client_ok (client_pending s)" "all_entries (\<lambda>i k. client_ok k \<and> command_id k = i) ?d"
      "owners_ok ?d (client_inflight_owners s)" "dict_ok ?d"
    using t by (simp_all add: client_tidy_def client_ids_def)
  show ?thesis
  proof (cases oper)
    case (PersistClient c)
    then obtain p k where e: "client_command_to_dict c = Some p" "dict_to_client_command p = Some k" "command_id c \<notin> set (client_ids s)"
        "s' = s\<lparr>client_pending := client_pending s @ [k]\<rparr>"
      using ch by auto
    show ?thesis using t' stored_client_command [OF e(1,2)] e(3,4) by (auto simp: client_tidy_def client_ids_def)
  next
    case (DiscardClient j)
    then obtain n where e: "n < length (client_pending s)" "s' = s\<lparr>client_pending := remove_at n (client_pending s)\<rparr>"
      using ch by auto
    have "mset (client_pending s) = add_mset (client_pending s ! n) (mset (remove_at n (client_pending s)))"
      using mset_remove_at [OF e(1)] by simp
    then have "mset (client_ids s) = add_mset (command_id (client_pending s ! n)) (mset (client_ids s'))"
      unfolding client_ids_def e(2) by simp
    then have "distinct (command_id (client_pending s ! n) # client_ids s')"
      using t'(1) mset_eq_imp_distinct_iff by (metis mset.simps(2))
    moreover have "list_all client_ok (client_pending s')"
      using t'(2) remove_at_subset [of n "client_pending s"] unfolding e(2) list_all_iff by auto
    ultimately show ?thesis using t' e(2) by (simp add: client_tidy_def)
  next
    case (ClaimClient j)
    then obtain i n k where e: "n < length (client_pending s)" "k = client_pending s ! n" "command_id k = i" "map_of ?d i = None"
        "s' = s\<lparr>client_pending := remove_at n (client_pending s), client_inflight := AList.update i k ?d,
               client_inflight_owners := AList.update i (owner_id r) (client_inflight_owners s)\<rparr>"
      using ch by auto
    have i: "AList.update i k ?d = ?d @ [(i, k)]" using e(4) by (simp add: map_of_eq_None_iff update_fresh)
    have "mset (client_pending s) = add_mset k (mset (remove_at n (client_pending s)))"
      using mset_remove_at [OF e(1)] e(2) by simp
    then have "mset (client_ids s) = mset (client_ids s')" unfolding client_ids_def e(5) using i e(3) by simp
    then have "distinct (client_ids s')" using t'(1) mset_eq_imp_distinct_iff by blast
    moreover have "client_ok k" "list_all client_ok (remove_at n (client_pending s))"
      using t'(2) e(1,2) remove_at_subset [of n "client_pending s"] unfolding list_all_iff by auto
    ultimately show ?thesis using t' ok e(3) by (simp add: client_tidy_def e(5) dict_simps)
  next
    case (CompleteClient j)
    then obtain i where e: "s' = s\<lparr>client_inflight := AList.delete i ?d, client_inflight_owners := AList.delete i (client_inflight_owners s)\<rparr>"
      using ch by auto
    have "distinct (client_ids s')" using t'(1) by (auto simp: client_ids_def e AList.delete_eq distinct_map_filter)
    then show ?thesis using t' by (simp add: client_tidy_def e dict_simps)
  next
    case (ReleaseClient j)
    then obtain i k where e: "map_of ?d i = Some k"
        "s' = s\<lparr>client_pending := k # client_pending s, client_inflight := AList.delete i ?d, client_inflight_owners := AList.delete i (client_inflight_owners s)\<rparr>"
      using ch by auto
    have k: "client_ok k" "command_id k = i" using all_entriesD [OF t'(3) e(1)] by auto
    have "i \<notin> command_id ` set (client_pending s)"
    proof -
      have "i \<in> fst ` set ?d" using imageI [OF map_of_SomeD [OF e(1)], of fst] by simp
      then show ?thesis using t'(1) unfolding client_ids_def by auto
    qed
    then have "distinct (client_ids s')" using t'(1) k by (auto simp: client_ids_def e(2) AList.delete_eq distinct_map_filter)
    then show ?thesis using t' k by (simp add: client_tidy_def e(2) dict_simps)
  qed (use ch in \<open>auto intro!: same_clients [OF _ _ _ t]\<close>)
qed

lemma change_tidy:
  "tidy s \<Longrightarrow> op_ok oper \<Longrightarrow> owner_pattern (owner_id r) \<Longrightarrow> change r oper a s s' \<Longrightarrow> tidy s'"
  using change_user_tidy change_client_tidy unfolding tidy_split by blast


section \<open>What an operation does\<close>

text \<open>The answers of an operation that changes nothing.\<close>

fun quiet :: "qop \<Rightarrow> answer \<Rightarrow> qstate \<Rightarrow> bool" where
  "quiet Load a s = (a = Queues (queues s))"
| "quiet (Pending c) a s = (a = Commands (or_empty (queues s) c))"
| "quiet (ClaimUser c) a s = (a = Claimed None)"
| "quiet (Save qs ks ts) a s = False"
| "quiet (HasClient j) a s = (a = Flag (clean_command_id (Some j) \<noteq> [] \<and> clean_command_id (Some j) \<in> set (client_ids s)))"
| "quiet (PersistClient c) a s = (a = Flag False \<or> a = Flag True \<and> command_id c \<in> set (client_ids s))"
| "quiet PendingClients a s = (a = Commands (client_pending s))"
| "quiet (ClaimClient j) a s = (a = Claimed None)"
| "quiet _ a s = (a = Flag False)"

definition inner_ok :: "runtime \<Rightarrow> qop \<Rightarrow> qstate \<Rightarrow> disk \<Rightarrow> answer \<times> runtime \<times> disk \<Rightarrow> bool" where
  "inner_ok r oper s d out \<longleftrightarrow>
     (case out of (a, r', d') \<Rightarrow> owner_id r' = owner_id r \<and> opened r' = opened r
        \<and> (d' = d \<and> ((\<exists>err. a = Failed err) \<or> quiet oper a s) \<or> (\<exists>s'. change r oper a s s' \<and> d' = Some (Some (serialize s')))))"

definition recovered_state :: "io \<Rightarrow> runtime \<Rightarrow> disk \<Rightarrow> qstate" where
  "recovered_state x r d = fst (recover_stale_owners (owner_is_live x r) (content d))"

definition outcome_ok :: "io \<Rightarrow> runtime \<Rightarrow> disk \<Rightarrow> qop \<Rightarrow> answer \<times> runtime \<times> disk \<Rightarrow> bool" where
  "outcome_ok x r d oper out \<longleftrightarrow>
     (case out of (a, r', d') \<Rightarrow>
        owner_id r' = owner_id r \<and> opened r' = opened r \<and> disk_ok d'
        \<and> (if \<exists>err. a = Failed err then content d' = content d \<or> opened r \<and> content d' = recovered_state x r d
           else opened r \<and> (content d' = recovered_state x r d \<and> quiet oper a (recovered_state x r d)
                             \<or> change r oper a (recovered_state x r d) (content d'))))"

lemma inner_publish:
  assumes "change r oper (f a) s s'" "\<And>r. owner_id (fin r) = owner_id r \<and> opened (fin r) = opened r"
  shows "inner_ok r oper s d (answered_by f (publish x s' b (r\<lparr>mem := s\<rparr>) d fin a))"
  using assms by (auto simp: inner_ok_def answered_by_def publish_def)

lemma inner_plain:
  "owner_id r' = owner_id r \<Longrightarrow> opened r' = opened r \<Longrightarrow> quiet oper (f a) s \<Longrightarrow> inner_ok r oper s d (answered_by f (Inr a, r', d))"
  "owner_id r' = owner_id r \<Longrightarrow> opened r' = opened r \<Longrightarrow> inner_ok r oper s d (answered_by f (Inl err, r', d))"
  by (simp_all add: inner_ok_def answered_by_def)

lemma change_no_failure: "change r oper (Failed err) s s' \<Longrightarrow> False"
  by (cases oper) auto

lemma locked_outcome:
  assumes d: "disk_ok d" and ok: "op_ok oper" "owner_pattern (owner_id r)"
    and inner: "\<And>s d1. tidy s \<Longrightarrow> inner_ok r oper s d1 (answered_by f (g (r\<lparr>mem := s\<rparr>) d1))"
  shows "outcome_ok x r d oper (answered_by f (locked x r d g))"
proof -
  obtain p d1 where p: "read_state x d = (p, d1)" by fastforce
  have c: "p = content d" "content d1 = content d" "disk_ok d1" using read_content [where x = x and d = d] p d by simp_all
  obtain s ch where s: "recover_stale_owners (owner_is_live x r) p = (s, ch)" by fastforce
  have s1: "recovered_state x r d = s" using s c by (simp add: recovered_state_def)
  note facts = recover_stale_owners_facts [OF content_tidy [OF d], of "owner_is_live x r", folded c(1), unfolded s fst_conv snd_conv]
  have written: "disk_ok (Some (Some (serialize s')))" "content (Some (Some (serialize s'))) = s'" if "tidy s'" for s'
    using that by (simp_all add: disk_ok_def tidy_fixed)
  show ?thesis
  proof (cases "opened r \<and> read_ok x \<and> (\<not> ch \<or> recover_ok x)")
    case True
    define d2 where "d2 = (if ch then Some (Some (serialize s)) else d1)"
    have d2: "disk_ok d2" "content d2 = s"
      using written [OF facts(1)] c facts(3) by (auto simp: d2_def)
    have l: "locked x r d g = g (r\<lparr>mem := s\<rparr>) d2"
      using True by (simp add: locked_def refresh_def p s Let_def d2_def)
    obtain a r' d' where out: "answered_by f (g (r\<lparr>mem := s\<rparr>) d2) = (a, r', d')" by (metis prod_cases3)
    have i: "owner_id r' = owner_id r" "opened r' = opened r"
      "d' = d2 \<and> ((\<exists>err. a = Failed err) \<or> quiet oper a s) \<or> (\<exists>s'. change r oper a s s' \<and> d' = Some (Some (serialize s')))"
      using inner [OF facts(1), of d2] unfolding out inner_ok_def by simp_all
    from i(3) show ?thesis
    proof (elim disjE exE conjE)
      fix s' assume e: "change r oper a s s'" "d' = Some (Some (serialize s'))"
      then have t: "tidy s'" by (intro change_tidy [OF facts(1) ok])
      have "\<not> (\<exists>err. a = Failed err)" using e(1) change_no_failure by blast
      then show ?thesis unfolding l out outcome_ok_def s1 using written [OF t] e i True by simp
    qed (unfold l out outcome_ok_def s1, use d2 i True in \<open>simp_all split: if_splits\<close>)
  next
    case False
    consider "locked x r d g = (Inl Closed, r, d)" | "locked x r d g = (Inl ReadFails, r, d)"
      | "locked x r d g = (Inl WriteFails, r\<lparr>mem := s\<rparr>, d1)"
      using False by (cases "opened r"; cases "read_ok x") (simp_all add: locked_def refresh_def p s Let_def)
    then show ?thesis
      by cases (simp_all add: outcome_ok_def answered_by_def c d)
  qed
qed


lemma settled_queue: "set_queue c (tl (or_empty (queues (set_queue c (k # ks) s)) c)) s = set_queue c ks s"
  by simp

lemma run_op_outcome:
  assumes d: "disk_ok d" and ok: "op_ok oper" "owner_pattern (owner_id r)"
  shows "outcome_ok x r d oper (run_op x oper r d)"
proof (cases oper)
  case Load
  show ?thesis unfolding Load run_op.simps load_def
    by (rule locked_outcome [OF d ok [unfolded Load]]) (simp add: Let_def inner_plain)
next
  case (Pending c)
  show ?thesis unfolding Pending run_op.simps pending_user_messages_def
    by (rule locked_outcome [OF d ok [unfolded Pending]]) (simp add: Let_def inner_plain)
next
  case (ClaimUser conversation)
  show ?thesis unfolding ClaimUser run_op.simps claim_user_message_def
    by (rule locked_outcome [OF d ok [unfolded ClaimUser]])
      (auto simp: Let_def update_baseline_def in_keys intro!: inner_plain inner_publish split: list.splits)
next
  case (SettleUser conversation command succeeded)
  show ?thesis unfolding SettleUser run_op.simps settle_user_message_def
    by (rule locked_outcome [OF d ok [unfolded SettleUser]])
      (auto simp: Let_def update_baseline_def drop_inflight_def intro!: inner_plain inner_publish split: list.splits option.splits)
next
  case (Save qs ks ts)
  show ?thesis unfolding Save run_op.simps save_def
    by (rule locked_outcome [OF d ok [unfolded Save]])
      (auto simp: Let_def intro!: inner_plain inner_publish exI [of _ "repr_of x"] split: option.splits)
next
  case (HasClient j)
  show ?thesis unfolding HasClient run_op.simps has_client_command_def
    by (rule locked_outcome [OF d ok [unfolded HasClient]]) (auto simp: Let_def client_ids_def intro!: inner_plain)
next
  case (PersistClient c)
  show ?thesis unfolding PersistClient run_op.simps persist_client_command_def
    by (rule locked_outcome [OF d ok [unfolded PersistClient]])
      (auto simp: Let_def client_ids_def in_keys intro!: inner_plain inner_publish split: option.splits)
next
  case PendingClients
  show ?thesis unfolding PendingClients run_op.simps pending_client_commands_def
    by (rule locked_outcome [OF d ok [unfolded PendingClients]]) (simp add: inner_plain)
next
  case (DiscardClient j)
  show ?thesis unfolding DiscardClient run_op.simps discard_pending_client_command_def
    by (rule locked_outcome [OF d ok [unfolded DiscardClient]])
      (auto simp: Let_def pending_index_def find_Some_iff intro!: inner_plain inner_publish split: option.splits)
next
  case (ClaimClient j)
  show ?thesis unfolding ClaimClient run_op.simps claim_client_command_def
    by (rule locked_outcome [OF d ok [unfolded ClaimClient]])
      (auto simp: Let_def pending_index_def find_Some_iff in_keys intro!: inner_plain inner_publish split: option.splits)
next
  case (CompleteClient j)
  show ?thesis unfolding CompleteClient run_op.simps complete_client_command_def finish_client_command_def
    by (rule locked_outcome [OF d ok [unfolded CompleteClient]])
      (auto simp: Let_def intro!: inner_plain inner_publish split: option.splits)
next
  case (ReleaseClient j)
  show ?thesis unfolding ReleaseClient run_op.simps release_client_command_def finish_client_command_def
    by (rule locked_outcome [OF d ok [unfolded ReleaseClient]])
      (auto simp: Let_def intro!: inner_plain inner_publish split: option.splits)
qed

end
