(* ===== verification/DurableQueueRuns.thy ===== *)
theory DurableQueueRuns
  imports DurableQueueSystem
begin

text \<open>
  Histories of the queue: runtimes start with a new id, do operations in any order, close or die with
  their process, which frees their lease; any reading or writing may fail. What every step and every
  recovery keeps, a history keeps (locale \<open>queue_law\<close>); its interpretations are the promises of the
  queue: an accepted command is kept until it is settled, work held by a live runtime is untouched, and
  user messages are neither lost nor doubled.
\<close>

section \<open>Systems and histories\<close>

lemma owner_pattern_strip: "owner_pattern i \<Longrightarrow> ustrip i = i"
proof -
  assume i: "owner_pattern i"
  then have "i \<noteq> []" by (auto simp: owner_pattern_def)
  then have "hd i \<in> set i" "last i \<in> set i" by simp_all
  moreover have "\<not> uspace c" if "c \<in> set i" for c
    using i that by (auto simp: owner_pattern_def list_all_iff uspace_def space_code_def)
  ultimately show ?thesis using \<open>i \<noteq> []\<close> by (simp add: ustrip_def strip_by_id)
qed

record qsys =
  shared :: disk
  parties :: "ustr \<Rightarrow> runtime option"

datatype qevent = Start ustr | Stop ustr | Operate ustr io qop

definition new_runtime :: "ustr \<Rightarrow> runtime" where
  "new_runtime i = \<lparr>owner_id = i, opened = True, mem = no_work, owner_queues = [], owner_inflight = [], owner_turn_inputs = []\<rparr>"

definition alive :: "qsys \<Rightarrow> ustr \<Rightarrow> bool" where
  "alive S i = (case parties S i of Some r \<Rightarrow> opened r | None \<Rightarrow> False)"

text \<open>The lease of a live runtime is held; that of a dead one may still look so.\<close>

definition sees :: "qsys \<Rightarrow> io \<Rightarrow> io" where
  "sees S x = x\<lparr>held := (\<lambda>i. alive S i \<or> held x i)\<rparr>"

fun happen :: "qevent \<Rightarrow> qsys \<Rightarrow> answer option \<times> qsys" where
  "happen (Start i) S =
     (None, if parties S i = None \<and> owner_pattern i then S\<lparr>parties := (parties S)(i := Some (new_runtime i))\<rparr> else S)"
| "happen (Stop i) S =
     (None, case parties S i of None \<Rightarrow> S | Some r \<Rightarrow> S\<lparr>parties := (parties S)(i := Some (close r))\<rparr>)"
| "happen (Operate i x oper) S =
     (case parties S i of
        None \<Rightarrow> (None, S)
      | Some r \<Rightarrow>
          (let (a, r', d') = run_op (sees S x) oper r (shared S) in
           (Some a, S\<lparr>shared := d', parties := (parties S)(i := Some r')\<rparr>)))"

fun history :: "qevent list \<Rightarrow> qsys \<Rightarrow> (qevent \<times> answer option) list \<times> qsys" where
  "history [] S = ([], S)"
| "history (e # es) S = (let (a, S1) = happen e S; (h, S2) = history es S1 in ((e, a) # h, S2))"

definition after :: "qevent list \<Rightarrow> qsys \<Rightarrow> qsys" where
  "after es S = snd (history es S)"

definition work :: "qsys \<Rightarrow> qstate" where
  "work S = content (shared S)"

definition system_ok :: "qsys \<Rightarrow> bool" where
  "system_ok S \<longleftrightarrow> disk_ok (shared S) \<and> (\<forall>i r. parties S i = Some r \<longrightarrow> owner_id r = i \<and> owner_pattern i)"

definition event_ok :: "qevent \<Rightarrow> bool" where
  "event_ok e = (case e of Operate i x oper \<Rightarrow> op_ok oper | _ \<Rightarrow> True)"

lemma after_simps [simp]: "after [] S = S" "after (e # es) S = after es (snd (happen e S))"
  by (simp_all add: after_def split: prod.split)

lemma operate:
  assumes S: "system_ok S" and ok: "op_ok oper" and h: "happen (Operate i x oper) S = (Some a, S')"
  obtains r r' d' where "parties S i = Some r" "owner_id r = i" "owner_pattern i" "outcome_ok (sees S x) r (shared S) oper (a, r', d')"
    "S' = S\<lparr>shared := d', parties := (parties S)(i := Some r')\<rparr>" "owner_id r' = i" "opened r' = opened r"
proof -
  obtain r where r: "parties S i = Some r" using h by (auto split: option.splits)
  obtain a1 r' d' where run: "run_op (sees S x) oper r (shared S) = (a1, r', d')" by (metis prod_cases3)
  have o: "owner_id r = i" "owner_pattern i" "disk_ok (shared S)" using S r by (auto simp: system_ok_def)
  have out: "outcome_ok (sees S x) r (shared S) oper (a1, r', d')"
    using run_op_outcome [of "shared S" oper r "sees S x"] o ok run by simp
  have "a1 = a" "S' = S\<lparr>shared := d', parties := (parties S)(i := Some r')\<rparr>" using h r run by auto
  then show ?thesis using that [of r r' d'] r o out by (auto simp: outcome_ok_def)
qed

lemma happen_ok:
  assumes S: "system_ok S" and e: "event_ok e"
  shows "system_ok (snd (happen e S))"
    "e \<noteq> Stop i \<Longrightarrow> alive S i \<Longrightarrow> alive (snd (happen e S)) i"
proof -
  have "system_ok (snd (happen e S)) \<and>
      (e \<noteq> Stop i \<longrightarrow> alive S i \<longrightarrow> alive (snd (happen e S)) i)"
  proof (cases e)
    case (Start j)
    then show ?thesis using S by (auto simp: system_ok_def new_runtime_def alive_def)
  next
    case (Stop j)
    then show ?thesis using S by (auto simp: system_ok_def close_def alive_def split: option.splits)
  next
    case (Operate j x oper)
    show ?thesis
    proof (cases "parties S j")
      case None
      then show ?thesis using S Operate by simp
    next
      case (Some r)
      then obtain a S' where h: "happen (Operate j x oper) S = (Some a, S')"
        by (cases "run_op (sees S x) oper r (shared S)") auto
      have "op_ok oper" using e Operate by (simp add: event_ok_def)
      from operate [OF S this h] obtain r r' d' where
        r: "parties S j = Some r" "owner_pattern j" "outcome_ok (sees S x) r (shared S) oper (a, r', d')"
        "S' = S\<lparr>shared := d', parties := (parties S)(j := Some r')\<rparr>" "owner_id r' = j" "opened r' = opened r" by metis
      have "disk_ok d'" using r(3) by (simp add: outcome_ok_def)
      then have "system_ok S'" using S r(2,4,5) by (auto simp: system_ok_def)
      moreover have "alive S' i = alive S i" using r(1,4,6) by (simp add: alive_def)
      ultimately show ?thesis unfolding Operate h by simp
    qed
  qed
  then show "system_ok (snd (happen e S))"
    "e \<noteq> Stop i \<Longrightarrow> alive S i \<Longrightarrow> alive (snd (happen e S)) i" by blast+
qed

lemma after_ok: "system_ok S \<Longrightarrow> \<forall>e \<in> set es. event_ok e \<Longrightarrow> system_ok (after es S)"
proof (induction es arbitrary: S)
  case (Cons e es)
  then show ?case using happen_ok(1) by simp
qed simp

section \<open>What steps keep, histories keep\<close>

definition permitted :: "ustr option \<Rightarrow> (qop \<Rightarrow> answer \<Rightarrow> bool) \<Rightarrow> qevent \<times> answer option \<Rightarrow> bool" where
  "permitted me allowed ea =
     (case ea of
        (Operate i x oper, Some a) \<Rightarrow> me \<noteq> Some i \<and> allowed oper a
      | (Operate i x oper, None) \<Rightarrow> me \<noteq> Some i
      | (Stop i, _) \<Rightarrow> me \<noteq> Some i
      | (Start i, _) \<Rightarrow> True)"

text \<open>
  \<open>me\<close> is a runtime that does not stop, if any; \<open>allowed\<close> is asked of every operation and \<open>own\<close>
  of those of \<open>me\<close> as well. With nobody to watch, this is \<open>permitted\<close>.
\<close>

definition lawful :: "ustr option \<Rightarrow> (qop \<Rightarrow> answer \<Rightarrow> bool) \<Rightarrow> (qop \<Rightarrow> answer \<Rightarrow> bool) \<Rightarrow> qevent \<times> answer option \<Rightarrow> bool" where
  "lawful me own allowed ea =
     (case ea of
        (Operate i x oper, Some a) \<Rightarrow> allowed oper a \<and> (me = Some i \<longrightarrow> own oper a)
      | (Operate i x oper, None) \<Rightarrow> True
      | (Stop i, _) \<Rightarrow> me \<noteq> Some i
      | (Start i, _) \<Rightarrow> True)"

lemma permitted_lawful: "list_all (permitted None allowed) h \<Longrightarrow> list_all (lawful None own allowed) h"
  by (auto simp: list_all_iff permitted_def lawful_def split: qevent.splits option.splits)

text \<open>\<open>keeps\<close> is what recovery and the lawful changes preserve.\<close>

locale queue_law =
  fixes me :: "ustr option" and own allowed :: "qop \<Rightarrow> answer \<Rightarrow> bool" and keeps :: "qstate \<Rightarrow> qstate \<Rightarrow> bool"
  assumes keeps_refl: "keeps s s"
    and keeps_trans: "keeps s1 s2 \<Longrightarrow> keeps s2 s3 \<Longrightarrow> keeps s1 s3"
    and recovery: "tidy s \<Longrightarrow> (\<And>i. me = Some i \<Longrightarrow> live i) \<Longrightarrow> restored live s s' \<Longrightarrow> keeps s s'"
    and changes: "tidy s \<Longrightarrow> allowed oper a \<Longrightarrow> (me = Some (owner_id r) \<Longrightarrow> own oper a) \<Longrightarrow> change r oper a s s' \<Longrightarrow> keeps s s'"
begin

lemma keeps_happen:
  assumes S: "system_ok S" and e: "event_ok e" and me: "\<And>i. me = Some i \<Longrightarrow> alive S i \<and> owner_pattern i"
    and p: "lawful me own allowed (e, fst (happen e S))"
  shows "keeps (work S) (work (snd (happen e S)))"
proof (cases e)
  case (Start i)
  then show ?thesis by (simp add: keeps_refl work_def)
next
  case (Stop i)
  then show ?thesis by (auto simp: keeps_refl work_def split: option.splits)
next
  case (Operate i x oper)
  show ?thesis
  proof (cases "parties S i")
    case None
    then show ?thesis using Operate by (simp add: keeps_refl)
  next
    case (Some r0)
    then obtain a S' where h: "happen (Operate i x oper) S = (Some a, S')"
      by (cases "run_op (sees S x) oper r0 (shared S)") auto
    have ok: "op_ok oper" using e Operate by (simp add: event_ok_def)
    have al: "me = Some i \<Longrightarrow> own oper a" "allowed oper a" using p unfolding Operate h by (simp_all add: lawful_def)
    from operate [OF S ok h] obtain r r' d' where r: "owner_id r = i" "owner_pattern i"
      "outcome_ok (sees S x) r (shared S) oper (a, r', d')" "S' = S\<lparr>shared := d', parties := (parties S)(i := Some r')\<rparr>" "parties S i = Some r" by metis
    let ?live = "owner_is_live (sees S x) r"
    let ?s = "recovered_state (sees S x) r (shared S)"
    have t: "tidy (work S)" unfolding work_def by (rule content_tidy) (use S in \<open>simp add: system_ok_def\<close>)
    have live: "?live j" if "me = Some j" for j
      using me [OF that] r(1,5) by (auto simp: owner_is_live_def sees_def Let_def owner_pattern_strip alive_def)
    have k1: "keeps (work S) ?s" unfolding recovered_state_def work_def [symmetric]
      by (rule recovery [OF t live recover_stale_owners_facts(2) [OF t]])
    have t1: "tidy ?s" unfolding recovered_state_def work_def [symmetric] by (rule recover_stale_owners_facts(1) [OF t])
    have k2: "keeps ?s s'" if "change r oper a ?s s'" for s'
      by (rule changes [OF t1 al(2) _ that]) (use al(1) r(1) in simp)
    have "content d' = work S \<or> content d' = ?s \<or> change r oper a ?s (content d')"
      using r(3) by (auto simp: outcome_ok_def work_def split: if_splits)
    then have "keeps (work S) (content d')" using k1 k2 keeps_refl keeps_trans by metis
    then show ?thesis unfolding Operate h r(4) work_def by simp
  qed
qed

lemma keeps_history:
  "system_ok S \<Longrightarrow> \<forall>e \<in> set es. event_ok e \<Longrightarrow> (\<And>i. me = Some i \<Longrightarrow> alive S i \<and> owner_pattern i)
    \<Longrightarrow> list_all (lawful me own allowed) (fst (history es S)) \<Longrightarrow> keeps (work S) (work (after es S))"
proof (induction es arbitrary: S)
  case Nil
  then show ?case by (simp add: keeps_refl)
next
  case (Cons e es)
  obtain a S1 where h: "happen e S = (a, S1)" by fastforce
  have p: "lawful me own allowed (e, a)" "list_all (lawful me own allowed) (fst (history es S1))"
    using Cons.prems(4) by (simp_all add: h split: prod.splits)
  have S1: "system_ok S1" using happen_ok(1) [OF Cons.prems(1), of e] Cons.prems(2) h by simp
  have "alive S1 i" if "me = Some i" for i
  proof -
    have "e \<noteq> Stop i" using p(1) that by (auto simp: lawful_def split: option.splits)
    then show ?thesis using happen_ok(2) [OF Cons.prems(1), of e i] Cons.prems(2,3) that h by simp
  qed
  then have "keeps (work S1) (work (after es S1))" using Cons.IH [OF S1] Cons.prems(2,3) p(2) by simp
  moreover have "keeps (work S) (work S1)" using keeps_happen [OF Cons.prems(1), of e] Cons.prems(2,3) p(1) h by simp
  ultimately show ?case using keeps_trans h by simp
qed

end

section \<open>Client commands\<close>

definition finishes :: "ustr \<Rightarrow> qop \<Rightarrow> answer \<Rightarrow> bool" where
  "finishes i oper a =
     (case oper of
        CompleteClient j \<Rightarrow> clean_command_id (Some j) = i \<and> a = Flag True
      | DiscardClient j \<Rightarrow> clean_command_id (Some j) = i \<and> a = Flag True
      | _ \<Rightarrow> False)"

lemma set_remove_at: "n < length xs \<Longrightarrow> set xs = insert (xs ! n) (set (remove_at n xs))"
  using arg_cong [OF mset_remove_at [of n xs], of set_mset] by simp

lemma change_keeps_command:
  assumes t: "tidy s" and ch: "change r oper a s s'" and k: "k \<in> set (client_work s)" and fin: "\<not> finishes (command_id k) oper a"
  shows "k \<in> set (client_work s')"
proof (cases oper)
  case (DiscardClient j)
  then obtain n where e: "n < length (client_pending s)" "command_id (client_pending s ! n) \<noteq> command_id k"
      "s' = s\<lparr>client_pending := remove_at n (client_pending s)\<rparr>"
    using ch fin by (auto simp: finishes_def)
  then show ?thesis using k set_remove_at [OF e(1)] by (auto simp: client_work_def)
next
  case (ClaimClient j)
  then obtain n b where e: "n < length (client_pending s)" "b = client_pending s ! n" "map_of (client_inflight s) (command_id b) = None"
      "client_pending s' = remove_at n (client_pending s)" "client_inflight s' = AList.update (command_id b) b (client_inflight s)"
    using ch by auto
  then have "client_inflight s' = client_inflight s @ [(command_id b, b)]" by (simp add: map_of_eq_None_iff update_fresh)
  then show ?thesis using k e set_remove_at [OF e(1)] by (auto simp: client_work_def)
next
  case (CompleteClient j)
  then have e: "client_pending s' = client_pending s" "client_inflight s' = AList.delete (clean_command_id (Some j)) (client_inflight s)"
      "clean_command_id (Some j) \<noteq> command_id k"
    using ch fin by (auto simp: finishes_def)
  have "command_id k = i" if "(i, k) \<in> set (client_inflight s)" for i using t that by (auto simp: tidy_def all_entries_def)
  then show ?thesis using k e by (force simp: client_work_def AList.delete_eq)
next
  case (ReleaseClient j)
  then obtain b where e: "client_pending s' = b # client_pending s" "map_of (client_inflight s) (clean_command_id (Some j)) = Some b"
      "client_inflight s' = AList.delete (clean_command_id (Some j)) (client_inflight s)"
    using ch by auto
  have "k = b" if "(clean_command_id (Some j), k) \<in> set (client_inflight s)"
    using t e(2) that by (simp add: tidy_def client_ids_def)
  then show ?thesis using k e by (force simp: client_work_def AList.delete_eq)
qed (use ch k in \<open>auto simp: client_work_def\<close>)

interpretation command_kept: queue_law None "\<lambda>oper a. True" "\<lambda>oper a. \<not> finishes (command_id k) oper a"
    "\<lambda>s s'. k \<in> set (client_work s) \<longrightarrow> k \<in> set (client_work s')" for k
proof unfold_locales
  show "k \<in> set (client_work s) \<longrightarrow> k \<in> set (client_work s')" if "restored live s s'" for live s s'
  proof -
    have "mset (client_work s') = mset (client_work s)" using that by (simp add: restored_def)
    then have "set (client_work s') = set (client_work s)" by (rule mset_eq_setD)
    then show ?thesis by simp
  qed
qed (auto intro: change_keeps_command)

text \<open>Who holds a client command keeps it.\<close>

lemma change_keeps_claimed_command:
  assumes ch: "change r oper a s s'" and k: "map_of (client_inflight s) i = Some k" "map_of (client_inflight_owners s) i = Some me"
    and me: "me \<noteq> owner_id r"
  shows "map_of (client_inflight s') i = Some k \<and> map_of (client_inflight_owners s') i = Some me"
  using ch k me by (cases oper) (auto simp: dict_simps)

interpretation command_held: queue_law "Some me" "\<lambda>oper a. False" "\<lambda>oper a. True"
    "\<lambda>s s'. map_of (client_inflight s) i = Some k \<and> map_of (client_inflight_owners s) i = Some me
      \<longrightarrow> map_of (client_inflight s') i = Some k \<and> map_of (client_inflight_owners s') i = Some me" for me i k
proof unfold_locales
  show "map_of (client_inflight s) i = Some k \<and> map_of (client_inflight_owners s) i = Some me
      \<longrightarrow> map_of (client_inflight s') i = Some k \<and> map_of (client_inflight_owners s') i = Some me"
    if "restored live s s'" "\<And>j. Some me = Some j \<Longrightarrow> live j" for live s s'
    using that by (auto simp: restored_def client_gone_def owner_of_def)
qed (auto dest: change_keeps_claimed_command)

section \<open>User messages\<close>

text \<open>What the holder of a message in flight may do with the message staying its own.\<close>

definition keeps_claim :: "conv \<Rightarrow> ucommand \<Rightarrow> qop \<Rightarrow> answer \<Rightarrow> bool" where
  "keeps_claim c k oper a =
     (case oper of
        Save qs ks ts \<Rightarrow> map_of ks c = Some k
      | SettleUser conversation command succeeded \<Rightarrow> \<not> (ustrip conversation = c \<and> a = Flag True)
      | _ \<Rightarrow> True)"

lemma change_keeps_claimed_message:
  assumes t: "tidy s" and ch: "change r oper a s s'" and k: "map_of (inflight s) c = Some k" "map_of (inflight_owners s) c = Some me"
    and me: "me = owner_id r \<Longrightarrow> keeps_claim c k oper a"
  shows "map_of (inflight s') c = Some k \<and> map_of (inflight_owners s') c = Some me"
proof (cases oper)
  case (Save qs ks ts)
  have "owners_ok (inflight s) (inflight_owners s)" using t by (simp add: tidy_def)
  then have "owner_pattern me" using k(2) by (simp add: owners_ok_def)
  then have ne: "me \<noteq> []" by (auto simp: owner_pattern_def)
  have m: "merge_owned (owner_id r) (owner_inflight r) ks (remdups (map fst (owner_inflight r) @ map fst ks))
      (inflight s, inflight_owners s) = Some (inflight s', inflight_owners s')"
    using ch Save by (auto simp: merge_owned_delta_def)
  show ?thesis
  proof (cases "me = owner_id r")
    case True
    with me Save have "map_of ks c = Some k" by (simp add: keeps_claim_def)
    from merge_owned_own [OF m this k(1)] k(2) True show ?thesis by simp
  next
    case False
    from merge_owned_facts(4) [OF m _ k(2) False ne] k(1) show ?thesis by simp
  qed
qed (use ch k me in \<open>auto simp: dict_simps take_inflight_def drop_inflight_def keeps_claim_def\<close>)

interpretation message_held: queue_law "Some me" "keeps_claim c k" "\<lambda>oper a. True"
    "\<lambda>s s'. map_of (inflight s) c = Some k \<and> map_of (inflight_owners s) c = Some me
      \<longrightarrow> map_of (inflight s') c = Some k \<and> map_of (inflight_owners s') c = Some me" for me c k
proof unfold_locales
  show "map_of (inflight s) c = Some k \<and> map_of (inflight_owners s) c = Some me
      \<longrightarrow> map_of (inflight s') c = Some k \<and> map_of (inflight_owners s') c = Some me"
    if "restored live s s'" "\<And>j. Some me = Some j \<Longrightarrow> live j" for live s s'
    using that by (auto simp: restored_def claim_gone_def owner_of_def)
qed (auto dest: change_keeps_claimed_message)

definition moves_only :: "conv \<Rightarrow> qop \<Rightarrow> answer \<Rightarrow> bool" where
  "moves_only c oper a =
     (case oper of
        Save qs ks ts \<Rightarrow> False
      | SettleUser conversation k succeeded \<Rightarrow> \<not> (ustrip conversation = c \<and> succeeded \<and> a = Flag True)
      | _ \<Rightarrow> True)"

lemma inflight_of_dict:
  "inflight_of (take_inflight c k i s) c' = (if c' = c then [k] else inflight_of s c')"
  "inflight_of (drop_inflight c s) c' = (if c' = c then [] else inflight_of s c')"
  "inflight_of (set_queue c ks s) c' = inflight_of s c'"
  by (simp_all add: inflight_of_def take_inflight_def drop_inflight_def dict_simps)

lemma change_moves_message:
  assumes ch: "change r oper a s s'" and m: "moves_only c oper a"
  shows "mset (user_work s' c) = mset (user_work s c)"
proof (cases oper)
  case (ClaimUser conversation)
  then obtain k rest where e: "map_of (inflight s) (ustrip conversation) = None" "or_empty (queues s) (ustrip conversation) = k # rest"
      "s' = take_inflight (ustrip conversation) k (owner_id r) (set_queue (ustrip conversation) rest s)"
    using ch by auto
  then show ?thesis by (auto simp: user_work_def inflight_of_dict) (simp add: inflight_of_def)
next
  case (SettleUser conversation command succeeded)
  then obtain k where e: "map_of (inflight s) (ustrip conversation) = Some k" "a = Flag True"
      "s' = (if succeeded then drop_inflight (ustrip conversation) s
             else set_queue (ustrip conversation) (k # or_empty (queues s) (ustrip conversation)) (drop_inflight (ustrip conversation) s))"
    using ch by auto
  then show ?thesis using m SettleUser
    by (cases succeeded) (auto simp: user_work_def inflight_of_dict moves_only_def, auto simp: inflight_of_def)
qed (use ch m in \<open>auto simp: user_work_def inflight_of_def moves_only_def\<close>)

lemma restored_moves_message: "restored live s s' \<Longrightarrow> mset (user_work s' c) = mset (user_work s c)"
  by (simp add: restored_def user_work_def replayed_def inflight_of_def or_empty_def turn_gone_def claim_gone_def split: option.split)

interpretation messages_kept: queue_law None "\<lambda>oper a. True" "moves_only c" "\<lambda>s s'. mset (user_work s' c) = mset (user_work s c)" for c
  by unfold_locales (auto intro: change_moves_message restored_moves_message)

end
