(* ===== verification/DurableQueueSafety.thy ===== *)
theory DurableQueueSafety
  imports DurableQueueRuns
begin

text \<open>
  What the durable queue promises its clients: an accepted command is kept, exactly once, until it is
  completed or discarded; a message claimed by a live runtime is nobody else's; claims, failures,
  crashes and recoveries move messages but lose none; the work of a dead runtime comes back in front
  of the queue; and saving a session's view of its queue undoes nothing that others did.
\<close>

definition no_queue :: qsys where
  "no_queue = \<lparr>shared = None, parties = (\<lambda>_. None)\<rparr>"

lemma no_queue_ok: "system_ok no_queue"
  by (simp add: system_ok_def no_queue_def disk_ok_def)

lemma lawful_leaves_alive:
  "system_ok S \<Longrightarrow> list_all event_ok es \<Longrightarrow> list_all (lawful (Some me) own allowed) (fst (history es S)) \<Longrightarrow> alive S me
   \<Longrightarrow> alive (after es S) me"
proof (induction es arbitrary: S)
  case (Cons e es)
  obtain a S1 where h: "happen e S = (a, S1)" by fastforce
  have p: "lawful (Some me) own allowed (e, a)" "list_all (lawful (Some me) own allowed) (fst (history es S1))"
    using Cons.prems(3) by (simp_all add: h split: prod.splits)
  have "e \<noteq> Stop me" using p(1) by (auto simp: lawful_def split: option.splits)
  then show ?case using Cons.IH [of S1] Cons.prems h p(2) happen_ok(1) [of S e] happen_ok(2) [of S e me] by simp
qed simp

lemma count_one: "distinct xs \<Longrightarrow> x \<in> set xs \<Longrightarrow> count_list xs x = 1"
  by (induction xs) auto

lemma work_tidy: "system_ok S \<Longrightarrow> tidy (work S)"
  unfolding work_def system_ok_def by (blast intro: content_tidy)

text \<open>What an operation that did not fail found and left.\<close>

lemma operate_effect:
  assumes S: "system_ok S" and ok: "op_ok oper" and h: "happen (Operate i x oper) S = (Some a, S1)" and a: "\<And>err. a \<noteq> Failed err"
  obtains s r where "tidy s" "owner_id r = i" "opened r" "parties S i = Some r" "owner_pattern i" "alive S1 i"
    "restored (owner_is_live (sees S x) r) (work S) s" "work S1 = s \<and> quiet oper a s \<or> change r oper a s (work S1)"
proof -
  from operate [OF S ok h] obtain r r' d' where r: "parties S i = Some r" "owner_id r = i" "owner_pattern i"
    "outcome_ok (sees S x) r (shared S) oper (a, r', d')" "S1 = S\<lparr>shared := d', parties := (parties S)(i := Some r')\<rparr>"
    "opened r' = opened r" by metis
  let ?s = "recovered_state (sees S x) r (shared S)"
  note t = work_tidy [OF S]
  have "tidy ?s" "restored (owner_is_live (sees S x) r) (work S) ?s"
    unfolding recovered_state_def work_def [symmetric] by (rule recover_stale_owners_facts [OF t])+
  moreover have "opened r" "work S1 = ?s \<and> quiet oper a ?s \<or> change r oper a ?s (work S1)"
    using r(4,5) a by (auto simp: outcome_ok_def work_def)
  ultimately show ?thesis using that [of ?s r] r by (simp add: alive_def)
qed

text \<open>
  Claim C11. A client command that was accepted stays on disk, exactly once, pending or in flight, until it is
  completed by its owner or discarded, whatever runtimes do, fail to do, or die.
\<close>

theorem accepted_command_survives:
  assumes S: "system_ok S" and acc: "happen (Operate i x (PersistClient c)) S = (Some (Flag True), S1)"
    and es: "list_all event_ok es"
    and unfinished: "list_all (permitted None (\<lambda>oper a. \<not> finishes (command_id c) oper a)) (fst (history es S1))"
  shows "count_list (client_ids (work (after es S1))) (command_id c) = 1"
proof -
  have S1: "system_ok S1" using happen_ok(1) [OF S, of "Operate i x (PersistClient c)"] acc by (simp add: event_ok_def op_ok_def)
  obtain s r where e: "work S1 = s \<and> quiet (PersistClient c) (Flag True) s \<or> change r (PersistClient c) (Flag True) s (work S1)"
    by (rule operate_effect [OF S _ acc]) (simp_all add: op_ok_def)
  have "command_id c \<in> set (client_ids (work S1))"
    using e stored_client_command(2) [of c] by (auto simp: client_ids_def)
  then obtain k where k: "k \<in> set (client_work (work S1))" "command_id k = command_id c"
    unfolding tidy_ids [OF work_tidy [OF S1]] by auto
  have S2: "system_ok (after es S1)" by (rule after_ok [OF S1]) (use es in \<open>simp add: list_all_iff\<close>)
  have "k \<in> set (client_work (work (after es S1)))"
    using command_kept.keeps_history [OF S1, where es = es and k = k] k permitted_lawful [OF unfinished] es by (simp add: list_all_iff)
  then have "command_id c \<in> set (client_ids (work (after es S1)))"
    unfolding tidy_ids [OF work_tidy [OF S2]] set_map using k(2) by (intro image_eqI [where x = k]) simp_all
  then show ?thesis using work_tidy [OF S2] by (simp add: count_one tidy_def)
qed

text \<open>
  Claim C12. A user message that a runtime claimed is in flight for that runtime, and no claim of the same conversation
  succeeds, neither its own nor another's, whatever the others do, fail to do or die of, for as long as the runtime does not
  stop, does not settle that conversation's message, and saves only views in which the message is in flight.
\<close>

theorem claimed_message_is_exclusive:
  assumes S: "system_ok S" and claim: "happen (Operate i x (ClaimUser conversation)) S = (Some (Claimed (Some k)), S1)"
    and es: "list_all event_ok es"
      "list_all (lawful (Some i) (keeps_claim (ustrip conversation) k) (\<lambda>oper a. True)) (fst (history es S1))"
    and again: "happen (Operate j y (ClaimUser conversation')) (after es S1) = (Some a, S2)" "ustrip conversation' = ustrip conversation"
  shows "map_of (inflight (work (after es S1))) (ustrip conversation) = Some k
    \<and> map_of (inflight_owners (work (after es S1))) (ustrip conversation) = Some i \<and> \<not> (\<exists>k'. a = Claimed (Some k'))"
proof -
  let ?c = "ustrip conversation" and ?S = "after es S1"
  have S1: "system_ok S1" using happen_ok(1) [OF S, of "Operate i x (ClaimUser conversation)"] claim by (simp add: event_ok_def op_ok_def)
  obtain s r where e: "owner_id r = i" "owner_pattern i" "alive S1 i" "change r (ClaimUser conversation) (Claimed (Some k)) s (work S1)"
    by (rule operate_effect [OF S _ claim]) (auto simp: op_ok_def)
  have "map_of (inflight (work S1)) ?c = Some k \<and> map_of (inflight_owners (work S1)) ?c = Some i"
    using e(1,4) by (auto simp: take_inflight_def dict_simps)
  then have held: "map_of (inflight (work ?S)) ?c = Some k \<and> map_of (inflight_owners (work ?S)) ?c = Some i"
    using message_held.keeps_history [OF S1, where es = es and me = i and c = ?c and k = k] es e(2,3) by (simp add: list_all_iff)
  have S2: "system_ok ?S" by (rule after_ok [OF S1]) (use es in \<open>simp add: list_all_iff\<close>)
  have al: "alive ?S i" by (rule lawful_leaves_alive [OF S1 es e(3)])
  have "\<not> (\<exists>k'. a = Claimed (Some k'))"
  proof
    assume "\<exists>k'. a = Claimed (Some k')"
    then obtain s r k' where s: "a = Claimed (Some k')" "owner_id r = j" "opened r" "parties ?S j = Some r"
      "restored (owner_is_live (sees ?S y) r) (work ?S) s" "change r (ClaimUser conversation') (Claimed (Some k')) s (work S2)"
      by (elim exE) (rule operate_effect [OF S2 _ again(1)], auto simp: op_ok_def)
    have "owner_is_live (sees ?S y) r i"
      using al e(2) s(2-4) by (auto simp: owner_is_live_def sees_def Let_def owner_pattern_strip)
    then have "map_of (inflight s) ?c = Some k" using s(5) held by (simp add: restored_def claim_gone_def owner_of_def)
    then show False using s(6) again(2) by simp
  qed
  then show ?thesis using held by blast
qed

text \<open>
  Claim C19. The messages of a conversation, queued, in flight or part of an open turn, stay the same multiset through
  every claim, release, failure, crash and recovery; only a save or a settled success changes it.
\<close>

theorem user_messages_conserved:
  assumes "system_ok S" "list_all event_ok es" "list_all (permitted None (moves_only c)) (fst (history es S))"
  shows "mset (user_work (work (after es S)) c) = mset (user_work (work S) c)"
  using messages_kept.keeps_history [where S = S and es = es and c = c] assms(1,2) permitted_lawful [OF assms(3)]
  by (simp add: list_all_iff)

text \<open>
  Claim C37. The work of a runtime that is gone comes back in its order, in front of the queue: first what its turn
  had taken in, then the message in flight.
\<close>

theorem dead_work_comes_back:
  assumes S: "system_ok S" and look: "happen (Operate j x (Pending c)) S = (Some (Commands ks), S1)"
    and k: "map_of (inflight (work S)) c = Some k" "map_of (inflight_owners (work S)) c = Some i"
    and dead: "\<not> alive S i" "\<not> held x i"
    and turn: "map_of (turn_inputs (work S)) c = None \<or> map_of (turn_input_owners (work S)) c = Some i"
  shows "ks = or_empty (turn_inputs (work S)) c @ k # or_empty (queues (work S)) c
    \<and> map_of (inflight (work S1)) c = None \<and> or_empty (queues (work S1)) c = ks"
proof -
  obtain s r where e: "owner_id r = j" "opened r" "parties S j = Some r" "restored (owner_is_live (sees S x) r) (work S) s"
      "work S1 = s" "ks = or_empty (queues s) c"
    by (rule operate_effect [OF S _ look]) (auto simp: op_ok_def)
  have "i \<noteq> j" using dead(1) e(2,3) by (auto simp: alive_def)
  have "owners_ok (inflight (work S)) (inflight_owners (work S))" using work_tidy [OF S] by (simp add: tidy_def)
  then have "owner_pattern i" using k(2) by (simp add: owners_ok_def)
  with \<open>i \<noteq> j\<close> have d: "\<not> owner_is_live (sees S x) r i"
    using dead e(1) by (simp add: owner_is_live_def sees_def Let_def owner_pattern_strip)
  then have "claim_gone (owner_is_live (sees S x) r) (work S) c" using k by (simp add: claim_gone_def owner_of_def)
  moreover have "or_empty (turn_inputs (work S)) c = (if turn_gone (owner_is_live (sees S x) r) (work S) c then or_empty (turn_inputs (work S)) c else [])"
    using turn d by (auto simp: turn_gone_def owner_of_def or_empty_def split: option.split)
  ultimately show ?thesis
    using e k(1) by (simp add: restored_def replayed_def inflight_of_def)
qed

text \<open>
  Claim C20. A session that saves its view of a queue applies its own additions and removals to what is in the file: the
  commands of the others stay in their order, none that they consumed comes back, and every one is there once.
\<close>

theorem merge_is_three_way:
  fixes latest previous desired :: "ucommand list"
  assumes L: "L = indexed_commands repr latest" and P: "P = indexed_commands repr previous" and W: "W = indexed_commands repr desired"
    and M: "M = merge_entries L P W"
  shows "merge_queue_delta repr latest previous desired = map snd M \<and> distinct (map fst M)
    \<and> fst ` set M = (fst ` set L - (fst ` set P - fst ` set W)) \<union> (fst ` set W - fst ` set P)
    \<and> filter (\<lambda>e. fst e \<notin> fst ` set W) M = filter (\<lambda>e. fst e \<notin> fst ` set W \<union> fst ` set P) L"
  unfolding M L P W by (simp only: merge_queue_delta_def merge_entries_facts indexed_commands_keys simp_thms)

text \<open>
  Without concurrent changes a save stores exactly what the session wants.
\<close>

theorem merge_without_others:
  "merge_queue_delta repr previous previous desired = desired"
  by (simp add: merge_queue_delta_def merge_entries_alone)

section \<open>Instances\<close>

definition all_well :: io where
  "all_well = \<lparr>read_ok = True, rename_ok = True, recover_ok = True, write_ok = True, held = (\<lambda>_. False), repr_of = (\<lambda>_. [])\<rparr>"

definition alice :: ustr where "alice = replicate 16 97"
definition bob :: ustr where "bob = replicate 16 98"
definition talk :: conv where "talk = u ''c1''"

definition approve :: ucommand where
  "approve = \<lparr>uc_type = u ''approve'', uc_data = [(u ''client_command_id'', JStr (u ''x1''))]\<rparr>"

definition hello :: ucommand where
  "hello = \<lparr>uc_type = u ''user_message'', uc_data = [(u ''content'', JStr (u ''hi''))]\<rparr>"

definition two_runtimes :: qsys where
  "two_runtimes = after [Start alice, Start bob] no_queue"

definition one_message :: qsys where
  "one_message = after [Start alice, Start bob, Operate bob all_well (Save [(talk, [hello])] [] [])] no_queue"

lemma two_runtimes_ok: "system_ok two_runtimes"
  unfolding two_runtimes_def by (rule after_ok [OF no_queue_ok]) (simp add: event_ok_def)

lemma one_message_ok: "system_ok one_message"
  unfolding one_message_def by (rule after_ok [OF no_queue_ok]) (simp add: event_ok_def op_ok_def all_entries_def user_command_def hello_def)

lemma happens: "fst (happen e S) = a \<Longrightarrow> happen e S = (a, snd (happen e S))"
  by (metis prod.collapse)

definition crash_story :: "qevent list" where
  "crash_story = [Operate alice all_well (ClaimClient (JStr (u ''x1''))), Stop alice, Operate bob (all_well\<lparr>write_ok := False\<rparr>) PendingClients]"

lemma accepted_command_survives_witness:
  "count_list (client_ids (work (after crash_story (snd (happen (Operate alice all_well (PersistClient approve)) two_runtimes))))) (command_id approve) = 1"
  by (rule accepted_command_survives [OF two_runtimes_ok happens]) code_simp+

lemma claimed_message_is_exclusive_witness:
  "map_of (inflight (work (after [Operate alice all_well (Save [] [(talk, hello)] []), Operate alice all_well PendingClients, Stop bob]
     (snd (happen (Operate alice all_well (ClaimUser talk)) one_message))))) (ustrip talk) = Some hello"
proof -
  let ?S = "snd (happen (Operate alice all_well (ClaimUser talk)) one_message)"
  let ?es = "[Operate alice all_well (Save [] [(talk, hello)] []), Operate alice all_well PendingClients, Stop bob]"
  have a: "fst (happen (Operate alice all_well (ClaimUser talk)) one_message) = Some (Claimed (Some hello))"
    "fst (happen (Operate alice all_well (ClaimUser talk)) (after ?es ?S)) = Some (Claimed None)"
    by code_simp+
  have e: "list_all event_ok ?es"
    by (simp add: event_ok_def op_ok_def all_entries_def user_command_def hello_def)
  have l: "list_all (lawful (Some alice) (keeps_claim (ustrip talk) hello) (\<lambda>oper a. True)) (fst (history ?es ?S))"
    by code_simp
  show ?thesis
    using claimed_message_is_exclusive [OF one_message_ok happens [OF a(1)] e l happens [OF a(2)] refl] by (rule conjunct1)
qed

lemma user_messages_conserved_witness:
  "mset (user_work (work (after [Operate alice all_well (ClaimUser talk), Stop alice, Operate bob all_well Load] one_message)) talk)
    = mset (user_work (work one_message) talk)"
  by (rule user_messages_conserved [OF one_message_ok]) code_simp+

lemma dead_work_comes_back_witness:
  "or_empty (queues (work (snd (happen (Operate bob all_well (Pending talk))
     (after [Operate alice all_well (ClaimUser talk), Stop alice] one_message))))) talk = [hello]"
proof -
  let ?es = "[Operate alice all_well (ClaimUser talk), Stop alice]"
  let ?S = "after ?es one_message"
  have S: "system_ok ?S" by (rule after_ok [OF one_message_ok]) (simp add: event_ok_def op_ok_def)
  have a: "fst (happen (Operate bob all_well (Pending talk)) ?S) = Some (Commands [hello])" by code_simp
  have k: "map_of (inflight (work ?S)) talk = Some hello" "map_of (inflight_owners (work ?S)) talk = Some alice"
    "\<not> alive ?S alice" "\<not> held all_well alice" "map_of (turn_inputs (work ?S)) talk = None"
    by code_simp+
  show ?thesis using dead_work_comes_back [OF S happens [OF a] k(1-4)] k(5) by simp
qed

lemma merge_is_three_way_witness:
  "distinct (map fst (merge_entries (indexed_commands (\<lambda>_. []) [hello, hello]) (indexed_commands (\<lambda>_. []) [hello]) (indexed_commands (\<lambda>_. []) [])))"
  using merge_is_three_way [OF refl refl refl refl, of "\<lambda>_. []" "[hello, hello]" "[hello]" "[]"] by blast

end
