(* ===== verification/History.thy ===== *)
theory History
  imports Prelude "HOL-Library.Multiset"
begin

text \<open>
  The conversation history: \<open>backend/agent/history_store.py\<close>, with \<open>estimate_native_attachments\<close> of
  \<open>agent/context_ledger.py\<close>.

  A message carries what this module reads. The token estimator is a callback of the code and an
  argument here, as is the clock. A timestamp is an integer or \<open>None\<close>, the declared type. A caller that
  rewrites messages in place and then asks for a new token cache is the event \<open>Rebuild\<close> (from an index on)
  or \<open>Refresh\<close> (one message).
\<close>

section \<open>Messages\<close>

type_synonym media = "(ustr \<times> ustr) list"

record message =
  cm_role :: ustr
  cm_content :: ustr
  cm_name :: "ustr option"
  cm_calls :: "(ustr \<times> ustr) list"     \<comment> \<open>id and name of each tool call\<close>
  cm_call_id :: "ustr option"
  cm_error :: bool
  cm_images :: "media list"
  cm_documents :: "media list"
  cm_stamp :: "int option"

abbreviation "assistant m \<equiv> cm_role m = u ''assistant''"
abbreviation "tool_message m \<equiv> cm_role m = u ''tool''"

section \<open>Pairing calls and results\<close>

definition placeholder :: "ustr \<Rightarrow> ustr \<Rightarrow> message" where
  "placeholder i name =
     \<lparr>cm_role = u ''tool'',
      cm_content = u ''[Tool call '' @ [39] @ name @ [39] @ u '' did not complete with a recorded result; the execution outcome is unknown.]'',
      cm_name = Some name, cm_calls = [], cm_call_id = Some i, cm_error = True, cm_images = [], cm_documents = [], cm_stamp = None\<rparr>"

record repairing =
  repaired :: "message list"
  pending_ids :: "(ustr \<times> ustr) list"
  pending_order :: "ustr list"
  inserted :: nat
  dropped :: nat

definition result_id :: "message \<Rightarrow> ustr" where
  "result_id m = ustrip (case cm_call_id m of None \<Rightarrow> [] | Some i \<Rightarrow> i)"

definition flush_pending :: "repairing \<Rightarrow> repairing" where
  "flush_pending s =
     (if pending_order s = [] then s
      else s\<lparr>repaired := repaired s @ map (\<lambda>i. placeholder i (case map_of (pending_ids s) i of Some n \<Rightarrow> n | None \<Rightarrow> u ''unknown'')) (pending_order s),
             inserted := inserted s + length (pending_order s), pending_ids := [], pending_order := []\<rparr>)"

definition open_calls :: "(ustr \<times> ustr) list \<Rightarrow> repairing \<Rightarrow> repairing" where
  "open_calls calls s =
     s\<lparr>pending_ids := foldl (\<lambda>d (i, n). AList.update i n d) (pending_ids s) calls,
       pending_order := pending_order s @ map fst calls\<rparr>"

definition repair_one :: "repairing \<Rightarrow> message \<Rightarrow> repairing" where
  "repair_one s m =
     (if assistant m then
        (let s1 = flush_pending s in open_calls (cm_calls m) (s1\<lparr>repaired := repaired s1 @ [m]\<rparr>))
      else if tool_message m then
        (let i = result_id m in
         if i \<noteq> [] \<and> i \<in> fst ` set (pending_ids s) then
           s\<lparr>repaired := repaired s @ [m], pending_ids := AList.delete i (pending_ids s), pending_order := filter (\<lambda>p. p \<noteq> i) (pending_order s)\<rparr>
         else s\<lparr>dropped := dropped s + 1\<rparr>)
      else (let s1 = flush_pending s in s1\<lparr>repaired := repaired s1 @ [m]\<rparr>))"

definition repair_tool_messages :: "message list \<Rightarrow> message list \<times> nat \<times> nat" where
  "repair_tool_messages ms =
     (let s = flush_pending (foldl repair_one \<lparr>repaired = [], pending_ids = [], pending_order = [], inserted = 0, dropped = 0\<rparr> ms) in
      (repaired s, inserted s, dropped s))"

definition replies_to :: "ustr set \<Rightarrow> message \<Rightarrow> bool" where
  "replies_to ids m \<longleftrightarrow> tool_message m \<and> (ids = {} \<or> (case cm_call_id m of Some i \<Rightarrow> i \<in> ids | None \<Rightarrow> False))"

function group_messages :: "message list \<Rightarrow> message list list" where
  "group_messages [] = []"
| "group_messages (m # ms) =
     (if assistant m \<and> cm_calls m \<noteq> [] then
        (let ids = set (filter (\<lambda>i. i \<noteq> []) (map fst (cm_calls m))) in
         (m # takeWhile (replies_to ids) ms) # group_messages (dropWhile (replies_to ids) ms))
      else [m] # group_messages ms)"
  by pat_completeness auto
termination
  by (relation "measure length") (auto simp: length_dropWhile_le less_Suc_eq_le)

section \<open>Accounting\<close>

datatype category = HistoryTokens | ToolResults | FilesAttachments

record account_entry =
  ac_category :: category
  ac_source :: ustr
  ac_tokens :: int
  ac_attachment_tokens :: int
  ac_attachment_count :: int
  ac_attachment_sources :: "ustr list"

record ledger_row =
  lr_tokens :: int
  lr_items :: int
  lr_sources :: "(ustr \<times> int) list"

definition NATIVE_ATTACHMENT_TOKEN_ESTIMATE :: int where
  "NATIVE_ATTACHMENT_TOKEN_ESTIMATE = 2000"

definition field_of :: "media \<Rightarrow> ustr \<Rightarrow> ustr" where
  "field_of m k = (case map_of m k of None \<Rightarrow> [] | Some v \<Rightarrow> v)"

fun first_of :: "ustr list \<Rightarrow> ustr" where
  "first_of [] = []"
| "first_of (x # xs) = (if x \<noteq> [] then x else first_of xs)"

definition estimate_native_attachments :: "media list \<Rightarrow> media list \<Rightarrow> int \<times> int \<times> ustr list" where
  "estimate_native_attachments images documents =
     (let ok = \<lambda>m. ustrip (field_of m (u ''data'')) \<noteq> [];
          pics = filter ok images; docs = filter ok documents;
          sources = map (\<lambda>i. first_of [field_of i (u ''media_type''), u ''image'']) pics
                    @ map (\<lambda>d. first_of [field_of d (u ''file_name''), field_of d (u ''media_type''), u ''document'']) docs in
      (NATIVE_ATTACHMENT_TOKEN_ESTIMATE * int (length pics + length docs), int (length pics + length docs),
       rev (remdups (rev (filter (\<lambda>s. s \<noteq> []) sources)))))"

definition account :: "message \<Rightarrow> int \<Rightarrow> account_entry" where
  "account m estimate =
     (let (tokens, items, sources) = estimate_native_attachments (cm_images m) (cm_documents m) in
      \<lparr>ac_category = (if tool_message m then ToolResults else HistoryTokens),
       ac_source = (if tool_message m then first_of [(case cm_name m of None \<Rightarrow> [] | Some n \<Rightarrow> n), u ''tool'']
                    else first_of [cm_role m, u ''message'']),
       ac_tokens = max 0 (estimate - tokens), ac_attachment_tokens = tokens, ac_attachment_count = items,
       ac_attachment_sources = sources\<rparr>)"

definition count_source :: "int \<Rightarrow> (ustr \<times> int) list \<Rightarrow> ustr \<Rightarrow> (ustr \<times> int) list" where
  "count_source sign d s =
     (let n = (case map_of d s of None \<Rightarrow> 0 | Some n \<Rightarrow> n) + sign in if n = 0 then AList.delete s d else AList.update s n d)"

definition add_row :: "int \<Rightarrow> int \<Rightarrow> int \<Rightarrow> ustr list \<Rightarrow> ledger_row \<Rightarrow> ledger_row" where
  "add_row sign tokens items sources row =
     row\<lparr>lr_tokens := lr_tokens row + sign * tokens, lr_items := lr_items row + sign * items,
         lr_sources := foldl (count_source sign) (lr_sources row) sources\<rparr>"

definition add_account :: "int \<Rightarrow> (category \<Rightarrow> ledger_row) \<Rightarrow> account_entry \<Rightarrow> category \<Rightarrow> ledger_row" where
  "add_account sign l e =
     (let l1 = l(ac_category e := add_row sign (ac_tokens e) 1 [ac_source e] (l (ac_category e))) in
      l1(FilesAttachments := add_row sign (ac_attachment_tokens e) (ac_attachment_count e) (ac_attachment_sources e) (l1 FilesAttachments)))"

section \<open>The history\<close>

record history_store =
  hs_messages :: "message list"
  frozen_count :: int
  frozen_metadata_present :: bool
  pending_prefix :: int
  last_stamp :: int
  token_estimates :: "int list"
  tokens_total :: int
  revision :: nat
  changes :: "(nat \<times> nat) list"
  accounting :: "account_entry list"
  ledger :: "category \<Rightarrow> ledger_row"

type_synonym estimator = "message \<Rightarrow> ustr option \<Rightarrow> int"

definition empty_row :: ledger_row where
  "empty_row = \<lparr>lr_tokens = 0, lr_items = 0, lr_sources = []\<rparr>"

definition new_history :: history_store where
  "new_history = \<lparr>hs_messages = [], frozen_count = 0, frozen_metadata_present = False, pending_prefix = 0, last_stamp = 0,
     token_estimates = [], tokens_total = 0, revision = 0, changes = [], accounting = [], ledger = (\<lambda>_. empty_row)\<rparr>"

text \<open>The log of changes is a \<open>deque(maxlen=256)\<close>; \<open>min\<close> of nothing (a revision of the future) raises.\<close>

definition changed :: "nat \<Rightarrow> history_store \<Rightarrow> history_store" where
  "changed i h =
     (let log = changes h @ [(revision h + 1, i)] in
      h\<lparr>revision := revision h + 1, changes := drop (length log - 256) log\<rparr>)"

definition changed_since :: "nat \<Rightarrow> history_store \<Rightarrow> nat option" where
  "changed_since r h =
     (if r = revision h then Some (length (hs_messages h))
      else (case changes h of
        [] \<Rightarrow> Some 0
      | (v, _) # _ \<Rightarrow>
          if int r < int v - 1 then Some 0
          else (case map snd (filter (\<lambda>(v, i). r < v) (changes h)) of [] \<Rightarrow> None | n # ns \<Rightarrow> Some (foldl min n ns))))"

definition append_message :: "estimator \<Rightarrow> int \<Rightarrow> message \<Rightarrow> ustr option \<Rightarrow> history_store \<Rightarrow> history_store" where
  "append_message est clock m raw h =
     (let now = max 1 clock;
          stamp = (case cm_stamp m of None \<Rightarrow> max now (last_stamp h + 1) | Some t \<Rightarrow> max 1 t);
          m1 = m\<lparr>cm_stamp := Some stamp\<rparr>;
          h1 = h\<lparr>last_stamp := max (last_stamp h) stamp, hs_messages := hs_messages h @ [m1]\<rparr>;
          h2 = changed (length (hs_messages h1) - 1) h1;
          estimate = est m1 raw;
          entry = account m1 estimate in
      h2\<lparr>token_estimates := token_estimates h2 @ [estimate], tokens_total := tokens_total h2 + estimate,
         accounting := accounting h2 @ [entry], ledger := add_account 1 (ledger h2) entry\<rparr>)"

fun stamp_all :: "int \<Rightarrow> message list \<Rightarrow> message list \<times> int" where
  "stamp_all current [] = ([], current)"
| "stamp_all current (m # ms) =
     (let t = (case cm_stamp m of None \<Rightarrow> max (current + 1) 1 | Some t \<Rightarrow> max 1 t);
          (ms', current') = stamp_all (max current t) ms in
      (m\<lparr>cm_stamp := Some t\<rparr> # ms', current'))"

definition ensure_timestamps :: "history_store \<Rightarrow> history_store" where
  "ensure_timestamps h =
     (let start = (if hs_messages h = [] then last_stamp h
                   else Max (set (map (\<lambda>m. case cm_stamp m of None \<Rightarrow> 0 | Some t \<Rightarrow> t) (hs_messages h))));
          (ms, current) = stamp_all start (hs_messages h) in
      h\<lparr>hs_messages := ms, last_stamp := max (last_stamp h) current\<rparr>)"

definition rebuild_token_cache :: "estimator \<Rightarrow> nat \<Rightarrow> history_store \<Rightarrow> history_store" where
  "rebuild_token_cache est from h =
     (let h1 = changed from h;
          tail = drop from (hs_messages h1);
          estimates = map (\<lambda>m. est m (Some (cm_content m))) tail;
          entries = map2 account tail estimates in
      h1\<lparr>tokens_total := tokens_total h1 + (sum_list estimates - sum_list (drop from (token_estimates h1))),
         token_estimates := take from (token_estimates h1) @ estimates,
         accounting := take from (accounting h1) @ entries,
         ledger := foldl (add_account 1) (foldl (add_account (- 1)) (ledger h1) (drop from (accounting h1))) entries\<rparr>)"

definition prepend :: "estimator \<Rightarrow> message list \<Rightarrow> history_store \<Rightarrow> history_store" where
  "prepend est ms h =
     (if ms = [] then h\<lparr>pending_prefix := 0\<rparr>
      else
       (let h1 = h\<lparr>hs_messages := ms @ hs_messages h\<rparr>;
            h2 = h1\<lparr>frozen_count := min (int (length (hs_messages h1))) (max 0 (pending_prefix h1) + max 0 (frozen_count h1)), pending_prefix := 0\<rparr> in
        rebuild_token_cache est 0 (ensure_timestamps h2)))"

definition replace_all :: "estimator \<Rightarrow> message list \<Rightarrow> history_store \<Rightarrow> history_store" where
  "replace_all est ms h = rebuild_token_cache est 0 (h\<lparr>hs_messages := ms\<rparr>)"

definition clear :: "history_store \<Rightarrow> history_store" where
  "clear h =
     (changed 0 (h\<lparr>hs_messages := []\<rparr>))\<lparr>frozen_count := 0, frozen_metadata_present := False, pending_prefix := 0, last_stamp := 0,
        token_estimates := [], tokens_total := 0, accounting := [], ledger := (\<lambda>_. empty_row)\<rparr>"

text \<open>\<open>refresh_message_estimate\<close> of the message at index \<open>i\<close>, which its holder has changed to \<open>m\<close>.\<close>

definition refresh_message_estimate :: "estimator \<Rightarrow> nat \<Rightarrow> message \<Rightarrow> history_store \<Rightarrow> history_store" where
  "refresh_message_estimate est i m h =
     (let h0 = h\<lparr>hs_messages := (hs_messages h)[i := m]\<rparr>;
          h1 = changed i h0;
          estimate = est m (Some (cm_content m));
          h2 = h1\<lparr>tokens_total := tokens_total h1 + (estimate - token_estimates h1 ! i), token_estimates := (token_estimates h1)[i := estimate]\<rparr>;
          p = accounting h2 ! i; c = account m estimate in
      if ac_category p = ac_category c \<and> ac_source p = ac_source c \<and> ac_attachment_count p = ac_attachment_count c
         \<and> ac_attachment_sources p = ac_attachment_sources c then
        (let l = ledger h2;
             l1 = l(ac_category c := (l (ac_category c))\<lparr>lr_tokens := lr_tokens (l (ac_category c)) + (ac_tokens c - ac_tokens p)\<rparr>);
             l2 = l1(FilesAttachments := (l1 FilesAttachments)\<lparr>lr_tokens := lr_tokens (l1 FilesAttachments) + (ac_attachment_tokens c - ac_attachment_tokens p)\<rparr>) in
         h2\<lparr>ledger := l2, accounting := (accounting h2)[i := c]\<rparr>)
      else rebuild_token_cache est 0 h2)"

definition repair :: "estimator \<Rightarrow> history_store \<Rightarrow> nat \<times> history_store" where
  "repair est h =
     (let (ms, ins, dropd) = repair_tool_messages (hs_messages h) in
      (ins, if ins \<noteq> 0 \<or> dropd \<noteq> 0 then rebuild_token_cache est 0 (h\<lparr>hs_messages := ms, frozen_count := 0\<rparr>) else h))"

text \<open>A clone starts with revision 0 and no log of changes.\<close>

definition clone :: "history_store \<Rightarrow> history_store" where
  "clone h = new_history\<lparr>hs_messages := hs_messages h, frozen_count := frozen_count h, frozen_metadata_present := frozen_metadata_present h,
     pending_prefix := pending_prefix h, last_stamp := last_stamp h, token_estimates := token_estimates h, tokens_total := tokens_total h,
     accounting := accounting h, ledger := ledger h\<rparr>"

end
