(* ===== verification/HistoryProps.thy ===== *)
theory HistoryProps
  imports History "HOL-Library.Sublist"
begin

text \<open>
  What the history keeps: after a repair every tool call has one result, right behind it, and nothing
  else was touched; the token ledger is the sum of its entries after any edits; and a reader who
  remembers a revision is told an index below which nothing has changed.
\<close>

section \<open>Pairing\<close>

text \<open>Every call of an assistant message is answered by exactly one of the tool messages that follow it, and there are no others.\<close>

fun answered :: "ustr list \<Rightarrow> message list \<Rightarrow> bool" where
  "answered waiting [] = (waiting = [])"
| "answered waiting (m # ms) =
     (if tool_message m then result_id m \<in> set waiting \<and> answered (filter (\<lambda>i. i \<noteq> result_id m) waiting) ms
      else waiting = [] \<and> answered (if assistant m then map fst (cm_calls m) else []) ms)"

definition ids_ok :: "ustr list \<Rightarrow> bool" where
  "ids_ok is \<longleftrightarrow> distinct is \<and> list_all (\<lambda>i. i \<noteq> [] \<and> ustrip i = i) is"

definition calls_ok :: "message \<Rightarrow> bool" where
  "calls_ok m \<longleftrightarrow> (assistant m \<longrightarrow> ids_ok (map fst (cm_calls m)))"

definition pending_ok :: "repairing \<Rightarrow> bool" where
  "pending_ok s \<longleftrightarrow> fst ` set (pending_ids s) = set (pending_order s) \<and> ids_ok (pending_order s)"

lemma roles: "u ''assistant'' \<noteq> u ''tool''"
  by code_simp

lemma placeholder_facts [simp]: "tool_message (placeholder i n)" "cm_call_id (placeholder i n) = Some i"
  by (simp_all add: placeholder_def)

lemma placeholder_result [simp]: "result_id (placeholder i n) = ustrip i"
  by (simp add: result_id_def)

lemma answered_placeholders:
  "ids_ok is \<Longrightarrow> answered is (map (\<lambda>i. placeholder i (f i)) is @ ms) \<longleftrightarrow> answered [] ms"
proof (induction "is")
  case (Cons i "is")
  then have "filter (\<lambda>j. j \<noteq> i) is = is" "ustrip i = i" "ids_ok is" by (auto simp: ids_ok_def filter_id_conv)
  then show ?case using Cons.IH by simp
qed simp

lemma flush_facts:
  assumes "pending_ok s"
  obtains ps where "repaired (flush_pending s) = repaired s @ ps" "pending_ids (flush_pending s) = []" "pending_order (flush_pending s) = []"
    "\<And>ms. answered (pending_order s) (ps @ ms) = answered [] ms" "list_all (\<lambda>m. \<exists>i n. m = placeholder i n) ps"
    "inserted (flush_pending s) = inserted s + length ps" "dropped (flush_pending s) = dropped s"
proof (cases "pending_order s = []")
  case True
  then show ?thesis using that [of "[]"] assms by (simp add: flush_pending_def pending_ok_def)
next
  case False
  let ?f = "\<lambda>i. case map_of (pending_ids s) i of Some n \<Rightarrow> n | None \<Rightarrow> u ''unknown''"
  let ?ps = "map (\<lambda>i. placeholder i (?f i)) (pending_order s)"
  have "\<And>ms. answered (pending_order s) (?ps @ ms) = answered [] ms"
    using assms unfolding pending_ok_def by (intro answered_placeholders) blast
  then show ?thesis using that [of ?ps] False by (auto simp: flush_pending_def list_all_iff)
qed

lemma fold_calls_keys: "fst ` set (foldl (\<lambda>d (i, n). AList.update i n d) d calls) = fst ` set d \<union> fst ` set calls"
proof (induction calls arbitrary: d)
  case (Cons c calls)
  then show ?case by (cases c) (simp add: dom_update)
qed simp

lemma deleted_keys: "fst ` set (AList.delete k d) = fst ` set d - {k}"
  by (force simp: AList.delete_eq)

lemma pending_ok_delete:
  "pending_ok s \<Longrightarrow> pending_ok (s\<lparr>repaired := ms, pending_ids := AList.delete i (pending_ids s), pending_order := filter (\<lambda>p. p \<noteq> i) (pending_order s)\<rparr>)"
  by (auto simp: pending_ok_def ids_ok_def deleted_keys list_all_iff)

definition nothing :: repairing where
  "nothing = \<lparr>repaired = [], pending_ids = [], pending_order = [], inserted = 0, dropped = 0\<rparr>"

lemma repair_general:
  assumes "pending_ok s" "list_all calls_ok ms"
  shows "\<exists>rest kept ps. repaired (flush_pending (foldl repair_one s ms)) = repaired s @ rest \<and> answered (pending_order s) rest
    \<and> filter (\<lambda>m. \<not> tool_message m) rest = filter (\<lambda>m. \<not> tool_message m) ms
    \<and> subseq kept ms \<and> mset rest = mset kept + mset ps \<and> list_all (\<lambda>m. \<exists>i n. m = placeholder i n) ps
    \<and> inserted (flush_pending (foldl repair_one s ms)) = inserted s + length ps
    \<and> dropped (flush_pending (foldl repair_one s ms)) + length kept = dropped s + length ms"
  using assms
proof (induction ms arbitrary: s)
  case Nil
  then obtain ps where "repaired (flush_pending s) = repaired s @ ps" "\<And>ms. answered (pending_order s) (ps @ ms) = answered [] ms"
    "list_all (\<lambda>m. \<exists>i n. m = placeholder i n) ps" "inserted (flush_pending s) = inserted s + length ps" "dropped (flush_pending s) = dropped s"
    using flush_facts by metis
  moreover have "filter (\<lambda>m. \<not> tool_message m) ps = []" using \<open>list_all _ ps\<close> by (auto simp: list_all_iff filter_empty_conv)
  moreover have "answered (pending_order s) ps" using \<open>\<And>ms. answered (pending_order s) (ps @ ms) = answered [] ms\<close> [of "[]"] by simp
  ultimately show ?case by - (rule exI [of _ ps], rule exI [of _ "[]"], rule exI [of _ ps], simp)
next
  case (Cons m ms)
  have ms: "list_all calls_ok ms" "calls_ok m" using Cons.prems(2) by simp_all
  show ?case
  proof (cases "tool_message m")
    case True
    then have na: "\<not> assistant m" using roles by metis
    show ?thesis
    proof (cases "result_id m \<noteq> [] \<and> result_id m \<in> fst ` set (pending_ids s)")
      case False
      let ?s = "s\<lparr>dropped := dropped s + 1\<rparr>"
      have r: "repair_one s m = ?s" using True na False by (auto simp: repair_one_def Let_def)
      have "pending_ok ?s" using Cons.prems(1) by (simp add: pending_ok_def)
      from Cons.IH [OF this ms(1)] obtain rest kept ps where ih:
        "repaired (flush_pending (foldl repair_one ?s ms)) = repaired s @ rest" "answered (pending_order s) rest"
        "filter (\<lambda>m. \<not> tool_message m) rest = filter (\<lambda>m. \<not> tool_message m) ms"
        "subseq kept ms" "mset rest = mset kept + mset ps" "list_all (\<lambda>m. \<exists>i n. m = placeholder i n) ps"
        "inserted (flush_pending (foldl repair_one ?s ms)) = inserted s + length ps"
        "dropped (flush_pending (foldl repair_one ?s ms)) + length kept = dropped s + 1 + length ms" by auto
      show ?thesis
        by (rule exI [of _ rest], rule exI [of _ kept], rule exI [of _ ps]) (use ih True r in \<open>simp add: list_emb_Cons\<close>)
    next
      case found: True
      let ?i = "result_id m"
      let ?s = "s\<lparr>repaired := repaired s @ [m], pending_ids := AList.delete ?i (pending_ids s), pending_order := filter (\<lambda>p. p \<noteq> ?i) (pending_order s)\<rparr>"
      have r: "repair_one s m = ?s" using True na found by (simp add: repair_one_def Let_def)
      have i: "?i \<in> set (pending_order s)" using Cons.prems(1) found by (simp add: pending_ok_def)
      have "pending_ok ?s" using Cons.prems(1) by (rule pending_ok_delete)
      from Cons.IH [OF this ms(1)] obtain rest kept ps where ih:
        "repaired (flush_pending (foldl repair_one ?s ms)) = (repaired s @ [m]) @ rest" "answered (filter (\<lambda>p. p \<noteq> ?i) (pending_order s)) rest"
        "filter (\<lambda>m. \<not> tool_message m) rest = filter (\<lambda>m. \<not> tool_message m) ms"
        "subseq kept ms" "mset rest = mset kept + mset ps" "list_all (\<lambda>m. \<exists>i n. m = placeholder i n) ps"
        "inserted (flush_pending (foldl repair_one ?s ms)) = inserted s + length ps"
        "dropped (flush_pending (foldl repair_one ?s ms)) + length kept = dropped s + length ms" by auto
      show ?thesis
        by (rule exI [of _ "m # rest"], rule exI [of _ "m # kept"], rule exI [of _ ps]) (use ih True r i in simp)
    qed
  next
    case False
    obtain ps0 where f: "repaired (flush_pending s) = repaired s @ ps0" "pending_ids (flush_pending s) = []" "pending_order (flush_pending s) = []"
      "\<And>ms. answered (pending_order s) (ps0 @ ms) = answered [] ms" "list_all (\<lambda>m. \<exists>i n. m = placeholder i n) ps0"
      "inserted (flush_pending s) = inserted s + length ps0" "dropped (flush_pending s) = dropped s"
      by (rule flush_facts [OF Cons.prems(1)]) (rule that, assumption+)
    let ?s = "repair_one s m"
    let ?w = "if assistant m then map fst (cm_calls m) else []"
    have r: "repaired ?s = repaired s @ ps0 @ [m]" "pending_order ?s = ?w" "inserted ?s = inserted s + length ps0" "dropped ?s = dropped s"
      "fst ` set (pending_ids ?s) = set ?w"
      using False f by (simp_all add: repair_one_def Let_def open_calls_def fold_calls_keys)
    have "pending_ok ?s" using r(2,5) ms(2) by (simp add: pending_ok_def calls_ok_def) (simp add: ids_ok_def)
    from Cons.IH [OF this ms(1)] obtain rest kept ps where ih:
      "repaired (flush_pending (foldl repair_one ?s ms)) = repaired ?s @ rest" "answered ?w rest"
      "filter (\<lambda>m. \<not> tool_message m) rest = filter (\<lambda>m. \<not> tool_message m) ms"
      "subseq kept ms" "mset rest = mset kept + mset ps" "list_all (\<lambda>m. \<exists>i n. m = placeholder i n) ps"
      "inserted (flush_pending (foldl repair_one ?s ms)) = inserted ?s + length ps"
      "dropped (flush_pending (foldl repair_one ?s ms)) + length kept = dropped ?s + length ms" unfolding r(2) by blast
    have "filter (\<lambda>m. \<not> tool_message m) ps0 = []" using f(5) by (auto simp: list_all_iff filter_empty_conv)
    then show ?thesis
      by - (rule exI [of _ "ps0 @ m # rest"], rule exI [of _ "m # kept"], rule exI [of _ "ps0 @ ps"],
        use ih False r f(4,5) in \<open>simp add: ac_simps\<close>)
  qed
qed

lemma repair_settled:
  assumes "pending_ok s" "list_all calls_ok ms" "answered (pending_order s) ms"
  shows "flush_pending (foldl repair_one s ms) = s\<lparr>repaired := repaired s @ ms, pending_ids := [], pending_order := []\<rparr>"
  using assms
proof (induction ms arbitrary: s)
  case Nil
  then show ?case by (simp add: flush_pending_def pending_ok_def)
next
  case (Cons m ms)
  have ms: "list_all calls_ok ms" "calls_ok m" using Cons.prems(2) by simp_all
  show ?case
  proof (cases "tool_message m")
    case True
    let ?i = "result_id m"
    let ?s = "s\<lparr>repaired := repaired s @ [m], pending_ids := AList.delete ?i (pending_ids s), pending_order := filter (\<lambda>p. p \<noteq> ?i) (pending_order s)\<rparr>"
    have a: "?i \<in> set (pending_order s)" "answered (filter (\<lambda>i. i \<noteq> ?i) (pending_order s)) ms" using Cons.prems(3) True by auto
    have "?i \<noteq> []" using a(1) Cons.prems(1) by (auto simp: pending_ok_def ids_ok_def list_all_iff)
    moreover have "\<not> assistant m" using True roles by metis
    ultimately have r: "repair_one s m = ?s" using a(1) True Cons.prems(1) by (simp add: repair_one_def Let_def pending_ok_def)
    have "pending_ok ?s" using Cons.prems(1) by (rule pending_ok_delete)
    from Cons.IH [OF this ms(1)] a(2) show ?thesis by (simp add: r)
  next
    case False
    then have a: "pending_order s = []" "answered (if assistant m then map fst (cm_calls m) else []) ms" using Cons.prems(3) by auto
    then have e: "pending_ids s = []" "flush_pending s = s" using Cons.prems(1) by (simp_all add: pending_ok_def flush_pending_def)
    let ?s = "repair_one s m"
    have r: "repaired ?s = repaired s @ [m]" "pending_order ?s = (if assistant m then map fst (cm_calls m) else [])"
      "fst ` set (pending_ids ?s) = set (pending_order ?s)" "?s\<lparr>repaired := [], pending_ids := [], pending_order := []\<rparr> = s\<lparr>repaired := [], pending_ids := [], pending_order := []\<rparr>"
      using False a(1) e by (simp_all add: repair_one_def Let_def open_calls_def fold_calls_keys)
    have ok: "pending_ok ?s" using r(2,3) ms(2) by (simp add: pending_ok_def calls_ok_def) (simp add: ids_ok_def)
    have "flush_pending (foldl repair_one ?s ms) = ?s\<lparr>repaired := repaired ?s @ ms, pending_ids := [], pending_order := []\<rparr>"
      by (rule Cons.IH [OF ok ms(1)]) (use a(2) r(2) in simp)
    then show ?thesis using r(1,4) by (cases s; cases "repair_one s m") simp
  qed
qed


lemma nothing_ok: "pending_ok nothing"
  by (simp add: nothing_def pending_ok_def ids_ok_def)

lemma repair_nothing: "repair_tool_messages ms = (let s = flush_pending (foldl repair_one nothing ms) in (repaired s, inserted s, dropped s))"
  by (simp add: repair_tool_messages_def nothing_def)

lemma settled_unchanged: "list_all calls_ok ms \<Longrightarrow> answered [] ms \<Longrightarrow> repair_tool_messages ms = (ms, 0, 0)"
  using repair_settled [OF nothing_ok, of ms] by (simp add: repair_nothing nothing_def Let_def)

section \<open>The token ledger\<close>

definition share :: "category \<Rightarrow> account_entry \<Rightarrow> int \<times> int \<times> ustr list" where
  "share c e =
     (if c = FilesAttachments then (ac_attachment_tokens e, ac_attachment_count e, ac_attachment_sources e)
      else if c = ac_category e then (ac_tokens e, 1, [ac_source e]) else (0, 0, []))"

definition times :: "(ustr \<times> int) list \<Rightarrow> ustr \<Rightarrow> int" where
  "times d s = (case map_of d s of None \<Rightarrow> 0 | Some n \<Rightarrow> n)"

definition no_zeros :: "(ustr \<times> int) list \<Rightarrow> bool" where
  "no_zeros d = list_all (\<lambda>e. snd e \<noteq> 0) d"

definition row_sums :: "category \<Rightarrow> account_entry list \<Rightarrow> ledger_row \<Rightarrow> bool" where
  "row_sums c es row \<longleftrightarrow>
     lr_tokens row = (\<Sum>e\<leftarrow>es. fst (share c e)) \<and> lr_items row = (\<Sum>e\<leftarrow>es. fst (snd (share c e)))
     \<and> (\<forall>s. times (lr_sources row) s = (\<Sum>e\<leftarrow>es. int (count_list (snd (snd (share c e))) s)))
     \<and> dict_ok (lr_sources row) \<and> no_zeros (lr_sources row)"

definition proper :: "account_entry \<Rightarrow> bool" where
  "proper e \<longleftrightarrow> ac_category e \<noteq> FilesAttachments"

definition ledger_sums :: "account_entry list \<Rightarrow> (category \<Rightarrow> ledger_row) \<Rightarrow> bool" where
  "ledger_sums es l \<longleftrightarrow> (\<forall>c. row_sums c es (l c))"

lemma times_dict [dict_simps]: "times (AList.update k n d) s = (if s = k then n else times d s)" "times (AList.delete k d) s = (if s = k then 0 else times d s)"
  by (simp_all add: times_def dict_simps)

lemma no_zeros_dict [dict_simps]: "no_zeros d \<Longrightarrow> n \<noteq> 0 \<Longrightarrow> no_zeros (AList.update k n d)" "no_zeros d \<Longrightarrow> no_zeros (AList.delete k d)"
proof -
  show "no_zeros d \<Longrightarrow> n \<noteq> 0 \<Longrightarrow> no_zeros (AList.update k n d)" by (induction d) (auto simp: no_zeros_def)
  show "no_zeros d \<Longrightarrow> no_zeros (AList.delete k d)" by (simp add: no_zeros_def AList.delete_eq list_all_iff)
qed

lemma count_source_eq: "count_source sign d x = (if times d x + sign = 0 then AList.delete x d else AList.update x (times d x + sign) d)"
  by (simp add: count_source_def times_def Let_def)

lemma count_source_facts:
  "times (count_source sign d x) s = times d s + (if s = x then sign else 0)"
  "dict_ok d \<Longrightarrow> dict_ok (count_source sign d x)" "no_zeros d \<Longrightarrow> no_zeros (count_source sign d x)"
  by (simp_all add: count_source_eq dict_simps)

lemma count_sources_facts:
  "times (foldl (count_source sign) d xs) s = times d s + sign * int (count_list xs s)"
  "dict_ok d \<Longrightarrow> dict_ok (foldl (count_source sign) d xs)" "no_zeros d \<Longrightarrow> no_zeros (foldl (count_source sign) d xs)"
  by (induction xs arbitrary: d) (simp_all add: count_source_facts algebra_simps)

lemma add_account_row:
  "proper e \<Longrightarrow> add_account sign l e c = add_row sign (fst (share c e)) (fst (snd (share c e))) (snd (snd (share c e))) (l c)"
  by (simp add: add_account_def Let_def share_def add_row_def proper_def)

lemma add_row_sums:
  "row_sums c es row \<Longrightarrow> row_sums c (es @ [e]) (add_row 1 (fst (share c e)) (fst (snd (share c e))) (snd (snd (share c e))) row)"
  "row_sums c (es @ e # xs) row \<Longrightarrow> row_sums c (es @ xs) (add_row (- 1) (fst (share c e)) (fst (snd (share c e))) (snd (snd (share c e))) row)"
  by (simp_all add: row_sums_def add_row_def count_sources_facts)

lemma ledger_add: "list_all proper xs \<Longrightarrow> ledger_sums es l \<Longrightarrow> ledger_sums (es @ xs) (foldl (add_account 1) l xs)"
proof (induction xs arbitrary: es l)
  case (Cons x xs)
  have "ledger_sums (es @ [x]) (add_account 1 l x)" using Cons.prems by (simp add: ledger_sums_def add_account_row add_row_sums(1))
  then show ?case using Cons.IH [of "es @ [x]"] Cons.prems(1) by simp
qed simp

lemma ledger_remove: "list_all proper xs \<Longrightarrow> ledger_sums (es @ xs) l \<Longrightarrow> ledger_sums es (foldl (add_account (- 1)) l xs)"
proof (induction xs arbitrary: l)
  case (Cons x xs)
  have "ledger_sums (es @ xs) (add_account (- 1) l x)" using Cons.prems by (simp add: ledger_sums_def add_account_row add_row_sums(2))
  then show ?case using Cons.IH Cons.prems(1) by simp
qed simp

definition books_ok :: "history_store \<Rightarrow> bool" where
  "books_ok h \<longleftrightarrow>
     length (token_estimates h) = length (hs_messages h) \<and> tokens_total h = sum_list (token_estimates h)
     \<and> accounting h = map2 account (hs_messages h) (token_estimates h) \<and> ledger_sums (accounting h) (ledger h)"

lemma account_proper: "proper (account m e)"
  by (simp add: proper_def account_def split: prod.split)

lemma accounts_proper: "list_all proper (map2 account ms es)"
  by (auto simp: list_all_iff account_proper)


lemma changed_fields [simp]:
  "hs_messages (changed i h) = hs_messages h" "token_estimates (changed i h) = token_estimates h" "tokens_total (changed i h) = tokens_total h"
  "accounting (changed i h) = accounting h" "ledger (changed i h) = ledger h" "revision (changed i h) = Suc (revision h)"
  "frozen_count (changed i h) = frozen_count h" "last_stamp (changed i h) = last_stamp h" "pending_prefix (changed i h) = pending_prefix h"
  by (simp_all add: changed_def Let_def)

text \<open>A rebuild from \<open>from\<close> on needs the books of the messages before it only.\<close>

definition books_until :: "nat \<Rightarrow> history_store \<Rightarrow> bool" where
  "books_until n h \<longleftrightarrow>
     n \<le> length (hs_messages h) \<and> n \<le> length (token_estimates h) \<and> length (accounting h) = length (token_estimates h)
     \<and> tokens_total h = sum_list (token_estimates h)
     \<and> take n (accounting h) = map2 account (take n (hs_messages h)) (take n (token_estimates h))
     \<and> list_all proper (accounting h) \<and> ledger_sums (accounting h) (ledger h)"

lemma rebuild_books:
  assumes "books_until n h"
  shows "books_ok (rebuild_token_cache est n h)"
proof -
  let ?tail = "drop n (hs_messages h)"
  let ?es = "map (\<lambda>m. est m (Some (cm_content m))) ?tail"
  let ?entries = "map2 account ?tail ?es"
  let ?old = "drop n (accounting h)"
  have b: "n \<le> length (hs_messages h)" "n \<le> length (token_estimates h)" "tokens_total h = sum_list (token_estimates h)"
      "take n (accounting h) = map2 account (take n (hs_messages h)) (take n (token_estimates h))"
      "list_all proper (accounting h)" "ledger_sums (take n (accounting h) @ ?old) (ledger h)"
    using assms unfolding books_until_def append_take_drop_id by blast+
  have "sum_list (token_estimates h) = sum_list (take n (token_estimates h)) + sum_list (drop n (token_estimates h))"
    by (metis append_take_drop_id sum_list_append)
  moreover have "map2 account (hs_messages h) (take n (token_estimates h) @ ?es) = map2 account (take n (hs_messages h)) (take n (token_estimates h)) @ ?entries"
  proof -
    have "map2 account (take n (hs_messages h) @ ?tail) (take n (token_estimates h) @ ?es)
        = map2 account (take n (hs_messages h)) (take n (token_estimates h)) @ ?entries"
      using b(1,2) by (subst zip_append) simp_all
    then show ?thesis by simp
  qed
  moreover have "list_all proper ?old" using b(5) by (auto simp: list_all_iff dest: in_set_dropD)
  from ledger_add [OF accounts_proper ledger_remove [OF this b(6)], of ?tail ?es]
  have "ledger_sums (take n (accounting h) @ ?entries) (foldl (add_account 1) (foldl (add_account (- 1)) (ledger h) ?old) ?entries)" .
  ultimately show ?thesis using b(1-4) by (simp add: books_ok_def rebuild_token_cache_def Let_def)
qed

lemma books_ok_until: "books_ok h \<Longrightarrow> n \<le> length (hs_messages h) \<Longrightarrow> books_until n h"
  by (auto simp: books_ok_def books_until_def take_map take_zip accounts_proper)

lemma books_until_0: "books_ok h \<Longrightarrow> books_until 0 (h\<lparr>hs_messages := ms\<rparr>)"
  by (auto simp: books_ok_def books_until_def accounts_proper)

lemma append_books: "books_ok h \<Longrightarrow> books_ok (append_message est clock m raw h)"
proof -
  assume h: "books_ok h"
  define m1 where "m1 = m\<lparr>cm_stamp := Some (case cm_stamp m of None \<Rightarrow> max (max 1 clock) (last_stamp h + 1) | Some t \<Rightarrow> max 1 t)\<rparr>"
  define h' where "h' = append_message est clock m raw h"
  have e: "hs_messages h' = hs_messages h @ [m1]" "token_estimates h' = token_estimates h @ [est m1 raw]"
    "tokens_total h' = tokens_total h + est m1 raw" "accounting h' = accounting h @ [account m1 (est m1 raw)]"
    "ledger h' = foldl (add_account 1) (ledger h) [account m1 (est m1 raw)]"
    by (simp_all add: h'_def append_message_def Let_def m1_def)
  have "ledger_sums (accounting h') (ledger h')" unfolding e
    by (rule ledger_add) (use h in \<open>auto simp: books_ok_def account_proper\<close>)
  then show ?thesis using h unfolding h'_def [symmetric] books_ok_def e by simp
qed


lemma row_sums_replace:
  assumes "row_sums c (xs @ p # ys) row" "snd (share c p) = snd (share c q)"
  shows "row_sums c (xs @ q # ys) (row\<lparr>lr_tokens := lr_tokens row + (fst (share c q) - fst (share c p))\<rparr>)"
  using assms by (simp add: row_sums_def)

lemma sum_list_replace: "i < length xs \<Longrightarrow> sum_list (xs[i := x]) = sum_list xs + (x - xs ! i)" for xs :: "int list"
  by (induction xs arbitrary: i) (auto split: nat.split)

lemma map2_replace: "map2 f (xs[i := x]) (ys[i := y]) = (map2 f xs ys)[i := f x y]"
proof -
  have "zip (xs[i := x]) (ys[i := y]) = (zip xs ys)[i := (x, y)]" by (simp add: update_zip)
  then show ?thesis by (simp add: map_update)
qed

definition retotalled :: "estimator \<Rightarrow> nat \<Rightarrow> message \<Rightarrow> history_store \<Rightarrow> history_store" where
  "retotalled est i m h = (changed i (h\<lparr>hs_messages := (hs_messages h)[i := m]\<rparr>))
     \<lparr>tokens_total := tokens_total h + (est m (Some (cm_content m)) - token_estimates h ! i),
      token_estimates := (token_estimates h)[i := est m (Some (cm_content m))]\<rparr>"

definition shift_tokens :: "account_entry \<Rightarrow> account_entry \<Rightarrow> (category \<Rightarrow> ledger_row) \<Rightarrow> category \<Rightarrow> ledger_row" where
  "shift_tokens p c l =
     (let l1 = l(ac_category c := (l (ac_category c))\<lparr>lr_tokens := lr_tokens (l (ac_category c)) + (ac_tokens c - ac_tokens p)\<rparr>) in
      l1(FilesAttachments := (l1 FilesAttachments)\<lparr>lr_tokens := lr_tokens (l1 FilesAttachments) + (ac_attachment_tokens c - ac_attachment_tokens p)\<rparr>))"

definition same_shares :: "account_entry \<Rightarrow> account_entry \<Rightarrow> bool" where
  "same_shares p c \<longleftrightarrow> ac_category p = ac_category c \<and> ac_source p = ac_source c \<and> ac_attachment_count p = ac_attachment_count c
     \<and> ac_attachment_sources p = ac_attachment_sources c"

lemma refresh_split:
  "refresh_message_estimate est i m h =
     (let p = accounting h ! i; c = account m (est m (Some (cm_content m))); h2 = retotalled est i m h in
      if same_shares p c then h2\<lparr>ledger := shift_tokens p c (ledger h), accounting := (accounting h)[i := c]\<rparr> else rebuild_token_cache est 0 h2)"
  unfolding refresh_message_estimate_def Let_def shift_tokens_def same_shares_def retotalled_def
  by (simp cong: if_cong split del: if_split)

lemma shift_tokens_row:
  assumes "proper c" "same_shares p c"
  shows "shift_tokens p c l k = (l k)\<lparr>lr_tokens := lr_tokens (l k) + (fst (share k c) - fst (share k p))\<rparr>" "snd (share k p) = snd (share k c)"
  using assms by (auto simp: shift_tokens_def Let_def share_def proper_def same_shares_def)

lemma refresh_books:
  assumes h: "books_ok h" and i: "i < length (hs_messages h)"
  shows "books_ok (refresh_message_estimate est i m h)"
proof -
  let ?e = "est m (Some (cm_content m))"
  let ?c = "account m ?e"
  let ?p = "accounting h ! i"
  let ?h2 = "retotalled est i m h"
  have b: "length (token_estimates h) = length (hs_messages h)" "tokens_total h = sum_list (token_estimates h)"
      "accounting h = map2 account (hs_messages h) (token_estimates h)" "ledger_sums (accounting h) (ledger h)"
      "list_all proper (accounting h)"
    using h accounts_proper unfolding books_ok_def by auto
  have h2: "hs_messages ?h2 = (hs_messages h)[i := m]" "token_estimates ?h2 = (token_estimates h)[i := ?e]" "accounting ?h2 = accounting h"
      "ledger ?h2 = ledger h" "tokens_total ?h2 = sum_list (token_estimates ?h2)"
    using i b(1,2) by (simp_all add: retotalled_def sum_list_replace)
  show ?thesis
  proof (cases "same_shares ?p ?c")
    case False
    have "books_until 0 ?h2" using b(1,4,5) i h2 unfolding books_until_def by (simp add: b(3))
    then show ?thesis using False by (simp add: refresh_split Let_def rebuild_books)
  next
    case True
    have len: "i < length (accounting h)" using b(1,3) i by simp
    have e: "accounting h = take i (accounting h) @ ?p # drop (Suc i) (accounting h)" using len by (rule id_take_nth_drop)
    have "ledger_sums (take i (accounting h) @ ?c # drop (Suc i) (accounting h)) (shift_tokens ?p ?c (ledger h))"
      unfolding ledger_sums_def
    proof
      fix k
      have "row_sums k (take i (accounting h) @ ?p # drop (Suc i) (accounting h)) (ledger h k)"
        using b(4) e unfolding ledger_sums_def by metis
      from row_sums_replace [OF this shift_tokens_row(2) [OF account_proper True]]
      show "row_sums k (take i (accounting h) @ ?c # drop (Suc i) (accounting h)) (shift_tokens ?p ?c (ledger h) k)"
        unfolding shift_tokens_row(1) [OF account_proper True] .
    qed
    then have "ledger_sums ((accounting h)[i := ?c]) (shift_tokens ?p ?c (ledger h))" using len by (simp add: upd_conv_take_nth_drop)
    moreover have "(accounting h)[i := ?c] = map2 account (hs_messages ?h2) (token_estimates ?h2)"
      unfolding h2 map2_replace b(3) ..
    ultimately show ?thesis unfolding books_ok_def using h2 b(1) True by (simp add: refresh_split Let_def)
  qed
qed

section \<open>Every edit\<close>

datatype hist_event =
    Append int message "ustr option" | Prepend "message list" | ReplaceAll "message list" | Clear
  | Rebuild nat "message list" | Refresh nat message | Repair

text \<open>The callers of \<open>Rebuild\<close> and \<open>Refresh\<close> have put other messages from an index on, or at an index.\<close>

fun hist_step :: "estimator \<Rightarrow> history_store \<Rightarrow> hist_event \<Rightarrow> history_store" where
  "hist_step est h (Append clock m raw) = append_message est clock m raw h"
| "hist_step est h (Prepend ms) = prepend est ms h"
| "hist_step est h (ReplaceAll ms) = replace_all est ms h"
| "hist_step est h Clear = clear h"
| "hist_step est h (Rebuild n ms) =
     (if n \<le> length (hs_messages h) then rebuild_token_cache est n (h\<lparr>hs_messages := take n (hs_messages h) @ ms\<rparr>) else h)"
| "hist_step est h (Refresh i m) = (if i < length (hs_messages h) then refresh_message_estimate est i m h else h)"
| "hist_step est h Repair = snd (repair est h)"

lemma ensure_timestamps_fields:
  "token_estimates (ensure_timestamps h) = token_estimates h" "tokens_total (ensure_timestamps h) = tokens_total h"
  "accounting (ensure_timestamps h) = accounting h" "ledger (ensure_timestamps h) = ledger h"
  "revision (ensure_timestamps h) = revision h" "changes (ensure_timestamps h) = changes h"
  by (simp_all add: ensure_timestamps_def Let_def split: prod.split)

lemma books_until_0_same:
  "books_ok h \<Longrightarrow> token_estimates h' = token_estimates h \<Longrightarrow> tokens_total h' = tokens_total h \<Longrightarrow> accounting h' = accounting h
    \<Longrightarrow> ledger h' = ledger h \<Longrightarrow> books_until 0 h'"
  by (auto simp: books_ok_def books_until_def accounts_proper)

lemma hist_step_books: "books_ok h \<Longrightarrow> books_ok (hist_step est h e)"
proof (cases e)
  case (Prepend ms)
  assume h: "books_ok h"
  show ?thesis
  proof (cases "ms = []")
    case True
    then show ?thesis using h Prepend by (auto simp: prepend_def books_ok_def)
  next
    case False
    then show ?thesis unfolding Prepend hist_step.simps prepend_def Let_def
      by (simp add: rebuild_books books_until_0_same [OF h] ensure_timestamps_fields)
  qed
next
  case (Rebuild n ms)
  assume h: "books_ok h"
  show ?thesis
  proof (cases "n \<le> length (hs_messages h)")
    case True
    have "books_until n h" by (rule books_ok_until [OF h True])
    then have "books_until n (h\<lparr>hs_messages := take n (hs_messages h) @ ms\<rparr>)" using True by (simp add: books_until_def)
    then show ?thesis using True Rebuild by (simp add: rebuild_books)
  qed (use h Rebuild in simp)
next
  case Repair
  assume h: "books_ok h"
  then show ?thesis using Repair by (simp add: repair_def rebuild_books books_until_0_same [OF h] split: prod.split)
next
  case Clear
  then show ?thesis by (simp add: clear_def books_ok_def ledger_sums_def row_sums_def empty_row_def times_def no_zeros_def)
qed (simp_all add: append_books replace_all_def rebuild_books books_until_0 refresh_books)

lemma new_books: "books_ok new_history"
  by (simp add: new_history_def books_ok_def ledger_sums_def row_sums_def empty_row_def times_def no_zeros_def)

interpretation books: invariant_machine "hist_step est" books_ok for est
  by unfold_locales (rule hist_step_books)

section \<open>The log of changes\<close>

text \<open>\<open>h'\<close> is one logged change after \<open>h\<close>, at index \<open>i\<close>: what lies below is the same.\<close>

definition touched :: "nat \<Rightarrow> history_store \<Rightarrow> history_store \<Rightarrow> bool" where
  "touched i h h' \<longleftrightarrow> revision h' = Suc (revision h) \<and> changes h' = changes (changed i h)
     \<and> i \<le> length (hs_messages h) \<and> take i (hs_messages h') = take i (hs_messages h)"

definition untouched :: "history_store \<Rightarrow> history_store \<Rightarrow> bool" where
  "untouched h h' \<longleftrightarrow> revision h' = revision h \<and> changes h' = changes h \<and> hs_messages h' = hs_messages h"

lemma rebuild_fields:
  "revision (rebuild_token_cache est n h) = Suc (revision h)" "changes (rebuild_token_cache est n h) = changes (changed n h)"
  "hs_messages (rebuild_token_cache est n h) = hs_messages h"
  by (simp_all add: rebuild_token_cache_def Let_def)

lemma changed_changes: "changes h = changes h2 \<Longrightarrow> revision h = revision h2 \<Longrightarrow> changes (changed i h) = changes (changed i h2)"
  by (simp add: changed_def Let_def)

lemma rebuild_touched:
  "revision h' = revision h \<Longrightarrow> changes h' = changes h \<Longrightarrow> n \<le> length (hs_messages h) \<Longrightarrow> take n (hs_messages h') = take n (hs_messages h)
    \<Longrightarrow> touched n h (rebuild_token_cache est n h')"
  unfolding touched_def rebuild_fields by (simp add: changed_changes [of h' h])

lemma hist_step_touches: "untouched h (hist_step est h e) \<or> (\<exists>i. touched i h (hist_step est h e))
    \<or> (\<exists>i h1. touched i h h1 \<and> touched 0 h1 (hist_step est h e))"
proof (cases e)
  case (Append clock m raw)
  have "touched (length (hs_messages h)) h (append_message est clock m raw h)"
    by (simp add: touched_def append_message_def Let_def) (simp add: changed_def Let_def)
  then show ?thesis using Append by auto
next
  case (Prepend ms)
  show ?thesis
  proof (cases "ms = []")
    case True
    then show ?thesis using Prepend by (simp add: prepend_def untouched_def)
  next
    case False
    then have "touched 0 h (prepend est ms h)" unfolding prepend_def Let_def
      by (simp add: rebuild_touched ensure_timestamps_fields)
    then show ?thesis using Prepend by auto
  qed
next
  case (ReplaceAll ms)
  have "touched 0 h (replace_all est ms h)" by (simp add: replace_all_def rebuild_touched)
  then show ?thesis using ReplaceAll by auto
next
  case Clear
  have "touched 0 h (clear h)" by (simp add: touched_def clear_def) (simp add: changed_def Let_def)
  then show ?thesis using Clear by auto
next
  case (Rebuild n ms)
  show ?thesis
  proof (cases "n \<le> length (hs_messages h)")
    case True
    then have "touched n h (hist_step est h e)" using Rebuild by (simp add: rebuild_touched)
    then show ?thesis by auto
  qed (use Rebuild in \<open>simp add: untouched_def\<close>)
next
  case (Refresh i m)
  show ?thesis
  proof (cases "i < length (hs_messages h)")
    case True
    let ?h = "retotalled est i m h"
    have t: "touched i h (?h\<lparr>ledger := l, accounting := a\<rparr>)" for l a
      using True by (simp add: touched_def retotalled_def) (simp add: changed_def Let_def)
    have "touched i h ?h" using t [where l = "ledger ?h" and a = "accounting ?h"] by simp
    moreover have "touched 0 ?h (rebuild_token_cache est 0 ?h)" by (simp add: rebuild_touched)
    ultimately show ?thesis using t True Refresh by (auto simp: refresh_split Let_def)
  qed (use Refresh in \<open>simp add: untouched_def\<close>)
next
  case Repair
  obtain ms ins dropd where r: "repair_tool_messages (hs_messages h) = (ms, ins, dropd)" by (metis prod_cases3)
  show ?thesis
  proof (cases "ins \<noteq> 0 \<or> dropd \<noteq> 0")
    case True
    then have "hist_step est h e = rebuild_token_cache est 0 (h\<lparr>hs_messages := ms, frozen_count := 0\<rparr>)"
      unfolding Repair hist_step.simps repair_def r Let_def by simp
    then have "touched 0 h (hist_step est h e)" by (simp add: rebuild_touched)
    then show ?thesis by blast
  next
    case False
    then show ?thesis unfolding Repair hist_step.simps repair_def r Let_def by (simp add: untouched_def)
  qed
qed


definition log_ok :: "history_store \<Rightarrow> bool" where
  "log_ok h \<longleftrightarrow> length (changes h) \<le> revision h \<and> map fst (changes h) = [Suc (revision h) - length (changes h)..<Suc (revision h)]"

text \<open>What a cursor \<open>r\<close>, taken when the messages were \<open>M\<close>, knows as long as the log reaches back to it.\<close>

definition below :: "nat \<Rightarrow> nat \<Rightarrow> history_store \<Rightarrow> bool" where
  "below k r h \<longleftrightarrow> (\<forall>e \<in> {e \<in> set (changes h). r < fst e}. k \<le> snd e)"

definition cursor_ok :: "nat \<Rightarrow> message list \<Rightarrow> history_store \<Rightarrow> bool" where
  "cursor_ok r M h \<longleftrightarrow> log_ok h \<and> r \<le> revision h \<and> (r = revision h \<longrightarrow> hs_messages h = M)
     \<and> (r < revision h \<longrightarrow> revision h \<le> r + length (changes h) \<longrightarrow>
         (\<forall>k. below k r h \<longrightarrow> k \<le> length M \<and> take k (hs_messages h) = take k M))"

lemma changed_log:
  assumes h: "log_ok h"
  shows "log_ok (changed i h)" "length (changes (changed i h)) \<le> Suc (length (changes h))"
proof -
  let ?n = "length (changes h)"
  let ?log = "changes h @ [(Suc (revision h), i)]"
  define d where "d = length ?log - 256"
  have c: "changes (changed i h) = drop d ?log" by (simp add: changed_def Let_def d_def)
  have n: "?n \<le> revision h" using h by (simp add: log_ok_def)
  have "map fst ?log = [Suc (revision h) - ?n..<Suc (revision h)] @ [Suc (revision h)]" using h by (simp add: log_ok_def del: upt_Suc)
  also have "\<dots> = [Suc (revision h) - ?n..<Suc (Suc (revision h))]" by simp
  finally have "map fst (drop d ?log) = [Suc (revision h) - ?n + d..<Suc (Suc (revision h))]" by (metis drop_map drop_upt)
  moreover have "Suc (revision h) - ?n + d = Suc (Suc (revision h)) - length (drop d ?log)" using n by (simp add: d_def)
  ultimately show "log_ok (changed i h)" unfolding log_ok_def c changed_fields using n by (simp del: upt_Suc add: d_def)
  show "length (changes (changed i h)) \<le> Suc (length (changes h))" unfolding c by simp
qed

lemma late_part:
  fixes r :: nat
  assumes "ys @ zs = xs" "\<And>e. e \<in> set ys \<Longrightarrow> fst e \<le> r"
  shows "{e \<in> set zs. r < fst e} = {e \<in> set xs. r < fst e}"
  using assms(2) unfolding assms(1) [symmetric] set_append by (blast dest: leD)

lemma changed_members:
  assumes h: "log_ok h" and r: "r \<le> revision h" "Suc (revision h) \<le> r + length (changes (changed i h))"
  shows "{e \<in> set (changes (changed i h)). r < fst e} = insert (Suc (revision h), i) {e \<in> set (changes h). r < fst e}"
proof -
  let ?n = "length (changes h)"
  let ?log = "changes h @ [(Suc (revision h), i)]"
  define d where "d = length ?log - 256"
  have c: "changes (changed i h) = drop d ?log" by (simp add: changed_def Let_def d_def)
  have n: "?n \<le> revision h" using h by (simp add: log_ok_def)
  have "map fst ?log = [Suc (revision h) - ?n..<Suc (Suc (revision h))]" using h by (simp add: log_ok_def)
  moreover have d: "Suc (revision h) - ?n + d \<le> Suc r" using r n unfolding c by (simp add: d_def)
  ultimately have "set (take d (map fst ?log)) \<subseteq> {..r}"
    using n by (auto simp del: upt_Suc simp: take_upt d_def)
  then have old: "fst e \<le> r" if "e \<in> set (take d ?log)" for e
    using imageI [OF that, of fst] unfolding take_map [symmetric] set_map [symmetric] by blast
  have late: "{e \<in> set (drop d ?log). r < fst e} = {e \<in> set ?log. r < fst e}"
    by (rule late_part [where ys = "take d ?log"]) (simp_all only: append_take_drop_id old)
  show ?thesis unfolding c late using r(1) by auto
qed

lemma cursor_touched:
  assumes c: "cursor_ok r M h" and t: "touched i h h'"
  shows "cursor_ok r M h'"
proof -
  have log: "log_ok h" "r \<le> revision h" using c by (simp_all add: cursor_ok_def)
  have t': "revision h' = revision (changed i h)" "changes h' = changes (changed i h)" "i \<le> length (hs_messages h)"
      "take i (hs_messages h') = take i (hs_messages h)"
    using t by (simp_all add: touched_def)
  have "log_ok h'" using changed_log(1) [OF log(1), of i] unfolding log_ok_def t' .
  moreover have "k \<le> length M \<and> take k (hs_messages h') = take k M"
    if k: "below k r h'" and near: "revision h' \<le> r + length (changes h')" for k
  proof -
    have m: "{e \<in> set (changes h'). r < fst e} = insert (Suc (revision h), i) {e \<in> set (changes h). r < fst e}"
      unfolding t'(2) by (rule changed_members [OF log]) (use near t'(1,2) in simp)
    then have ki: "k \<le> i" "below k r h" using k by (simp_all add: below_def)
    then have "take k (hs_messages h') = take k (hs_messages h)" using t'(4) by (metis min.absorb1 take_take)
    moreover have "k \<le> length M \<and> take k (hs_messages h) = take k M"
    proof (cases "r = revision h")
      case True
      then show ?thesis using c ki(1) t'(3) by (simp add: cursor_ok_def)
    next
      case False
      moreover have "revision h \<le> r + length (changes h)" using near changed_log(2) [OF log(1), of i] unfolding t'(1,2) by simp
      ultimately show ?thesis using c ki(2) by (simp add: cursor_ok_def)
    qed
    ultimately show ?thesis by simp
  qed
  ultimately show ?thesis using log(2) t'(1) by (simp add: cursor_ok_def)
qed

lemma cursor_step: "cursor_ok r M h \<Longrightarrow> cursor_ok r M (hist_step est h e)"
proof -
  assume c: "cursor_ok r M h"
  have same: "cursor_ok r M h'" if "untouched h h'" for h'
    using c that unfolding cursor_ok_def log_ok_def below_def untouched_def by simp
  show ?thesis using hist_step_touches [of h est e] same cursor_touched [OF c] cursor_touched by blast
qed

lemma foldl_min: "foldl min n ns \<le> n" "m \<in> set ns \<Longrightarrow> foldl min n ns \<le> m" for n :: nat
proof -
  show a: "foldl min n ns \<le> n" for n :: nat and ns
  proof (induction ns arbitrary: n)
    case (Cons x ns)
    then show ?case using Cons.IH [of "min n x"] by simp
  qed simp
  show "m \<in> set ns \<Longrightarrow> foldl min n ns \<le> m"
  proof (induction ns arbitrary: n)
    case (Cons x ns)
    then show ?case using a [of "min n x"] by auto
  qed simp
qed

lemma cursor_answer:
  assumes c: "cursor_ok r M h"
  shows "\<exists>k. changed_since r h = Some k \<and> k \<le> length M \<and> take k (hs_messages h) = take k M"
proof -
  have log: "length (changes h) \<le> revision h" "map fst (changes h) = [Suc (revision h) - length (changes h)..<Suc (revision h)]"
    using c by (simp_all add: cursor_ok_def log_ok_def)
  consider "r = revision h" | "changes h = []" "r \<noteq> revision h" | v i rest where "changes h = (v, i) # rest" "r < revision h"
    using c by (cases "changes h") (auto simp: cursor_ok_def le_less)
  then show ?thesis
  proof cases
    case 1
    then show ?thesis using c by (simp add: changed_since_def cursor_ok_def)
  next
    case 2
    then show ?thesis by (simp add: changed_since_def)
  next
    case 3
    show ?thesis
    proof (cases "int r < int v - 1")
      case True
      then show ?thesis using 3 by (simp add: changed_since_def)
    next
      case False
      have v: "v = Suc (revision h) - length (changes h)"
        using log(2) 3(1) by (simp add: upt_conv_Cons del: upt_Suc)
      have near: "revision h \<le> r + length (changes h)" using False v log(1) by simp
      let ?late = "map snd (filter (\<lambda>(v, i). r < v) (changes h))"
      have "revision h \<in> set (map fst (changes h))" unfolding log(2) using log(1) 3(1) by simp
      then obtain j where "(revision h, j) \<in> set (changes h)" by auto
      then have "j \<in> set ?late" using 3(2) by force
      then obtain n ns where n: "?late = n # ns" by (cases ?late) auto
      let ?k = "foldl min n ns"
      have "below ?k r h" unfolding below_def
      proof
        fix e assume "e \<in> {e \<in> set (changes h). r < fst e}"
        then have "snd e \<in> set ?late" by (auto simp: split_def)
        then show "?k \<le> snd e" unfolding n using foldl_min by auto
      qed
      then have "?k \<le> length M \<and> take ?k (hs_messages h) = take ?k M" using c near 3(2) by (simp add: cursor_ok_def)
      moreover have "changed_since r h = Some ?k" using 3 False n by (simp add: changed_since_def)
      ultimately show ?thesis by blast
    qed
  qed
qed


section \<open>Properties\<close>

text \<open>
  Claim C17. Where the calls of each assistant message have different ids that are not blank and carry no outer blanks (the
  ids \<open>prepare_tool_calls\<close> gives), every tool call of a repaired history has exactly one result behind it and there are no
  other results; what is no tool message is untouched, recorded results stay in order or are counted as dropped, and what
  was inserted are placeholders.
\<close>

theorem repair_pairs_calls_with_results:
  assumes "list_all calls_ok ms"
  shows "\<exists>kept ps. case repair_tool_messages ms of (ms', ins, dropd) \<Rightarrow>
    answered [] ms' \<and> filter (\<lambda>m. \<not> tool_message m) ms' = filter (\<lambda>m. \<not> tool_message m) ms
    \<and> subseq kept ms \<and> mset ms' = mset kept + mset ps \<and> list_all (\<lambda>m. \<exists>i n. m = placeholder i n) ps
    \<and> ins = length ps \<and> dropd + length kept = length ms"
proof -
  let ?s = "flush_pending (foldl repair_one nothing ms)"
  obtain rest kept ps where "repaired ?s = [] @ rest" "answered [] rest" "filter (\<lambda>m. \<not> tool_message m) rest = filter (\<lambda>m. \<not> tool_message m) ms"
    "subseq kept ms" "mset rest = mset kept + mset ps" "list_all (\<lambda>m. \<exists>i n. m = placeholder i n) ps"
    "inserted ?s = 0 + length ps" "dropped ?s + length kept = 0 + length ms"
    using repair_general [OF nothing_ok assms] by (auto simp: nothing_def)
  then show ?thesis unfolding repair_nothing Let_def by auto
qed

text \<open>
  A turn in which one of two calls was answered, with a result nobody asked for, and the next words of the user.
\<close>

definition said :: "string \<Rightarrow> (ustr \<times> ustr) list \<Rightarrow> ustr option \<Rightarrow> message" where
  "said role calls i = \<lparr>cm_role = u role, cm_content = [], cm_name = None, cm_calls = calls, cm_call_id = i, cm_error = False,
     cm_images = [], cm_documents = [], cm_stamp = None\<rparr>"

definition broken_turn :: "message list" where
  "broken_turn =
     [said ''assistant'' [(u ''a'', u ''read''), (u ''b'', u ''grep'')] None, said ''tool'' [] (Some (u ''b'')),
      said ''tool'' [] (Some (u ''c'')), said ''user'' [] None]"

definition repaired_turn :: "message list" where
  "repaired_turn =
     [said ''assistant'' [(u ''a'', u ''read''), (u ''b'', u ''grep'')] None, said ''tool'' [] (Some (u ''b'')),
      placeholder (u ''a'') (u ''read''), said ''user'' [] None]"

lemma broken_turn_repaired: "repair_tool_messages broken_turn = (repaired_turn, 1, 1)"
  by code_simp

lemma repair_pairs_calls_with_results_witness:
  "\<exists>kept ps. answered [] repaired_turn \<and> filter (\<lambda>m. \<not> tool_message m) repaired_turn = filter (\<lambda>m. \<not> tool_message m) broken_turn
    \<and> subseq kept broken_turn \<and> mset repaired_turn = mset kept + mset ps \<and> list_all (\<lambda>m. \<exists>i n. m = placeholder i n) ps
    \<and> length ps = 1 \<and> length kept = 3"
proof -
  have "list_all calls_ok broken_turn"
    by (auto simp: broken_turn_def said_def calls_ok_def ids_ok_def u_def ustrip_def strip_by_id uspace_def space_code_def)
  moreover have "length broken_turn = 4" by (simp add: broken_turn_def)
  ultimately show ?thesis
    using repair_pairs_calls_with_results [of broken_turn] unfolding broken_turn_repaired prod.case by force
qed

text \<open>Two calls under one id get two results when neither was answered, and only the one recorded when there was one.\<close>

lemma one_id_for_two_calls:
  "fst (repair_tool_messages [said ''assistant'' [(u ''a'', u ''read''), (u ''a'', u ''grep'')] None])
     = [said ''assistant'' [(u ''a'', u ''read''), (u ''a'', u ''grep'')] None, placeholder (u ''a'') (u ''grep''), placeholder (u ''a'') (u ''grep'')]
   \<and> repair_tool_messages [said ''assistant'' [(u ''a'', u ''read''), (u ''a'', u ''grep'')] None, said ''tool'' [] (Some (u ''a''))]
     = ([said ''assistant'' [(u ''a'', u ''read''), (u ''a'', u ''grep'')] None, said ''tool'' [] (Some (u ''a''))], 0, 0)"
  by code_simp

text \<open>
  A history in which every call is answered is left as it is by a repair; so a second repair does nothing.
\<close>

theorem repair_is_settled:
  assumes "list_all calls_ok ms"
  shows "repair_tool_messages (fst (repair_tool_messages ms)) = (fst (repair_tool_messages ms), 0, 0)"
proof -
  let ?s = "flush_pending (foldl repair_one nothing ms)"
  obtain rest where r: "repaired ?s = rest" "answered [] rest" "filter (\<lambda>m. \<not> tool_message m) rest = filter (\<lambda>m. \<not> tool_message m) ms"
    using repair_general [OF nothing_ok assms] by (auto simp: nothing_def)
  have "calls_ok m" if "m \<in> set rest" for m
  proof (cases "tool_message m")
    case True
    then show ?thesis using roles by (simp add: calls_ok_def)
  next
    case False
    then have "m \<in> set (filter (\<lambda>m. \<not> tool_message m) ms)" using that unfolding r(3) [symmetric] by simp
    then show ?thesis using assms by (simp add: list_all_iff)
  qed
  then have "list_all calls_ok rest" by (simp add: list_all_iff)
  then show ?thesis using settled_unchanged [OF _ r(2)] by (simp add: repair_nothing [of ms] Let_def r(1))
qed

lemma repair_is_settled_witness:
  "repair_tool_messages (fst (repair_tool_messages [placeholder (u ''x'') (u ''read'')]))
    = (fst (repair_tool_messages [placeholder (u ''x'') (u ''read'')]), 0, 0)"
  by (rule repair_is_settled) (use roles in \<open>simp add: calls_ok_def placeholder_def\<close>)

text \<open>
  Claim C40. Whatever edits a history goes through, its token total is the sum of its estimates, there is one estimate
  for each message, and every row of the ledger is the sum of what the messages contribute.
\<close>

theorem ledger_is_the_sum:
  "let h = foldl (hist_step est) new_history es in
     tokens_total h = sum_list (token_estimates h) \<and> length (token_estimates h) = length (hs_messages h)
     \<and> accounting h = map2 account (hs_messages h) (token_estimates h) \<and> (\<forall>c. row_sums c (accounting h) (ledger h c))"
  using books.run_inv [OF new_books, of est es] unfolding Let_def books_ok_def ledger_sums_def by blast

text \<open>
  Claim C39. A reader who asks what changed since the revision it saw is told an index up to which its messages are
  still those of the history, however many edits have happened and although the log keeps the last 256 only.
\<close>

theorem changed_since_is_sound:
  "let h = foldl (hist_step est) new_history es; h' = foldl (hist_step est) h fs in
     \<exists>k. changed_since (revision h) h' = Some k \<and> k \<le> length (hs_messages h)
       \<and> take k (hs_messages h') = take k (hs_messages h)"
proof -
  let ?h = "foldl (hist_step est) new_history es"
  have run: "cursor_ok r M g \<Longrightarrow> cursor_ok r M (foldl (hist_step est) g es)" for r M g es
    by (induction es arbitrary: g) (simp_all add: cursor_step)
  have "cursor_ok 0 [] new_history" by (simp add: cursor_ok_def log_ok_def new_history_def)
  then have "log_ok ?h" using run [of 0 "[]" new_history es] by (simp add: cursor_ok_def)
  then have "cursor_ok (revision ?h) (hs_messages ?h) ?h" by (simp add: cursor_ok_def)
  then have "cursor_ok (revision ?h) (hs_messages ?h) (foldl (hist_step est) ?h fs)" by (rule run)
  then show ?thesis unfolding Let_def by (rule cursor_answer)
qed

text \<open>The ids must not be blank: a call with a blank id gets a placeholder that the next repair drops and inserts again.\<close>

lemma blank_id_is_repaired_for_ever:
  "snd (repair_tool_messages (fst (repair_tool_messages
     [(placeholder [] [])\<lparr>cm_role := u ''assistant'', cm_calls := [([], u ''read'')], cm_call_id := None\<rparr>]))) = (1, 1)"
  by code_simp

end
