(* ===== verification/TurnInput.thy ===== *)
theory TurnInput
  imports DurableQueue
begin

text \<open>
  \<open>backend/agent/turn_input.py\<close>: the input a user steers into a running turn. The session puts commands in,
  the agent takes them at safe points, and when the answer is committed the phase moves on, so that a late
  input is refused and what was not consumed goes back to the follow-up queue. Every method holds the lock; the
  two halves of \<open>wait_for_activity\<close>, before and after its wait, are two steps. The callback \<open>before_publish\<close> may
  raise; the clock is an argument.
\<close>

section \<open>Inputs\<close>

record turn_input =
  ti_mode :: ustr
  ti_content :: ustr
  ti_message_id :: ustr
  ti_user_message_id :: ustr
  ti_attachments :: "(ustr \<times> json) list list"
  ti_skills :: "(ustr \<times> ustr) list"       \<comment> \<open>name, path\<close>
  ti_plugins :: "(ustr \<times> ustr) list"      \<comment> \<open>config name, path\<close>
  ti_target :: ustr
  ti_command :: ucommand
  ti_queued_at :: int

text \<open>\<open>data.get(key) or []\<close>, its objects. Iterating a string or an object gives no objects either; a number raises.\<close>

definition objects_of :: "json option \<Rightarrow> (ustr \<times> json) list list option" where
  "objects_of j =
     (case j of
        None \<Rightarrow> Some []
      | Some v \<Rightarrow>
          if json_falsy v then Some []
          else (case v of
            JList vs \<Rightarrow> Some (List.map_filter (\<lambda>v. case v of JObj d \<Rightarrow> Some d | _ \<Rightarrow> None) vs)
          | JStr _ \<Rightarrow> Some []
          | JObj _ \<Rightarrow> Some []
          | _ \<Rightarrow> None))"

definition selected_skill :: "(json \<Rightarrow> ustr) \<Rightarrow> (ustr \<times> json) list \<Rightarrow> (ustr \<times> ustr) option" where
  "selected_skill repr d =
     (let name = ustrip (str_or_empty repr (map_of d (u ''name''))); path = ustrip (str_or_empty repr (map_of d (u ''path''))) in
      if name \<noteq> [] \<and> path \<noteq> [] then Some (name, path) else None)"

definition selected_plugin :: "(json \<Rightarrow> ustr) \<Rightarrow> (ustr \<times> json) list \<Rightarrow> (ustr \<times> ustr) option" where
  "selected_plugin repr d =
     (let c = str_or_empty repr (map_of d (u ''config_name''));
          name = ustrip (if c \<noteq> [] then c else str_or_empty repr (map_of d (u ''name'')));
          path = ustrip (str_or_empty repr (map_of d (u ''path''))) in
      if name \<noteq> [] \<or> startswith path (u ''plugin://'') then Some (name, path) else None)"

definition from_command :: "(json \<Rightarrow> ustr) \<Rightarrow> int \<Rightarrow> ustr \<Rightarrow> ustr \<Rightarrow> ucommand \<Rightarrow> turn_input option" where
  "from_command repr now mode target c =
     (let d = uc_data c in
      case (objects_of (map_of d (u ''attachments'')), objects_of (map_of d (u ''skills'')), objects_of (map_of d (u ''plugins''))) of
        (Some atts, Some skills, Some plugins) \<Rightarrow>
          Some \<lparr>ti_mode = mode, ti_content = str_or_empty repr (map_of d (u ''content'')),
                ti_message_id = ustrip (str_or_empty repr (map_of d (u ''assistant_message_id''))),
                ti_user_message_id = ustrip (str_or_empty repr (map_of d (u ''user_message_id''))),
                ti_attachments = atts, ti_skills = List.map_filter (selected_skill repr) skills,
                ti_plugins = List.map_filter (selected_plugin repr) plugins, ti_target = ustrip target,
                ti_command = c, ti_queued_at = now\<rparr>
      | _ \<Rightarrow> None)"

section \<open>The queue\<close>

datatype mailbox_phase = CurrentTurn | NextTurn | Sealed

record waiter =
  wt_id :: nat
  wt_cursor :: int
  wt_set :: bool

record turn_queue =
  steering :: "turn_input list"
  tq_phase :: mailbox_phase
  tq_turn_id :: ustr
  turn_epoch :: nat
  activity_seq :: nat
  waiters :: "waiter list"

definition new_queue :: turn_queue where
  "new_queue = \<lparr>steering = [], tq_phase = CurrentTurn, tq_turn_id = [], turn_epoch = 0, activity_seq = 0, waiters = []\<rparr>"

definition begin_turn :: "ustr \<Rightarrow> turn_queue \<Rightarrow> nat \<times> turn_queue" where
  "begin_turn turn q =
     (let t = ustrip turn;
          same_run = (t \<noteq> [] \<and> t = tq_turn_id q \<and> tq_phase q \<noteq> Sealed);
          q1 = (if same_run then q else q\<lparr>turn_epoch := turn_epoch q + 1, tq_turn_id := t\<rparr>) in
      (turn_epoch q1, q1\<lparr>tq_phase := CurrentTurn\<rparr>))"

definition other_turn :: "ustr \<Rightarrow> turn_queue \<Rightarrow> bool" where
  "other_turn turn q \<longleftrightarrow> ustrip turn \<noteq> [] \<and> tq_turn_id q \<noteq> [] \<and> ustrip turn \<noteq> tq_turn_id q"

definition defer_mailbox_to_next_turn :: "ustr \<Rightarrow> turn_queue \<Rightarrow> bool \<times> turn_queue" where
  "defer_mailbox_to_next_turn turn q =
     (if other_turn turn q \<or> tq_phase q \<noteq> CurrentTurn then (False, q) else (True, q\<lparr>tq_phase := NextTurn\<rparr>))"

definition mailbox_deliverable :: "ustr \<Rightarrow> turn_queue \<Rightarrow> bool" where
  "mailbox_deliverable turn q \<longleftrightarrow> tq_phase q = CurrentTurn \<and> \<not> other_turn turn q"

text \<open>The left side: the command or the callback made it raise.\<close>

definition enqueue_command :: "(json \<Rightarrow> ustr) \<Rightarrow> int \<Rightarrow> ustr \<Rightarrow> ustr \<Rightarrow> (turn_input \<Rightarrow> bool) \<Rightarrow> ucommand \<Rightarrow> turn_queue
    \<Rightarrow> (unit + turn_input option) \<times> turn_queue" where
  "enqueue_command repr now mode target publishes c q =
     (if tq_phase q \<noteq> CurrentTurn then (Inr None, q)
      else (case from_command repr now mode target c of
        None \<Rightarrow> (Inl (), q)
      | Some item \<Rightarrow>
          if ustrip (ti_content item) = [] \<and> ti_attachments item = [] then (Inr None, q)
          else if \<not> publishes item then (Inl (), q)
          else (Inr (Some item), q\<lparr>steering := steering q @ [item], activity_seq := activity_seq q + 1,
                                  waiters := map (\<lambda>w. w\<lparr>wt_set := True\<rparr>) (waiters q)\<rparr>)))"

definition pop_steer :: "turn_queue \<Rightarrow> turn_input option \<times> turn_queue" where
  "pop_steer q =
     (if tq_phase q \<noteq> CurrentTurn then (None, q)
      else (case steering q of [] \<Rightarrow> (None, q) | i # rest \<Rightarrow> (Some i, q\<lparr>steering := rest\<rparr>)))"

definition seal_and_drain_commands :: "turn_queue \<Rightarrow> ucommand list \<times> turn_queue" where
  "seal_and_drain_commands q = (map ti_command (steering q), q\<lparr>tq_phase := Sealed, steering := []\<rparr>)"

text \<open>\<open>wait_for_activity\<close> up to its wait: an answer, or a registered waiter; and from the wait on.\<close>

definition wait_for_activity :: "nat \<Rightarrow> int \<Rightarrow> turn_queue \<Rightarrow> bool option \<times> turn_queue" where
  "wait_for_activity i after_seq q =
     (let cursor = max 0 after_seq in
      if cursor < int (activity_seq q) then (Some True, q)
      else (None, q\<lparr>waiters := \<lparr>wt_id = i, wt_cursor = cursor, wt_set = False\<rparr> # waiters q\<rparr>))"

definition end_wait :: "nat \<Rightarrow> bool \<Rightarrow> turn_queue \<Rightarrow> bool option \<times> turn_queue" where
  "end_wait i timed_out q =
     (case find (\<lambda>w. wt_id w = i) (waiters q) of
        None \<Rightarrow> (None, q)
      | Some w \<Rightarrow>
          let q1 = q\<lparr>waiters := filter (\<lambda>w. wt_id w \<noteq> i) (waiters q)\<rparr> in
          if timed_out then (Some False, q1)
          else if wt_set w then (Some (wt_cursor w < int (activity_seq q)), q1)
          else (None, q))"

section \<open>Histories\<close>

datatype input_event =
    BeginTurn ustr | Defer ustr | Enqueue ustr ucommand bool | Pop | Seal | Wait nat int | EndWait nat bool

datatype input_answer =
    Epoch nat | Deferred bool | Accepted turn_input | Refused | RaisedError | Popped "turn_input option"
  | Drained "ucommand list" | Waited "bool option"

fun input_step :: "(json \<Rightarrow> ustr) \<Rightarrow> turn_queue \<Rightarrow> input_event \<Rightarrow> input_answer \<times> turn_queue" where
  "input_step repr q (BeginTurn t) = (let (n, q') = begin_turn t q in (Epoch n, q'))"
| "input_step repr q (Defer t) = (let (b, q') = defer_mailbox_to_next_turn t q in (Deferred b, q'))"
| "input_step repr q (Enqueue target c published) =
     (case enqueue_command repr 0 (u ''steer'') target (\<lambda>_. published) c q of
        (Inr (Some i), q') \<Rightarrow> (Accepted i, q') | (Inr None, q') \<Rightarrow> (Refused, q') | (Inl _, q') \<Rightarrow> (RaisedError, q'))"
| "input_step repr q Pop = (let (i, q') = pop_steer q in (Popped i, q'))"
| "input_step repr q Seal = (let (cs, q') = seal_and_drain_commands q in (Drained cs, q'))"
| "input_step repr q (Wait i s) = (let (b, q') = wait_for_activity i s q in (Waited b, q'))"
| "input_step repr q (EndWait i t) = (let (b, q') = end_wait i t q in (Waited b, q'))"

fun input_run :: "(json \<Rightarrow> ustr) \<Rightarrow> turn_queue \<Rightarrow> input_event list \<Rightarrow> (input_event \<times> input_answer) list \<times> turn_queue" where
  "input_run repr q [] = ([], q)"
| "input_run repr q (e # es) = (let (a, q1) = input_step repr q e; (h, q2) = input_run repr q1 es in ((e, a) # h, q2))"

text \<open>What went in, what came out, both in the order of time.\<close>

fun accepted_of :: "input_answer \<Rightarrow> ucommand list" where
  "accepted_of (Accepted i) = [ti_command i]"
| "accepted_of _ = []"

fun returned_of :: "input_answer \<Rightarrow> ucommand list" where
  "returned_of (Popped (Some i)) = [ti_command i]"
| "returned_of (Drained cs) = cs"
| "returned_of _ = []"

definition accepted_commands :: "(input_event \<times> input_answer) list \<Rightarrow> ucommand list" where
  "accepted_commands h = concat (map (\<lambda>ea. accepted_of (snd ea)) h)"

definition returned_commands :: "(input_event \<times> input_answer) list \<Rightarrow> ucommand list" where
  "returned_commands h = concat (map (\<lambda>ea. returned_of (snd ea)) h)"

end
