(* ===== verification/TurnInputProps.thy ===== *)
theory TurnInputProps
  imports TurnInput
begin

text \<open>
  What the steering queue keeps: every accepted input comes out once and in order, to the agent or back to the
  session; a turn that is over takes nothing; an epoch names one turn; and nobody waits past an input.
\<close>

lemma input_step_balance:
  assumes s: "input_step repr q e = (a, q')"
  shows "map ti_command (steering q) @ accepted_of a = returned_of a @ map ti_command (steering q')"
proof (cases e)
  case (BeginTurn t)
  then show ?thesis using s by (auto simp: begin_turn_def Let_def)
next
  case (Enqueue target c published)
  then show ?thesis using s by (auto simp: enqueue_command_def split: if_splits option.splits)
next
  case Pop
  then show ?thesis using s by (auto simp: pop_steer_def split: if_splits list.splits)
next
  case (EndWait i t)
  then show ?thesis using s by (auto simp: end_wait_def Let_def split: if_splits option.splits)
qed (use s in \<open>auto simp: defer_mailbox_to_next_turn_def seal_and_drain_commands_def wait_for_activity_def Let_def split: if_splits\<close>)

lemma commands_simps [simp]:
  "accepted_commands [] = []" "accepted_commands ((e, a) # h) = accepted_of a @ accepted_commands h"
  "returned_commands [] = []" "returned_commands ((e, a) # h) = returned_of a @ returned_commands h"
  by (simp_all add: accepted_commands_def returned_commands_def)

lemma input_run_Cons:
  assumes "input_run repr q (e # es) = (h, q')"
  obtains a q1 h1 where "input_step repr q e = (a, q1)" "input_run repr q1 es = (h1, q')" "h = (e, a) # h1"
  using assms by (auto split: prod.splits)

lemma input_run_balance:
  "input_run repr q es = (h, q') \<Longrightarrow>
     map ti_command (steering q) @ accepted_commands h = returned_commands h @ map ti_command (steering q')"
proof (induction es arbitrary: q h)
  case (Cons e es)
  from Cons.prems obtain a q1 h1 where r: "input_step repr q e = (a, q1)" "input_run repr q1 es = (h1, q')" "h = (e, a) # h1"
    by (rule input_run_Cons)
  show ?case using input_step_balance [OF r(1)] Cons.IH [OF r(2)] by (simp add: r(3)) (metis append_assoc)
qed simp

text \<open>
  Claim C18. Every input the queue accepted is either still in it or was handed out exactly once, to the agent or back to
  the session, in the order of arrival.
\<close>

theorem steered_inputs_conserved:
  assumes "input_run repr new_queue es = (h, q)"
  shows "accepted_commands h = returned_commands h @ map ti_command (steering q)"
  using input_run_balance [OF assms] by (simp add: new_queue_def)

lemma steered_inputs_conserved_witness:
  "accepted_commands (fst (input_run (\<lambda>_. []) new_queue [Pop, Seal]))
    = returned_commands (fst (input_run (\<lambda>_. []) new_queue [Pop, Seal])) @ map ti_command (steering (snd (input_run (\<lambda>_. []) new_queue [Pop, Seal])))"
  by (rule steered_inputs_conserved [OF prod.collapse [symmetric]])

section \<open>After the answer\<close>

definition hands_over :: "input_event \<times> input_answer \<Rightarrow> bool" where
  "hands_over ea = (case snd ea of Accepted i \<Rightarrow> True | Popped (Some i) \<Rightarrow> True | _ \<Rightarrow> False)"

definition begins :: "input_event \<Rightarrow> bool" where
  "begins e = (case e of BeginTurn t \<Rightarrow> True | _ \<Rightarrow> False)"

lemma closed_step:
  "tq_phase q \<noteq> CurrentTurn \<Longrightarrow> \<not> begins e \<Longrightarrow> input_step repr q e = (a, q') \<Longrightarrow> tq_phase q' \<noteq> CurrentTurn \<and> \<not> hands_over (e, a)"
  by (cases e) (auto simp: begins_def hands_over_def defer_mailbox_to_next_turn_def enqueue_command_def pop_steer_def
    seal_and_drain_commands_def wait_for_activity_def end_wait_def Let_def split: if_splits option.splits)

text \<open>
  Claim C22. Once the answer of a turn is committed, and until the next turn begins, no input is accepted and none
  reaches the agent; what the turn did not consume stays in the queue until the session takes it back.
\<close>

theorem committed_turn_takes_nothing:
  assumes "tq_phase q \<noteq> CurrentTurn" "input_run repr q es = (h, q')" "list_all (\<lambda>e. \<not> begins e) es"
  shows "list_all (\<lambda>ea. \<not> hands_over ea) h \<and> returned_commands h @ map ti_command (steering q') = map ti_command (steering q)"
proof -
  have n: "list_all (\<lambda>ea. \<not> hands_over ea) h" using assms
  proof (induction es arbitrary: q h)
    case (Cons e es)
    from Cons.prems(2) obtain a q1 h1 where s: "input_step repr q e = (a, q1)" and r: "input_run repr q1 es = (h1, q')" "h = (e, a) # h1"
      by (rule input_run_Cons)
    have "tq_phase q1 \<noteq> CurrentTurn" "\<not> hands_over (e, a)" using closed_step [OF Cons.prems(1) _ s] Cons.prems(3) by auto
    then show ?case using Cons.IH [OF _ r(1)] Cons.prems(3) r(2) by simp
  qed simp
  have "accepted_commands h = []" using n
    by (induction h) (auto simp: hands_over_def split: input_answer.splits)
  then show ?thesis using n input_run_balance [OF assms(2)] by simp
qed

section \<open>Epochs\<close>

definition epoch_of :: "input_event \<times> input_answer \<Rightarrow> (ustr \<times> nat) list" where
  "epoch_of ea = (case ea of (BeginTurn t, Epoch n) \<Rightarrow> [(ustrip t, n)] | _ \<Rightarrow> [])"

lemma epoch_step:
  assumes "input_step repr q e = (a, q')"
  shows "turn_epoch q \<le> turn_epoch q'" "turn_epoch q' = turn_epoch q \<Longrightarrow> tq_turn_id q' = tq_turn_id q"
    "\<forall>(t, n) \<in> set (epoch_of (e, a)). n = turn_epoch q' \<and> t = tq_turn_id q'"
  using assms by (cases e; auto simp: begin_turn_def defer_mailbox_to_next_turn_def enqueue_command_def pop_steer_def
    seal_and_drain_commands_def wait_for_activity_def end_wait_def Let_def epoch_of_def split: if_splits option.splits list.splits)+

text \<open>
  The epochs that turns are given never go back, and two turns with different ids never share one.
\<close>

theorem epochs_identify_turns:
  assumes "input_run repr q es = (h, q')"
  shows "sorted (map snd (concat (map epoch_of h)))
    \<and> (\<forall>t n t'. (t, n) \<in> set (concat (map epoch_of h)) \<longrightarrow> (t', n) \<in> set (concat (map epoch_of h)) \<longrightarrow> t = t')"
proof -
  let ?es = "\<lambda>h. concat (map epoch_of h)"
  have "sorted (map snd (?es h)) \<and> (\<forall>t n t'. (t, n) \<in> set (?es h) \<longrightarrow> (t', n) \<in> set (?es h) \<longrightarrow> t = t')
      \<and> (\<forall>(t, n) \<in> set (?es h). turn_epoch q \<le> n \<and> (n = turn_epoch q \<longrightarrow> t = tq_turn_id q))"
    using assms
  proof (induction es arbitrary: q h)
    case (Cons e es)
    from Cons.prems obtain a q1 h1 where s: "input_step repr q e = (a, q1)" and r: "input_run repr q1 es = (h1, q')" "h = (e, a) # h1"
      by (rule input_run_Cons)
    note st = epoch_step [OF s]
    have ih: "sorted (map snd (?es h1))" "\<And>t n t'. (t, n) \<in> set (?es h1) \<Longrightarrow> (t', n) \<in> set (?es h1) \<Longrightarrow> t = t'"
      "\<And>t n. (t, n) \<in> set (?es h1) \<Longrightarrow> turn_epoch q1 \<le> n \<and> (n = turn_epoch q1 \<longrightarrow> t = tq_turn_id q1)"
      using Cons.IH [OF r(1)] by blast+
    have e: "?es h = epoch_of (e, a) @ ?es h1" by (simp add: r(2))
    have one: "epoch_of (e, a) = [] \<or> epoch_of (e, a) = [(tq_turn_id q1, turn_epoch q1)]"
      using st(3) by (auto simp: epoch_of_def split: input_event.splits input_answer.splits)
    have low: "turn_epoch q \<le> n \<and> (n = turn_epoch q \<longrightarrow> t = tq_turn_id q)" if "(t, n) \<in> set (?es h1) \<or> (t, n) = (tq_turn_id q1, turn_epoch q1)" for t n
      using that ih(3) [of t n] st(1,2) by (metis le_antisym le_trans prod.inject order_refl)
    show ?case
    proof (cases "epoch_of (e, a) = []")
      case True
      then have same: "?es h = ?es h1" using e by simp
      have "turn_epoch q \<le> snd x \<and> (snd x = turn_epoch q \<longrightarrow> fst x = tq_turn_id q)" if "x \<in> set (?es h1)" for x
        using low [of "fst x" "snd x"] that by simp
      then have "\<forall>(t, n) \<in> set (?es h1). turn_epoch q \<le> n \<and> (n = turn_epoch q \<longrightarrow> t = tq_turn_id q)" unfolding split_def by blast
      then show ?thesis unfolding same using ih(1,2) by blast
    next
      case False
      then have o: "?es h = (tq_turn_id q1, turn_epoch q1) # ?es h1" using one e by simp
      have "sorted (map snd (?es h))" unfolding o using ih(1,3) by fastforce
      moreover have "t = t'" if "(t, n) \<in> set (?es h)" "(t', n) \<in> set (?es h)" for t n t'
        using that ih(2) [of t n t'] ih(3) [of t n] ih(3) [of t' n] unfolding o by auto
      moreover have "turn_epoch q \<le> n \<and> (n = turn_epoch q \<longrightarrow> t = tq_turn_id q)" if "(t, n) \<in> set (?es h)" for t n
        using that low [of t n] unfolding o by auto
      ultimately show ?thesis by blast
    qed
  qed simp
  then show ?thesis by blast
qed

lemma epochs_identify_turns_witness:
  "map snd (concat (map epoch_of (fst (input_run (\<lambda>_. []) new_queue [BeginTurn [65], BeginTurn [65], BeginTurn [66]])))) = [1, 1, 2]
    \<and> sorted (map snd (concat (map epoch_of (fst (input_run (\<lambda>_. []) new_queue [BeginTurn [65], BeginTurn [65], BeginTurn [66]])))))"
proof
  show "map snd (concat (map epoch_of (fst (input_run (\<lambda>_. []) new_queue [BeginTurn [65], BeginTurn [65], BeginTurn [66]])))) = [1, 1, 2]"
    by code_simp
  show "sorted (map snd (concat (map epoch_of (fst (input_run (\<lambda>_. []) new_queue [BeginTurn [65], BeginTurn [65], BeginTurn [66]])))))"
    using epochs_identify_turns [OF prod.collapse [symmetric], of "\<lambda>_. []" new_queue "[BeginTurn [65], BeginTurn [65], BeginTurn [66]]"] by blast
qed

section \<open>Waiting\<close>

definition waiters_ok :: "turn_queue \<Rightarrow> bool" where
  "waiters_ok q \<longleftrightarrow> list_all (\<lambda>w. wt_set w \<or> int (activity_seq q) \<le> wt_cursor w) (waiters q)"

lemma input_step_waiters: "waiters_ok q \<Longrightarrow> waiters_ok (snd (input_step repr q e))"
  by (cases e) (auto simp: waiters_ok_def begin_turn_def defer_mailbox_to_next_turn_def enqueue_command_def pop_steer_def
    seal_and_drain_commands_def wait_for_activity_def end_wait_def Let_def list_all_iff split: if_splits option.splits list.splits)

interpretation waiting: invariant_machine "\<lambda>q e. snd (input_step repr q e)" waiters_ok for repr
  by unfold_locales (rule input_step_waiters)

text \<open>
  No wake-up is lost: whoever waits for activity after a cursor that an accepted input has passed is woken,
  and its wait answers that there was activity.
\<close>

theorem no_activity_is_missed:
  fixes repr :: "json \<Rightarrow> ustr" and es :: "input_event list"
  defines "q \<equiv> foldl (\<lambda>q e. snd (input_step repr q e)) new_queue es"
  assumes w: "find (\<lambda>w. wt_id w = i) (waiters q) = Some w" "wt_cursor w < int (activity_seq q)"
  shows "wt_set w \<and> fst (end_wait i False q) = Some True"
proof -
  have "waiters_ok q" unfolding q_def by (rule waiting.run_inv) (simp add: waiters_ok_def new_queue_def)
  moreover have "w \<in> set (waiters q)" using w(1) by (auto simp: find_Some_iff)
  ultimately have "wt_set w" using w(2) by (auto simp: waiters_ok_def list_all_iff)
  then show ?thesis using w by (simp add: end_wait_def Let_def)
qed

definition steer :: ucommand where
  "steer = \<lparr>uc_type = u ''user_message'', uc_data = [(u ''content'', JStr (u ''stop''))]\<rparr>"

lemma no_activity_is_missed_witness:
  "fst (end_wait 7 False (foldl (\<lambda>q e. snd (input_step (\<lambda>_. []) q e)) new_queue [Wait 7 0, Enqueue [] steer True])) = Some True"
  by (rule no_activity_is_missed [where w = "\<lparr>wt_id = 7, wt_cursor = 0, wt_set = True\<rparr>", THEN conjunct2]) code_simp+

lemma committed_turn_takes_nothing_witness:
  "let (h, q) = input_run (\<lambda>_. []) new_queue [Enqueue [] steer True, Defer []]; (h', q') = input_run (\<lambda>_. []) q [Enqueue [] steer True, Pop, Seal] in
     returned_commands h' = [steer] \<and> returned_commands h' @ map ti_command (steering q') = map ti_command (steering q)"
proof -
  let ?q = "snd (input_run (\<lambda>_. []) new_queue [Enqueue [] steer True, Defer []])"
  have c: "returned_commands (fst (input_run (\<lambda>_. []) ?q [Enqueue [] steer True, Pop, Seal])) = [steer]" "tq_phase ?q \<noteq> CurrentTurn" by code_simp+
  have l: "list_all (\<lambda>e. \<not> begins e) [Enqueue [] steer True, Pop, Seal]" by (simp add: begins_def)
  show ?thesis
    using c(1) committed_turn_takes_nothing [OF c(2) prod.collapse [symmetric] l, of "\<lambda>_. []"] by (simp only: split_def Let_def simp_thms)
qed

end
