(* ===== verification/Spec2Isabelle.thy ===== *)
theory Spec2Isabelle
  imports TurnBudget RolloutBudget Patch PatchApply PatchParse Fnmatch ContentRules ContentMatch
    Json ToolSignals Checker CheckerProps Argv ArgvProps Projection ContextDelta Sse Cron
    FileCache Hooks HooksProps SchedulerSafety PluginProps OutboxDurable ToolGateProps ToolBatchProps ToolCallIds ToolBatchOrder ToolBatchAlone
    DurableQueueSafety HistoryProps TurnInputProps
begin

text \<open>
  A verification library for the core of minicode (\<open>src/backend\<close>), a coding agent: a model asks for
  tool calls, the program checks, orders and runs them, and everything a user must not lose lives in
  files shared by several processes. The library models the parts that decide, order and keep; the
  transport around them is left out (see "Not modelled").

  \<^bold>\<open>How the parts interact.\<close> A user message or client command enters the durable queue
  (\<open>DurableQueue\<close>) and is claimed by one runtime, which starts a turn under the budgets of
  \<open>TurnBudget\<close> and \<open>RolloutBudget\<close>; what the user adds meanwhile waits in the input queue of the turn (\<open>TurnInput\<close>),
  and the history it sees is repaired before every request (\<open>History\<close>). The model's answer arrives as a byte stream (\<open>Sse\<close>). Its tool calls
  get ids and a digest (\<open>ToolCalls\<close>), are judged by the permission checker (\<open>Checker\<close>, over the signals
  of \<open>ToolSignals\<close>, the command rules of \<open>Argv\<close> and the user's rules of \<open>ContentRules\<close>), may be changed or
  decided by hooks (\<open>Hooks\<close>) and the user, and run in batches (\<open>ToolBatch\<close>) under the readers-writers
  lock of the turn (\<open>ToolGate\<close>). Tools edit files through patches (\<open>Patch\<close>, \<open>PatchApply\<close>) and read them
  through the file cache (\<open>FileCache\<close>). What happened is published to the conversation projection
  (\<open>Projection\<close>), to the context deltas of the checkpoints (\<open>ContextDelta\<close>) and to the outbox of the
  renderer (\<open>Outbox\<close>). The scheduler (\<open>Scheduler\<close>, over \<open>Cron\<close>) starts tasks of its own; plugins are
  resolved by \<open>PluginId\<close> and \<open>PluginDeps\<close>.

  \<^bold>\<open>Conventions.\<close> Python strings are lists of code points (\<open>ustr\<close>) or, where text is only
  split and compared, lists of characters or of any type; insertion-ordered dictionaries are association lists with
  distinct keys (\<open>dict_ok\<close>); integers are unbounded as in Python; a raised exception is the left side
  of a sum and \<open>None\<close> is Python's \<open>None\<close>. A method that runs under a lock is one step; a task is cut into
  events at the points where it waits. Files, clocks, random ids, third-party libraries and other
  processes are arguments of the definitions, and theorems hold for all of them or name what they need.

  \<^bold>\<open>Theories and code.\<close>

  \<^item> \<open>Prelude\<close>, \<open>Json\<close>, \<open>Fnmatch\<close>: strings, dictionaries, JSON values, the standard library's glob patterns;
    the locales \<open>invariant_machine\<close>, \<open>monotone_machine\<close> (a deterministic component whose operations keep an
    invariant) and \<open>verdict_join\<close> (a verdict that only gets stricter), interpreted by the components.
  \<^item> \<open>TurnBudget\<close>: \<open>agent/turn_budget.py\<close>, the limits of one turn against the declarative table of their rows.
    \<open>RolloutBudget\<close>: \<open>agent/rollout_budget.py\<close> and \<open>agent/turn_budget_runtime.py\<close>, the shared token ledger and
    its reservations, which never promise more than is left.
  \<^item> \<open>ContentRules\<close>, \<open>ContentMatch\<close>: \<open>permissions/content_rules.py\<close>. An allow rule approves one simple command;
    a deny rule sees every segment of a chain, quotes and redirections included, and every stripping of the wrappers and
    assignments the code recognises; what it does not see is stated too (\<open>deny_rule_blind_to_unclosed_parenthesis\<close>).
  \<^item> \<open>Argv\<close>, \<open>ArgvProps\<close>: \<open>permissions/argv_rules.py\<close>, the catastrophic commands over an argument vector.
  \<^item> \<open>ToolSignals\<close>, \<open>Checker\<close>, \<open>CheckerProps\<close>: \<open>permissions/checker.py\<close>, from the signals of a call to the level
    (\<open>_evaluate_level\<close>), the capability floor and the decision (\<open>evaluate\<close>). Hard denials win in every
    mode, plan mode is read-only, nothing lowers the capability floor.
  \<^item> \<open>ToolCalls\<close>, \<open>ToolCallIds\<close>: \<open>agent/tool_execution.py\<close> and \<open>agent/final_tool_request.py\<close>, the preparation of a
    batch, the frozen request and its authorization; the prepared ids are an index.
  \<^item> \<open>ToolBatch\<close>, \<open>ToolBatchProps\<close>, \<open>ToolBatchOrder\<close>, \<open>ToolBatchAlone\<close>: \<open>agent/tool_batch_execution.py\<close>. The model
    produces a trace; only decided requests are run, a denied tool never is, every call is answered once and in
    order, unsafe tools run alone (locale \<open>batch_invariant\<close>).
  \<^item> \<open>ToolGate\<close>, \<open>ToolGateProps\<close>: \<open>agent/tool_execution_gate.py\<close>, the lock that lets readers in together and
    writers alone, with leases that are suspended for nested calls; exclusion, no lost wake-up, the limit of
    admissions, and two histories in which the lock fails.
  \<^item> \<open>Hooks\<close>, \<open>HooksProps\<close>: \<open>hooks/policy.py\<close>, \<open>hooks/reducer.py\<close> and the selection of handlers; which outputs block.
  \<^item> \<open>Patch\<close>, \<open>PatchParse\<close>, \<open>PatchApply\<close>: \<open>tools/apply_patch_parser.py\<close>; the envelope parses back, applying hunks
    is a splice of disjoint blocks.
  \<^item> \<open>FileCache\<close>: \<open>workspace/file_state_cache.py\<close>; a hit is the last put of a file that has not changed.
  \<^item> \<open>Sse\<close>: \<open>llm/sse.py\<close>; how the bytes were cut into chunks is irrelevant, and the limits bound the buffer.
  \<^item> \<open>Projection\<close>: \<open>conversations/projection_log.py\<close>; what was published is read, an interrupted publication is not.
    \<open>ContextDelta\<close>: \<open>conversations/context_delta.py\<close>; composing the deltas of consecutive snapshots leads from the checkpoint
    to the last of them.
  \<^item> \<open>Outbox\<close>, \<open>OutboxProps\<close>, \<open>OutboxDurable\<close>: \<open>ws/event_outbox.py\<close> and \<open>ws/event_log.py\<close>; frames arrive in order, a
    replay has no silent gap, every event of the window is on disk, on its way, or a recorded failure.
  \<^item> \<open>DurableQueue\<close> (the methods of \<open>ws/durable_user_queue.py\<close>, each under the file lock), \<open>DurableQueueProps\<close> (states that
    are read back as they were written; recovery), \<open>DurableQueueMerge\<close> (the three-way merge of a save),
    \<open>DurableQueueSystem\<close> (what an operation answers and publishes, \<open>run_op_outcome\<close>), \<open>DurableQueueRuns\<close> (histories of
    runtimes that start, operate, fail and die; locale \<open>queue_law\<close>), \<open>DurableQueueSafety\<close> (the promises).
  \<^item> \<open>History\<close>, \<open>HistoryProps\<close>: \<open>agent/history_store.py\<close>, the messages of a conversation with the ledger of their
    tokens and the log of changes its readers follow. After a repair of a history whose calls have ids of their own every tool call has exactly one result, the
    ledger is the sum of its messages, and what the log reports as unchanged is unchanged (interpretation \<open>books\<close>).
  \<^item> \<open>TurnInput\<close>, \<open>TurnInputProps\<close>: \<open>agent/turn_input.py\<close>, what a user steers into a running turn. Inputs are conserved,
    a turn whose answer is committed takes nothing more, and no wake-up is lost (interpretation \<open>waiting\<close>).
  \<^item> \<open>Cron\<close>, \<open>Scheduler\<close>, \<open>SchedulerProps\<close>, \<open>SchedulerSteps\<close>, \<open>SchedulerSafety\<close>: \<open>tasks/scheduler.py\<close>, its expressions (the
    next run is the first match within the horizon, or there is none), its operations, its transition system and the
    properties of the reachable states. A save writes one file per workspace root and then the registry, and may fail after any
    of these writes; a claim that was not saved is undone in memory, and its worker, cancelled at its gate, ends later.
  \<^item> \<open>PluginId\<close>, \<open>PluginDeps\<close>, \<open>PluginProps\<close>: \<open>plugins/identity.py\<close> and \<open>plugins/dependencies.py\<close>; install order (the root last,
    nothing that is not reached from it), cycles, demotion as a greatest fixed point.

  \<^bold>\<open>Bounds and fuel.\<close> The cron search looks 366 days ahead, as the code does; Python loops that
  shrink their input are recursions with a measure. Only the plugin walk has fuel, because a catalog is a
  function: for a catalog of which finitely many plugins are reachable, one unit more than there are
  gives a result, and more fuel the same (\<open>resolution_ends\<close>). Sequence numbers of the outbox are below the
  \<open>MAX_SEQ\<close> of JavaScript; theorems that need it say so. The number of runtimes, tasks, tools and events of a
  history is not bounded.

  \<^bold>\<open>Not modelled.\<close> Provider adapters and the model runtime (HTTP and provider formats), the agent
  loop and context assembly around the history (glue and presentation), the web socket and HTTP handlers, the sandbox and
  child processes (operating system), the swarm store (SQL), file and search tools (the file system),
  tree-sitter parsers (native libraries, arguments where the checker reads them), plugin
  materialization, MCP, LSP, memory and skills clients, configuration, and tests. Within the modelled
  parts: JSON text and \<open>fsync\<close>, SHA-256, log messages, rendered texts, spans and receipts, and the
  fairness of the event loop. Where a component is modelled in part, its theory says what is missing.
\<close>

end
